(* ===== verification/Prelude.thy ===== *)
theory Prelude
  imports Main "HOL-Library.Word" "HOL-Library.Multiset"
begin

text \<open>
  What the components share: the value types of the C++ code (\<open>std::string\<close> is the
  list of its bytes, a byte buffer a list of \<open>8 word\<close>, \<open>size_t\<close> a \<open>64 word\<close>), the errors
  that the code throws as values of a sum, the operations of \<open>std::map\<close> that the code
  uses, and the lemmas on lists and maps that the component theories rely on.
\<close>

named_theorems map_ops \<open>the operations of std::map as updates of a partial function\<close>
named_theorems result_simps \<open>unfolding of the error monad\<close>

type_synonym byte = "8 word"
type_synonym bytes = "8 word list"
type_synonym size_t = "64 word"

subsection \<open>Errors as values\<close>

text \<open>
  An exception of the C++ code is an \<open>Inl\<close>. \<open>UndefinedBehaviour\<close> marks a branch in
  which the code reads or writes what it may not (an index out of range, a pointer that
  was never set). \<open>Abort\<close> marks one in which an assertion of a library ends the process.
\<close>

datatype exn =
    SSLError
  | SysError
  | ConnectionError string
  | RuntimeError string
  | InvalidArgument string
  | CompileError string
  | LengthError
  | BadAnyCast
  | OutOfRange
  | Abort
  | UndefinedBehaviour

type_synonym 'a result = "exn + 'a"

definition bind_result :: "'a result \<Rightarrow> ('a \<Rightarrow> 'b result) \<Rightarrow> 'b result" where
  "bind_result r f = (case r of Inl e \<Rightarrow> Inl e | Inr x \<Rightarrow> f x)"

lemma bind_result_simps [simp, result_simps]:
  "bind_result (Inl e) f = Inl e"
  "bind_result (Inr x) f = f x"
  by (simp_all add: bind_result_def)

lemma bind_result_Inr_iff [result_simps]:
  "bind_result r f = Inr y \<longleftrightarrow> (\<exists>x. r = Inr x \<and> f x = Inr y)"
  by (cases r) simp_all

lemma bind_result_Inl_iff [result_simps]:
  "bind_result r f = Inl e \<longleftrightarrow> r = Inl e \<or> (\<exists>x. r = Inr x \<and> f x = Inl e)"
  by (cases r) auto

lemma bind_result_assoc:
  "bind_result (bind_result r f) g = bind_result r (\<lambda>x. bind_result (f x) g)"
  by (cases r) simp_all

text \<open>\<open>check b e\<close> throws \<open>e\<close> when the condition does not hold.\<close>

definition check :: "bool \<Rightarrow> exn \<Rightarrow> unit result" where
  "check b e = (if b then Inr () else Inl e)"

lemma check_simps [simp, result_simps]:
  "check True e = Inr ()"
  "check False e = Inl e"
  by (simp_all add: check_def)

lemma check_iff [result_simps]:
  "check b e = Inr u \<longleftrightarrow> b"
  "check b e = Inl e' \<longleftrightarrow> \<not> b \<and> e' = e"
  by (auto simp: check_def)

subsection \<open>std::map and std::unordered_map\<close>

text \<open>
  \<open>insert_or_assign\<close> overwrites, \<open>emplace\<close> keeps the entry that is there, \<open>erase\<close>
  removes by key. An iteration order is never relied upon where these are used.
\<close>

definition insert_or_assign :: "'k \<Rightarrow> 'v \<Rightarrow> ('k \<rightharpoonup> 'v) \<Rightarrow> ('k \<rightharpoonup> 'v)" where
  "insert_or_assign k v m = m(k \<mapsto> v)"

definition emplace :: "'k \<Rightarrow> 'v \<Rightarrow> ('k \<rightharpoonup> 'v) \<Rightarrow> ('k \<rightharpoonup> 'v)" where
  "emplace k v m = (case m k of None \<Rightarrow> m(k \<mapsto> v) | Some _ \<Rightarrow> m)"

definition erase :: "'k \<Rightarrow> ('k \<rightharpoonup> 'v) \<Rightarrow> ('k \<rightharpoonup> 'v)" where
  "erase k m = m(k := None)"

lemma insert_or_assign_apply [simp, map_ops]:
  "insert_or_assign k v m k' = (if k' = k then Some v else m k')"
  by (simp add: insert_or_assign_def)

lemma emplace_apply [simp, map_ops]:
  "emplace k v m k' = (if k' = k \<and> m k = None then Some v else m k')"
  by (auto simp: emplace_def split: option.splits)

lemma erase_apply [simp, map_ops]:
  "erase k m k' = (if k' = k then None else m k')"
  by (simp add: erase_def)

lemma emplace_present: "m k = Some v' \<Longrightarrow> emplace k v m = m"
  by (simp add: emplace_def)

lemma dom_emplace [map_ops]: "dom (emplace k v m) = insert k (dom m)"
  by (auto simp: emplace_def split: option.splits)

lemma ran_eraseD: "v \<in> ran (erase k m) \<Longrightarrow> v \<in> ran m"
  by (auto simp: ran_def split: if_splits)

subsection \<open>Lists\<close>

definition remove_nth :: "nat \<Rightarrow> 'a list \<Rightarrow> 'a list" where
  "remove_nth i xs = take i xs @ drop (Suc i) xs"

lemma mset_remove_nth:
  "i < length xs \<Longrightarrow> mset xs = add_mset (xs ! i) (mset (remove_nth i xs))"
proof -
  assume i: "i < length xs"
  have "mset xs = mset (take i xs @ xs ! i # drop (Suc i) xs)"
    using id_take_nth_drop [OF i] by simp
  then show ?thesis by (simp add: remove_nth_def)
qed

lemma length_remove_nth [simp]:
  "i < length xs \<Longrightarrow> length (remove_nth i xs) = length xs - 1"
  by (simp add: remove_nth_def)

lemma set_remove_nth_subset: "set (remove_nth i xs) \<subseteq> set xs"
  by (auto simp: remove_nth_def dest: in_set_takeD in_set_dropD)

lemma filter_remove_nth_other:
  assumes "i < length xs" and "\<not> P (xs ! i)"
  shows "filter P (remove_nth i xs) = filter P xs"
proof -
  have "filter P xs = filter P (take i xs @ xs ! i # drop (Suc i) xs)"
    using id_take_nth_drop [OF assms(1)] by simp
  then show ?thesis using assms(2) by (simp add: remove_nth_def)
qed

lemma length_filter_remove_nth:
  assumes "i < length xs" and "P (xs ! i)"
  shows "length (filter P xs) = Suc (length (filter P (remove_nth i xs)))"
proof -
  have "filter P xs = filter P (take i xs @ xs ! i # drop (Suc i) xs)"
    using id_take_nth_drop [OF assms(1)] by simp
  then show ?thesis using assms(2) by (simp add: remove_nth_def)
qed

lemma filter_remove_nth_single:
  assumes "i < length xs" and "P (xs ! i)" and "filter P xs = [x]"
  shows "filter P (remove_nth i xs) = []" and "xs ! i = x"
proof -
  show "filter P (remove_nth i xs) = []"
    using length_filter_remove_nth [of i xs P] assms by simp
  have "xs ! i \<in> set (filter P xs)" using assms(1,2) by simp
  then show "xs ! i = x" using assms(3) by simp
qed

lemma length_takeWhile_lt: "\<exists>x \<in> set xs. \<not> P x \<Longrightarrow> length (takeWhile P xs) < length xs"
  by (induction xs) auto

end
