(* ===== verification/Grpc_Callback.thy ===== *)
theory Grpc_Callback
  imports Prelude
begin

text \<open>
  The gRPC completion-queue layer (\<open>common/grpc/callback.h\<close>, \<open>common/grpc/loop.cc\<close>).
  A world holds the heap of handlers, the asynchronous operations that were issued and not
  yet completed (each with its tag, the handler that issued it), the log of everything
  issued, and the thread's queue of deferred destroys. A step of the server's main loop
  takes one outstanding operation off the queue, whichever the queue chooses, and calls
  \<open>process\<close> on its tag. The unary handler is a function over its state counter, the
  stream handler a function over a table of its virtual methods.
\<close>

named_theorems cq_simps \<open>effect of the completion-queue primitives\<close>

subsection \<open>Handlers, operations and the completion queue\<close>

datatype grpc_status = Status_OK | UNAUTHENTICATED string | INVALID_ARGUMENT string

datatype 'resp cq_op =
    OpRequest
  | OpRead
  | OpWrite 'resp
  | OpFinish grpc_status
  | OpRespond 'resp grpc_status

record ('h, 'resp) cq_world =
  cq_handlers :: "nat \<Rightarrow> 'h option"
  cq_next_id :: nat
  cq_outstanding :: "(nat \<times> 'resp cq_op) list"
  cq_issued :: "(nat \<times> 'resp cq_op) list"
  cq_deferred :: "nat list"
  cq_dangling :: bool

text \<open>
  \<open>cq_dangling\<close> records that a completion was delivered to a handler that had been freed,
  the use after free that the C++ object lifetime rules must exclude.
\<close>

definition issue :: "nat \<Rightarrow> 'resp cq_op \<Rightarrow> ('h, 'resp, 'x) cq_world_scheme \<Rightarrow> ('h, 'resp, 'x) cq_world_scheme" where
  "issue h op w = w\<lparr>cq_outstanding := cq_outstanding w @ [(h, op)], cq_issued := cq_issued w @ [(h, op)]\<rparr>"

definition set_handler :: "nat \<Rightarrow> 'h \<Rightarrow> ('h, 'resp, 'x) cq_world_scheme \<Rightarrow> ('h, 'resp, 'x) cq_world_scheme" where
  "set_handler h s w = w\<lparr>cq_handlers := (cq_handlers w)(h \<mapsto> s)\<rparr>"

definition alloc_handler :: "'h \<Rightarrow> ('h, 'resp, 'x) cq_world_scheme \<Rightarrow> ('h, 'resp, 'x) cq_world_scheme" where
  "alloc_handler s w = w\<lparr>cq_handlers := (cq_handlers w)(cq_next_id w \<mapsto> s), cq_next_id := Suc (cq_next_id w)\<rparr>"

definition take_op :: "nat \<Rightarrow> ('h, 'resp, 'x) cq_world_scheme \<Rightarrow> ('h, 'resp, 'x) cq_world_scheme" where
  "take_op i w = w\<lparr>cq_outstanding := remove_nth i (cq_outstanding w)\<rparr>"

definition grpc_defer_handler_destroy :: "nat \<Rightarrow> ('h, 'resp, 'x) cq_world_scheme \<Rightarrow> ('h, 'resp, 'x) cq_world_scheme" where
  "grpc_defer_handler_destroy h w = w\<lparr>cq_deferred := cq_deferred w @ [h]\<rparr>"

definition grpc_run_deferred_handler_destroys :: "('h, 'resp, 'x) cq_world_scheme \<Rightarrow> ('h, 'resp, 'x) cq_world_scheme" where
  "grpc_run_deferred_handler_destroys w =
     w\<lparr>cq_handlers := (\<lambda>h. if h \<in> set (cq_deferred w) then None else cq_handlers w h), cq_deferred := []\<rparr>"

lemma cq_handlers_ops [simp, cq_simps]:
  "cq_handlers (issue h op w) = cq_handlers w"
  "cq_handlers (set_handler h s w) = (cq_handlers w)(h \<mapsto> s)"
  "cq_handlers (alloc_handler s w) = (cq_handlers w)(cq_next_id w \<mapsto> s)"
  "cq_handlers (take_op i w) = cq_handlers w"
  "cq_handlers (grpc_defer_handler_destroy h w) = cq_handlers w"
  "cq_handlers (grpc_run_deferred_handler_destroys w) = (\<lambda>h. if h \<in> set (cq_deferred w) then None else cq_handlers w h)"
  by (simp_all add: issue_def set_handler_def alloc_handler_def take_op_def grpc_defer_handler_destroy_def
      grpc_run_deferred_handler_destroys_def)

lemma cq_next_id_ops [simp, cq_simps]:
  "cq_next_id (issue h op w) = cq_next_id w"
  "cq_next_id (set_handler h s w) = cq_next_id w"
  "cq_next_id (alloc_handler s w) = Suc (cq_next_id w)"
  "cq_next_id (take_op i w) = cq_next_id w"
  "cq_next_id (grpc_defer_handler_destroy h w) = cq_next_id w"
  "cq_next_id (grpc_run_deferred_handler_destroys w) = cq_next_id w"
  by (simp_all add: issue_def set_handler_def alloc_handler_def take_op_def grpc_defer_handler_destroy_def
      grpc_run_deferred_handler_destroys_def)

lemma cq_outstanding_ops [simp, cq_simps]:
  "cq_outstanding (issue h op w) = cq_outstanding w @ [(h, op)]"
  "cq_outstanding (set_handler h s w) = cq_outstanding w"
  "cq_outstanding (alloc_handler s w) = cq_outstanding w"
  "cq_outstanding (take_op i w) = remove_nth i (cq_outstanding w)"
  "cq_outstanding (grpc_defer_handler_destroy h w) = cq_outstanding w"
  "cq_outstanding (grpc_run_deferred_handler_destroys w) = cq_outstanding w"
  by (simp_all add: issue_def set_handler_def alloc_handler_def take_op_def grpc_defer_handler_destroy_def
      grpc_run_deferred_handler_destroys_def)

lemma cq_issued_ops [simp, cq_simps]:
  "cq_issued (issue h op w) = cq_issued w @ [(h, op)]"
  "cq_issued (set_handler h s w) = cq_issued w"
  "cq_issued (alloc_handler s w) = cq_issued w"
  "cq_issued (take_op i w) = cq_issued w"
  "cq_issued (grpc_defer_handler_destroy h w) = cq_issued w"
  "cq_issued (grpc_run_deferred_handler_destroys w) = cq_issued w"
  by (simp_all add: issue_def set_handler_def alloc_handler_def take_op_def grpc_defer_handler_destroy_def
      grpc_run_deferred_handler_destroys_def)

lemma cq_deferred_ops [simp, cq_simps]:
  "cq_deferred (issue h op w) = cq_deferred w"
  "cq_deferred (set_handler h s w) = cq_deferred w"
  "cq_deferred (alloc_handler s w) = cq_deferred w"
  "cq_deferred (take_op i w) = cq_deferred w"
  "cq_deferred (grpc_defer_handler_destroy h w) = cq_deferred w @ [h]"
  "cq_deferred (grpc_run_deferred_handler_destroys w) = []"
  by (simp_all add: issue_def set_handler_def alloc_handler_def take_op_def grpc_defer_handler_destroy_def
      grpc_run_deferred_handler_destroys_def)

lemma cq_dangling_ops [simp, cq_simps]:
  "cq_dangling (issue h op w) = cq_dangling w"
  "cq_dangling (set_handler h s w) = cq_dangling w"
  "cq_dangling (alloc_handler s w) = cq_dangling w"
  "cq_dangling (take_op i w) = cq_dangling w"
  "cq_dangling (grpc_defer_handler_destroy h w) = cq_dangling w"
  "cq_dangling (grpc_run_deferred_handler_destroys w) = cq_dangling w"
  by (simp_all add: issue_def set_handler_def alloc_handler_def take_op_def grpc_defer_handler_destroy_def
      grpc_run_deferred_handler_destroys_def)

lemma cq_more_ops [simp, cq_simps]:
  "cq_world.more (issue h op w) = cq_world.more w"
  "cq_world.more (set_handler h s w) = cq_world.more w"
  "cq_world.more (alloc_handler s w) = cq_world.more w"
  "cq_world.more (take_op i w) = cq_world.more w"
  "cq_world.more (grpc_defer_handler_destroy h w) = cq_world.more w"
  "cq_world.more (grpc_run_deferred_handler_destroys w) = cq_world.more w"
  by (simp_all add: issue_def set_handler_def alloc_handler_def take_op_def grpc_defer_handler_destroy_def
      grpc_run_deferred_handler_destroys_def)

lemma run_deferred_none [simp]:
  "cq_deferred w = [] \<Longrightarrow> grpc_run_deferred_handler_destroys w = w"
  by (simp add: grpc_run_deferred_handler_destroys_def)

text \<open>The operations of one handler, outstanding or ever issued.\<close>

definition ops_of :: "nat \<Rightarrow> (nat \<times> 'resp cq_op) list \<Rightarrow> 'resp cq_op list" where
  "ops_of h ops = map snd (filter (\<lambda>p. fst p = h) ops)"

lemma ops_of_simps [simp, cq_simps]:
  "ops_of h [] = []"
  "ops_of h (p # ops) = (if fst p = h then snd p # ops_of h ops else ops_of h ops)"
  "ops_of h (ops @ ops') = ops_of h ops @ ops_of h ops'"
  by (simp_all add: ops_of_def)

lemma ops_of_remove_other:
  "i < length ops \<Longrightarrow> fst (ops ! i) \<noteq> h \<Longrightarrow> ops_of h (remove_nth i ops) = ops_of h ops"
  unfolding ops_of_def by (subst filter_remove_nth_other) auto

lemma ops_of_remove_single:
  assumes "i < length ops" and "fst (ops ! i) = h" and "ops_of h ops = [op]"
  shows "ops_of h (remove_nth i ops) = []" and "snd (ops ! i) = op"
proof -
  from assms(3) obtain x where x: "filter (\<lambda>p. fst p = h) ops = [x]" and "snd x = op"
    by (auto simp: ops_of_def)
  have "filter (\<lambda>p. fst p = h) (remove_nth i ops) = []" and "ops ! i = x"
    using filter_remove_nth_single [of i ops "\<lambda>p. fst p = h", OF assms(1) _ x] assms(2) by auto
  then show "ops_of h (remove_nth i ops) = []" and "snd (ops ! i) = op"
    using \<open>snd x = op\<close> by (auto simp: ops_of_def)
qed

lemma ops_of_Nil_iff: "ops_of h ops = [] \<longleftrightarrow> (\<forall>op. (h, op) \<notin> set ops)"
  by (auto simp: ops_of_def filter_empty_conv)

lemma set_ops_of: "op \<in> set (ops_of h ops) \<longleftrightarrow> (h, op) \<in> set ops"
  by (force simp: ops_of_def)

subsection \<open>The unary handler: GRPCBasicHandler\<close>

text \<open>
  \<open>state\<close> is the counter that \<open>process\<close> switches on, \<open>self\<close> whether the handler still owns
  itself (\<open>self_\<close> is not null). What the derived classes override is \<open>handle_request\<close> and
  \<open>finish_grpc_status\<close>: a function from the application's state, the request and the
  response object to the filled response, the status and the new application state.
\<close>

record ('req, 'resp) basic_handler =
  bh_state :: int
  bh_request :: 'req
  bh_response :: 'resp
  bh_self :: bool

record ('h, 'resp, 'env) env_world = "('h, 'resp) cq_world" +
  cq_env :: 'env

type_synonym ('req, 'resp, 'env) unary_world = "(('req, 'resp) basic_handler, 'resp, 'env) env_world"
type_synonym ('req, 'resp, 'env) unary_impl = "'env \<Rightarrow> 'req \<Rightarrow> 'resp \<Rightarrow> 'resp \<times> grpc_status \<times> 'env"

lemma cq_env_ops [simp, cq_simps]:
  "cq_env (issue h op w) = cq_env w"
  "cq_env (set_handler h s w) = cq_env w"
  "cq_env (alloc_handler s w) = cq_env w"
  "cq_env (take_op i w) = cq_env w"
  "cq_env (grpc_defer_handler_destroy h w) = cq_env w"
  "cq_env (grpc_run_deferred_handler_destroys w) = cq_env w"
  by (simp_all add: issue_def set_handler_def alloc_handler_def take_op_def grpc_defer_handler_destroy_def
      grpc_run_deferred_handler_destroys_def)

definition basic_handler_new :: "'req \<Rightarrow> 'resp \<Rightarrow> ('req, 'resp) basic_handler" where
  "basic_handler_new q r = \<lparr>bh_state = 0, bh_request = q, bh_response = r, bh_self = False\<rparr>"

definition basic_arm :: "('req, 'resp) basic_handler \<Rightarrow> ('req, 'resp) basic_handler" where
  "basic_arm b = b\<lparr>bh_self := True\<rparr>"

definition basic_finish :: "nat \<Rightarrow> 'resp \<Rightarrow> grpc_status \<Rightarrow> ('req, 'resp, 'env) unary_world \<Rightarrow> ('req, 'resp, 'env) unary_world" where
  "basic_finish h r st w =
     (case cq_handlers w h of
        None \<Rightarrow> w\<lparr>cq_dangling := True\<rparr>
      | Some b \<Rightarrow> set_handler h (b\<lparr>bh_state := 12345\<rparr>) (issue h (OpRespond r st) w))"

text \<open>
  The four branches of \<open>process\<close>. Case 1 clones the acceptor for the next request (the clone
  binds itself) and falls out of the switch; the request that has arrived waits for
  another completion on this handler's tag.
\<close>

function basic_process ::
  "('req, 'resp, 'env) unary_impl \<Rightarrow> 'req \<Rightarrow> 'resp \<Rightarrow> nat \<Rightarrow> bool \<Rightarrow> ('req, 'resp, 'env) unary_world \<Rightarrow> ('req, 'resp, 'env) unary_world"
where
  "basic_process impl q r h running w =
     (case cq_handlers w h of
        None \<Rightarrow> w\<lparr>cq_dangling := True\<rparr>
      | Some b \<Rightarrow>
          let b1 = b\<lparr>bh_state := bh_state b + 1\<rparr>; w1 = set_handler h b1 w in
          if bh_state b = 0 then issue h OpRequest w1
          else if bh_state b = 1 then
            (if running then
               grpc_run_deferred_handler_destroys
                 (basic_process impl q r (cq_next_id w1) running (alloc_handler (basic_arm (basic_handler_new q r)) w1))
             else w1)
          else if bh_state b = 2 then
            (let (resp', st, env') = impl (cq_env w1) (bh_request b) (bh_response b)
             in basic_finish h resp' st (set_handler h (b1\<lparr>bh_response := resp'\<rparr>) (w1\<lparr>cq_env := env'\<rparr>)))
          else if bh_self b then grpc_defer_handler_destroy h (set_handler h (b1\<lparr>bh_self := False\<rparr>) w1)
          else w1)"
  by pat_completeness auto
termination
  by (relation "measure (\<lambda>(impl, q, r, h, running, w).
        case cq_handlers w h of None \<Rightarrow> 0 | Some b \<Rightarrow> if bh_state b = 1 then 1 else (0::nat))")
     (auto simp: basic_arm_def basic_handler_new_def)

declare basic_process.simps [simp del]

definition grpc_prime_async_handler ::
  "('req, 'resp, 'env) unary_impl \<Rightarrow> 'req \<Rightarrow> 'resp \<Rightarrow> ('req, 'resp, 'env) unary_world \<Rightarrow> ('req, 'resp, 'env) unary_world" where
  "grpc_prime_async_handler impl q r w =
     grpc_run_deferred_handler_destroys
       (basic_process impl q r (cq_next_id w) True (alloc_handler (basic_arm (basic_handler_new q r)) w))"

text \<open>
  The server loops: the operation at place \<open>i\<close> completes with the flag \<open>ok\<close>, an accepted
  request is written into the handler, \<open>process\<close> runs on the tag, then the deferred
  destroys. \<open>grpc_loop\<close> drops a completion that is not \<open>ok\<close> without telling the handler.
\<close>

definition deliver_request :: "nat \<Rightarrow> bool \<Rightarrow> 'req \<Rightarrow> ('req, 'resp, 'env) unary_world \<Rightarrow> ('req, 'resp, 'env) unary_world" where
  "deliver_request i ok msg w =
     (let (h, op) = cq_outstanding w ! i; w1 = take_op i w
      in if op = OpRequest \<and> ok
         then (case cq_handlers w1 h of None \<Rightarrow> w1 | Some b \<Rightarrow> set_handler h (b\<lparr>bh_request := msg\<rparr>) w1)
         else w1)"

definition main_loop_step ::
  "('req, 'resp, 'env) unary_impl \<Rightarrow> 'req \<Rightarrow> 'resp \<Rightarrow> nat \<Rightarrow> bool \<Rightarrow> 'req \<Rightarrow> ('req, 'resp, 'env) unary_world \<Rightarrow> ('req, 'resp, 'env) unary_world" where
  "main_loop_step impl q r i ok msg w =
     grpc_run_deferred_handler_destroys
       (basic_process impl q r (fst (cq_outstanding w ! i)) ok (deliver_request i ok msg w))"

definition grpc_loop_step ::
  "('req, 'resp, 'env) unary_impl \<Rightarrow> 'req \<Rightarrow> 'resp \<Rightarrow> nat \<Rightarrow> bool \<Rightarrow> 'req \<Rightarrow> ('req, 'resp, 'env) unary_world \<Rightarrow> ('req, 'resp, 'env) unary_world" where
  "grpc_loop_step impl q r i ok msg w =
     (if ok then main_loop_step impl q r i True msg w else deliver_request i False msg w)"

definition empty_unary_world :: "'env \<Rightarrow> ('req, 'resp, 'env) unary_world" where
  "empty_unary_world e =
     \<lparr>cq_handlers = (\<lambda>_. None), cq_next_id = 0, cq_outstanding = [], cq_issued = [], cq_deferred = [],
      cq_dangling = False, cq_env = e\<rparr>"

text \<open>
  What the reachable worlds look like: at most one operation is outstanding, it is the
  \<open>Request\<close> of a handler in state 1, every other handler that was ever allocated sits in
  state 2 with nothing outstanding, and nothing but \<open>Request\<close> was ever issued.
\<close>

definition unary_inv :: "'env \<Rightarrow> ('req, 'resp, 'env) unary_world \<Rightarrow> bool" where
  "unary_inv e w \<longleftrightarrow>
     cq_env w = e \<and> cq_deferred w = [] \<and> \<not> cq_dangling w \<and> 0 < cq_next_id w
   \<and> (\<forall>p \<in> set (cq_issued w). snd p = OpRequest)
   \<and> (cq_outstanding w = [] \<or> (\<exists>h. cq_outstanding w = [(h, OpRequest)] \<and> h < cq_next_id w))
   \<and> (\<forall>h. h < cq_next_id w \<longrightarrow> (\<exists>b. cq_handlers w h = Some b \<and> bh_self b
        \<and> bh_state b = (if (h, OpRequest) \<in> set (cq_outstanding w) then 1 else 2)))
   \<and> (\<forall>h. cq_next_id w \<le> h \<longrightarrow> cq_handlers w h = None)"

lemma basic_process_bind:
  "cq_handlers w h = Some b \<Longrightarrow> bh_state b = 0 \<Longrightarrow>
   basic_process impl q r h running w = issue h OpRequest (set_handler h (b\<lparr>bh_state := 1\<rparr>) w)"
  by (subst basic_process.simps) (simp add: Let_def)

lemma basic_process_clone:
  assumes "cq_handlers w h = Some b" and "bh_state b = 1"
  shows "basic_process impl q r h running w =
    (let w1 = set_handler h (b\<lparr>bh_state := 2\<rparr>) w; c = basic_arm (basic_handler_new q r) in
     if running then
       grpc_run_deferred_handler_destroys
         (issue (cq_next_id w) OpRequest (set_handler (cq_next_id w) (c\<lparr>bh_state := 1\<rparr>) (alloc_handler c w1)))
     else w1)"
  using assms
  by (subst basic_process.simps)
     (simp add: Let_def basic_process_bind basic_arm_def basic_handler_new_def)

lemma unary_inv_primed: "unary_inv e (grpc_prime_async_handler impl q r (empty_unary_world e))"
  by (simp add: grpc_prime_async_handler_def empty_unary_world_def basic_process_bind basic_arm_def
      basic_handler_new_def unary_inv_def issue_def)

lemma main_loop_step_acceptor:
  assumes out: "cq_outstanding w = [(h, OpRequest)]" and h: "cq_handlers w h = Some b" and st: "bh_state b = 1"
    and def: "cq_deferred w = []"
  shows "main_loop_step impl q r 0 ok msg w =
    (let b' = (if ok then b\<lparr>bh_request := msg\<rparr> else b); w1 = set_handler h (b'\<lparr>bh_state := 2\<rparr>) (set_handler h b' (take_op 0 w));
         c = basic_arm (basic_handler_new q r); n = cq_next_id w
     in if ok then issue n OpRequest (set_handler n (c\<lparr>bh_state := 1\<rparr>) (alloc_handler c w1)) else w1)"
proof -
  have d: "deliver_request 0 ok msg w = set_handler h (if ok then b\<lparr>bh_request := msg\<rparr> else b) (take_op 0 w)"
    using out h by (auto simp: deliver_request_def set_handler_def take_op_def fun_upd_idem)
  show ?thesis
    unfolding main_loop_step_def d
    using st def out by (simp add: basic_process_clone Let_def)
qed

lemma unary_inv_step:
  assumes inv: "unary_inv e w" and i: "i < length (cq_outstanding w)"
  shows "unary_inv e (main_loop_step impl q r i ok msg w)"
proof -
  from inv i obtain h where out: "cq_outstanding w = [(h, OpRequest)]" and hn: "h < cq_next_id w"
    by (auto simp: unary_inv_def)
  then have i0: "i = 0" using i by simp
  from inv out hn obtain b where b: "cq_handlers w h = Some b" "bh_state b = 1" "bh_self b"
    by (auto simp: unary_inv_def)
  have others: "\<exists>b. cq_handlers w h' = Some b \<and> bh_self b \<and> bh_state b = 2" if "h' < cq_next_id w" "h' \<noteq> h" for h'
    using inv that out by (auto simp: unary_inv_def)
  show ?thesis
    unfolding i0 main_loop_step_acceptor [OF out b(1,2) inv [unfolded unary_inv_def, THEN conjunct2, THEN conjunct1]]
    using inv out hn b others
    by (auto simp: unary_inv_def Let_def remove_nth_def basic_arm_def basic_handler_new_def less_Suc_eq)
qed

subsection \<open>The contract of process\<close>

text \<open>
  The comment above \<open>GRPCHandler::process\<close>: it must emit another completion-queue event or
  destroy the handler. Together with the rule that a tag outlives its operation this is
  the interface the server's loop relies on; \<open>step i ev\<close> is one round of that loop.
\<close>

fun run_events :: "(nat \<Rightarrow> 'ev \<Rightarrow> 'w \<Rightarrow> 'w) \<Rightarrow> ('w \<Rightarrow> nat) \<Rightarrow> 'w \<Rightarrow> (nat \<times> 'ev) list \<Rightarrow> 'w" where
  "run_events step pending w [] = w"
| "run_events step pending w ((i, ev) # evs) =
     run_events step pending (if i < pending w then step i ev w else w) evs"

locale cq_contract =
  fixes step :: "nat \<Rightarrow> 'ev \<Rightarrow> ('h, 'resp, 'x) cq_world_scheme \<Rightarrow> ('h, 'resp, 'x) cq_world_scheme"
    and inv :: "('h, 'resp, 'x) cq_world_scheme \<Rightarrow> bool"
  assumes inv_step: "inv w \<Longrightarrow> i < length (cq_outstanding w) \<Longrightarrow> inv (step i ev w)"
    and tag_alive: "inv w \<Longrightarrow> (h, op) \<in> set (cq_outstanding w) \<Longrightarrow> cq_handlers w h \<noteq> None"
    and emits_or_destroys: "inv w \<Longrightarrow> cq_handlers w h \<noteq> None \<Longrightarrow> ops_of h (cq_outstanding w) \<noteq> []"
    and not_dangling: "inv w \<Longrightarrow> \<not> cq_dangling w"
begin

lemma run_inv: "inv w \<Longrightarrow> inv (run_events step (\<lambda>w. length (cq_outstanding w)) w evs)"
  by (induction evs arbitrary: w) (auto simp: inv_step)

lemma run_not_dangling: "inv w \<Longrightarrow> \<not> cq_dangling (run_events step (\<lambda>w. length (cq_outstanding w)) w evs)"
  by (rule not_dangling) (rule run_inv)

lemma run_live_iff_pending:
  assumes "inv w"
  shows "(cq_handlers (run_events step (\<lambda>w. length (cq_outstanding w)) w evs) h \<noteq> None) \<longleftrightarrow>
    ops_of h (cq_outstanding (run_events step (\<lambda>w. length (cq_outstanding w)) w evs)) \<noteq> []"
  using run_inv [OF assms, of evs] tag_alive emits_or_destroys by (auto simp: ops_of_Nil_iff)

text \<open>A live handler can always make progress: some outstanding completion carries its tag.\<close>

lemma live_can_step:
  assumes "inv w" and "cq_handlers w h \<noteq> None"
  obtains i where "i < length (cq_outstanding w)" and "fst (cq_outstanding w ! i) = h" and "inv (step i ev w)"
proof -
  from emits_or_destroys [OF assms] obtain op where "(h, op) \<in> set (cq_outstanding w)"
    by (auto simp: ops_of_Nil_iff)
  then obtain i where "i < length (cq_outstanding w)" "cq_outstanding w ! i = (h, op)"
    by (auto simp: in_set_conv_nth)
  then show thesis using that inv_step [OF assms(1)] by simp
qed

end

subsection \<open>The stream handler: GRPCStreamHandler\<close>

text \<open>
  The base class holds the connect phase; the derived classes add their fields by record
  extension and give their virtual methods in a table. \<open>vt_clone\<close> is the copy constructor
  (with \<open>arm\<close> or \<open>attach_shared\<close>), which starts again at \<open>KInitial\<close>.
\<close>

datatype connect_phase = KInitial | KAccepted | KStreaming

datatype pending_op = KRead | KWrite | KFinish

record stream_base =
  sb_phase :: connect_phase

record ('h, 'req, 'w) stream_vtable =
  vt_clone :: "'h \<Rightarrow> 'h"
  vt_set_request :: "'req \<Rightarrow> 'h \<Rightarrow> 'h"
  vt_on_stream_rpc_connected :: "nat \<Rightarrow> 'w \<Rightarrow> 'w"
  vt_on_stream_connect_failed :: "nat \<Rightarrow> 'w \<Rightarrow> 'w"
  vt_on_completion :: "nat \<Rightarrow> bool \<Rightarrow> 'w \<Rightarrow> 'w"

type_synonym ('m, 'req, 'resp, 'x) stream_impl =
  "('m stream_base_scheme, 'req, ('m stream_base_scheme, 'resp, 'x) cq_world_scheme) stream_vtable"

text \<open>
  \<open>process\<close>, the same text in both derived classes, with \<open>handle_stream_connect\<close> and
  \<open>clone_acceptor_for_next_request\<close> of the base class: the first completion binds, the second
  clones the next acceptor and connects, every later one goes to the derived class.
\<close>

function stream_process ::
  "('m, 'req, 'resp, 'x) stream_impl \<Rightarrow> nat \<Rightarrow> bool \<Rightarrow> ('m stream_base_scheme, 'resp, 'x) cq_world_scheme
   \<Rightarrow> ('m stream_base_scheme, 'resp, 'x) cq_world_scheme"
where
  "stream_process vt h running w =
     (case cq_handlers w h of
        None \<Rightarrow> w\<lparr>cq_dangling := True\<rparr>
      | Some s \<Rightarrow>
          if sb_phase s = KInitial then issue h OpRequest (set_handler h (s\<lparr>sb_phase := KAccepted\<rparr>) w)
          else if sb_phase s = KAccepted then
            (if \<not> running then vt_on_stream_connect_failed vt h w
             else let w1 = set_handler h (s\<lparr>sb_phase := KStreaming\<rparr>) w;
                      c = (vt_clone vt s)\<lparr>sb_phase := KInitial\<rparr>;
                      w2 = grpc_run_deferred_handler_destroys
                             (stream_process vt (cq_next_id w1) running (alloc_handler c w1))
                  in vt_on_stream_rpc_connected vt h w2)
          else vt_on_completion vt h running w)"
  by pat_completeness auto
termination
  by (relation "measure (\<lambda>(vt, h, running, w).
        case cq_handlers w h of None \<Rightarrow> 0 | Some s \<Rightarrow> if sb_phase s = KAccepted then 1 else (0::nat))") auto

declare stream_process.simps [simp del]

definition stream_prime ::
  "('m, 'req, 'resp, 'x) stream_impl \<Rightarrow> 'm stream_base_scheme \<Rightarrow> ('m stream_base_scheme, 'resp, 'x) cq_world_scheme
   \<Rightarrow> ('m stream_base_scheme, 'resp, 'x) cq_world_scheme" where
  "stream_prime vt s w =
     grpc_run_deferred_handler_destroys
       (stream_process vt (cq_next_id w) True (alloc_handler (s\<lparr>sb_phase := KInitial\<rparr>) w))"

definition deliver_read ::
  "('m, 'req, 'resp, 'x) stream_impl \<Rightarrow> nat \<Rightarrow> bool \<Rightarrow> 'req \<Rightarrow> ('m stream_base_scheme, 'resp, 'x) cq_world_scheme
   \<Rightarrow> ('m stream_base_scheme, 'resp, 'x) cq_world_scheme" where
  "deliver_read vt i ok msg w =
     (let (h, op) = cq_outstanding w ! i; w1 = take_op i w
      in if op = OpRead \<and> ok
         then (case cq_handlers w1 h of None \<Rightarrow> w1 | Some s \<Rightarrow> set_handler h (vt_set_request vt msg s) w1)
         else w1)"

definition stream_loop_step ::
  "('m, 'req, 'resp, 'x) stream_impl \<Rightarrow> nat \<Rightarrow> bool \<times> 'req \<Rightarrow> ('m stream_base_scheme, 'resp, 'x) cq_world_scheme
   \<Rightarrow> ('m stream_base_scheme, 'resp, 'x) cq_world_scheme" where
  "stream_loop_step vt i ev w =
     grpc_run_deferred_handler_destroys
       (stream_process vt (fst (cq_outstanding w ! i)) (fst ev) (deliver_read vt i (fst ev) (snd ev) w))"

lemma stream_process_freed:
  "cq_handlers w h = None \<Longrightarrow> stream_process vt h running w = w\<lparr>cq_dangling := True\<rparr>"
  by (subst stream_process.simps) simp

lemma stream_process_bind:
  "cq_handlers w h = Some s \<Longrightarrow> sb_phase s = KInitial \<Longrightarrow>
   stream_process vt h running w = issue h OpRequest (set_handler h (s\<lparr>sb_phase := KAccepted\<rparr>) w)"
  by (subst stream_process.simps) simp

lemma stream_process_failed:
  "cq_handlers w h = Some s \<Longrightarrow> sb_phase s = KAccepted \<Longrightarrow>
   stream_process vt h False w = vt_on_stream_connect_failed vt h w"
  by (subst stream_process.simps) simp

lemma stream_process_accept:
  assumes "cq_handlers w h = Some s" and "sb_phase s = KAccepted" and "cq_deferred w = []"
  shows "stream_process vt h True w =
    (let w1 = set_handler h (s\<lparr>sb_phase := KStreaming\<rparr>) w; n = cq_next_id w;
         c = (vt_clone vt s)\<lparr>sb_phase := KInitial\<rparr>
     in vt_on_stream_rpc_connected vt h
          (issue n OpRequest (set_handler n (c\<lparr>sb_phase := KAccepted\<rparr>) (alloc_handler c w1))))"
  using assms by (subst stream_process.simps) (simp add: Let_def stream_process_bind)

lemma stream_process_streaming:
  "cq_handlers w h = Some s \<Longrightarrow> sb_phase s = KStreaming \<Longrightarrow>
   stream_process vt h running w = vt_on_completion vt h running w"
  by (subst stream_process.simps) simp

text \<open>The recursion is one level deep, for the clone binds; without it:\<close>

lemma stream_process_unfold:
  "stream_process vt h running w =
     (case cq_handlers w h of
        None \<Rightarrow> w\<lparr>cq_dangling := True\<rparr>
      | Some s \<Rightarrow>
          if sb_phase s = KInitial then issue h OpRequest (set_handler h (s\<lparr>sb_phase := KAccepted\<rparr>) w)
          else if sb_phase s = KAccepted then
            (if \<not> running then vt_on_stream_connect_failed vt h w
             else let w1 = set_handler h (s\<lparr>sb_phase := KStreaming\<rparr>) w; n = cq_next_id w;
                      c = (vt_clone vt s)\<lparr>sb_phase := KInitial\<rparr>
                  in vt_on_stream_rpc_connected vt h (grpc_run_deferred_handler_destroys
                       (issue n OpRequest (set_handler n (c\<lparr>sb_phase := KAccepted\<rparr>) (alloc_handler c w1)))))
          else vt_on_completion vt h running w)"
  by (subst stream_process.simps) (simp add: Let_def stream_process_bind split: option.split)

lemmas stream_process_cases =
  stream_process_freed stream_process_bind stream_process_failed stream_process_accept stream_process_streaming

lemma stream_prime_eq:
  "cq_deferred w = [] \<Longrightarrow>
   stream_prime vt s w =
     issue (cq_next_id w) OpRequest (set_handler (cq_next_id w) (s\<lparr>sb_phase := KAccepted\<rparr>)
       (alloc_handler (s\<lparr>sb_phase := KInitial\<rparr>) w))"
  by (simp add: stream_prime_def stream_process_bind)

subsection \<open>What a schedule of completions does to a unary handler\<close>

definition unary_run ::
  "('req, 'resp, 'env) unary_impl \<Rightarrow> 'req \<Rightarrow> 'resp \<Rightarrow> 'env \<Rightarrow> (nat \<times> bool \<times> 'req) list \<Rightarrow> ('req, 'resp, 'env) unary_world" where
  "unary_run impl q r e evs =
     run_events (\<lambda>i ev. main_loop_step impl q r i (fst ev) (snd ev)) (\<lambda>w. length (cq_outstanding w))
       (grpc_prime_async_handler impl q r (empty_unary_world e)) evs"

lemma run_events_induct:
  assumes "P w" and "\<And>w i ev. P w \<Longrightarrow> i < pending w \<Longrightarrow> P (step i ev w)"
  shows "P (run_events step pending w evs)"
  using assms(1)
proof (induction evs arbitrary: w)
  case (Cons e evs)
  obtain i ev where e: "e = (i, ev)" by fastforce
  show ?case
    using Cons.IH [of "if i < pending w then step i ev w else w"] Cons.prems assms(2) by (simp add: e)
qed simp

lemma unary_run_inv: "unary_inv e (unary_run impl q r e evs)"
  unfolding unary_run_def
  by (rule run_events_induct) (auto simp: unary_inv_primed unary_inv_step)

lemma map_snd_replicate:
  "(\<forall>p \<in> set ps. snd p = x) \<Longrightarrow> map snd ps = replicate (length ps) x"
  by (induction ps) auto

text \<open>
  A unary handler never handles: whatever the completions, \<open>handle_request\<close> of no derived
  class runs (the application's state is the initial one), no response is ever issued, at
  most the acceptor's \<open>Request\<close> is outstanding; and once the first request was accepted its
  handler is alive with nothing outstanding, against the contract of \<open>process\<close>.
\<close>

theorem unary_requests_starve:
  "cq_env (unary_run impl q r e evs) = e
   \<and> (\<exists>n. map snd (cq_issued (unary_run impl q r e evs)) = replicate n OpRequest)
   \<and> length (cq_outstanding (unary_run impl q r e evs)) \<le> 1
   \<and> cq_handlers (unary_run impl q r e ((0, True, m) # evs)) 0 \<noteq> None
   \<and> ops_of 0 (cq_outstanding (unary_run impl q r e [(0, True, m)])) = []"
proof -
  have inv: "unary_inv e (unary_run impl q r e evs')" for evs' by (rule unary_run_inv)
  have first: "ops_of 0 (cq_outstanding (unary_run impl q r e [(0, True, m)])) = []"
    by (simp add: unary_run_def grpc_prime_async_handler_def empty_unary_world_def basic_process_bind basic_arm_def
        basic_handler_new_def main_loop_step_def deliver_request_def basic_process_clone Let_def remove_nth_def)
  have "cq_handlers (unary_run impl q r e ((0, True, m) # evs)) 0 \<noteq> None"
    using inv [of "(0, True, m) # evs"] by (auto simp: unary_inv_def)
  then show ?thesis
    using inv [of evs] first map_snd_replicate [of "cq_issued (unary_run impl q r e evs)" OpRequest]
    by (auto simp: unary_inv_def)
qed

subsection \<open>Cloning an acceptor\<close>

definition grpc_async_clone_acceptor ::
  "(nat \<Rightarrow> bool \<Rightarrow> ('h, 'resp, 'x) cq_world_scheme \<Rightarrow> ('h, 'resp, 'x) cq_world_scheme) \<Rightarrow> 'h \<Rightarrow> bool
   \<Rightarrow> ('h, 'resp, 'x) cq_world_scheme \<Rightarrow> ('h, 'resp, 'x) cq_world_scheme" where
  "grpc_async_clone_acceptor process proto running w =
     (if running
      then grpc_run_deferred_handler_destroys (process (cq_next_id w) running (alloc_handler proto w))
      else w)"

text \<open>It is what both handlers do when a request or a stream has been accepted.\<close>

lemma handlers_clone_acceptor:
  "cq_handlers w h = Some b \<Longrightarrow> bh_state b = 1 \<Longrightarrow>
   basic_process impl q r h running w =
     grpc_async_clone_acceptor (basic_process impl q r) (basic_arm (basic_handler_new q r)) running (set_handler h (b\<lparr>bh_state := 2\<rparr>) w)"
  "cq_handlers v h = Some s \<Longrightarrow> sb_phase s = KAccepted \<Longrightarrow>
   stream_process vt h True v =
     vt_on_stream_rpc_connected vt h
       (grpc_async_clone_acceptor (stream_process vt) ((vt_clone vt s)\<lparr>sb_phase := KInitial\<rparr>) True (set_handler h (s\<lparr>sb_phase := KStreaming\<rparr>) v))"
  by (subst basic_process.simps, simp add: grpc_async_clone_acceptor_def Let_def)
    (subst stream_process.simps, simp add: grpc_async_clone_acceptor_def Let_def)

subsection \<open>The counting handler: GRPCCounterHandler\<close>

text \<open>A handler that stands before another one and counts its completions in an atomic \<open>int\<close>, which wraps.\<close>

definition counter_process ::
  "(nat \<Rightarrow> bool \<Rightarrow> ('h, 'resp, 'x) cq_world_scheme \<Rightarrow> ('h, 'resp, 'x) cq_world_scheme) \<Rightarrow> nat \<Rightarrow> bool
   \<Rightarrow> 32 word \<times> ('h, 'resp, 'x) cq_world_scheme \<Rightarrow> 32 word \<times> ('h, 'resp, 'x) cq_world_scheme" where
  "counter_process process h running = (\<lambda>(counter, w). (counter + 1, grpc_run_deferred_handler_destroys (process h running w)))"

definition counter_reset :: "32 word \<times> 'w \<Rightarrow> 32 word \<times> 'w" where
  "counter_reset = (\<lambda>(counter, w). (0, w))"

definition counter_get :: "32 word \<times> 'w \<Rightarrow> int" where
  "counter_get = (\<lambda>(counter, w). sint counter)"

fun counter_run ::
  "(nat \<Rightarrow> bool \<Rightarrow> ('h, 'resp, 'x) cq_world_scheme \<Rightarrow> ('h, 'resp, 'x) cq_world_scheme) \<Rightarrow> (nat \<times> bool) list
   \<Rightarrow> 32 word \<times> ('h, 'resp, 'x) cq_world_scheme \<Rightarrow> 32 word \<times> ('h, 'resp, 'x) cq_world_scheme" where
  "counter_run process [] s = s"
| "counter_run process ((h, running) # evs) s = counter_run process evs (counter_process process h running s)"

lemma counter_run_eq:
  "counter_run process evs (c, w)
   = (c + word_of_nat (length evs), fold (\<lambda>(h, running) w. grpc_run_deferred_handler_destroys (process h running w)) evs w)"
proof (induction evs arbitrary: c w)
  case (Cons ev evs)
  obtain h running where "ev = (h, running)" by (rule prod.exhaust)
  then show ?case using Cons.IH by (simp add: counter_process_def algebra_simps)
qed simp

text \<open>
  The counting handler changes nothing for the handler behind it, and since its last reset it has counted
  every completion, up to the limit of an \<open>int\<close>; the next one makes the count negative.
\<close>

theorem counter_is_transparent:
  assumes "length evs < 2 ^ 31"
  shows "counter_get (counter_run process evs (counter_reset s)) = int (length evs)
    \<and> snd (counter_run process evs (counter_reset s))
      = fold (\<lambda>(h, running) w. grpc_run_deferred_handler_destroys (process h running w)) evs (snd s)
    \<and> (length evs = 2 ^ 31 - 1 \<longrightarrow>
        counter_get (counter_process process h running (counter_run process evs (counter_reset s))) = - (2 ^ 31))"
proof -
  obtain c w where s: "s = (c, w)" by (rule prod.exhaust)
  have "sint (word_of_nat (length evs) :: 32 word) = int (length evs)"
    using assms by (simp add: signed_of_nat signed_take_bit_int_eq_self)
  moreover have "sint (word_of_nat (2 ^ 31 - 1) + 1 :: 32 word) = - (2 ^ 31)" by simp
  ultimately show ?thesis
    by (simp add: s counter_reset_def counter_get_def counter_process_def counter_run_eq)
qed

theorem counter_is_transparent_witness:
  "counter_get (counter_run (\<lambda>h running w. w) [(0, True), (3, False)] (counter_reset (7, empty_unary_world ()))) = 2"
proof -
  have "counter_get (counter_run (\<lambda>h running w. w) [(0, True), (3, False)] (counter_reset (7, empty_unary_world ())))
      = int (length [(0 :: nat, True), (3, False)])"
    by (rule counter_is_transparent [THEN conjunct1]) simp
  then show ?thesis by (simp del: counter_run.simps)
qed

end
