(* ===== verification/Resource_Guard.thy ===== *)
theory Resource_Guard
  imports Grpc_Callback
begin

text \<open>
  The resource guard (\<open>minion/resource_guard/resource_guard.cc\<close>): a bidirectional stream
  whose handler reads one billing message, acknowledges it with one write, and finishes on
  \<open>ResourceFinish\<close> or on a failed completion. The billing amounts are doubles in the code;
  the model is generic in their type, which only needs an addition and a zero.
\<close>

datatype operation_result = OK | FAILED | CANCELLED | TIMEOUT | OVERLOAD

text \<open>
  \<open>ResourceRequestUnion\<close>, a protobuf oneof. A protobuf map is the list of its entries in
  the order the range-for visits them. \<open>clear_v\<close> leaves \<open>V_NOT_SET\<close>.
\<close>

datatype 'n resource_request_union =
    V_NOT_SET
  | KResourceRequest
  | KBillAppend "(string \<times> 'n) list"
  | KBillOverwrite "(string \<times> 'n) list"
  | KResourceFinish operation_result

datatype process_result = AckWrite | StreamFinished

record 'n limit_handler = stream_base +
  lh_pending :: pending_op
  lh_res_request :: "string \<rightharpoonup> 'n"
  lh_request :: "'n resource_request_union"
  lh_response :: operation_result
  lh_self :: bool

type_synonym 'n limit_world = "('n limit_handler, operation_result) cq_world"

subsection \<open>The billing state\<close>

text \<open>\<open>res_request_[v.first] += v.second\<close>: a missing key is first set to zero.\<close>

fun bill_append :: "(string \<times> 'n::{plus,zero}) list \<Rightarrow> (string \<rightharpoonup> 'n) \<Rightarrow> (string \<rightharpoonup> 'n)" where
  "bill_append [] m = m"
| "bill_append ((k, v) # items) m =
     bill_append items (m(k \<mapsto> (case m k of None \<Rightarrow> 0 | Some x \<Rightarrow> x) + v))"

fun bill_assign :: "(string \<times> 'n) list \<Rightarrow> (string \<rightharpoonup> 'n) \<Rightarrow> (string \<rightharpoonup> 'n)" where
  "bill_assign [] m = m"
| "bill_assign ((k, v) # items) m = bill_assign items (m(k \<mapsto> v))"

definition bill_overwrite :: "(string \<times> 'n) list \<Rightarrow> (string \<rightharpoonup> 'n) \<Rightarrow> (string \<rightharpoonup> 'n)" where
  "bill_overwrite items m = bill_assign items Map.empty"

subsection \<open>The handler\<close>

definition limit_handler_new :: "'n limit_handler" where
  "limit_handler_new =
     \<lparr>sb_phase = KInitial, lh_pending = KRead, lh_res_request = Map.empty, lh_request = V_NOT_SET,
      lh_response = OK, lh_self = False\<rparr>"

definition limit_arm :: "'n limit_handler \<Rightarrow> 'n limit_handler" where
  "limit_arm s = s\<lparr>lh_self := True\<rparr>"

definition limit_clone :: "'n limit_handler \<Rightarrow> 'n limit_handler" where
  "limit_clone s = limit_arm limit_handler_new"

definition limit_on_stream_rpc_connected :: "nat \<Rightarrow> 'n limit_world \<Rightarrow> 'n limit_world" where
  "limit_on_stream_rpc_connected h w =
     (case cq_handlers w h of
        None \<Rightarrow> w\<lparr>cq_dangling := True\<rparr>
      | Some s \<Rightarrow> issue h OpRead (set_handler h (s\<lparr>lh_pending := KRead\<rparr>) w))"

text \<open>\<open>grpc_defer_handler_destroy(self_.release())\<close>: a handler that no longer owns itself queues a null.\<close>

definition limit_release :: "nat \<Rightarrow> 'n limit_world \<Rightarrow> 'n limit_world" where
  "limit_release h w =
     (case cq_handlers w h of
        None \<Rightarrow> w\<lparr>cq_dangling := True\<rparr>
      | Some s \<Rightarrow>
          if lh_self s then grpc_defer_handler_destroy h (set_handler h (s\<lparr>lh_self := False\<rparr>) w) else w)"

definition limit_process_incoming_message ::
  "nat \<Rightarrow> ('n::{plus,zero}) limit_handler \<Rightarrow> 'n limit_world \<Rightarrow> process_result \<times> 'n limit_handler \<times> 'n limit_world" where
  "limit_process_incoming_message h s w =
     (case lh_request s of
        KResourceFinish res \<Rightarrow>
          (let s1 = s\<lparr>lh_request := V_NOT_SET, lh_pending := KFinish\<rparr>
           in (StreamFinished, s1, issue h (OpFinish Status_OK) (set_handler h s1 w)))
      | KBillAppend items \<Rightarrow>
          (let s1 = s\<lparr>lh_res_request := bill_append items (lh_res_request s), lh_response := OK\<rparr>
           in (AckWrite, s1, set_handler h s1 w))
      | KBillOverwrite items \<Rightarrow>
          (let s1 = s\<lparr>lh_res_request := bill_overwrite items (lh_res_request s), lh_response := OK\<rparr>
           in (AckWrite, s1, set_handler h s1 w))
      | KResourceRequest \<Rightarrow> (let s1 = s\<lparr>lh_response := OK\<rparr> in (AckWrite, s1, set_handler h s1 w))
      | V_NOT_SET \<Rightarrow> (let s1 = s\<lparr>lh_response := OK\<rparr> in (AckWrite, s1, set_handler h s1 w)))"

definition limit_finish_ok :: "nat \<Rightarrow> 'n limit_handler \<Rightarrow> 'n limit_world \<Rightarrow> 'n limit_world" where
  "limit_finish_ok h s w = issue h (OpFinish Status_OK) (set_handler h (s\<lparr>lh_pending := KFinish\<rparr>) w)"

definition limit_handle_read_completion ::
  "nat \<Rightarrow> bool \<Rightarrow> ('n::{plus,zero}) limit_handler \<Rightarrow> 'n limit_world \<Rightarrow> 'n limit_world" where
  "limit_handle_read_completion h ok s w =
     (if \<not> ok then limit_finish_ok h s w
      else case limit_process_incoming_message h s w of
        (StreamFinished, s1, w1) \<Rightarrow> w1
      | (AckWrite, s1, w1) \<Rightarrow>
          (let s2 = s1\<lparr>lh_request := V_NOT_SET, lh_pending := KWrite\<rparr>
           in issue h (OpWrite (lh_response s2)) (set_handler h s2 w1)))"

definition limit_handle_write_completion :: "nat \<Rightarrow> bool \<Rightarrow> 'n limit_handler \<Rightarrow> 'n limit_world \<Rightarrow> 'n limit_world" where
  "limit_handle_write_completion h ok s w =
     (if \<not> ok then limit_finish_ok h s w
      else issue h OpRead (set_handler h (s\<lparr>lh_pending := KRead\<rparr>) w))"

definition limit_on_completion :: "nat \<Rightarrow> bool \<Rightarrow> ('n::{plus,zero}) limit_world \<Rightarrow> 'n limit_world" where
  "limit_on_completion h ok w =
     (case cq_handlers w h of
        None \<Rightarrow> w\<lparr>cq_dangling := True\<rparr>
      | Some s \<Rightarrow>
          (case lh_pending s of
             KRead \<Rightarrow> limit_handle_read_completion h ok s w
           | KWrite \<Rightarrow> limit_handle_write_completion h ok s w
           | KFinish \<Rightarrow> limit_release h w))"

definition limit_vtable ::
  "('n::{plus,zero} limit_handler, 'n resource_request_union, 'n limit_world) stream_vtable" where
  "limit_vtable =
     \<lparr>vt_clone = limit_clone,
      vt_set_request = (\<lambda>m s. s\<lparr>lh_request := m\<rparr>),
      vt_on_stream_rpc_connected = limit_on_stream_rpc_connected,
      vt_on_stream_connect_failed = limit_release,
      vt_on_completion = limit_on_completion\<rparr>"

lemma limit_vtable_simps [simp]:
  "vt_clone limit_vtable = limit_clone"
  "vt_set_request limit_vtable m s = s\<lparr>lh_request := m\<rparr>"
  "vt_on_stream_rpc_connected limit_vtable = limit_on_stream_rpc_connected"
  "vt_on_stream_connect_failed limit_vtable = limit_release"
  "vt_on_completion limit_vtable = limit_on_completion"
  by (simp_all add: limit_vtable_def)

definition limit_initial :: "('n::{plus,zero}) limit_world" where
  "limit_initial =
     stream_prime limit_vtable (limit_arm limit_handler_new)
       \<lparr>cq_handlers = (\<lambda>_. None), cq_next_id = 0, cq_outstanding = [], cq_issued = [], cq_deferred = [],
        cq_dangling = False\<rparr>"

definition limit_step :: "nat \<Rightarrow> bool \<times> ('n::{plus,zero}) resource_request_union \<Rightarrow> 'n limit_world \<Rightarrow> 'n limit_world" where
  "limit_step = stream_loop_step limit_vtable"

subsection \<open>One outstanding operation per session\<close>

text \<open>
  The session invariant: every live handler owns itself, is past its initial phase, and has
  exactly one operation outstanding, the one that its phase and \<open>pending_\<close> say. A handler
  that is not live has none.
\<close>

definition limit_expected :: "'n limit_handler \<Rightarrow> operation_result cq_op list" where
  "limit_expected s =
     (case sb_phase s of
        KInitial \<Rightarrow> []
      | KAccepted \<Rightarrow> [OpRequest]
      | KStreaming \<Rightarrow>
          (case lh_pending s of
             KRead \<Rightarrow> [OpRead]
           | KWrite \<Rightarrow> [OpWrite (lh_response s)]
           | KFinish \<Rightarrow> [OpFinish Status_OK]))"

text \<open>The order in which one session issues its operations: request, then reads and writes in turn, then finish.\<close>

fun limit_next :: "operation_result cq_op \<Rightarrow> operation_result cq_op \<Rightarrow> bool" where
  "limit_next OpRequest OpRead = True"
| "limit_next OpRead (OpWrite r) = True"
| "limit_next OpRead (OpFinish st) = True"
| "limit_next (OpWrite r) OpRead = True"
| "limit_next (OpWrite r) (OpFinish st) = True"
| "limit_next _ _ = False"

definition limit_log_ok :: "operation_result cq_op list \<Rightarrow> bool" where
  "limit_log_ok ops \<longleftrightarrow> ops = [] \<or> hd ops = OpRequest \<and> successively limit_next ops"

lemma limit_log_ok_snoc:
  "limit_log_ok ops \<Longrightarrow> ops \<noteq> [] \<Longrightarrow> limit_next (last ops) op \<Longrightarrow> limit_log_ok (ops @ [op])"
  by (auto simp: limit_log_ok_def successively_append_iff)

definition limit_live_ok :: "'n limit_world \<Rightarrow> nat \<Rightarrow> 'n limit_handler \<Rightarrow> bool" where
  "limit_live_ok w h s \<longleftrightarrow>
     h < cq_next_id w \<and> lh_self s \<and> sb_phase s \<noteq> KInitial
   \<and> ops_of h (cq_outstanding w) = limit_expected s
   \<and> ops_of h (cq_issued w) \<noteq> [] \<and> limit_expected s = [last (ops_of h (cq_issued w))]"

definition limit_inv :: "'n limit_world \<Rightarrow> bool" where
  "limit_inv w \<longleftrightarrow>
     cq_deferred w = [] \<and> \<not> cq_dangling w
   \<and> (\<forall>h. limit_log_ok (ops_of h (cq_issued w)))
   \<and> (\<forall>h \<ge> cq_next_id w. ops_of h (cq_issued w) = [])
   \<and> (\<forall>h. case cq_handlers w h of
            None \<Rightarrow> ops_of h (cq_outstanding w) = []
          | Some s \<Rightarrow> limit_live_ok w h s)"

lemmas limit_defs =
  limit_on_stream_rpc_connected_def limit_release_def limit_process_incoming_message_def limit_finish_ok_def
  limit_handle_read_completion_def limit_handle_write_completion_def limit_on_completion_def
  limit_clone_def limit_arm_def limit_handler_new_def limit_expected_def

lemma limit_invI:
  assumes "cq_deferred w = []" and "\<not> cq_dangling w"
    and "\<And>h. limit_log_ok (ops_of h (cq_issued w))"
    and "\<And>h. cq_next_id w \<le> h \<Longrightarrow> ops_of h (cq_issued w) = []"
    and "\<And>h. cq_handlers w h = None \<Longrightarrow> ops_of h (cq_outstanding w) = []"
    and "\<And>h s. cq_handlers w h = Some s \<Longrightarrow> limit_live_ok w h s"
  shows "limit_inv w"
  using assms by (auto simp: limit_inv_def split: option.splits)

lemma limit_inv_live_ok: "limit_inv w \<Longrightarrow> cq_handlers w h = Some s \<Longrightarrow> limit_live_ok w h s"
  by (auto simp: limit_inv_def split: option.splits dest: spec [of _ h])

lemma limit_inv_live:
  assumes "limit_inv w" and "cq_handlers w h = Some s"
  shows "h < cq_next_id w" and "lh_self s" and "sb_phase s \<noteq> KInitial"
    and "ops_of h (cq_outstanding w) = limit_expected s"
    and "ops_of h (cq_issued w) \<noteq> []" and "limit_expected s = [last (ops_of h (cq_issued w))]"
  using limit_inv_live_ok [OF assms] by (simp_all add: limit_live_ok_def)

lemma limit_inv_log:
  assumes "limit_inv w"
  shows "limit_log_ok (ops_of h (cq_issued w))" and "cq_next_id w \<le> h \<Longrightarrow> ops_of h (cq_issued w) = []"
  using assms by (simp_all add: limit_inv_def)

lemma limit_inv_dead: "limit_inv w \<Longrightarrow> cq_handlers w h = None \<Longrightarrow> ops_of h (cq_outstanding w) = []"
  by (auto simp: limit_inv_def split: option.splits dest: spec [of _ h])

lemma limit_inv_fresh: "limit_inv w \<Longrightarrow> cq_handlers w (cq_next_id w) = None"
  using limit_inv_live(1) by fastforce

lemma limit_inv_initial: "limit_inv limit_initial"
  by (rule limit_invI)
     (auto simp: limit_initial_def stream_prime_eq limit_defs limit_log_ok_def limit_live_ok_def split: if_splits)

text \<open>A step of the loop on a live handler, with the delivered completion spelt out.\<close>

lemma limit_step_cases:
  assumes inv: "limit_inv w" and i: "i < length (cq_outstanding w)"
  obtains h s op where "cq_outstanding w ! i = (h, op)" and "cq_handlers w h = Some s"
    and "limit_expected s = [op]" and "ops_of h (remove_nth i (cq_outstanding w)) = []"
    and "\<And>h'. h' \<noteq> h \<Longrightarrow> ops_of h' (remove_nth i (cq_outstanding w)) = ops_of h' (cq_outstanding w)"
proof -
  obtain h op where hop: "cq_outstanding w ! i = (h, op)" by fastforce
  then have "(h, op) \<in> set (cq_outstanding w)" using i nth_mem by fastforce
  then have ne: "ops_of h (cq_outstanding w) \<noteq> []" by (auto simp: ops_of_Nil_iff)
  then obtain s where s: "cq_handlers w h = Some s" using limit_inv_dead [OF inv] by fastforce
  have exp: "ops_of h (cq_outstanding w) = limit_expected s" by (rule limit_inv_live(4) [OF inv s])
  obtain x where x: "limit_expected s = [x]"
    using ne exp by (auto simp: limit_expected_def split: connect_phase.splits pending_op.splits)
  from ops_of_remove_single [OF i _ exp [unfolded x]] hop
  have "ops_of h (remove_nth i (cq_outstanding w)) = []" and "op = x" by auto
  then show thesis using that hop s x ops_of_remove_other [OF i] by auto
qed

lemma limit_step_facts:
  assumes inv: "limit_inv w" and i: "i < length (cq_outstanding w)"
    and hop: "cq_outstanding w ! i = (h, op)" and s: "cq_handlers w h = Some s"
  shows "limit_expected s = [op]" and "ops_of h (remove_nth i (cq_outstanding w)) = []"
    and "h' \<noteq> h \<Longrightarrow> ops_of h' (remove_nth i (cq_outstanding w)) = ops_of h' (cq_outstanding w)"
  by (rule limit_step_cases [OF inv i], use hop s in simp)+

text \<open>
  What a step may do to the invariant: move one live handler on by issuing one operation,
  or destroy it. \<open>s\<close> has \<open>op\<close> outstanding, which the step has taken.
\<close>

lemma limit_inv_update:
  assumes inv: "limit_inv w" and s: "cq_handlers w h = Some s"
    and v: "cq_deferred v = []" "\<not> cq_dangling v" "cq_next_id v = cq_next_id w"
      "cq_handlers v = (cq_handlers w)(h \<mapsto> s')" "lh_self s'" "sb_phase s' \<noteq> KInitial"
      "limit_expected s = [op]" "limit_expected s' = [op']" "limit_next op op'"
      "ops_of h (cq_outstanding v) = [op']" "cq_issued v = cq_issued w @ [(h, op')]"
      "\<And>h'. h' \<noteq> h \<Longrightarrow> ops_of h' (cq_outstanding v) = ops_of h' (cq_outstanding w)"
  shows "limit_inv v"
proof (rule limit_invI)
  fix h'
  have "limit_log_ok (ops_of h (cq_issued w) @ [op'])"
    using limit_inv_live [OF inv s] v(7,9) limit_inv_log(1) [OF inv] by (intro limit_log_ok_snoc) auto
  then show "limit_log_ok (ops_of h' (cq_issued v))" using v(11) limit_inv_log(1) [OF inv] by auto
next
  fix h' assume "cq_next_id v \<le> h'"
  then show "ops_of h' (cq_issued v) = []" using v(3,11) limit_inv_log(2) [OF inv] limit_inv_live(1) [OF inv s] by auto
next
  fix h' assume "cq_handlers v h' = None"
  then show "ops_of h' (cq_outstanding v) = []" using v(4,12) limit_inv_dead [OF inv] by (auto split: if_splits)
next
  fix h' s'' assume s'': "cq_handlers v h' = Some s''"
  show "limit_live_ok v h' s''"
  proof (cases "h' = h")
    case True
    then show ?thesis using s'' v limit_inv_live(1) [OF inv s] by (simp add: limit_live_ok_def)
  next
    case False
    then show ?thesis using s'' v limit_inv_live [OF inv, of h' s''] by (simp add: limit_live_ok_def)
  qed
qed (use v in auto)

lemma limit_inv_destroy:
  assumes inv: "limit_inv w"
    and v: "cq_deferred v = []" "\<not> cq_dangling v" "cq_next_id v = cq_next_id w"
      "cq_handlers v = (cq_handlers w)(h := None)" "ops_of h (cq_outstanding v) = []"
      "cq_issued v = cq_issued w"
      "\<And>h'. h' \<noteq> h \<Longrightarrow> ops_of h' (cq_outstanding v) = ops_of h' (cq_outstanding w)"
  shows "limit_inv v"
proof (rule limit_invI)
  fix h' assume "cq_handlers v h' = None"
  then show "ops_of h' (cq_outstanding v) = []" using v limit_inv_dead [OF inv] by (cases "h' = h") auto
next
  fix h' s'' assume s'': "cq_handlers v h' = Some s''"
  then have "h' \<noteq> h" using v(4) by auto
  then show "limit_live_ok v h' s''" using s'' v limit_inv_live [OF inv, of h' s''] by (simp add: limit_live_ok_def)
qed (use v limit_inv_log [OF inv] in auto)

lemma limit_deliver:
  assumes "cq_outstanding w ! i = (h, op)" and "cq_handlers w h = Some s"
  shows "deliver_read limit_vtable i ok m w =
    (if op = OpRead \<and> ok then set_handler h (s\<lparr>lh_request := m\<rparr>) (take_op i w) else take_op i w)"
  using assms by (simp add: deliver_read_def Let_def)

lemma limit_step_run:
  assumes "cq_outstanding w ! i = (h, op)" and "cq_handlers w h = Some s"
  shows "limit_step i (ok, m) w = grpc_run_deferred_handler_destroys
    (stream_process limit_vtable h ok
      (if op = OpRead \<and> ok then set_handler h (s\<lparr>lh_request := m\<rparr>) (take_op i w) else take_op i w))"
  using assms by (simp add: limit_step_def stream_loop_step_def limit_deliver)

lemma limit_inv_base:
  assumes "limit_inv w"
  shows "cq_deferred w = []" and "\<not> cq_dangling w"
  using assms by (simp_all add: limit_inv_def)

lemma limit_released_inv:
  assumes inv: "limit_inv w" and i: "i < length (cq_outstanding w)"
    and hop: "cq_outstanding w ! i = (h, op)" and s: "cq_handlers w h = Some s"
  shows "limit_inv (grpc_run_deferred_handler_destroys (limit_release h (take_op i w)))"
proof -
  have rest: "ops_of h (remove_nth i (cq_outstanding w)) = []"
    and oth: "\<And>h'. h' \<noteq> h \<Longrightarrow> ops_of h' (remove_nth i (cq_outstanding w)) = ops_of h' (cq_outstanding w)"
    using limit_step_facts [OF inv i hop s] by simp_all
  have "limit_release h (take_op i w) =
      grpc_defer_handler_destroy h (set_handler h (s\<lparr>lh_self := False\<rparr>) (take_op i w))"
    using s limit_inv_live(2) [OF inv s] by (simp add: limit_release_def)
  then show ?thesis
    using limit_inv_base [OF inv] rest oth by (intro limit_inv_destroy [OF inv, of _ h]) (simp_all add: fun_eq_iff)
qed

lemma limit_step_accepted:
  assumes inv: "limit_inv w" and i: "i < length (cq_outstanding w)"
    and hop: "cq_outstanding w ! i = (h, op)" and s: "cq_handlers w h = Some s" and acc: "sb_phase s = KAccepted"
  shows "limit_inv (limit_step i (ok, m) w)"
proof -
  have op: "op = OpRequest" and rest: "ops_of h (remove_nth i (cq_outstanding w)) = []"
    and oth: "\<And>h'. h' \<noteq> h \<Longrightarrow> ops_of h' (remove_nth i (cq_outstanding w)) = ops_of h' (cq_outstanding w)"
    using limit_step_facts [OF inv i hop s] acc by (simp_all add: limit_expected_def)
  note base = limit_inv_base [OF inv] limit_inv_live [OF inv s]
  show ?thesis
  proof (cases ok)
    case False
    then have "limit_step i (ok, m) w = grpc_run_deferred_handler_destroys (limit_release h (take_op i w))"
      using hop s acc op by (simp add: limit_step_run stream_process_failed)
    with limit_released_inv [OF inv i hop s] show ?thesis by simp
  next
    case True
    let ?n = "cq_next_id w"
    have n: "cq_handlers w ?n = None" and nh: "?n \<noteq> h" using limit_inv_fresh [OF inv] s by auto
    let ?c = "limit_clone s"
    let ?v = "issue ?n OpRequest (set_handler ?n (?c\<lparr>sb_phase := KAccepted\<rparr>)
                (alloc_handler (?c\<lparr>sb_phase := KInitial\<rparr>) w))"
    have v: "limit_inv ?v"
    proof (rule limit_invI)
      fix h' show "limit_log_ok (ops_of h' (cq_issued ?v))"
        using limit_inv_log [OF inv] by (auto simp: limit_log_ok_def)
    next
      fix h' assume "cq_handlers ?v h' = None"
      then show "ops_of h' (cq_outstanding ?v) = []" using limit_inv_dead [OF inv] by (auto split: if_splits)
    next
      fix h' s' assume "cq_handlers ?v h' = Some s'"
      then show "limit_live_ok ?v h' s'"
        using limit_inv_live [OF inv] limit_inv_dead [OF inv n] limit_inv_log(2) [OF inv, of ?n]
        by (cases "h' = ?n") (auto simp: limit_defs limit_live_ok_def less_Suc_eq)
    qed (use base limit_inv_log [OF inv] in auto)
    let ?s' = "s\<lparr>sb_phase := KStreaming, lh_pending := KRead\<rparr>"
    let ?s1 = "s\<lparr>sb_phase := KStreaming\<rparr>"
    have "limit_step i (ok, m) w = issue h OpRead (set_handler h ?s' (issue ?n OpRequest
        (set_handler ?n (?c\<lparr>sb_phase := KAccepted\<rparr>) (alloc_handler (?c\<lparr>sb_phase := KInitial\<rparr>)
          (set_handler h ?s1 (take_op i w))))))"
      using True hop s acc op base nh
      by (simp add: limit_step_run stream_process_accept Let_def limit_on_stream_rpc_connected_def)
    then show ?thesis
      using base rest oth nh n s acc
      by (intro limit_inv_update [OF v, of h s _ ?s' OpRequest OpRead]) (simp_all add: limit_expected_def fun_eq_iff)
  qed
qed

lemma limit_streaming_update:
  assumes inv: "limit_inv w" and i: "i < length (cq_outstanding w)"
    and hop: "cq_outstanding w ! i = (h, op)" and s: "cq_handlers w h = Some s" and str: "sb_phase s = KStreaming"
    and "\<exists>s0 s1. v = issue h o' (set_handler h s' (set_handler h s1 (set_handler h s0 (take_op i w))))
          \<or> v = issue h o' (set_handler h s' (set_handler h s1 (take_op i w)))
          \<or> v = issue h o' (set_handler h s' (take_op i w))"
    and "lh_self s'" "sb_phase s' = KStreaming" "limit_expected s' = [o']" "limit_next op o'"
  shows "limit_inv v"
  by (rule limit_inv_update [OF inv s, of _ s' op o'])
    (use assms(6-) limit_inv_base [OF inv] limit_inv_live [OF inv s] limit_step_facts [OF inv i hop s] in \<open>auto simp: fun_eq_iff\<close>)

lemma limit_read_inv:
  assumes inv: "limit_inv w" and i: "i < length (cq_outstanding w)"
    and hop: "cq_outstanding w ! i = (h, op)" and s: "cq_handlers w h = Some s" and str: "sb_phase s = KStreaming"
    and r: "op = OpRead"
    and s0: "s0 = s\<lparr>lh_request := m\<rparr>"
  shows "limit_inv (grpc_run_deferred_handler_destroys
    (limit_handle_read_completion h True s0 (set_handler h s0 (take_op i w))))" (is "limit_inv ?after")
proof -
  note base = limit_inv_base [OF inv] limit_inv_live [OF inv s]
  note upd = limit_streaming_update [OF inv i hop s str]
  show ?thesis
  proof (cases "\<exists>res. m = KResourceFinish res")
    case True
    then show ?thesis
      using base str r s0
      by (intro upd [of _ "OpFinish Status_OK" "s0\<lparr>lh_request := V_NOT_SET, lh_pending := KFinish\<rparr>"])
         (auto simp: limit_defs Let_def)
  next
    case False
    obtain s1 where out: "limit_process_incoming_message h s0 (set_handler h s0 (take_op i w)) = (AckWrite, s1, set_handler h s1 (set_handler h s0 (take_op i w)))"
      and s1: "lh_self s1 = lh_self s" "sb_phase s1 = KStreaming" "lh_response s1 = OK"
      using False str s0 by (cases m) (auto simp: limit_process_incoming_message_def Let_def)
    let ?s2 = "s1\<lparr>lh_request := V_NOT_SET, lh_pending := KWrite\<rparr>"
    have "\<exists>s0 s1. ?after =
        issue h (OpWrite OK) (set_handler h ?s2 (set_handler h s1 (set_handler h s0 (take_op i w))))"
      using out s1 base by (auto simp: limit_handle_read_completion_def Let_def)
    then show ?thesis
      using base s1 r by (intro upd [of _ "OpWrite OK" ?s2]) (auto simp: limit_expected_def)
  qed
qed

lemma limit_step_streaming:
  assumes inv: "limit_inv w" and i: "i < length (cq_outstanding w)"
    and hop: "cq_outstanding w ! i = (h, op)" and s: "cq_handlers w h = Some s" and str: "sb_phase s = KStreaming"
  shows "limit_inv (limit_step i (ok, m) w)"
proof -
  have op: "limit_expected s = [op]" and rest: "ops_of h (remove_nth i (cq_outstanding w)) = []"
    and oth: "\<And>h'. h' \<noteq> h \<Longrightarrow> ops_of h' (remove_nth i (cq_outstanding w)) = ops_of h' (cq_outstanding w)"
    using limit_step_facts [OF inv i hop s] by simp_all
  note base = limit_inv_base [OF inv] limit_inv_live [OF inv s]
  note upd = limit_streaming_update [OF inv i hop s str]
  show ?thesis
  proof (cases "lh_pending s")
    case KFinish
    then have "limit_step i (ok, m) w = grpc_run_deferred_handler_destroys (limit_release h (take_op i w))"
      using hop s str op by (auto simp: limit_step_run stream_process_streaming limit_on_completion_def limit_expected_def)
    with limit_released_inv [OF inv i hop s] show ?thesis by simp
  next
    case KWrite
    let ?s' = "s\<lparr>lh_pending := (if ok then KRead else KFinish)\<rparr>"
    let ?o = "if ok then OpRead else OpFinish Status_OK"
    have "op \<noteq> OpRead" using KWrite str op by (auto simp: limit_expected_def)
    then have "limit_step i (ok, m) w = issue h ?o (set_handler h ?s' (take_op i w))"
      using KWrite hop s str limit_inv_base [OF inv] by (simp add: limit_step_run stream_process_streaming limit_defs)
    then show ?thesis using base str op KWrite by (intro upd [of _ ?o ?s']) (auto simp: limit_expected_def)
  next
    case KRead
    then have r: "op = OpRead" using op str by (simp add: limit_expected_def)
    show ?thesis
    proof (cases ok)
      case False
      let ?s' = "s\<lparr>lh_pending := KFinish\<rparr>"
      from False have "limit_step i (ok, m) w = issue h (OpFinish Status_OK) (set_handler h ?s' (take_op i w))"
        using KRead hop s str base by (simp add: limit_step_run stream_process_streaming limit_defs)
      then show ?thesis using base str r by (intro upd [of _ "OpFinish Status_OK" ?s']) (auto simp: limit_expected_def)
    next
      case True
      have run: "limit_step i (ok, m) w = grpc_run_deferred_handler_destroys
          (limit_handle_read_completion h True (s\<lparr>lh_request := m\<rparr>) (set_handler h (s\<lparr>lh_request := m\<rparr>) (take_op i w)))"
        using True KRead r hop s str by (simp add: limit_step_run stream_process_streaming limit_on_completion_def)
      show ?thesis unfolding run by (rule limit_read_inv [OF inv i hop s str r refl])
    qed
  qed
qed

lemma limit_inv_step: "limit_inv w \<Longrightarrow> i < length (cq_outstanding w) \<Longrightarrow> limit_inv (limit_step i ev w)"
proof -
  assume inv: "limit_inv w" and i: "i < length (cq_outstanding w)"
  then obtain h s op where hop: "cq_outstanding w ! i = (h, op)" and s: "cq_handlers w h = Some s"
    by (rule limit_step_cases)
  show ?thesis
    using limit_step_accepted [OF inv i hop s] limit_step_streaming [OF inv i hop s] limit_inv_live(3) [OF inv s]
    by (cases ev; cases "sb_phase s") simp_all
qed

interpretation limit: cq_contract limit_step limit_inv
proof
  fix w :: "'a limit_world" and i ev
  show "limit_inv w \<Longrightarrow> i < length (cq_outstanding w) \<Longrightarrow> limit_inv (limit_step i ev w)"
    by (rule limit_inv_step)
next
  fix w :: "'a limit_world" and h op
  assume inv: "limit_inv w" and "(h, op) \<in> set (cq_outstanding w)"
  then show "cq_handlers w h \<noteq> None" using limit_inv_dead [OF inv] by (auto simp: ops_of_Nil_iff)
next
  fix w :: "'a limit_world" and h
  assume inv: "limit_inv w" and "cq_handlers w h \<noteq> None"
  then obtain s where "cq_handlers w h = Some s" by auto
  from limit_inv_live(3,4) [OF inv this] show "ops_of h (cq_outstanding w) \<noteq> []"
    by (auto simp: limit_expected_def split: connect_phase.splits pending_op.splits)
next
  fix w :: "'a limit_world"
  show "limit_inv w \<Longrightarrow> \<not> cq_dangling w" by (rule limit_inv_base)
qed

subsection \<open>What a schedule of completions cannot do\<close>

text \<open>A schedule is a list of completions: which outstanding operation, with which flag and message.\<close>

definition limit_run :: "(nat \<times> bool \<times> ('n::{plus,zero}) resource_request_union) list \<Rightarrow> 'n limit_world" where
  "limit_run evs = run_events limit_step (\<lambda>w. length (cq_outstanding w)) limit_initial evs"

lemma limit_run_inv: "limit_inv (limit_run evs)"
  unfolding limit_run_def by (rule limit.run_inv) (rule limit_inv_initial)

text \<open>
  C9. The contract of \<open>GRPCHandler::process\<close> for the resource guard: whatever the completion
  queue delivers, in whatever order and with whatever flags and messages, no completion
  reaches a freed handler, a live session has exactly one operation outstanding, the one its
  phase and \<open>pending_\<close> name, and a session that was destroyed has none.
\<close>

theorem limit_session_contract:
  "\<not> cq_dangling (limit_run evs)
   \<and> (case cq_handlers (limit_run evs) h of
        None \<Rightarrow> ops_of h (cq_outstanding (limit_run evs)) = []
      | Some s \<Rightarrow> lh_self s \<and> (\<exists>op. ops_of h (cq_outstanding (limit_run evs)) = [op] \<and> limit_expected s = [op]))"
proof -
  have "limit_inv (limit_run evs)" by (rule limit_run_inv)
  moreover have "\<not> cq_dangling (limit_run evs)"
    unfolding limit_run_def by (rule limit.run_not_dangling) (rule limit_inv_initial)
  ultimately show ?thesis
    using limit_inv_dead [of "limit_run evs" h] limit_inv_live [of "limit_run evs" h] by (auto split: option.splits)
qed

text \<open>
  C10. The protocol on the wire: in every schedule each session issues first its accept
  request, then reads and acknowledging writes in strict alternation beginning with a read,
  and after its single \<open>Finish\<close> nothing any more.
\<close>

theorem limit_wire_protocol: "limit_log_ok (ops_of h (cq_issued (limit_run evs)))"
  by (rule limit_inv_log(1)) (rule limit_run_inv)

subsection \<open>Billing\<close>

text \<open>The effect of one message on the bill, as the handler does it.\<close>

fun bill_message :: "('n::{plus,zero}) resource_request_union \<Rightarrow> (string \<rightharpoonup> 'n) \<Rightarrow> (string \<rightharpoonup> 'n)" where
  "bill_message (KBillAppend items) m = bill_append items m"
| "bill_message (KBillOverwrite items) m = bill_overwrite items m"
| "bill_message _ m = m"

fun is_finish :: "'n resource_request_union \<Rightarrow> bool" where
  "is_finish (KResourceFinish res) = True"
| "is_finish _ = False"

fun is_overwrite :: "'n resource_request_union \<Rightarrow> bool" where
  "is_overwrite (KBillOverwrite items) = True"
| "is_overwrite _ = False"

fun is_write :: "'resp cq_op \<Rightarrow> bool" where
  "is_write (OpWrite r) = True"
| "is_write _ = False"

text \<open>
  The bill of one key after a list of messages, from the messages alone: the last overwrite gives the
  amount to begin with, the last one that it has for the key, if it has one; to it are added, in order of
  arrival, the amounts that were appended to the key since.
\<close>

definition amounts :: "string \<Rightarrow> (string \<times> 'n) list \<Rightarrow> 'n list" where
  "amounts k items = map snd (filter (\<lambda>p. fst p = k) items)"

fun appended :: "string \<Rightarrow> 'n resource_request_union \<Rightarrow> 'n list" where
  "appended k (KBillAppend items) = amounts k items"
| "appended k _ = []"

definition bill_start :: "string \<Rightarrow> 'n resource_request_union list \<Rightarrow> 'n option" where
  "bill_start k msgs =
     (case dropWhile (\<lambda>m. \<not> is_overwrite m) (rev msgs) of
        KBillOverwrite items # _ \<Rightarrow> if amounts k items = [] then None else Some (last (amounts k items))
      | _ \<Rightarrow> None)"

definition bill_added :: "string \<Rightarrow> 'n resource_request_union list \<Rightarrow> 'n list" where
  "bill_added k msgs = concat (map (appended k) (rev (takeWhile (\<lambda>m. \<not> is_overwrite m) (rev msgs))))"

definition bill_spec :: "'n resource_request_union list \<Rightarrow> string \<Rightarrow> ('n::{plus,zero}) option" where
  "bill_spec msgs k =
     (if bill_added k msgs = [] then bill_start k msgs
      else Some (foldl (+) (case bill_start k msgs of None \<Rightarrow> 0 | Some x \<Rightarrow> x) (bill_added k msgs)))"

lemma amounts_Cons [simp]: "amounts k (p # items) = (if fst p = k then snd p # amounts k items else amounts k items)"
  by (simp add: amounts_def)

lemma amounts_Nil [simp]: "amounts k [] = []"
  by (simp add: amounts_def)

lemma bill_append_apply:
  "bill_append items m k =
     (if amounts k items = [] then m k
      else Some (foldl (+) (case m k of None \<Rightarrow> 0 | Some x \<Rightarrow> x) (amounts k items)))"
  by (induction items arbitrary: m) (auto split: option.splits)

lemma bill_assign_apply:
  "bill_assign items m k = (if amounts k items = [] then m k else Some (last (amounts k items)))"
  by (induction items arbitrary: m) auto

lemma bill_spec_Nil: "bill_spec [] = Map.empty"
  by (intro ext) (simp add: bill_spec_def bill_start_def bill_added_def)

lemma bill_spec_snoc: "bill_spec (msgs @ [m]) = bill_message m (bill_spec msgs)"
proof
  fix k
  show "bill_spec (msgs @ [m]) k = bill_message m (bill_spec msgs) k"
  proof (cases "is_overwrite m")
    case True
    then obtain items where "m = KBillOverwrite items" by (cases m) simp_all
    then show ?thesis
      by (simp add: bill_spec_def bill_start_def bill_added_def bill_overwrite_def bill_assign_apply)
  next
    case False
    have start: "bill_start k (msgs @ [m]) = bill_start k msgs" using False by (simp add: bill_start_def)
    have added: "bill_added k (msgs @ [m]) = bill_added k msgs @ appended k m" using False by (simp add: bill_added_def)
    show ?thesis using False unfolding bill_spec_def start added
      by (cases m) (auto simp: bill_append_apply bill_spec_def)
  qed
qed

text \<open>The messages that a completion, or a whole schedule, delivers to a session: those of its successful reads.\<close>

definition delivery :: "nat \<Rightarrow> nat \<times> bool \<times> 'n resource_request_union \<Rightarrow> 'n limit_world \<Rightarrow> 'n resource_request_union list" where
  "delivery h = (\<lambda>(i, ok, m) w.
     if i < length (cq_outstanding w) \<and> cq_outstanding w ! i = (h, OpRead) \<and> ok then [m] else [])"

fun delivered ::
  "nat \<Rightarrow> (nat \<times> bool \<times> ('n::{plus,zero}) resource_request_union) list \<Rightarrow> 'n limit_world \<Rightarrow> 'n resource_request_union list" where
  "delivered h [] w = []"
| "delivered h ((i, ev) # evs) w =
     delivery h (i, ev) w @ delivered h evs (if i < length (cq_outstanding w) then limit_step i ev w else w)"

definition received :: "nat \<Rightarrow> (nat \<times> bool \<times> ('n::{plus,zero}) resource_request_union) list \<Rightarrow> 'n resource_request_union list" where
  "received h evs = delivered h evs limit_initial"

text \<open>What a step does to the bills and to the acknowledgements.\<close>

definition acks :: "nat \<Rightarrow> 'n limit_world \<Rightarrow> operation_result cq_op list" where
  "acks h w = filter is_write (ops_of h (cq_issued w))"

definition bill_step :: "nat \<Rightarrow> 'n::{plus,zero} resource_request_union list \<Rightarrow> 'n limit_world \<Rightarrow> 'n limit_world \<Rightarrow> bool" where
  "bill_step h ms w w' \<longleftrightarrow>
     cq_next_id w \<le> cq_next_id w'
   \<and> (\<forall>h' s'. cq_handlers w' h' = Some s' \<longrightarrow>
        (\<exists>s. cq_handlers w h' = Some s
           \<and> lh_res_request s' = fold bill_message (if h' = h then ms else []) (lh_res_request s))
        \<or> (cq_next_id w \<le> h' \<and> lh_res_request s' = Map.empty))
   \<and> (\<forall>h'. acks h' w' = acks h' w @ (if h' = h then replicate (length (filter (\<lambda>m. \<not> is_finish m) ms)) (OpWrite OK) else []))"

lemma bill_step_accepted:
  assumes inv: "limit_inv w" and i: "i < length (cq_outstanding w)"
    and hop: "cq_outstanding w ! i = (h, op)" and s: "cq_handlers w h = Some s" and acc: "sb_phase s = KAccepted"
  shows "bill_step h [] w (limit_step i (ok, m) w)"
proof -
  have op: "op = OpRequest" using limit_step_facts [OF inv i hop s] acc by (simp add: limit_expected_def)
  note base = limit_inv_base [OF inv]
  have new: "cq_next_id w \<noteq> h" using limit_inv_fresh [OF inv] s by auto
  show ?thesis
  proof (cases ok)
    case False
    then have "limit_step i (ok, m) w = grpc_run_deferred_handler_destroys (limit_release h (take_op i w))"
      using hop s acc op by (simp add: limit_step_run stream_process_failed)
    then show ?thesis
      using base s by (auto simp: bill_step_def acks_def limit_release_def split: if_splits)
  next
    case True
    then show ?thesis
      using hop s acc op base new
      by (auto simp: bill_step_def acks_def limit_step_run stream_process_accept Let_def limit_defs)
  qed
qed

lemma bill_step_streaming:
  assumes inv: "limit_inv w" and i: "i < length (cq_outstanding w)"
    and hop: "cq_outstanding w ! i = (h, op)" and s: "cq_handlers w h = Some s" and str: "sb_phase s = KStreaming"
  shows "bill_step h (delivery h (i, ok, m) w) w (limit_step i (ok, m) w)"
proof -
  have op: "limit_expected s = [op]" using limit_step_facts [OF inv i hop s] by simp
  note base = limit_inv_base [OF inv]
  show ?thesis
  proof (cases "lh_pending s")
    case KFinish
    then have r: "op = OpFinish Status_OK" using op str by (simp add: limit_expected_def)
    then have "limit_step i (ok, m) w = grpc_run_deferred_handler_destroys (limit_release h (take_op i w))"
      using hop s str KFinish by (simp add: limit_step_run stream_process_streaming limit_on_completion_def)
    then show ?thesis
      using base s r hop by (auto simp: bill_step_def acks_def delivery_def limit_release_def split: if_splits)
  next
    case KWrite
    then have r: "op = OpWrite (lh_response s)" using op str by (simp add: limit_expected_def)
    then show ?thesis
      using hop s str base KWrite
      by (auto simp: bill_step_def acks_def delivery_def limit_step_run stream_process_streaming limit_defs)
  next
    case KRead
    then have r: "op = OpRead" using op str by (simp add: limit_expected_def)
    show ?thesis
    proof (cases ok)
      case False
      then show ?thesis
        using hop s str base KRead r
        by (auto simp: bill_step_def acks_def delivery_def limit_step_run stream_process_streaming limit_defs)
    next
      case True
      then show ?thesis
        using hop s str base KRead r i
        by (cases m) (auto simp: bill_step_def acks_def delivery_def limit_step_run stream_process_streaming limit_defs Let_def)
    qed
  qed
qed

lemma bill_step_any:
  assumes "limit_inv w" and "i < length (cq_outstanding w)"
  obtains h where "bill_step h (delivery h (i, ev) w) w (limit_step i ev w)"
    and "\<And>h'. h' \<noteq> h \<Longrightarrow> delivery h' (i, ev) w = []" and "cq_handlers w h \<noteq> None"
proof -
  obtain h s op where h: "cq_outstanding w ! i = (h, op)" "cq_handlers w h = Some s" "limit_expected s = [op]"
    using limit_step_cases [OF assms] by metis
  obtain ok m where ev: "ev = (ok, m)" by (rule prod.exhaust)
  have "bill_step h (delivery h (i, ev) w) w (limit_step i ev w)"
  proof (cases "sb_phase s")
    case KAccepted
    then have "op = OpRequest" using h(3) by (simp add: limit_expected_def)
    then have "delivery h (i, ev) w = []" using h(1) by (simp add: delivery_def ev)
    then show ?thesis using bill_step_accepted [OF assms h(1,2) KAccepted] by (simp add: ev)
  next
    case KStreaming
    then show ?thesis using bill_step_streaming [OF assms h(1,2)] by (simp add: ev)
  qed (use limit_inv_live(3) [OF assms(1) h(2)] in simp)
  moreover have "delivery h' (i, ev) w = []" if "h' \<noteq> h" for h' using that h(1) by (simp add: delivery_def ev)
  ultimately show thesis using that h(2) by blast
qed

text \<open>\<open>billed R w\<close>: with \<open>R h\<close> the messages that session \<open>h\<close> got so far, the bills and acknowledgements are right.\<close>

definition billed :: "(nat \<Rightarrow> ('n::{plus,zero}) resource_request_union list) \<Rightarrow> 'n limit_world \<Rightarrow> bool" where
  "billed R w \<longleftrightarrow>
     (\<forall>h s. cq_handlers w h = Some s \<longrightarrow> lh_res_request s = bill_spec (R h))
   \<and> (\<forall>h. acks h w = replicate (length (filter (\<lambda>m. \<not> is_finish m) (R h))) (OpWrite OK))
   \<and> (\<forall>h \<ge> cq_next_id w. R h = [])"

lemma billed_step:
  assumes inv: "limit_inv w" and i: "i < length (cq_outstanding w)" and b: "billed R w"
  shows "billed (\<lambda>h. R h @ delivery h (i, ev) w) (limit_step i ev w)"
proof -
  obtain h where st: "bill_step h (delivery h (i, ev) w) w (limit_step i ev w)"
    and other: "\<And>h'. h' \<noteq> h \<Longrightarrow> delivery h' (i, ev) w = []" and live: "cq_handlers w h \<noteq> None"
    by (rule bill_step_any [OF inv i, of ev]) blast
  obtain s0 where "cq_handlers w h = Some s0" using live by blast
  then have old: "h < cq_next_id w" by (rule limit_inv_live(1) [OF inv])
  have one: "delivery h (i, ev) w = [] \<or> (\<exists>m. delivery h (i, ev) w = [m])"
    by (cases ev) (simp add: delivery_def)
  have next_id: "cq_next_id w \<le> cq_next_id (limit_step i ev w)" using st by (simp add: bill_step_def)
  have bill: "lh_res_request s' = bill_spec (R h' @ delivery h' (i, ev) w)"
    if s': "cq_handlers (limit_step i ev w) h' = Some s'" for h' s'
  proof -
    consider s where "cq_handlers w h' = Some s"
        "lh_res_request s' = fold bill_message (if h' = h then delivery h (i, ev) w else []) (lh_res_request s)"
      | "cq_next_id w \<le> h'" "lh_res_request s' = Map.empty"
      using st s' unfolding bill_step_def by blast
    then show ?thesis
    proof cases
      case 1
      then have "lh_res_request s = bill_spec (R h')" using b by (simp add: billed_def)
      then show ?thesis using 1(2) one other [of h'] by (cases "h' = h") (auto simp: bill_spec_snoc)
    next
      case 2
      then have "R h' = []" "h' \<noteq> h" using b old by (auto simp: billed_def)
      then show ?thesis using 2(2) other [of h'] by (simp add: bill_spec_Nil)
    qed
  qed
  have "acks h' (limit_step i ev w) = replicate (length (filter (\<lambda>m. \<not> is_finish m) (R h' @ delivery h' (i, ev) w))) (OpWrite OK)" for h'
    using st b other [of h'] by (cases "h' = h") (simp_all add: bill_step_def billed_def replicate_add)
  moreover have "R h' @ delivery h' (i, ev) w = []" if "cq_next_id (limit_step i ev w) \<le> h'" for h'
    using that next_id old other [of h'] b by (cases "h' = h") (auto simp: billed_def)
  ultimately show ?thesis using bill by (simp add: billed_def)
qed

lemma billed_run:
  assumes "limit_inv w" and "billed R w"
  shows "billed (\<lambda>h. R h @ delivered h evs w) (run_events limit_step (\<lambda>w. length (cq_outstanding w)) w evs)"
  using assms
proof (induction evs arbitrary: w R)
  case (Cons e evs)
  obtain i ev where e: "e = (i, ev)" by (rule prod.exhaust)
  show ?case
  proof (cases "i < length (cq_outstanding w)")
    case True
    from Cons.IH [OF limit_inv_step [OF Cons.prems(1) True] billed_step [OF Cons.prems(1) True Cons.prems(2), of ev]]
    show ?thesis using True by (simp add: e)
  next
    case False
    then have "delivery h (i, ev) w = []" for h by (cases ev) (simp add: delivery_def)
    then show ?thesis using Cons.IH [OF Cons.prems] False by (simp add: e)
  qed
qed simp

lemma billed_initial: "billed (\<lambda>h. []) limit_initial"
  by (auto simp: billed_def acks_def limit_initial_def stream_prime_eq limit_defs bill_spec_Nil split: if_splits)

text \<open>
  C36. Billing, over every schedule of completions, whatever their order, flags and messages: the bill of
  a live session is the one that the messages delivered to it amount to, from the last overwrite on, and
  each message delivered to a session, live or destroyed, that is not a finish was answered by exactly one
  write, \<open>OK\<close>, and nothing else was.
\<close>

theorem limit_billing:
  "(case cq_handlers (limit_run evs) h of None \<Rightarrow> True | Some s \<Rightarrow> lh_res_request s = bill_spec (received h evs))
   \<and> filter is_write (ops_of h (cq_issued (limit_run evs)))
       = replicate (length (filter (\<lambda>m. \<not> is_finish m) (received h evs))) (OpWrite OK)"
  using billed_run [OF limit_inv_initial billed_initial, of evs]
  by (auto simp: limit_run_def billed_def acks_def received_def split: option.split)

text \<open>Two sessions, interleaved: the bill of the first after two appends, an overwrite and an append.\<close>

definition limit_example :: "(nat \<times> bool \<times> int resource_request_union) list" where
  "limit_example = [(0, True, V_NOT_SET), (1, True, KBillAppend [(''cpu'', 2), (''ram'', 7)]),
     (0, True, V_NOT_SET), (0, True, V_NOT_SET), (2, True, KBillOverwrite [(''cpu'', 4)]),
     (2, True, V_NOT_SET), (2, True, KBillAppend [(''cpu'', 1)])]"

theorem limit_billing_witness:
  "\<exists>s. cq_handlers (limit_run limit_example) 0 = Some s \<and> lh_res_request s ''cpu'' = Some 5 \<and> lh_res_request s ''ram'' = None
     \<and> filter is_write (ops_of 0 (cq_issued (limit_run limit_example))) = [OpWrite OK, OpWrite OK, OpWrite OK]"
proof -
  have live: "cq_handlers (limit_run limit_example) 0 \<noteq> None"
    by (simp add: limit_example_def limit_run_def limit_initial_def stream_prime_eq limit_step_run stream_process_accept
        stream_process_streaming Let_def limit_defs remove_nth_def numeral_eq_Suc)
  have got: "received 0 limit_example = [KBillAppend [(''cpu'', 2), (''ram'', 7)], KBillOverwrite [(''cpu'', 4)], KBillAppend [(''cpu'', 1)]]"
    by (simp add: limit_example_def received_def delivery_def limit_initial_def stream_prime_eq limit_step_run stream_process_accept
        stream_process_streaming Let_def limit_defs remove_nth_def numeral_eq_Suc)
  obtain s where s: "cq_handlers (limit_run limit_example) 0 = Some s" using live by blast
  have "lh_res_request s = bill_spec (received 0 limit_example)"
    "filter is_write (ops_of 0 (cq_issued (limit_run limit_example)))
      = replicate (length (filter (\<lambda>m. \<not> is_finish m) (received 0 limit_example))) (OpWrite OK)"
    using limit_billing [of 0 limit_example] s by simp_all
  then show ?thesis using s unfolding got
    by (simp add: bill_spec_def bill_start_def bill_added_def numeral_eq_Suc)
qed

end
