(* ===== verification/Crypto.thy ===== *)
theory Crypto
  imports Prelude
begin

text \<open>
  The OpenSSL wrappers (\<open>common/crypto/sgn.cc\<close>, \<open>common/crypto/auth.cc\<close>): hasher, signer,
  verifier and the peer id. OpenSSL itself is a parameter, the record \<open>openssl\<close> of the
  functions the code calls; a byte buffer is the string of its bytes. What the wrappers
  do with the results of those calls, every error branch included, is modelled here.
\<close>

named_theorems crypto_defs \<open>the wrappers' definitions\<close>

subsection \<open>OpenSSL as a parameter\<close>

text \<open>
  \<open>'x\<close> is the type of parsed certificates, \<open>'k\<close> of keys. \<open>EVP_get_digestbyname\<close> tells the
  digests OpenSSL knows, \<open>EVP_Digest\<close> the digest of a byte string, \<open>EVP_MD_size\<close> its length.
  \<open>EVP_DigestVerify\<close> takes the key, the digest, the data and the signature and returns 1, 0 or an
  error code. \<open>EVP_DigestSign\<close> also takes the size of the output buffer that the caller passed
  in. \<open>stack_md\<close> is what an uninitialised \<open>const EVP_MD *\<close> of an object happens to hold: \<open>Some\<close> a
  digest, or \<open>None\<close> for a pointer that may not be followed.
\<close>

record ('x, 'k) openssl =
  d2i_X509 :: "string \<Rightarrow> 'x option"
  X509_get_pubkey :: "'x \<Rightarrow> 'k option"
  X509_authority_keyid :: "'x \<Rightarrow> string option option"
  X509_verify :: "'x \<Rightarrow> 'k \<Rightarrow> int"
  i2d_PUBKEY :: "'k \<Rightarrow> string option"
  EVP_get_digestbyname :: "string \<Rightarrow> bool"
  EVP_MD_size :: "string \<Rightarrow> nat"
  EVP_Digest :: "string \<Rightarrow> string \<Rightarrow> string"
  EVP_DigestVerifyInit :: "'k \<Rightarrow> string \<Rightarrow> bool"
  EVP_DigestVerify :: "'k \<Rightarrow> string \<Rightarrow> string \<Rightarrow> string \<Rightarrow> int"
  EVP_PKEY_new_raw_private_key :: "int \<Rightarrow> string \<Rightarrow> 'k option"
  EVP_DigestSignInit :: "'k \<Rightarrow> string \<Rightarrow> bool"
  EVP_DigestSignFinal_size :: "'k \<Rightarrow> string \<Rightarrow> nat option"
  EVP_DigestSign :: "'k \<Rightarrow> string \<Rightarrow> string \<Rightarrow> nat \<Rightarrow> string option"
  stack_md :: "string option"

subsection \<open>SSLHasher\<close>

text \<open>
  The context is \<open>None\<close> before \<open>start\<close>, afterwards the digest and the bytes put so far.
  The constructor looks the name up into a local variable that shadows the member \<open>md\<close>, so
  the member keeps what the memory held.
\<close>

record ssl_hasher =
  hs_ctx :: "(string \<times> string) option"
  hs_md :: "string option"

definition ssl_hasher_new :: "('x, 'k) openssl \<Rightarrow> string \<Rightarrow> ssl_hasher result" where
  "ssl_hasher_new S hash_name =
     bind_result (check (EVP_get_digestbyname S hash_name) SSLError) (\<lambda>_.
     Inr \<lparr>hs_ctx = None, hs_md = stack_md S\<rparr>)"

definition hasher_digest_size :: "('x, 'k) openssl \<Rightarrow> ssl_hasher \<Rightarrow> nat result" where
  "hasher_digest_size S hs = (case hs_md hs of None \<Rightarrow> Inl UndefinedBehaviour | Some md \<Rightarrow> Inr (EVP_MD_size S md))"

definition hasher_start :: "('x, 'k) openssl \<Rightarrow> ssl_hasher \<Rightarrow> ssl_hasher result" where
  "hasher_start S hs =
     (case hs_md hs of
        None \<Rightarrow> Inl UndefinedBehaviour
      | Some md \<Rightarrow> Inr (hs\<lparr>hs_ctx := Some (md, [])\<rparr>))"

definition hasher_put :: "string \<Rightarrow> ssl_hasher \<Rightarrow> ssl_hasher result" where
  "hasher_put d hs =
     (case hs_ctx hs of
        None \<Rightarrow> Inl SSLError
      | Some (md, acc) \<Rightarrow> Inr (hs\<lparr>hs_ctx := Some (md, acc @ d)\<rparr>))"

definition hasher_finish :: "('x, 'k) openssl \<Rightarrow> ssl_hasher \<Rightarrow> (string \<times> ssl_hasher) result" where
  "hasher_finish S hs =
     (case hs_ctx hs of
        None \<Rightarrow> Inl SSLError
      | Some (md, acc) \<Rightarrow> Inr (EVP_Digest S md acc, hs\<lparr>hs_ctx := None\<rparr>))"

definition hasher_reset :: "ssl_hasher \<Rightarrow> ssl_hasher" where
  "hasher_reset hs = hs\<lparr>hs_ctx := None\<rparr>"

text \<open>\<open>compute_hash\<close> resets the context when something was thrown, and throws it again.\<close>

definition hasher_compute_hash :: "('x, 'k) openssl \<Rightarrow> string \<Rightarrow> ssl_hasher \<Rightarrow> string result \<times> ssl_hasher" where
  "hasher_compute_hash S d hs =
     (case bind_result (hasher_start S hs) (\<lambda>hs1. bind_result (hasher_put d hs1) (hasher_finish S)) of
        Inl e \<Rightarrow> (Inl e, hasher_reset hs)
      | Inr (out, hs') \<Rightarrow> (Inr out, hs'))"

lemmas [crypto_defs] =
  ssl_hasher_new_def hasher_digest_size_def hasher_start_def hasher_put_def hasher_finish_def hasher_reset_def

subsection \<open>SSLSigner and SSLVerifier\<close>

record 'k ssl_signer =
  sg_key :: 'k
  sg_md :: string
  sg_len :: nat

definition ssl_signer_new :: "('x, 'k) openssl \<Rightarrow> int \<Rightarrow> string \<Rightarrow> string \<Rightarrow> 'k ssl_signer result" where
  "ssl_signer_new S type priv_key hash_name =
     bind_result (check (EVP_get_digestbyname S hash_name) SSLError) (\<lambda>_.
     case EVP_PKEY_new_raw_private_key S type priv_key of
       None \<Rightarrow> Inl SSLError
     | Some pkey \<Rightarrow>
         bind_result (check (EVP_DigestSignInit S pkey hash_name) SSLError) (\<lambda>_.
         case EVP_DigestSignFinal_size S pkey hash_name of
           None \<Rightarrow> Inl SSLError
         | Some n \<Rightarrow> Inr \<lparr>sg_key = pkey, sg_md = hash_name, sg_len = n\<rparr>))"

definition signature_size :: "'k ssl_signer \<Rightarrow> nat" where
  "signature_size sg = sg_len sg"

text \<open>\<open>sign\<close> passes a buffer length of 0 to \<open>EVP_DigestSign\<close> and checks the length that comes back.\<close>

definition signer_sign :: "('x, 'k) openssl \<Rightarrow> 'k ssl_signer \<Rightarrow> string \<Rightarrow> string result" where
  "signer_sign S sg d =
     (case EVP_DigestSign S (sg_key sg) (sg_md sg) d 0 of
        None \<Rightarrow> Inl SSLError
      | Some out \<Rightarrow> if length out \<noteq> sg_len sg then Inl SSLError else Inr out)"

record 'k ssl_verifier =
  vf_key :: 'k
  vf_md :: string

definition ssl_verifier_new :: "('x, 'k) openssl \<Rightarrow> 'k \<Rightarrow> string \<Rightarrow> 'k ssl_verifier result" where
  "ssl_verifier_new S pkey hash_name =
     bind_result (check (EVP_get_digestbyname S hash_name) SSLError) (\<lambda>_.
     bind_result (check (EVP_DigestVerifyInit S pkey hash_name) SSLError) (\<lambda>_.
     Inr \<lparr>vf_key = pkey, vf_md = hash_name\<rparr>))"

definition verifier_verify :: "('x, 'k) openssl \<Rightarrow> 'k ssl_verifier \<Rightarrow> string \<Rightarrow> string \<Rightarrow> bool result" where
  "verifier_verify S v d sig =
     (let res = EVP_DigestVerify S (vf_key v) (vf_md v) d sig
      in if res = 1 then Inr True else if res = 0 then Inr False else Inl SSLError)"

lemmas [crypto_defs] =
  ssl_signer_new_def signature_size_def signer_sign_def ssl_verifier_new_def verifier_verify_def

subsection \<open>The peer id\<close>

definition PEER_ID_HASH_ROUNDS :: nat where "PEER_ID_HASH_ROUNDS = 2 ^ 14"

text \<open>\<open>sizeof\<close> of a string constant counts its terminating NUL, so each seed ends in one.\<close>

definition PEER_ID_SEED_1 :: string where
  "PEER_ID_SEED_1 = ''834h804n82y387ynx2307ny8x70236n4786yn38923'' @ [CHR 0x00]"
definition PEER_ID_SEED_2 :: string where
  "PEER_ID_SEED_2 = ''83n1-9348yc5n780345mn83485mt483mtg7tm58c48'' @ [CHR 0x00]"
definition PEER_ID_SEED_3 :: string where
  "PEER_ID_SEED_3 = ''c45e654wv653w6537v6brftrxwqt56bf79n8t7f6f6'' @ [CHR 0x00]"
definition PEER_ID_SEED_4 :: string where
  "PEER_ID_SEED_4 = ''7b5es75nm698g098ym76e534xcw76v8r67bt9tbt6t'' @ [CHR 0x00]"

text \<open>Writing a digest into the caller's buffer leaves the bytes behind it as they are.\<close>

definition write_prefix :: "string \<Rightarrow> string \<Rightarrow> string" where
  "write_prefix d buf = d @ drop (length d) buf"

fun peer_id_rounds :: "('x, 'k) openssl \<Rightarrow> nat \<Rightarrow> nat \<Rightarrow> ssl_hasher \<Rightarrow> string \<Rightarrow> string result" where
  "peer_id_rounds S hash_size 0 hs buf = Inr buf"
| "peer_id_rounds S hash_size (Suc n) hs buf =
     bind_result (hasher_start S hs) (\<lambda>hs.
     bind_result (hasher_put (take hash_size buf) hs) (\<lambda>hs.
     bind_result (hasher_put PEER_ID_SEED_3 hs) (\<lambda>hs.
     bind_result (hasher_put (take hash_size buf) hs) (\<lambda>hs.
     bind_result (hasher_put PEER_ID_SEED_4 hs) (\<lambda>hs.
     bind_result (hasher_finish S hs) (\<lambda>(d, hs).
     peer_id_rounds S hash_size n hs (write_prefix d buf)))))))"

definition peer_id_from_hash :: "('x, 'k) openssl \<Rightarrow> string \<Rightarrow> string \<Rightarrow> string \<Rightarrow> (nat \<times> string) result" where
  "peer_id_from_hash S d hash_algo out_buf =
     bind_result (ssl_hasher_new S hash_algo) (\<lambda>hs.
     bind_result (hasher_digest_size S hs) (\<lambda>hash_size.
     bind_result (check (hash_size \<le> length out_buf) (InvalidArgument ''out_buf too small for peer id hash'')) (\<lambda>_.
     bind_result (hasher_start S hs) (\<lambda>hs.
     bind_result (hasher_put PEER_ID_SEED_1 hs) (\<lambda>hs.
     bind_result (hasher_put d hs) (\<lambda>hs.
     bind_result (hasher_put PEER_ID_SEED_2 hs) (\<lambda>hs.
     bind_result (hasher_finish S hs) (\<lambda>(dg, hs).
     bind_result (peer_id_rounds S hash_size PEER_ID_HASH_ROUNDS hs (write_prefix dg out_buf)) (\<lambda>buf.
     Inr (hash_size, buf))))))))))"

definition peer_id_from_pubkey :: "('x, 'k) openssl \<Rightarrow> 'k \<Rightarrow> string \<Rightarrow> string \<Rightarrow> (nat \<times> string) result" where
  "peer_id_from_pubkey S pubkey hash_algo out_buf =
     (case i2d_PUBKEY S pubkey of
        None \<Rightarrow> Inl SSLError
      | Some der \<Rightarrow> if der = [] then Inl SSLError else peer_id_from_hash S der hash_algo out_buf)"

definition peer_id_from_cert :: "('x, 'k) openssl \<Rightarrow> string \<Rightarrow> string \<Rightarrow> string \<Rightarrow> (nat \<times> string) result" where
  "peer_id_from_cert S cert hash_algo out_buf =
     (case d2i_X509 S cert of
        None \<Rightarrow> Inl SSLError
      | Some x509 \<Rightarrow>
          (case X509_get_pubkey S x509 of
             None \<Rightarrow> Inl SSLError
           | Some pubkey \<Rightarrow> peer_id_from_pubkey S pubkey hash_algo out_buf))"

text \<open>\<open>string_to_x509\<close>: no bytes give a null pointer, bytes that do not parse throw.\<close>

definition string_to_x509 :: "('x, 'k) openssl \<Rightarrow> string \<Rightarrow> 'x option result" where
  "string_to_x509 S der_data =
     (if der_data = [] then Inr None
      else case d2i_X509 S der_data of None \<Rightarrow> Inl SSLError | Some x \<Rightarrow> Inr (Some x))"

subsection \<open>The closed form of the peer id\<close>

definition peer_id_seeded :: "string \<Rightarrow> string" where
  "peer_id_seeded der = PEER_ID_SEED_1 @ der @ PEER_ID_SEED_2"

definition peer_id_round :: "(string \<Rightarrow> string) \<Rightarrow> string \<Rightarrow> string" where
  "peer_id_round H x = H (x @ PEER_ID_SEED_3 @ x @ PEER_ID_SEED_4)"

lemma write_prefix_same_length:
  "length d = length d' \<Longrightarrow> write_prefix d (d' @ r) = d @ r"
  by (simp add: write_prefix_def)

lemma peer_id_rounds_closed:
  assumes "hs_md hs = Some md" and "\<And>x. length (EVP_Digest S md x) = n" and "length x = n"
  shows "peer_id_rounds S n k hs (x @ r) = Inr ((peer_id_round (EVP_Digest S md) ^^ k) x @ r)"
  using assms(1,3)
proof (induction k arbitrary: hs x)
  case (Suc k)
  let ?f = "peer_id_round (EVP_Digest S md)"
  have len: "length (?f x) = length x" using assms(2) Suc.prems(2) by (simp add: peer_id_round_def)
  have step: "peer_id_rounds S n (Suc k) hs (x @ r) =
      peer_id_rounds S n k (hs\<lparr>hs_ctx := None\<rparr>) (?f x @ r)"
    using Suc.prems len by (simp add: crypto_defs peer_id_round_def write_prefix_same_length)
  have "peer_id_rounds S n k (hs\<lparr>hs_ctx := None\<rparr>) (?f x @ r) = Inr ((?f ^^ k) (?f x) @ r)"
    by (rule Suc.IH) (use Suc.prems len in simp_all)
  then show ?case by (simp only: step funpow_Suc_right o_apply)
qed simp

text \<open>Every way the hash of a peer id can go, in the order of the checks.\<close>

lemma peer_id_from_hash_cases:
  assumes "\<And>md x. length (EVP_Digest S md x) = EVP_MD_size S md"
  shows "peer_id_from_hash S der algo buf =
    (if \<not> EVP_get_digestbyname S algo then Inl SSLError
     else case stack_md S of
       None \<Rightarrow> Inl UndefinedBehaviour
     | Some md \<Rightarrow>
         if length buf < EVP_MD_size S md then Inl (InvalidArgument ''out_buf too small for peer id hash'')
         else Inr (EVP_MD_size S md,
           (peer_id_round (EVP_Digest S md) ^^ PEER_ID_HASH_ROUNDS) (EVP_Digest S md (peer_id_seeded der))
             @ drop (EVP_MD_size S md) buf))"
proof (cases "stack_md S")
  case (Some md)
  have wp: "write_prefix (EVP_Digest S md d) buf = EVP_Digest S md d @ drop (EVP_MD_size S md) buf" for d
    by (simp add: write_prefix_def assms)
  show ?thesis
    using Some
    by (simp add: peer_id_from_hash_def crypto_defs check_def peer_id_seeded_def wp not_less
        peer_id_rounds_closed [where md = md] assms)
qed (simp add: peer_id_from_hash_def crypto_defs check_def)

text \<open>
  The size of the id and the bytes written never exceed the caller's buffer, and what lies
  behind the digest is left alone.
\<close>

lemma peer_id_from_hash_bounds:
  assumes "\<And>md x. length (EVP_Digest S md x) = EVP_MD_size S md"
    and "peer_id_from_hash S der algo buf = Inr (n, out)"
  shows "n \<le> length buf" and "length out = length buf" and "drop n out = drop n buf"
proof -
  have len: "length ((peer_id_round (EVP_Digest S md) ^^ k) (EVP_Digest S md x)) = EVP_MD_size S md" for md k x
    by (cases k) (simp_all add: assms(1) peer_id_round_def)
  show "n \<le> length buf" "length out = length buf" "drop n out = drop n buf"
    using assms(2) unfolding peer_id_from_hash_cases [OF assms(1)]
    by (auto simp: len split: if_splits option.splits)
qed

subsection \<open>The properties of the wrappers\<close>

text \<open>
  The peer id of a certificate: a certificate that does not parse or has no key, and a key
  that has no DER form, throw; otherwise the id is the digest of the seeded DER key, hashed
  \<open>2 ^ 14\<close> more times with the other two seeds, written over the head of the caller's buffer.
  OpenSSL's digests are assumed to have the length that \<open>EVP_MD_size\<close> tells, as documented.
\<close>

theorem peer_id_from_cert_functional:
  assumes "\<And>md x. length (EVP_Digest S md x) = EVP_MD_size S md"
  shows "peer_id_from_cert S cert algo buf =
    (case Option.bind (d2i_X509 S cert) (\<lambda>x. Option.bind (X509_get_pubkey S x) (i2d_PUBKEY S)) of
       None \<Rightarrow> Inl SSLError
     | Some der \<Rightarrow>
         if der = [] \<or> \<not> EVP_get_digestbyname S algo then Inl SSLError
         else case stack_md S of
           None \<Rightarrow> Inl UndefinedBehaviour
         | Some md \<Rightarrow>
             if length buf < EVP_MD_size S md then Inl (InvalidArgument ''out_buf too small for peer id hash'')
             else Inr (EVP_MD_size S md,
               (peer_id_round (EVP_Digest S md) ^^ (2 ^ 14)) (EVP_Digest S md (peer_id_seeded der))
                 @ drop (EVP_MD_size S md) buf))"
  using assms
  by (simp add: peer_id_from_cert_def peer_id_from_pubkey_def peer_id_from_hash_cases PEER_ID_HASH_ROUNDS_def
      split: option.split)

text \<open>
  A library for concrete checks: a certificate is its own key, a digest one byte of the
  text, the signature of a text is the text with the key before it.
\<close>

definition toy_openssl :: "(string, string) openssl" where
  "toy_openssl = \<lparr>
     d2i_X509 = (\<lambda>d. if d = ''bad'' then None else Some d),
     X509_get_pubkey = (\<lambda>x. Some x),
     X509_authority_keyid = (\<lambda>x. if x = ''noaki'' then None else Some (Some ''A'')),
     X509_verify = (\<lambda>x k. if k = ''root'' then 1 else 0),
     i2d_PUBKEY = (\<lambda>k. Some k),
     EVP_get_digestbyname = (\<lambda>n. n = ''sha512''),
     EVP_MD_size = (\<lambda>md. 1),
     EVP_Digest = (\<lambda>md x. case drop 44 x of [] \<Rightarrow> ''0'' | c # cs \<Rightarrow> [c]),
     EVP_DigestVerifyInit = (\<lambda>k md. True),
     EVP_DigestVerify = (\<lambda>k md d s. if s = k @ d then 1 else if s = [] then -1 else 0),
     EVP_PKEY_new_raw_private_key = (\<lambda>t k. Some k),
     EVP_DigestSignInit = (\<lambda>k md. True),
     EVP_DigestSignFinal_size = (\<lambda>k md. Some 2),
     EVP_DigestSign = (\<lambda>k md d cap. if cap < length (k @ d) then None else Some (k @ d)),
     stack_md = Some ''sha512''\<rparr>"

lemma toy_openssl_simps [simp]:
  "d2i_X509 toy_openssl c = (if c = ''bad'' then None else Some c)"
  "X509_get_pubkey toy_openssl x = Some x"
  "X509_authority_keyid toy_openssl x = (if x = ''noaki'' then None else Some (Some ''A''))"
  "X509_verify toy_openssl x k = (if k = ''root'' then 1 else 0)"
  "i2d_PUBKEY toy_openssl k = Some k"
  "EVP_get_digestbyname toy_openssl n \<longleftrightarrow> n = ''sha512''"
  "EVP_MD_size toy_openssl md = 1"
  "EVP_Digest toy_openssl md s = (case drop 44 s of [] \<Rightarrow> ''0'' | c # cs \<Rightarrow> [c])"
  "EVP_DigestVerifyInit toy_openssl k md"
  "EVP_DigestVerify toy_openssl k md d s = (if s = k @ d then 1 else if s = [] then -1 else 0)"
  "EVP_DigestSign toy_openssl k md d cap = (if cap < length (k @ d) then None else Some (k @ d))"
  "stack_md toy_openssl = Some ''sha512''"
  by (simp_all add: toy_openssl_def)

lemma toy_digest_length: "length (EVP_Digest toy_openssl md x) = EVP_MD_size toy_openssl md"
  by (simp split: list.split)

theorem peer_id_from_cert_functional_witness:
  "peer_id_from_cert toy_openssl ''bad'' ''sha512'' ''xyz'' = Inl SSLError"
  by (subst peer_id_from_cert_functional [OF toy_digest_length]) simp

text \<open>
  The digest a peer id is computed with does not depend on the algorithm that the caller
  names: the constructor of the hasher stores the digest it looked up in a local variable that
  hides the member, and the member, which every later call reads, stays what it was.
\<close>

theorem peer_id_ignores_algorithm:
  assumes "EVP_get_digestbyname S algo" and "EVP_get_digestbyname S algo'"
  shows "peer_id_from_pubkey S k algo buf = peer_id_from_pubkey S k algo' buf"
  using assms
  by (simp add: peer_id_from_pubkey_def peer_id_from_hash_def ssl_hasher_new_def split: option.split)

theorem peer_id_ignores_algorithm_witness:
  "peer_id_from_pubkey (toy_openssl\<lparr>EVP_get_digestbyname := (\<lambda>_. True)\<rparr>) ''k'' ''sha1'' ''xyz'' =
   peer_id_from_pubkey (toy_openssl\<lparr>EVP_get_digestbyname := (\<lambda>_. True)\<rparr>) ''k'' ''sha512'' ''xyz''"
  by (rule peer_id_ignores_algorithm) simp_all

lemma verifier_verify_cases:
  "verifier_verify S v d s = Inr True \<longleftrightarrow> EVP_DigestVerify S (vf_key v) (vf_md v) d s = 1"
  "verifier_verify S v d s = Inr False \<longleftrightarrow> EVP_DigestVerify S (vf_key v) (vf_md v) d s = 0"
  by (simp_all add: verifier_verify_def Let_def)

text \<open>
  With a library that refuses a buffer shorter than the signature, as OpenSSL documents, \<open>sign\<close>
  never returns: it always passes a length of 0.
\<close>

lemma signer_sign_always_throws:
  assumes "\<And>k md d out cap. EVP_DigestSign S k md d cap = Some out \<Longrightarrow> length out \<le> cap"
    and "sg_len sg > 0"
  shows "signer_sign S sg d = Inl SSLError"
  using assms(2) assms(1) [of "sg_key sg" "sg_md sg" d 0]
  by (auto simp: signer_sign_def split: option.split)

end
