(* ===== verification/Messages.thy ===== *)
theory Messages
  imports Prelude
begin

text \<open>
  The messages of \<open>common/proto/net.proto\<close> and \<open>common/proto/message.proto\<close> that the code
  reads and writes: \<open>bytes\<close> fields are strings, \<open>uint32\<close> fields 32-bit words, a \<open>float\<close> field
  its 32 bits, a sub-message that may be absent an \<open>option\<close>, a \<open>oneof\<close> an \<open>option\<close> of a
  datatype with one constructor per member. Serialisation is protobuf's and a parameter.
\<close>

record ipv4_addr =
  v4_addr :: string
  v4_port :: "32 word"

record ipv6_addr =
  v6_addr :: string
  v6_port :: "32 word"

datatype ip_addr = Ipv4 ipv4_addr | Ipv6 ipv6_addr

record hole_punch_parameters =
  hp_src :: "ip_addr option"
  hp_dst :: "ip_addr option"
  hp_start_time_ms :: "64 word"
  hp_connect_sec_start :: "32 word"
  hp_connect_sec_max :: "32 word"
  hp_connect_sec_scale :: "32 word"
  hp_connect_count :: "32 word"

record minion_register =
  rg_id :: string
  rg_services :: "string list"
  rg_listen_ipv4 :: "ipv4_addr option"
  rg_listen_ipv6 :: "ipv6_addr option"

datatype message_m =
    Minion_register minion_register
  | Hole_punch hole_punch_parameters
  | Listen "ip_addr option"

record message_data =
  md_recipient_id :: string
  md_m :: "message_m option"
  md_has_recipient_cert :: bool

datatype send_message_status = StatusOK | REJECTED | DEST_NOT_FOUND | FAILED

record signed_message =
  sm_sender_id :: string
  sm_signature :: string
  sm_sender_cert :: string
  sm_data :: string
  sm_ttl :: int

definition empty_signed_message :: signed_message where
  "empty_signed_message =
     \<lparr>sm_sender_id = [], sm_signature = [], sm_sender_cert = [], sm_data = [], sm_ttl = 0\<rparr>"

definition empty_message_data :: message_data where
  "empty_message_data = \<lparr>md_recipient_id = [], md_m = None, md_has_recipient_cert = False\<rparr>"

text \<open>Protobuf's encoder and decoder of \<open>MessageData\<close>.\<close>

record protobuf =
  SerializeToString :: "message_data \<Rightarrow> string option"
  ParseFromString :: "string \<Rightarrow> message_data option"

end
