(* ===== verification/Auth_Store.thy ===== *)
theory Auth_Store
  imports Crypto Messages
begin

text \<open>
  The trust store (\<open>common/peer/store.cc\<close>) and the authentication of signed messages
  (\<open>common/peer/message.cc\<close>). The store holds the root authorities by their key id and the
  peers that one of them has certified by their peer id. A throw leaves the store as it was:
  every handler changes it in its last statement only.
\<close>

named_theorems store_defs \<open>the operations of the store\<close>

subsection \<open>State\<close>

record 'k peer_info =
  pi_last_update :: nat
  pi_cert :: string
  pi_verifier :: "'k ssl_verifier"

record 'k authority_info =
  ai_last_update :: nat
  ai_cert :: string
  ai_pubkey :: "'k option"

record 'k auth_store =
  as_self_id :: string
  as_self_cert :: string
  as_signer :: "'k ssl_signer option"
  as_root_authorities :: "string \<rightharpoonup> 'k authority_info"
  as_peers :: "string \<rightharpoonup> 'k peer_info"

definition auth_store_new :: "'k auth_store" where
  "auth_store_new = \<lparr>as_self_id = [], as_self_cert = [], as_signer = None,
     as_root_authorities = Map.empty, as_peers = Map.empty\<rparr>"

definition is_self :: "'k auth_store \<Rightarrow> string \<Rightarrow> bool" where
  "is_self st peer_id = (as_self_id st \<noteq> [] \<and> peer_id = as_self_id st)"

definition has_peer :: "'k auth_store \<Rightarrow> string \<Rightarrow> bool" where
  "has_peer st i = (as_peers st i \<noteq> None)"

subsection \<open>Authorities and peers\<close>

text \<open>\<open>now\<close> is what \<open>timespec_timestamp\<close> returns.\<close>

definition push_authority ::
    "('x, 'k) openssl \<Rightarrow> nat \<Rightarrow> string \<Rightarrow> string \<Rightarrow> 'k auth_store \<Rightarrow> 'k auth_store result" where
  "push_authority S now authority_id cert st =
     bind_result (string_to_x509 S cert) (\<lambda>x509_ptr.
     case x509_ptr of
       None \<Rightarrow> Inl SSLError
     | Some x509 \<Rightarrow>
         (case X509_get_pubkey S x509 of
            None \<Rightarrow> Inl SSLError
          | Some pubkey \<Rightarrow>
              Inr (st\<lparr>as_root_authorities := insert_or_assign authority_id
                     \<lparr>ai_last_update = now, ai_cert = cert, ai_pubkey = Some pubkey\<rparr>
                     (as_root_authorities st)\<rparr>)))"

definition find_authority_key :: "'k auth_store \<Rightarrow> string \<Rightarrow> 'k result" where
  "find_authority_key st authority_id =
     (case as_root_authorities st authority_id of
        None \<Rightarrow> Inl (RuntimeError ''unknown authority for peer cert'')
      | Some ai \<Rightarrow>
          (case ai_pubkey ai of
             None \<Rightarrow> Inl (RuntimeError ''authority has no cached public key'')
           | Some k \<Rightarrow> Inr k))"

definition cert_authority_id :: "('x, 'k) openssl \<Rightarrow> 'x \<Rightarrow> string result" where
  "cert_authority_id S x509 =
     (case X509_authority_keyid S x509 of
        None \<Rightarrow> Inl (RuntimeError ''peer cert missing authority key identifier'')
      | Some None \<Rightarrow> Inl (RuntimeError ''peer cert authority key identifier has empty keyid'')
      | Some (Some keyid) \<Rightarrow>
          if keyid = [] then Inl (RuntimeError ''peer cert authority key identifier has empty keyid'')
          else Inr keyid)"

text \<open>
  The id is computed into a buffer of \<open>512 / 8\<close> NUL bytes and cut to the length returned.
  \<open>std::string::resize\<close> pads with NUL bytes when the length exceeds the buffer.
\<close>

definition string_resize :: "nat \<Rightarrow> string \<Rightarrow> string" where
  "string_resize n s = take n s @ replicate (n - length s) (CHR 0x00)"

definition pubkey_peer_id :: "('x, 'k) openssl \<Rightarrow> 'k \<Rightarrow> string result" where
  "pubkey_peer_id S pubkey =
     bind_result (peer_id_from_pubkey S pubkey ''sha512'' (string_resize 64 [])) (\<lambda>(n, buf).
     Inr (string_resize n buf))"

definition push :: "('x, 'k) openssl \<Rightarrow> nat \<Rightarrow> string \<Rightarrow> 'k auth_store \<Rightarrow> 'k auth_store result" where
  "push S now cert st =
     bind_result (string_to_x509 S cert) (\<lambda>x509_ptr.
     case x509_ptr of
       None \<Rightarrow> Inl SSLError
     | Some x509 \<Rightarrow>
         (case X509_get_pubkey S x509 of
            None \<Rightarrow> Inl SSLError
          | Some pubkey \<Rightarrow>
              bind_result (cert_authority_id S x509) (\<lambda>authority_id.
              bind_result (find_authority_key st authority_id) (\<lambda>authority_pubkey.
              bind_result (check (X509_verify S x509 authority_pubkey = 1)
                (RuntimeError ''peer cert signature verification failed'')) (\<lambda>_.
              bind_result (pubkey_peer_id S pubkey) (\<lambda>i.
              bind_result (ssl_verifier_new S pubkey ''sha512'') (\<lambda>v.
              Inr (st\<lparr>as_peers := emplace i
                     \<lparr>pi_last_update = now, pi_cert = cert, pi_verifier = v\<rparr> (as_peers st)\<rparr>))))))))"

subsection \<open>Messages\<close>

definition validate_message :: "('x, 'k) openssl \<Rightarrow> 'k auth_store \<Rightarrow> signed_message \<Rightarrow> bool result" where
  "validate_message S st msg =
     (case as_peers st (sm_sender_id msg) of
        None \<Rightarrow> Inr False
      | Some p \<Rightarrow> verifier_verify S (pi_verifier p) (sm_data msg) (sm_signature msg))"

definition fillMessageData ::
    "('x, 'k) openssl \<Rightarrow> protobuf \<Rightarrow> signed_message \<Rightarrow> message_data \<Rightarrow> 'k ssl_signer \<Rightarrow> signed_message result" where
  "fillMessageData S P msg data signer =
     (case SerializeToString P data of
        None \<Rightarrow> Inl (InvalidArgument ''Serializing MessageData failed'')
      | Some d \<Rightarrow>
          bind_result (signer_sign S signer d) (\<lambda>sig.
          Inr (msg\<lparr>sm_data := d, sm_signature := sig\<rparr>)))"

definition getMessageData ::
    "('x, 'k) openssl \<Rightarrow> protobuf \<Rightarrow> signed_message \<Rightarrow> 'k ssl_verifier \<Rightarrow> message_data result" where
  "getMessageData S P msg verifier =
     bind_result (verifier_verify S verifier (sm_data msg) (sm_signature msg)) (\<lambda>ok.
     if \<not> ok then Inl (InvalidArgument ''Invalid signature'')
     else case ParseFromString P (sm_data msg) of
       None \<Rightarrow> Inl (InvalidArgument ''Parsing MessageData failed'')
     | Some d \<Rightarrow> Inr d)"

definition sign_message ::
    "('x, 'k) openssl \<Rightarrow> protobuf \<Rightarrow> 'k auth_store \<Rightarrow> message_data \<Rightarrow> string \<Rightarrow> bool \<Rightarrow> signed_message result" where
  "sign_message S P st message_data recipient_id add_cert =
     (let send_data = message_data\<lparr>md_recipient_id := recipient_id,
                        md_has_recipient_cert := has_peer st recipient_id\<rparr>;
          msg = empty_signed_message\<lparr>sm_sender_id := as_self_id st, sm_ttl := 4\<rparr>;
          msg = (if add_cert then msg\<lparr>sm_sender_cert := as_self_cert st\<rparr> else msg)
      in case as_signer st of
           None \<Rightarrow> Inl (RuntimeError ''AuthStore: no signing key configured'')
         | Some signer \<Rightarrow> fillMessageData S P msg send_data signer)"

datatype signed_payload_auth_result = AuthOk message_data | UnknownSender | BadSignature | BadPayload

definition authenticate_signed_message_data ::
    "('x, 'k) openssl \<Rightarrow> protobuf \<Rightarrow> 'k auth_store option \<Rightarrow> signed_message \<Rightarrow> signed_payload_auth_result result" where
  "authenticate_signed_message_data S P store msg =
     (case store of
        None \<Rightarrow> Inr UnknownSender
      | Some st \<Rightarrow>
          if \<not> has_peer st (sm_sender_id msg) then Inr UnknownSender
          else bind_result (validate_message S st msg) (\<lambda>ok.
            if \<not> ok then Inr BadSignature
            else case ParseFromString P (sm_data msg) of
              None \<Rightarrow> Inr BadPayload
            | Some d \<Rightarrow> Inr (AuthOk d)))"

subsection \<open>What a successful push means\<close>

lemma string_to_x509_Some:
  "string_to_x509 S cert = Inr (Some x) \<longleftrightarrow> cert \<noteq> [] \<and> d2i_X509 S cert = Some x"
  by (auto simp: string_to_x509_def split: option.splits)

lemma string_to_x509_None: "string_to_x509 S cert = Inr None \<longleftrightarrow> cert = []"
  by (auto simp: string_to_x509_def split: option.splits)

lemma cert_authority_id_iff:
  "cert_authority_id S x = Inr a \<longleftrightarrow> X509_authority_keyid S x = Some (Some a) \<and> a \<noteq> []"
  by (auto simp: cert_authority_id_def split: option.splits if_splits)

lemma find_authority_key_iff:
  "find_authority_key st a = Inr k \<longleftrightarrow> (\<exists>ai. as_root_authorities st a = Some ai \<and> ai_pubkey ai = Some k)"
  by (auto simp: find_authority_key_def split: option.splits)

lemma ssl_verifier_new_iff:
  "ssl_verifier_new S k md = Inr v \<longleftrightarrow>
    EVP_get_digestbyname S md \<and> EVP_DigestVerifyInit S k md \<and> v = \<lparr>vf_key = k, vf_md = md\<rparr>"
  by (auto simp: ssl_verifier_new_def check_def)

definition cert_key :: "('x, 'k) openssl \<Rightarrow> string \<Rightarrow> 'x \<Rightarrow> 'k \<Rightarrow> bool" where
  "cert_key S cert x k \<longleftrightarrow> cert \<noteq> [] \<and> d2i_X509 S cert = Some x \<and> X509_get_pubkey S x = Some k"

lemma push_authority_iff:
  "push_authority S now a cert st = Inr st' \<longleftrightarrow>
    (\<exists>x k. cert_key S cert x k \<and> st' = st\<lparr>as_root_authorities := (as_root_authorities st)
       (a \<mapsto> \<lparr>ai_last_update = now, ai_cert = cert, ai_pubkey = Some k\<rparr>)\<rparr>)"
  by (cases "cert = []"; cases "d2i_X509 S cert")
    (auto simp: push_authority_def result_simps cert_key_def insert_or_assign_def string_to_x509_def
      split: option.splits)

text \<open>What \<open>push\<close> demands of a certificate before it makes a peer of it.\<close>

definition peer_admitted :: "('x, 'k) openssl \<Rightarrow> 'k auth_store \<Rightarrow> string \<Rightarrow> string \<Rightarrow> 'k \<Rightarrow> bool" where
  "peer_admitted S st cert i k \<longleftrightarrow>
    (\<exists>x a ai ak. cert_key S cert x k \<and> X509_authority_keyid S x = Some (Some a) \<and> a \<noteq> [] \<and>
       as_root_authorities st a = Some ai \<and> ai_pubkey ai = Some ak \<and> X509_verify S x ak = 1 \<and>
       pubkey_peer_id S k = Inr i \<and> EVP_get_digestbyname S ''sha512'' \<and> EVP_DigestVerifyInit S k ''sha512'')"

lemma push_iff:
  "push S now cert st = Inr st' \<longleftrightarrow>
    (\<exists>i k. peer_admitted S st cert i k \<and>
       st' = st\<lparr>as_peers := emplace i \<lparr>pi_last_update = now, pi_cert = cert,
                  pi_verifier = \<lparr>vf_key = k, vf_md = ''sha512''\<rparr>\<rparr> (as_peers st)\<rparr>)"
  by (cases "cert = []"; cases "d2i_X509 S cert")
    (auto simp: push_def result_simps cert_key_def peer_admitted_def string_to_x509_def
      cert_authority_id_iff find_authority_key_iff ssl_verifier_new_iff split: option.splits)

subsection \<open>Histories of the store\<close>

datatype auth_op = PushAuthority nat string string | PushPeer nat string

text \<open>A caller that meets a throw goes on with the store as it was.\<close>

definition auth_step :: "('x, 'k) openssl \<Rightarrow> auth_op \<Rightarrow> 'k auth_store \<Rightarrow> 'k auth_store" where
  "auth_step S a st =
     (case (case a of PushAuthority now i cert \<Rightarrow> push_authority S now i cert st | PushPeer now cert \<Rightarrow> push S now cert st) of
        Inl _ \<Rightarrow> st | Inr st' \<Rightarrow> st')"

definition auth_run :: "('x, 'k) openssl \<Rightarrow> auth_op list \<Rightarrow> 'k auth_store \<Rightarrow> 'k auth_store" where
  "auth_run S ops st = fold (auth_step S) ops st"

lemma auth_run_snoc [simp]: "auth_run S (ops @ [a]) st = auth_step S a (auth_run S ops st)"
  by (simp add: auth_run_def)

lemma auth_run_Nil [simp]: "auth_run S [] st = st"
  by (simp add: auth_run_def)

definition authority_pushed :: "('x, 'k) openssl \<Rightarrow> auth_op list \<Rightarrow> string \<Rightarrow> 'k \<Rightarrow> bool" where
  "authority_pushed S ops a k \<longleftrightarrow> (\<exists>now cert x. PushAuthority now a cert \<in> set ops \<and> cert_key S cert x k)"

definition peer_certified :: "('x, 'k) openssl \<Rightarrow> auth_op list \<Rightarrow> string \<Rightarrow> 'k peer_info \<Rightarrow> bool" where
  "peer_certified S ops i p \<longleftrightarrow>
    (\<exists>now x k a ak. PushPeer now (pi_cert p) \<in> set ops \<and> cert_key S (pi_cert p) x k \<and>
       pi_verifier p = \<lparr>vf_key = k, vf_md = ''sha512''\<rparr> \<and> pubkey_peer_id S k = Inr i \<and>
       X509_authority_keyid S x = Some (Some a) \<and> a \<noteq> [] \<and>
       authority_pushed S ops a ak \<and> X509_verify S x ak = 1)"

definition store_trusted :: "('x, 'k) openssl \<Rightarrow> auth_op list \<Rightarrow> 'k auth_store \<Rightarrow> bool" where
  "store_trusted S ops st \<longleftrightarrow>
    (\<forall>a ai. as_root_authorities st a = Some ai \<longrightarrow> (\<exists>k. ai_pubkey ai = Some k \<and> authority_pushed S ops a k)) \<and>
    (\<forall>i p. as_peers st i = Some p \<longrightarrow> peer_certified S ops i p) \<and>
    as_signer st = None \<and> as_self_id st = []"

lemma authority_pushed_mono: "authority_pushed S ops a k \<Longrightarrow> authority_pushed S (ops @ ops') a k"
  by (auto simp: authority_pushed_def)

lemma peer_certified_mono: "peer_certified S ops i p \<Longrightarrow> peer_certified S (ops @ ops') i p"
  unfolding peer_certified_def using authority_pushed_mono by fastforce

lemma store_trusted_mono: "store_trusted S ops st \<Longrightarrow> store_trusted S (ops @ ops') st"
  unfolding store_trusted_def using authority_pushed_mono peer_certified_mono by metis

lemma store_trusted_push_authority:
  assumes "store_trusted S ops st" and "push_authority S now a cert st = Inr st'"
  shows "store_trusted S (ops @ [PushAuthority now a cert]) st'"
proof -
  obtain x k where k: "cert_key S cert x k" and st': "st' = st\<lparr>as_root_authorities := (as_root_authorities st)
       (a \<mapsto> \<lparr>ai_last_update = now, ai_cert = cert, ai_pubkey = Some k\<rparr>)\<rparr>"
    using assms(2) by (auto simp: push_authority_iff)
  have "authority_pushed S (ops @ [PushAuthority now a cert]) a k"
    using k by (auto simp: authority_pushed_def)
  then show ?thesis
    using store_trusted_mono [OF assms(1), of "[PushAuthority now a cert]"]
    by (auto simp: store_trusted_def st')
qed

lemma store_trusted_push:
  assumes "store_trusted S ops st" and "push S now cert st = Inr st'"
  shows "store_trusted S (ops @ [PushPeer now cert]) st'"
proof -
  obtain i k where adm: "peer_admitted S st cert i k"
    and st': "st' = st\<lparr>as_peers := emplace i \<lparr>pi_last_update = now, pi_cert = cert,
            pi_verifier = \<lparr>vf_key = k, vf_md = ''sha512''\<rparr>\<rparr> (as_peers st)\<rparr>"
    using assms(2) by (auto simp: push_iff)
  let ?ops = "ops @ [PushPeer now cert]"
  have T: "store_trusted S ?ops st" using store_trusted_mono [OF assms(1)] .
  have "peer_certified S ?ops i \<lparr>pi_last_update = now, pi_cert = cert,
            pi_verifier = \<lparr>vf_key = k, vf_md = ''sha512''\<rparr>\<rparr>"
    using adm T unfolding peer_admitted_def peer_certified_def store_trusted_def by fastforce
  then show ?thesis using T by (auto simp: store_trusted_def st')
qed

lemma auth_run_trusted: "store_trusted S ops (auth_run S ops auth_store_new)"
proof (induction ops rule: rev_induct)
  case Nil
  then show ?case by (simp add: store_trusted_def auth_store_new_def)
next
  case (snoc a ops)
  then show ?case
    by (auto simp: auth_step_def store_trusted_mono store_trusted_push_authority store_trusted_push
        split: auth_op.splits sum.splits)
qed

text \<open>Once known, a peer keeps its entry.\<close>

lemma auth_step_keeps_peer: "as_peers st i = Some p \<Longrightarrow> as_peers (auth_step S a st) i = Some p"
  by (auto simp: auth_step_def push_iff push_authority_iff split: auth_op.splits sum.splits)

lemma auth_run_keeps_peer: "as_peers st i = Some p \<Longrightarrow> as_peers (auth_run S ops st) i = Some p"
  by (induction ops rule: rev_induct) (simp_all add: auth_step_keeps_peer)

lemma authenticate_iff:
  "authenticate_signed_message_data S P store msg = Inr (AuthOk d) \<longleftrightarrow>
    (\<exists>st p. store = Some st \<and> as_peers st (sm_sender_id msg) = Some p \<and>
       EVP_DigestVerify S (vf_key (pi_verifier p)) (vf_md (pi_verifier p)) (sm_data msg) (sm_signature msg) = 1 \<and>
       ParseFromString P (sm_data msg) = Some d)"
  by (auto simp: authenticate_signed_message_data_def has_peer_def validate_message_def
      verifier_verify_cases result_simps split: option.splits)

subsection \<open>The properties of the store\<close>

text \<open>
  What the pushes alone say. \<open>latest_key\<close>: the key of the last certificate that was pushed for an
  authority and had one. \<open>certified\<close>: a certificate whose key has the peer id \<open>i\<close> and can verify
  signatures, signed by the latest key of the authority that it names.
\<close>

definition latest_key :: "('x, 'k) openssl \<Rightarrow> auth_op list \<Rightarrow> string \<Rightarrow> 'k \<Rightarrow> bool" where
  "latest_key S ops a k \<longleftrightarrow>
    (\<exists>pre now cert x suf. ops = pre @ PushAuthority now a cert # suf \<and> cert_key S cert x k
       \<and> (\<forall>now' cert' x' k'. PushAuthority now' a cert' \<in> set suf \<longrightarrow> \<not> cert_key S cert' x' k'))"

definition certified :: "('x, 'k) openssl \<Rightarrow> auth_op list \<Rightarrow> string \<Rightarrow> string \<Rightarrow> 'k \<Rightarrow> bool" where
  "certified S ops cert i k \<longleftrightarrow>
    (\<exists>x a ak. cert_key S cert x k \<and> X509_authority_keyid S x = Some (Some a) \<and> a \<noteq> []
       \<and> latest_key S ops a ak \<and> X509_verify S x ak = 1 \<and> pubkey_peer_id S k = Inr i
       \<and> EVP_get_digestbyname S ''sha512'' \<and> EVP_DigestVerifyInit S k ''sha512'')"

text \<open>\<open>first_certified\<close>: the push that entered the peer, with none for the same id before it.\<close>

definition first_certified :: "('x, 'k) openssl \<Rightarrow> auth_op list \<Rightarrow> string \<Rightarrow> 'k peer_info \<Rightarrow> bool" where
  "first_certified S ops i p \<longleftrightarrow>
    (\<exists>pre now cert suf k. ops = pre @ PushPeer now cert # suf \<and> certified S pre cert i k
       \<and> p = \<lparr>pi_last_update = now, pi_cert = cert, pi_verifier = \<lparr>vf_key = k, vf_md = ''sha512''\<rparr>\<rparr>
       \<and> (\<forall>pre' now' cert' suf' k'. pre = pre' @ PushPeer now' cert' # suf' \<longrightarrow> \<not> certified S pre' cert' i k'))"

lemma snoc_split:
  "ops @ [op] = pre @ y # suf \<longleftrightarrow> (suf = [] \<and> pre = ops \<and> y = op) \<or> (\<exists>suf'. suf = suf' @ [op] \<and> ops = pre @ y # suf')"
  by (cases suf rule: rev_cases) auto

lemma ex_snoc_split:
  "(\<exists>pre suf. ops @ [op] = pre @ y # suf \<and> P pre suf) \<longleftrightarrow>
    (y = op \<and> P ops []) \<or> (\<exists>pre suf. ops = pre @ y # suf \<and> P pre (suf @ [op]))"
  unfolding snoc_split by blast

lemma cert_key_fun: "cert_key S cert x k \<Longrightarrow> cert_key S cert x' k' \<Longrightarrow> x' = x \<and> k' = k"
  by (auto simp: cert_key_def)

lemma certified_fun: "certified S ops cert i k \<Longrightarrow> certified S ops cert i' k' \<Longrightarrow> i' = i \<and> k' = k"
  unfolding certified_def using cert_key_fun by fastforce

lemma latest_key_snoc:
  "latest_key S (ops @ [op]) a k \<longleftrightarrow>
    (case op of
       PushAuthority now a' cert \<Rightarrow>
         if a' = a \<and> (\<exists>x' k'. cert_key S cert x' k') then \<exists>x. cert_key S cert x k else latest_key S ops a k
     | PushPeer now cert \<Rightarrow> latest_key S ops a k)"
proof -
  have "latest_key S (ops @ [op]) a k \<longleftrightarrow>
      (\<exists>now cert x. op = PushAuthority now a cert \<and> cert_key S cert x k)
    \<or> (latest_key S ops a k \<and> (\<forall>now' cert' x' k'. op = PushAuthority now' a cert' \<longrightarrow> \<not> cert_key S cert' x' k'))"
  proof -
    let ?later = "\<lambda>ops. \<forall>now' cert' x' k'. PushAuthority now' a cert' \<in> set ops \<longrightarrow> \<not> cert_key S cert' x' k'"
    have alt: "latest_key S ops a k \<longleftrightarrow> (\<exists>now cert x. cert_key S cert x k
        \<and> (\<exists>pre suf. ops = pre @ PushAuthority now a cert # suf \<and> ?later suf))" for ops
      unfolding latest_key_def by blast
    have later: "?later (suf @ [op]) \<longleftrightarrow> ?later suf
        \<and> (\<forall>now' cert' x' k'. op = PushAuthority now' a cert' \<longrightarrow> \<not> cert_key S cert' x' k')" for suf
      by auto
    have none: "?later []" by simp
    show ?thesis unfolding alt ex_snoc_split later using none by blast
  qed
  then show ?thesis by (cases op) auto
qed

lemma auth_run_authorities:
  "(\<exists>ai. as_root_authorities (auth_run S ops auth_store_new) a = Some ai \<and> ai_pubkey ai = Some k) \<longleftrightarrow> latest_key S ops a k"
proof (induction ops rule: rev_induct)
  case Nil
  then show ?case by (simp add: auth_store_new_def latest_key_def)
next
  case (snoc op ops)
  show ?case
  proof (cases op)
    case (PushPeer now cert)
    then have "as_root_authorities (auth_step S op st) = as_root_authorities st" for st
      by (auto simp: auth_step_def push_iff split: sum.split)
    then show ?thesis using snoc.IH PushPeer by (simp add: latest_key_snoc)
  next
    case (PushAuthority now a' cert)
    show ?thesis
    proof (cases "\<exists>x k'. cert_key S cert x k'")
      case True
      then obtain x k' where c: "cert_key S cert x k'" by blast
      then have "push_authority S now a' cert st = Inr (st\<lparr>as_root_authorities := (as_root_authorities st)
          (a' \<mapsto> \<lparr>ai_last_update = now, ai_cert = cert, ai_pubkey = Some k'\<rparr>)\<rparr>)" for st
        by (auto simp: push_authority_iff)
      then have "auth_step S op st = st\<lparr>as_root_authorities := (as_root_authorities st)
          (a' \<mapsto> \<lparr>ai_last_update = now, ai_cert = cert, ai_pubkey = Some k'\<rparr>)\<rparr>" for st
        by (simp add: auth_step_def PushAuthority)
      note step = this
      have key: "(\<exists>x. cert_key S cert x k) \<longleftrightarrow> k = k'" using c cert_key_fun [OF c] by blast
      show ?thesis
      proof (cases "a' = a")
        case True
        then have "latest_key S (ops @ [op]) a k \<longleftrightarrow> k = k'" using c key by (auto simp: latest_key_snoc PushAuthority)
        then show ?thesis using True by (auto simp: step)
      next
        case False
        then have "latest_key S (ops @ [op]) a k \<longleftrightarrow> latest_key S ops a k" by (simp add: latest_key_snoc PushAuthority)
        then show ?thesis using snoc.IH False by (simp add: step)
      qed
    next
      case False
      then have "auth_step S op st = st" for st
        by (auto simp: auth_step_def PushAuthority push_authority_iff split: sum.split)
      then show ?thesis using snoc.IH False PushAuthority by (auto simp: latest_key_snoc)
    qed
  qed
qed

lemma admitted_iff_certified: "peer_admitted S (auth_run S ops auth_store_new) cert i k \<longleftrightarrow> certified S ops cert i k"
  unfolding peer_admitted_def certified_def auth_run_authorities [symmetric] by blast

lemma first_certified_snoc:
  "first_certified S (ops @ [op]) i p \<longleftrightarrow>
     first_certified S ops i p
   \<or> ((\<nexists>q. first_certified S ops i q) \<and> (\<exists>now cert k. op = PushPeer now cert \<and> certified S ops cert i k
        \<and> p = \<lparr>pi_last_update = now, pi_cert = cert, pi_verifier = \<lparr>vf_key = k, vf_md = ''sha512''\<rparr>\<rparr>))"
proof -
  have none: "(\<nexists>q. first_certified S ops i q) \<longleftrightarrow>
      (\<forall>pre' now' cert' suf' k'. ops = pre' @ PushPeer now' cert' # suf' \<longrightarrow> \<not> certified S pre' cert' i k')" (is "?l ops \<longleftrightarrow> ?r ops")
  proof (induction "length ops" arbitrary: ops rule: less_induct)
    case less
    show ?case
    proof
      assume l: "?l ops"
      show "?r ops"
      proof (intro allI impI notI)
        fix pre now cert suf k
        assume o: "ops = pre @ PushPeer now cert # suf" and c: "certified S pre cert i k"
        have "\<nexists>q. first_certified S pre i q"
        proof
          assume "\<exists>q. first_certified S pre i q"
          then obtain q where "first_certified S pre i q" ..
          then have "first_certified S ops i q" unfolding first_certified_def o by force
          then show False using l by blast
        qed
        then have "?r pre" using less [of pre] o by simp
        then have "first_certified S ops i \<lparr>pi_last_update = now, pi_cert = cert, pi_verifier = \<lparr>vf_key = k, vf_md = ''sha512''\<rparr>\<rparr>"
          unfolding first_certified_def using o c by blast
        then show False using l by blast
      qed
    next
      assume "?r ops"
      then show "?l ops" unfolding first_certified_def by blast
    qed
  qed
  let ?new = "\<lambda>now cert k. p = \<lparr>pi_last_update = now, pi_cert = cert, pi_verifier = \<lparr>vf_key = k, vf_md = ''sha512''\<rparr>\<rparr>"
  let ?none = "\<lambda>pre. \<forall>pre' now' cert' suf' k'. pre = pre' @ PushPeer now' cert' # suf' \<longrightarrow> \<not> certified S pre' cert' i k'"
  have alt: "first_certified S ops i p \<longleftrightarrow>
      (\<exists>now cert k. ?new now cert k \<and> (\<exists>pre suf. ops = pre @ PushPeer now cert # suf \<and> (certified S pre cert i k \<and> ?none pre)))" for ops
    unfolding first_certified_def by blast
  show ?thesis unfolding none unfolding alt ex_snoc_split by blast
qed

text \<open>
  C23. What a store holds, over every history of pushes: there is a peer under an id exactly when some
  certificate with that peer id was pushed that was signed, at that time, by the latest key pushed for the
  authority it names (and whose key can verify signatures), and its entry is the one that the first such
  push made: its time, its certificate and the verifier of its key. Nothing that is pushed later
  changes it, and no other push enters anything.
\<close>

theorem push_accepts_exactly:
  "as_peers (auth_run S ops auth_store_new) i = Some p \<longleftrightarrow> first_certified S ops i p"
proof (induction ops arbitrary: p rule: rev_induct)
  case Nil
  then show ?case by (simp add: auth_store_new_def first_certified_def)
next
  case (snoc op ops)
  let ?st = "auth_run S ops auth_store_new"
  show ?case
  proof (cases op)
    case (PushAuthority now a cert)
    then have "as_peers (auth_step S op st) = as_peers st" for st
      by (auto simp: auth_step_def push_authority_iff split: sum.split)
    then show ?thesis using snoc.IH PushAuthority by (simp add: first_certified_snoc)
  next
    case (PushPeer now cert)
    show ?thesis
    proof (cases "\<exists>j k. certified S ops cert j k")
      case False
      then have "auth_step S op ?st = ?st"
        by (auto simp: auth_step_def PushPeer push_iff admitted_iff_certified split: sum.split)
      then show ?thesis using snoc.IH False PushPeer by (auto simp: first_certified_snoc)
    next
      case True
      then obtain j k where c: "certified S ops cert j k" by blast
      have push: "push S now cert ?st = Inr (?st\<lparr>as_peers := emplace j \<lparr>pi_last_update = now, pi_cert = cert,
            pi_verifier = \<lparr>vf_key = k, vf_md = ''sha512''\<rparr>\<rparr> (as_peers ?st)\<rparr>)"
        unfolding push_iff admitted_iff_certified using c by blast
      have "as_peers (auth_step S op ?st) i = (if i = j \<and> as_peers ?st j = None
          then Some \<lparr>pi_last_update = now, pi_cert = cert, pi_verifier = \<lparr>vf_key = k, vf_md = ''sha512''\<rparr>\<rparr> else as_peers ?st i)"
        by (simp add: auth_step_def PushPeer push)
      moreover have "as_peers ?st i = None \<longleftrightarrow> (\<nexists>q. first_certified S ops i q)"
        using snoc.IH by (metis not_None_eq)
      moreover have "certified S ops cert i k' \<longleftrightarrow> i = j \<and> k' = k" for k' using certified_fun [OF c] c by blast
      ultimately show ?thesis using snoc.IH PushPeer by (auto simp: first_certified_snoc)
    qed
  qed
qed


text \<open>
  A known peer is never replaced: whatever is pushed afterwards, an expired or a
  compromised key included, messages keep being checked against the key that came first.
\<close>

theorem first_pushed_key_wins:
  assumes "as_peers st (sm_sender_id msg) = Some p"
  shows "validate_message S (auth_run S ops st) msg =
    verifier_verify S (pi_verifier p) (sm_data msg) (sm_signature msg)"
  using auth_run_keeps_peer [OF assms, of S ops] by (simp add: validate_message_def)

text \<open>
  Every outcome of the authentication of a message: an unknown sender, a signature that
  does not verify, an error of the verification, a payload that does not parse, or success.
\<close>

theorem authenticate_outcomes:
  "authenticate_signed_message_data S P store msg =
    (case Option.bind store (\<lambda>st. as_peers st (sm_sender_id msg)) of
       None \<Rightarrow> Inr UnknownSender
     | Some p \<Rightarrow>
         (let r = EVP_DigestVerify S (vf_key (pi_verifier p)) (vf_md (pi_verifier p)) (sm_data msg) (sm_signature msg)
          in if r = 1
             then Inr (case ParseFromString P (sm_data msg) of None \<Rightarrow> BadPayload | Some d \<Rightarrow> AuthOk d)
             else if r = 0 then Inr BadSignature else Inl SSLError))"
  by (auto simp: authenticate_signed_message_data_def has_peer_def validate_message_def
      verifier_verify_def Let_def split: option.split)

text \<open>
  What a store of this code can be asked to sign it refuses: no operation sets the signing
  key or the own id, so \<open>sign_message\<close> throws and \<open>is_self\<close> answers no for every peer.
\<close>

theorem reachable_store_never_signs:
  "sign_message S P (auth_run S ops auth_store_new) data recipient add_cert =
      Inl (RuntimeError ''AuthStore: no signing key configured'') \<and>
   \<not> is_self (auth_run S ops auth_store_new) i"
  using auth_run_trusted [of S ops]
  by (simp add: store_trusted_def sign_message_def is_self_def)

text \<open>
  Even with a signing key in the store no message is signed by a library that, as OpenSSL
  documents, refuses an output buffer shorter than the signature: \<open>SSLSigner::sign\<close> passes the
  length 0 whatever the size of the buffer it was given.
\<close>

theorem sign_message_throws:
  assumes "\<And>k md d out cap. EVP_DigestSign S k md d cap = Some out \<Longrightarrow> length out \<le> cap"
    and "as_signer st = Some sg" and "0 < signature_size sg"
  shows "\<exists>e. sign_message S P st data recipient add_cert = Inl e"
proof -
  have "signer_sign S sg d = Inl SSLError" for d
    by (rule signer_sign_always_throws) (use assms in \<open>auto simp: signature_size_def\<close>)
  then show ?thesis
    using assms(2) by (simp add: sign_message_def fillMessageData_def Let_def split: option.split)
qed

subsection \<open>Concrete runs\<close>

text \<open>
  The authority \<open>''A''\<close> with the key \<open>''root''\<close> certifies the peer with the key \<open>''pk''\<close>, whose id
  is \<open>''k''\<close>; the payload codec of these runs writes the recipient only.
\<close>

definition toy_protobuf :: protobuf where
  "toy_protobuf = \<lparr>
     SerializeToString = (\<lambda>m. if md_m m = None \<and> \<not> md_has_recipient_cert m then Some (md_recipient_id m) else None),
     ParseFromString = (\<lambda>s. Some (empty_message_data\<lparr>md_recipient_id := s\<rparr>))\<rparr>"

definition toy_history :: "auth_op list" where
  "toy_history = [PushAuthority 10 ''A'' ''root'', PushPeer 20 ''pk'']"

definition toy_peer :: "string peer_info" where
  "toy_peer = \<lparr>pi_last_update = 20, pi_cert = ''pk'', pi_verifier = \<lparr>vf_key = ''pk'', vf_md = ''sha512''\<rparr>\<rparr>"

lemma toy_round: "peer_id_round (EVP_Digest toy_openssl md) [c] = [c]"
  by (simp add: peer_id_round_def PEER_ID_SEED_3_def)

lemma toy_rounds: "(peer_id_round (EVP_Digest toy_openssl md) ^^ n) [c] = [c]"
  by (induction n) (simp_all only: funpow.simps id_apply o_apply toy_round)

lemma toy_pubkey_peer_id: "pubkey_peer_id toy_openssl ''pk'' = Inr ''k''"
proof -
  have "EVP_Digest toy_openssl md (peer_id_seeded ''pk'') = ''k''" for md
    by (simp add: peer_id_seeded_def PEER_ID_SEED_1_def)
  then have "peer_id_from_hash toy_openssl ''pk'' ''sha512'' (string_resize 64 []) =
      Inr (1, ''k'' @ drop 1 (string_resize 64 []))"
    by (simp add: peer_id_from_hash_cases [OF toy_digest_length] toy_rounds string_resize_def
        del: toy_openssl_simps(8))
  then show ?thesis
    by (simp add: pubkey_peer_id_def peer_id_from_pubkey_def string_resize_def)
qed

lemma toy_store:
  "auth_run toy_openssl toy_history auth_store_new =
     auth_store_new\<lparr>as_root_authorities := [''A'' \<mapsto> \<lparr>ai_last_update = 10, ai_cert = ''root'', ai_pubkey = Some ''root''\<rparr>],
       as_peers := [''k'' \<mapsto> toy_peer]\<rparr>"
proof -
  let ?st = "(auth_store_new :: string auth_store)\<lparr>as_root_authorities :=
     [''A'' \<mapsto> \<lparr>ai_last_update = 10, ai_cert = ''root'', ai_pubkey = Some ''root''\<rparr>]\<rparr>"
  have 1: "push_authority toy_openssl 10 ''A'' ''root'' auth_store_new = Inr ?st"
    by (simp add: push_authority_iff cert_key_def auth_store_new_def)
  have adm: "peer_admitted toy_openssl ?st ''pk'' ''k'' ''pk''"
    using toy_pubkey_peer_id by (simp add: peer_admitted_def cert_key_def)
  have 2: "push toy_openssl 20 ''pk'' ?st = Inr (?st\<lparr>as_peers := [''k'' \<mapsto> toy_peer]\<rparr>)"
    unfolding push_iff using adm by (intro exI conjI) (auto simp: toy_peer_def auth_store_new_def emplace_def)
  show ?thesis by (simp add: toy_history_def auth_run_def auth_step_def 1 2)
qed

definition toy_message :: signed_message where
  "toy_message = empty_signed_message\<lparr>sm_sender_id := ''k'', sm_data := ''hi'', sm_signature := ''pkhi''\<rparr>"

lemma toy_authenticates:
  "authenticate_signed_message_data toy_openssl toy_protobuf
     (Some (auth_run toy_openssl toy_history auth_store_new)) toy_message =
   Inr (AuthOk (empty_message_data\<lparr>md_recipient_id := ''hi''\<rparr>))"
  unfolding toy_store
  by (simp add: authenticate_iff toy_message_def toy_peer_def toy_protobuf_def empty_signed_message_def)


theorem push_accepts_exactly_witness:
  "first_certified toy_openssl toy_history ''k'' toy_peer"
  by (rule push_accepts_exactly [THEN iffD1]) (simp add: toy_store)

theorem first_pushed_key_wins_witness:
  "validate_message toy_openssl (auth_run toy_openssl [PushPeer 9 ''pk'', PushAuthority 3 ''A'' ''evil'']
     (auth_run toy_openssl toy_history auth_store_new)) toy_message = Inr True"
  by (subst first_pushed_key_wins [where p = toy_peer])
    (simp_all add: toy_store toy_message_def toy_peer_def empty_signed_message_def
      verifier_verify_def)

definition toy_signing_store :: "string auth_store" where
  "toy_signing_store = auth_store_new\<lparr>as_self_id := ''k'', as_self_cert := ''pk'',
     as_signer := Some \<lparr>sg_key = ''pk'', sg_md = ''sha512'', sg_len = 3\<rparr>\<rparr>"

theorem sign_message_throws_witness:
  "\<exists>e. sign_message toy_openssl toy_protobuf toy_signing_store empty_message_data ''r'' True = Inl e"
  by (rule sign_message_throws)
    (auto simp: toy_signing_store_def signature_size_def split: if_splits)

end
