(* ===== verification/Stream_Router.thy ===== *)
theory Stream_Router
  imports Auth_Store
begin

text \<open>
  The registry of open stream sessions (\<open>minion/message/stream_router.cc\<close>) and the choice of
  where a message goes (\<open>minion/message/recipient_dispatch.cc\<close>). The router knows a session
  only by the virtual methods of \<open>MessageStreamChannel\<close>, here a table of functions over the
  world \<open>'w\<close> the sessions live in; what it needs of them is the locale \<open>message_channel\<close>.
\<close>

subsection \<open>Channels\<close>

record ('h, 'w) channel_ops =
  ch_try_enqueue :: "'h \<Rightarrow> signed_message \<Rightarrow> 'w \<Rightarrow> bool \<times> 'w"
  ch_is_valid :: "'h \<Rightarrow> 'w \<Rightarrow> bool"

record ('k, 'h) stream_router =
  sr_by_peer :: "string \<rightharpoonup> 'h"
  sr_auth :: "'k auth_store option"

subsection \<open>The registry\<close>

definition register_session :: "string \<Rightarrow> 'h \<Rightarrow> ('k, 'h) stream_router \<Rightarrow> ('k, 'h) stream_router" where
  "register_session peer_id ch r = r\<lparr>sr_by_peer := insert_or_assign peer_id ch (sr_by_peer r)\<rparr>"

definition unregister_session :: "string \<Rightarrow> ('k, 'h) stream_router \<Rightarrow> ('k, 'h) stream_router" where
  "unregister_session peer_id r = r\<lparr>sr_by_peer := erase peer_id (sr_by_peer r)\<rparr>"

text \<open>A session that is no longer valid is dropped by the first lookup that meets it.\<close>

definition get_channel ::
    "('h, 'w) channel_ops \<Rightarrow> string \<Rightarrow> ('k, 'h) stream_router \<Rightarrow> 'w \<Rightarrow> 'h option \<times> ('k, 'h) stream_router" where
  "get_channel V peer_id r w =
     (case sr_by_peer r peer_id of
        None \<Rightarrow> (None, r)
      | Some ch \<Rightarrow>
          if \<not> ch_is_valid V ch w then (None, r\<lparr>sr_by_peer := erase peer_id (sr_by_peer r)\<rparr>)
          else (Some ch, r))"

definition route_to_recipient ::
    "('x, 'k) openssl \<Rightarrow> ('h, 'w) channel_ops \<Rightarrow> string \<Rightarrow> signed_message \<Rightarrow> ('k, 'h) stream_router \<Rightarrow> 'w
     \<Rightarrow> (bool \<times> ('k, 'h) stream_router \<times> 'w) result" where
  "route_to_recipient S V recipient_id msg r w =
     (case sr_auth r of
        None \<Rightarrow> Inr (False, r, w)
      | Some auth \<Rightarrow>
          if \<not> has_peer auth (sm_sender_id msg) then Inr (False, r, w)
          else bind_result (validate_message S auth msg) (\<lambda>valid.
            if \<not> valid then Inr (False, r, w)
            else case sr_by_peer r recipient_id of
              None \<Rightarrow> Inr (False, r, w)
            | Some ch \<Rightarrow>
                if \<not> ch_is_valid V ch w
                then Inr (False, r\<lparr>sr_by_peer := erase recipient_id (sr_by_peer r)\<rparr>, w)
                else (let (ok, w') = ch_try_enqueue V ch msg w in Inr (ok, r, w'))))"

datatype recipient_dispatch_action = DeliverLocal | Forwarded | NoRouteContinue

definition dispatch_signed_message_recipient ::
    "('x, 'k) openssl \<Rightarrow> ('h, 'w) channel_ops \<Rightarrow> 'k auth_store option \<Rightarrow> ('k, 'h) stream_router option \<Rightarrow>
     signed_message \<Rightarrow> message_data \<Rightarrow> 'w
     \<Rightarrow> (recipient_dispatch_action \<times> ('k, 'h) stream_router option \<times> 'w) result" where
  "dispatch_signed_message_recipient S V auth router msg data w =
     (case (auth, router) of
        (Some st, Some r) \<Rightarrow>
          (let dest = md_recipient_id data in
           if dest = [] then Inr (DeliverLocal, router, w)
           else if is_self st dest then Inr (DeliverLocal, router, w)
           else bind_result (route_to_recipient S V dest msg r w) (\<lambda>(ok, r', w').
             Inr (if ok then Forwarded else NoRouteContinue, Some r', w')))
      | _ \<Rightarrow> Inr (NoRouteContinue, router, w))"

subsection \<open>What the router needs of a channel\<close>

text \<open>
  \<open>queue\<close> observes the messages a channel has taken and not yet written. A valid channel takes
  a message at the end of its queue, and of its own queue only; taking one does not change
  which channels are valid.
\<close>

locale message_channel =
  fixes V :: "('h, 'w) channel_ops" and queue :: "'h \<Rightarrow> 'w \<Rightarrow> signed_message list"
  assumes enqueue_valid: "ch_is_valid V h w \<Longrightarrow> ch_try_enqueue V h m w = (ok, w') \<Longrightarrow> ok \<and> queue h w' = queue h w @ [m]"
    and enqueue_other: "ch_try_enqueue V h m w = (ok, w') \<Longrightarrow> h' \<noteq> h \<Longrightarrow> queue h' w' = queue h' w"
    and enqueue_validity: "ch_try_enqueue V h m w = (ok, w') \<Longrightarrow> ch_is_valid V h' w' = ch_is_valid V h' w"
begin

text \<open>The message is signed by a peer the router's store knows.\<close>

definition verified :: "('x, 'k) openssl \<Rightarrow> ('k, 'h) stream_router \<Rightarrow> signed_message \<Rightarrow> bool" where
  "verified S r msg \<longleftrightarrow> (\<exists>st. sr_auth r = Some st \<and> has_peer st (sm_sender_id msg) \<and> validate_message S st msg = Inr True)"

lemma try_enqueue_valid:
  "ch_is_valid V h w \<Longrightarrow> ch_try_enqueue V h m w = (True, snd (ch_try_enqueue V h m w))"
  using enqueue_valid [of h w m] by (metis (full_types) prod.collapse)

lemma route_not_verified:
  assumes "\<not> verified S r msg" and "route_to_recipient S V dest msg r w = Inr (ok, r', w')"
  shows "\<not> ok \<and> r' = r \<and> w' = w"
  using assms by (auto simp: route_to_recipient_def verified_def result_simps split: option.splits if_splits)

lemma route_verified:
  assumes "verified S r msg"
  shows "route_to_recipient S V dest msg r w =
    (case sr_by_peer r dest of
       None \<Rightarrow> Inr (False, r, w)
     | Some ch \<Rightarrow>
         if ch_is_valid V ch w then Inr (True, r, snd (ch_try_enqueue V ch msg w))
         else Inr (False, r\<lparr>sr_by_peer := erase dest (sr_by_peer r)\<rparr>, w))"
proof -
  obtain st where st: "sr_auth r = Some st" "has_peer st (sm_sender_id msg)" "validate_message S st msg = Inr True"
    using assms by (auto simp: verified_def)
  show ?thesis
  proof (cases "sr_by_peer r dest")
    case (Some ch)
    show ?thesis
      using st Some try_enqueue_valid [of ch w msg]
      by (cases "ch_try_enqueue V ch msg w") (simp add: route_to_recipient_def)
  qed (use st in \<open>simp add: route_to_recipient_def\<close>)
qed

lemma route_True_iff:
  "(\<exists>r' w'. route_to_recipient S V dest msg r w = Inr (True, r', w')) \<longleftrightarrow>
    verified S r msg \<and> (\<exists>ch. sr_by_peer r dest = Some ch \<and> ch_is_valid V ch w)"
proof (cases "verified S r msg")
  case False
  then show ?thesis using route_not_verified by blast
next
  case True
  then show ?thesis by (auto simp: route_verified split: option.splits)
qed

text \<open>A routed message is appended to one queue, the recipient's; otherwise nothing moves.\<close>

lemma route_delivers:
  assumes "route_to_recipient S V dest msg r w = Inr (True, r', w')"
  obtains ch where "sr_by_peer r dest = Some ch" and "ch_is_valid V ch w" and "r' = r"
    and "queue ch w' = queue ch w @ [msg]" and "\<And>h. h \<noteq> ch \<Longrightarrow> queue h w' = queue h w"
proof -
  have ver: "verified S r msg" using assms route_not_verified by blast
  obtain ch where ch: "sr_by_peer r dest = Some ch" "ch_is_valid V ch w" "r' = r" "w' = snd (ch_try_enqueue V ch msg w)"
    using assms by (auto simp: route_verified [OF ver] split: option.splits if_splits)
  show thesis
    using that ch enqueue_valid [OF ch(2) try_enqueue_valid [OF ch(2)]]
      enqueue_other [OF try_enqueue_valid [OF ch(2)]] by blast
qed

lemma route_False:
  assumes "route_to_recipient S V dest msg r w = Inr (False, r', w')"
  shows "w' = w" and "r' = r \<or> r' = r\<lparr>sr_by_peer := erase dest (sr_by_peer r)\<rparr>"
  using assms
  by (cases "verified S r msg"; auto simp: route_verified dest: route_not_verified split: option.splits if_splits)+

lemma route_keeps_validity:
  assumes "route_to_recipient S V dest msg r w = Inr (ok, r', w')"
  shows "ch_is_valid V h w' = ch_is_valid V h w"
proof (cases "verified S r msg")
  case True
  then show ?thesis
    using assms enqueue_validity [OF try_enqueue_valid]
    by (auto simp: route_verified split: option.splits if_splits)
qed (use assms route_not_verified in blast)

text \<open>A lookup answers with a valid session or none, and never drops a valid one.\<close>

lemma get_channel_effect:
  assumes "get_channel V i r w = (res, r')"
  shows "res = (case sr_by_peer r i of Some ch \<Rightarrow> if ch_is_valid V ch w then Some ch else None | None \<Rightarrow> None)"
    and "sr_by_peer r' j = (if j = i then res else sr_by_peer r j)"
  using assms by (auto simp: get_channel_def split: option.splits if_splits)

end

end
