(* ===== verification/Message_Stream.thy ===== *)
theory Message_Stream
  imports Stream_Router Grpc_Callback
begin

text \<open>
  The bidirectional message stream (\<open>minion/message/message_stream.cc\<close>): each handler is a
  completion-queue handler and a channel of the router. The world holds the handlers, the
  one router and the one store they share, and the exception that left \<open>process\<close> and with
  it the server's loop, if one did.
\<close>

named_theorems ms_defs \<open>the handler's methods\<close>

subsection \<open>State\<close>

record ms_handler = stream_base +
  ms_pending :: pending_op
  ms_request :: signed_message
  ms_response :: signed_message
  ms_outbound :: "signed_message list"
  ms_write_pending :: bool
  ms_closing_after_writes :: bool
  ms_session_active :: bool
  ms_registered_peer_id :: string
  ms_self_ref :: bool

record 'k ms_world = "(ms_handler, signed_message) cq_world" +
  sw_auth :: "'k auth_store option"
  sw_router :: "('k, nat) stream_router option"
  sw_error :: "exn option"

definition ms_handler_new :: ms_handler where
  "ms_handler_new = \<lparr>sb_phase = KInitial, ms_pending = KRead, ms_request = empty_signed_message,
     ms_response = empty_signed_message, ms_outbound = [], ms_write_pending = False,
     ms_closing_after_writes = False, ms_session_active = False, ms_registered_peer_id = [], ms_self_ref = False\<rparr>"

text \<open>The copy constructor and \<open>attach_shared\<close>.\<close>

definition ms_clone :: "ms_handler \<Rightarrow> ms_handler" where
  "ms_clone s = ms_handler_new\<lparr>ms_self_ref := True\<rparr>"

definition ms_update :: "nat \<Rightarrow> (ms_handler \<Rightarrow> ms_handler) \<Rightarrow> 'k ms_world \<Rightarrow> 'k ms_world" where
  "ms_update h f w =
     (case cq_handlers w h of None \<Rightarrow> w\<lparr>cq_dangling := True\<rparr> | Some s \<Rightarrow> set_handler h (f s) w)"

subsection \<open>The channel\<close>

definition ms_enqueue_outgoing :: "nat \<Rightarrow> signed_message \<Rightarrow> 'k ms_world \<Rightarrow> bool \<times> 'k ms_world" where
  "ms_enqueue_outgoing h msg w =
     (case cq_handlers w h of
        None \<Rightarrow> (True, w\<lparr>cq_dangling := True\<rparr>)
      | Some s \<Rightarrow>
          (let s1 = s\<lparr>ms_outbound := ms_outbound s @ [msg]\<rparr>
           in if \<not> ms_write_pending s1
              then (let s2 = s1\<lparr>ms_response := hd (ms_outbound s1), ms_write_pending := True, ms_pending := KWrite\<rparr>
                    in (True, issue h (OpWrite (ms_response s2)) (set_handler h s2 w)))
              else (True, set_handler h s1 w)))"

definition ms_is_valid :: "nat \<Rightarrow> 'k ms_world \<Rightarrow> bool" where
  "ms_is_valid h w = (case cq_handlers w h of None \<Rightarrow> False | Some s \<Rightarrow> ms_session_active s)"

definition ms_channel :: "(nat, 'k ms_world) channel_ops" where
  "ms_channel = \<lparr>ch_try_enqueue = ms_enqueue_outgoing, ch_is_valid = ms_is_valid\<rparr>"

definition ms_queue :: "nat \<Rightarrow> 'k ms_world \<Rightarrow> signed_message list" where
  "ms_queue h w = (case cq_handlers w h of None \<Rightarrow> [] | Some s \<Rightarrow> ms_outbound s)"

lemma ms_channel_simps [simp]:
  "ch_try_enqueue ms_channel = ms_enqueue_outgoing" "ch_is_valid ms_channel = ms_is_valid"
  by (simp_all add: ms_channel_def)

interpretation ms: message_channel ms_channel ms_queue
  by unfold_locales
    (auto simp: ms_enqueue_outgoing_def ms_is_valid_def ms_queue_def Let_def split: option.splits if_splits)

subsection \<open>Registration and teardown\<close>

definition ms_unregister_if_registered :: "nat \<Rightarrow> 'k ms_world \<Rightarrow> 'k ms_world" where
  "ms_unregister_if_registered h w =
     (case cq_handlers w h of
        None \<Rightarrow> w\<lparr>cq_dangling := True\<rparr>
      | Some s \<Rightarrow>
          (case sw_router w of
             Some r \<Rightarrow>
               if ms_registered_peer_id s \<noteq> []
               then set_handler h (s\<lparr>ms_registered_peer_id := []\<rparr>)
                      (w\<lparr>sw_router := Some (unregister_session (ms_registered_peer_id s) r)\<rparr>)
               else w
           | None \<Rightarrow> w))"

definition ms_complete_after_stream_finish :: "nat \<Rightarrow> 'k ms_world \<Rightarrow> 'k ms_world" where
  "ms_complete_after_stream_finish h w =
     ms_update h (\<lambda>s. s\<lparr>ms_self_ref := False\<rparr>)
       (ms_unregister_if_registered h (ms_update h (\<lambda>s. s\<lparr>ms_session_active := False\<rparr>) w))"

definition ms_on_stream_connect_failed :: "nat \<Rightarrow> 'k ms_world \<Rightarrow> 'k ms_world" where
  "ms_on_stream_connect_failed h w =
     ms_update h (\<lambda>s. s\<lparr>ms_self_ref := False\<rparr>)
       (ms_unregister_if_registered h (ms_update h (\<lambda>s. s\<lparr>ms_session_active := False\<rparr>) w))"

definition ms_on_stream_rpc_connected :: "nat \<Rightarrow> 'k ms_world \<Rightarrow> 'k ms_world" where
  "ms_on_stream_rpc_connected h w =
     issue h OpRead (ms_update h (\<lambda>s. s\<lparr>ms_session_active := True, ms_pending := KRead\<rparr>) w)"

definition ms_finish :: "nat \<Rightarrow> grpc_status \<Rightarrow> 'k ms_world \<Rightarrow> 'k ms_world" where
  "ms_finish h st w = issue h (OpFinish st) (ms_update h (\<lambda>s. s\<lparr>ms_pending := KFinish\<rparr>) w)"

definition ms_begin_shutdown_after_read_closed :: "nat \<Rightarrow> 'k ms_world \<Rightarrow> 'k ms_world" where
  "ms_begin_shutdown_after_read_closed h w =
     (let w1 = ms_unregister_if_registered h (ms_update h (\<lambda>s. s\<lparr>ms_session_active := False\<rparr>) w)
      in case cq_handlers w1 h of
           None \<Rightarrow> w1\<lparr>cq_dangling := True\<rparr>
         | Some s \<Rightarrow>
             (let w2 = set_handler h (s\<lparr>ms_outbound := [], ms_closing_after_writes := ms_write_pending s\<rparr>) w1
              in if \<not> ms_write_pending s then ms_finish h Status_OK w2 else w2))"

definition ms_shutdown_with_status :: "nat \<Rightarrow> grpc_status \<Rightarrow> 'k ms_world \<Rightarrow> 'k ms_world" where
  "ms_shutdown_with_status h st w =
     ms_finish h st
       (ms_update h (\<lambda>s. s\<lparr>ms_outbound := [], ms_write_pending := False, ms_closing_after_writes := False\<rparr>)
         (ms_unregister_if_registered h (ms_update h (\<lambda>s. s\<lparr>ms_session_active := False\<rparr>) w)))"

subsection \<open>Completions\<close>

definition ms_handle_incoming_message ::
    "('x, 'k) openssl \<Rightarrow> protobuf \<Rightarrow> nat \<Rightarrow> ms_handler \<Rightarrow> 'k ms_world \<Rightarrow> (bool \<times> 'k ms_world) result" where
  "ms_handle_incoming_message S P h s w =
     (let req = ms_request s in
      bind_result (authenticate_signed_message_data S P (sw_auth w) req) (\<lambda>auth.
      case auth of
        AuthOk data \<Rightarrow>
          (case sw_router w of
             None \<Rightarrow> Inr (False, w)
           | Some r \<Rightarrow>
               (let w1 = set_handler h (s\<lparr>ms_registered_peer_id := sm_sender_id req\<rparr>)
                           (w\<lparr>sw_router := Some (register_session (sm_sender_id req) h r)\<rparr>)
                in bind_result (dispatch_signed_message_recipient S ms_channel (sw_auth w1) (sw_router w1) req data w1)
                     (\<lambda>(action, router', w2).
                        let w3 = w2\<lparr>sw_router := router'\<rparr>
                        in case action of
                             DeliverLocal \<Rightarrow> Inr (True, snd (ms_enqueue_outgoing h req w3))
                           | Forwarded \<Rightarrow> Inr (True, w3)
                           | NoRouteContinue \<Rightarrow> Inr (True, w3))))
      | _ \<Rightarrow> Inr (False, w)))"

definition ms_rejected :: grpc_status where
  "ms_rejected = UNAUTHENTICATED ''stream message rejected (unknown sender or invalid signature)''"

definition ms_handle_read_completion ::
    "('x, 'k) openssl \<Rightarrow> protobuf \<Rightarrow> nat \<Rightarrow> bool \<Rightarrow> ms_handler \<Rightarrow> 'k ms_world \<Rightarrow> 'k ms_world result" where
  "ms_handle_read_completion S P h ok s w =
     (if \<not> ok then Inr (ms_begin_shutdown_after_read_closed h w)
      else bind_result (ms_handle_incoming_message S P h s w) (\<lambda>(accepted, w1).
        if \<not> accepted then Inr (ms_shutdown_with_status h ms_rejected w1)
        else Inr (issue h OpRead (ms_update h (\<lambda>s. s\<lparr>ms_pending := KRead\<rparr>) w1))))"

text \<open>\<open>pop_front\<close> of an empty deque is undefined.\<close>

definition ms_handle_write_completion :: "nat \<Rightarrow> bool \<Rightarrow> ms_handler \<Rightarrow> 'k ms_world \<Rightarrow> 'k ms_world result" where
  "ms_handle_write_completion h ok s w =
     (if \<not> ok then
        (let w1 = set_handler h (s\<lparr>ms_outbound := [], ms_write_pending := False, ms_closing_after_writes := False\<rparr>) w
         in Inr (if ms_closing_after_writes s then ms_finish h Status_OK w1 else w1))
      else case ms_outbound s of
        [] \<Rightarrow> Inl UndefinedBehaviour
      | _ # front # rest \<Rightarrow>
          Inr (issue h (OpWrite front)
            (set_handler h (s\<lparr>ms_outbound := front # rest, ms_response := front, ms_pending := KWrite\<rparr>) w))
      | [_] \<Rightarrow>
          (let w1 = set_handler h (s\<lparr>ms_outbound := [], ms_write_pending := False, ms_closing_after_writes := False\<rparr>) w
           in Inr (if ms_closing_after_writes s then ms_finish h Status_OK w1 else w1)))"

definition ms_on_completion ::
    "('x, 'k) openssl \<Rightarrow> protobuf \<Rightarrow> nat \<Rightarrow> bool \<Rightarrow> 'k ms_world \<Rightarrow> 'k ms_world" where
  "ms_on_completion S P h ok w =
     (case cq_handlers w h of
        None \<Rightarrow> w\<lparr>cq_dangling := True\<rparr>
      | Some s \<Rightarrow>
          (case (case ms_pending s of
                   KRead \<Rightarrow> ms_handle_read_completion S P h ok s w
                 | KWrite \<Rightarrow> ms_handle_write_completion h ok s w
                 | KFinish \<Rightarrow> Inr (ms_complete_after_stream_finish h w)) of
             Inl e \<Rightarrow> w\<lparr>sw_error := Some e\<rparr>
           | Inr w' \<Rightarrow> w'))"

definition ms_vtable :: "('x, 'k) openssl \<Rightarrow> protobuf \<Rightarrow> (ms_handler, signed_message, 'k ms_world) stream_vtable" where
  "ms_vtable S P =
     \<lparr>vt_clone = ms_clone, vt_set_request = (\<lambda>m s. s\<lparr>ms_request := m\<rparr>),
      vt_on_stream_rpc_connected = ms_on_stream_rpc_connected,
      vt_on_stream_connect_failed = ms_on_stream_connect_failed,
      vt_on_completion = ms_on_completion S P\<rparr>"

lemma ms_vtable_simps [simp]:
  "vt_clone (ms_vtable S P) = ms_clone"
  "vt_set_request (ms_vtable S P) m s = s\<lparr>ms_request := m\<rparr>"
  "vt_on_stream_rpc_connected (ms_vtable S P) = ms_on_stream_rpc_connected"
  "vt_on_stream_connect_failed (ms_vtable S P) = ms_on_stream_connect_failed"
  "vt_on_completion (ms_vtable S P) = ms_on_completion S P"
  by (simp_all add: ms_vtable_def)

text \<open>
  A handler is freed when its last \<open>shared_ptr\<close> goes: it has given up its own, and the router
  has none under any peer id.
\<close>

definition ms_collect :: "'k ms_world \<Rightarrow> 'k ms_world" where
  "ms_collect w = w\<lparr>cq_handlers := (\<lambda>h.
     case cq_handlers w h of
       None \<Rightarrow> None
     | Some s \<Rightarrow>
         if ms_self_ref s \<or> (\<exists>r. sw_router w = Some r \<and> h \<in> ran (sr_by_peer r)) then Some s else None)\<rparr>"

definition ms_step ::
    "('x, 'k) openssl \<Rightarrow> protobuf \<Rightarrow> nat \<Rightarrow> bool \<times> signed_message \<Rightarrow> 'k ms_world \<Rightarrow> 'k ms_world" where
  "ms_step S P i ev w =
     (if sw_error w \<noteq> None then w else ms_collect (stream_loop_step (ms_vtable S P) i ev w))"

definition start_message_stream_acceptor ::
    "('x, 'k) openssl \<Rightarrow> protobuf \<Rightarrow> 'k auth_store option \<Rightarrow> ('k, nat) stream_router option \<Rightarrow> 'k ms_world" where
  "start_message_stream_acceptor S P auth router =
     stream_prime (ms_vtable S P) (ms_clone ms_handler_new)
       \<lparr>cq_handlers = (\<lambda>_. None), cq_next_id = 0, cq_outstanding = [], cq_issued = [], cq_deferred = [],
        cq_dangling = False, sw_auth = auth, sw_router = router, sw_error = None\<rparr>"

definition ms_run ::
    "('x, 'k) openssl \<Rightarrow> protobuf \<Rightarrow> 'k auth_store option \<Rightarrow> (nat \<times> bool \<times> signed_message) list \<Rightarrow> 'k ms_world" where
  "ms_run S P auth evs =
     run_events (ms_step S P) (\<lambda>w. length (cq_outstanding w))
       (start_message_stream_acceptor S P auth (Some \<lparr>sr_by_peer = Map.empty, sr_auth = auth\<rparr>)) evs"

subsection \<open>Only authenticated messages move\<close>

lemma sw_ops [simp, cq_simps]:
  "sw_auth (issue h op w) = sw_auth w" "sw_auth (set_handler h s w) = sw_auth w"
  "sw_auth (alloc_handler s w) = sw_auth w" "sw_auth (take_op i w) = sw_auth w"
  "sw_auth (grpc_run_deferred_handler_destroys w) = sw_auth w"
  "sw_router (issue h op w) = sw_router w" "sw_router (set_handler h s w) = sw_router w"
  "sw_router (alloc_handler s w) = sw_router w" "sw_router (take_op i w) = sw_router w"
  "sw_router (grpc_run_deferred_handler_destroys w) = sw_router w"
  "sw_error (issue h op w) = sw_error w" "sw_error (set_handler h s w) = sw_error w"
  "sw_error (alloc_handler s w) = sw_error w" "sw_error (take_op i w) = sw_error w"
  "sw_error (grpc_run_deferred_handler_destroys w) = sw_error w"
  by (simp_all add: issue_def set_handler_def alloc_handler_def take_op_def grpc_run_deferred_handler_destroys_def)

definition authentic :: "('x, 'k) openssl \<Rightarrow> protobuf \<Rightarrow> 'k auth_store option \<Rightarrow> signed_message \<Rightarrow> bool" where
  "authentic S P a m \<longleftrightarrow> (\<exists>d. authenticate_signed_message_data S P a m = Inr (AuthOk d))"

definition known_peer :: "'k auth_store option \<Rightarrow> string \<Rightarrow> bool" where
  "known_peer a i \<longleftrightarrow> (\<exists>st. a = Some st \<and> has_peer st i)"

definition ms_safe :: "('x, 'k) openssl \<Rightarrow> protobuf \<Rightarrow> 'k auth_store option \<Rightarrow> 'k ms_world \<Rightarrow> bool" where
  "ms_safe S P a w \<longleftrightarrow>
     sw_auth w = a
   \<and> (\<forall>h m. (h, OpWrite m) \<in> set (cq_issued w) \<longrightarrow> authentic S P a m)
   \<and> (\<forall>h s m. cq_handlers w h = Some s \<longrightarrow> m \<in> set (ms_outbound s) \<longrightarrow> authentic S P a m)
   \<and> (\<forall>r i h. sw_router w = Some r \<longrightarrow> sr_by_peer r i = Some h \<longrightarrow> known_peer a i)"

lemma ms_safeD:
  assumes "ms_safe S P a w"
  shows "sw_auth w = a"
    and "(h, OpWrite m) \<in> set (cq_issued w) \<Longrightarrow> authentic S P a m"
    and "cq_handlers w h = Some s \<Longrightarrow> m \<in> set (ms_outbound s) \<Longrightarrow> authentic S P a m"
    and "sw_router w = Some r \<Longrightarrow> sr_by_peer r i = Some h \<Longrightarrow> known_peer a i"
  using assms by (auto simp: ms_safe_def)

lemma authentic_known: "authentic S P a m \<Longrightarrow> known_peer a (sm_sender_id m)"
  by (auto simp: authentic_def known_peer_def authenticate_iff has_peer_def)

text \<open>The ways a method may change the world and keep it safe.\<close>

lemma ms_safe_issue:
  assumes "ms_safe S P a w" and "\<And>m. op = OpWrite m \<Longrightarrow> authentic S P a m"
  shows "ms_safe S P a (issue h op w)"
  using assms by (auto simp: ms_safe_def)

lemma ms_safe_set_handler:
  assumes "ms_safe S P a w" and "\<And>m. m \<in> set (ms_outbound s) \<Longrightarrow> authentic S P a m"
  shows "ms_safe S P a (set_handler h s w)"
  using assms by (auto simp: ms_safe_def)

lemma ms_safe_alloc:
  assumes "ms_safe S P a w" and "ms_outbound s = []"
  shows "ms_safe S P a (alloc_handler s w)"
  using assms by (auto simp: ms_safe_def)

lemma ms_safe_router:
  assumes "ms_safe S P a w"
    and "\<And>r i h. router = Some r \<Longrightarrow> sr_by_peer r i = Some h \<Longrightarrow> known_peer a i"
  shows "ms_safe S P a (w\<lparr>sw_router := router\<rparr>)"
  using assms by (auto simp: ms_safe_def)

lemma ms_safe_flags [simp]:
  "ms_safe S P a (w\<lparr>cq_dangling := b\<rparr>) = ms_safe S P a w"
  "ms_safe S P a (w\<lparr>sw_error := e\<rparr>) = ms_safe S P a w"
  "ms_safe S P a (take_op i w) = ms_safe S P a w"
  by (simp_all add: ms_safe_def)

lemma ms_safe_collect: "ms_safe S P a w \<Longrightarrow> ms_safe S P a (ms_collect w)"
  by (auto simp: ms_safe_def ms_collect_def split: option.splits if_splits)

lemma ms_safe_destroys: "ms_safe S P a w \<Longrightarrow> ms_safe S P a (grpc_run_deferred_handler_destroys w)"
  by (auto simp: ms_safe_def split: if_splits)

lemma ms_safe_update:
  assumes "ms_safe S P a w" and "\<And>s. set (ms_outbound (f s)) \<subseteq> set (ms_outbound s)"
  shows "ms_safe S P a (ms_update h f w)"
  using assms(1) ms_safeD(3) [OF assms(1)] assms(2) [THEN subsetD]
  by (auto simp: ms_update_def intro!: ms_safe_set_handler split: option.splits)

lemma ms_safe_unregister: "ms_safe S P a w \<Longrightarrow> ms_safe S P a (ms_unregister_if_registered h w)"
  by (auto simp: ms_unregister_if_registered_def unregister_session_def
      intro!: ms_safe_set_handler ms_safe_router dest: ms_safeD split: option.splits if_splits)

lemma ms_safe_enqueue:
  assumes "ms_safe S P a w" and "authentic S P a m"
  shows "ms_safe S P a (snd (ms_enqueue_outgoing h m w))"
proof (cases "cq_handlers w h")
  case None
  then show ?thesis using assms by (simp add: ms_enqueue_outgoing_def)
next
  case (Some s)
  have out: "m' \<in> set (ms_outbound s @ [m]) \<Longrightarrow> authentic S P a m'" for m'
    using ms_safeD(3) [OF assms(1) Some] assms(2) by auto
  moreover have "hd (ms_outbound s @ [m]) \<in> set (ms_outbound s @ [m])" by (rule hd_in_set) simp
  ultimately show ?thesis
    using Some assms(1) by (auto simp: ms_enqueue_outgoing_def Let_def intro!: ms_safe_issue ms_safe_set_handler)
qed

lemma ms_safe_finish: "ms_safe S P a w \<Longrightarrow> ms_safe S P a (ms_finish h st w)"
  by (auto simp: ms_finish_def intro!: ms_safe_issue ms_safe_update)

lemma ms_safe_begin_shutdown: "ms_safe S P a w \<Longrightarrow> ms_safe S P a (ms_begin_shutdown_after_read_closed h w)"
  by (auto simp: ms_begin_shutdown_after_read_closed_def Let_def ms_safe_unregister ms_safe_update
      intro!: ms_safe_finish ms_safe_set_handler split: option.split)

lemma ms_safe_shutdown: "ms_safe S P a w \<Longrightarrow> ms_safe S P a (ms_shutdown_with_status h st w)"
  by (simp add: ms_shutdown_with_status_def ms_safe_finish ms_safe_update ms_safe_unregister)

lemmas ms_safe_teardown = ms_safe_finish ms_safe_begin_shutdown ms_safe_shutdown ms_safe_update ms_safe_unregister

lemma ms_safe_dispatch:
  assumes safe: "ms_safe S P a w" and auth: "authentic S P a req"
    and disp: "dispatch_signed_message_recipient S ms_channel a (sw_router w) req data w = Inr (action, router', w')"
  shows "ms_safe S P a (w'\<lparr>sw_router := router'\<rparr>)"
proof -
  have keep: "ms_safe S P a (w\<lparr>sw_router := sw_router w\<rparr>)" using safe by simp
  show ?thesis
  proof (cases "\<exists>st r. a = Some st \<and> sw_router w = Some r \<and> md_recipient_id data \<noteq> [] \<and> \<not> is_self st (md_recipient_id data)")
    case False
    then have "router' = sw_router w \<and> w' = w" using disp
      by (auto simp: dispatch_signed_message_recipient_def Let_def split: option.splits if_splits)
    then show ?thesis using keep by simp
  next
    case True
    then obtain st r where r: "sw_router w = Some r"
      and route: "\<exists>ok r'. route_to_recipient S ms_channel (md_recipient_id data) req r w = Inr (ok, r', w') \<and> router' = Some r'"
      using disp by (auto simp: dispatch_signed_message_recipient_def Let_def result_simps)
    then obtain ok r' where rt: "route_to_recipient S ms_channel (md_recipient_id data) req r w = Inr (ok, r', w')"
      and router': "router' = Some r'" by blast
    have "ms_safe S P a w' \<and> (\<forall>i h. sr_by_peer r' i = Some h \<longrightarrow> known_peer a i)"
    proof (cases "ms.verified S r req")
      case False
      then show ?thesis using ms.route_not_verified [OF False rt] safe r ms_safeD(4) by blast
    next
      case ver: True
      show ?thesis
        using rt safe ms_safe_enqueue [OF safe auth] ms_safeD(4) [OF safe r]
        by (auto simp: ms.route_verified [OF ver] split: option.splits if_splits)
    qed
    then show ?thesis using router' by (auto intro: ms_safe_router)
  qed
qed

lemma ms_safe_incoming:
  assumes safe: "ms_safe S P a w" and s: "cq_handlers w h = Some s"
    and res: "ms_handle_incoming_message S P h s w = Inr (accepted, w')"
  shows "ms_safe S P a w'" and "accepted \<Longrightarrow> authentic S P a (ms_request s)"
proof -
  have a: "sw_auth w = a" by (rule ms_safeD(1) [OF safe])
  have "ms_safe S P a w' \<and> (accepted \<longrightarrow> authentic S P a (ms_request s))"
  proof (cases "authentic S P a (ms_request s) \<and> sw_router w \<noteq> None")
    case False
    obtain x where x: "authenticate_signed_message_data S P a (ms_request s) = Inr x"
      using res a by (auto simp: ms_handle_incoming_message_def Let_def bind_result_Inr_iff)
    have "w' = w \<and> \<not> accepted"
      using res a x False
      by (cases x) (auto simp: ms_handle_incoming_message_def authentic_def split: option.splits)
    then show ?thesis using safe by simp
  next
    case True
    then obtain d r where d: "authenticate_signed_message_data S P a (ms_request s) = Inr (AuthOk d)"
      and r: "sw_router w = Some r" by (auto simp: authentic_def)
    define w1 where "w1 = set_handler h (s\<lparr>ms_registered_peer_id := sm_sender_id (ms_request s)\<rparr>)
      (w\<lparr>sw_router := Some (register_session (sm_sender_id (ms_request s)) h r)\<rparr>)"
    have "ms_safe S P a (w\<lparr>sw_router := Some (register_session (sm_sender_id (ms_request s)) h r)\<rparr>)"
      by (rule ms_safe_router [OF safe])
        (use True ms_safeD(4) [OF safe r] authentic_known in \<open>auto simp: register_session_def split: if_splits\<close>)
    then have w1: "ms_safe S P a w1" unfolding w1_def
      by (rule ms_safe_set_handler) (use ms_safeD(3) [OF safe s] in simp)
    obtain action router' w2 where disp: "dispatch_signed_message_recipient S ms_channel a (sw_router w1)
          (ms_request s) d w1 = Inr (action, router', w2)"
      using res a d r by (auto simp: ms_handle_incoming_message_def Let_def bind_result_Inr_iff w1_def)
    have w': "w' = (if action = DeliverLocal then snd (ms_enqueue_outgoing h (ms_request s) (w2\<lparr>sw_router := router'\<rparr>))
          else w2\<lparr>sw_router := router'\<rparr>)"
      using res a d r disp by (cases action) (simp_all add: ms_handle_incoming_message_def Let_def w1_def)
    have "ms_safe S P a (w2\<lparr>sw_router := router'\<rparr>)"
      using ms_safe_dispatch [OF w1 _ disp] True by blast
    then show ?thesis using w' True ms_safe_enqueue by auto
  qed
  then show "ms_safe S P a w'" "accepted \<Longrightarrow> authentic S P a (ms_request s)" by auto
qed

lemma ms_safe_read_completion:
  assumes "ms_safe S P a w" and "cq_handlers w h = Some s"
    and "ms_handle_read_completion S P h ok s w = Inr w'"
  shows "ms_safe S P a w'"
  using assms ms_safe_incoming(1) [OF assms(1,2)]
  by (auto simp: ms_handle_read_completion_def result_simps ms_safe_teardown
      intro!: ms_safe_issue ms_safe_update split: if_splits)

lemma ms_safe_write_completion:
  assumes "ms_safe S P a w" and "cq_handlers w h = Some s"
    and "ms_handle_write_completion h ok s w = Inr w'"
  shows "ms_safe S P a w'"
  using assms ms_safeD(3) [OF assms(1,2)]
  by (auto simp: ms_handle_write_completion_def Let_def
      intro!: ms_safe_issue ms_safe_set_handler ms_safe_finish split: if_splits list.splits)

lemma ms_safe_complete: "ms_safe S P a w \<Longrightarrow> ms_safe S P a (ms_complete_after_stream_finish h w)"
  by (simp add: ms_complete_after_stream_finish_def ms_safe_teardown)

lemma ms_safe_on_completion:
  assumes safe: "ms_safe S P a w"
  shows "ms_safe S P a (ms_on_completion S P h ok w)"
proof (cases "cq_handlers w h")
  case (Some s)
  show ?thesis
  proof (cases "ms_pending s")
    case KRead
    then show ?thesis using Some safe ms_safe_read_completion [OF safe Some]
      by (auto simp: ms_on_completion_def split: sum.splits)
  next
    case KWrite
    then show ?thesis using Some safe ms_safe_write_completion [OF safe Some]
      by (auto simp: ms_on_completion_def split: sum.splits)
  qed (use Some safe in \<open>simp add: ms_on_completion_def ms_safe_complete\<close>)
qed (use safe in \<open>simp add: ms_on_completion_def\<close>)

lemma ms_safe_accept:
  "ms_safe S P a w \<Longrightarrow> ms_safe S P a (ms_on_stream_rpc_connected h w)"
  by (auto simp: ms_on_stream_rpc_connected_def intro!: ms_safe_issue ms_safe_update)

lemma ms_safe_process_bind:
  assumes "ms_safe S P a w" and "cq_handlers w h = Some s" and "sb_phase s = KInitial"
  shows "ms_safe S P a (stream_process (ms_vtable S P) h running w)"
  using assms ms_safeD(3) [OF assms(1,2)]
  by (auto simp: stream_process_bind intro!: ms_safe_issue ms_safe_set_handler)

lemma ms_clone_fields [simp]:
  "ms_outbound (ms_clone s) = []" "sb_phase (ms_clone s) = KInitial" "ms_self_ref (ms_clone s)"
  by (simp_all add: ms_clone_def ms_handler_new_def)

lemma ms_safe_process:
  assumes safe: "ms_safe S P a w"
  shows "ms_safe S P a (stream_process (ms_vtable S P) h running w)"
proof (cases "cq_handlers w h")
  case None
  then show ?thesis using safe by (simp add: stream_process_freed)
next
  case (Some s)
  show ?thesis
  proof (cases "sb_phase s")
    case KInitial
    then show ?thesis by (rule ms_safe_process_bind [OF safe Some])
  next
    case KStreaming
    then show ?thesis using Some safe by (simp add: stream_process_streaming ms_safe_on_completion)
  next
    case KAccepted
    let ?w1 = "set_handler h (s\<lparr>sb_phase := KStreaming\<rparr>) w"
    let ?c = "(ms_clone s)\<lparr>sb_phase := KInitial\<rparr>"
    have w1: "ms_safe S P a ?w1"
      by (rule ms_safe_set_handler [OF safe]) (use ms_safeD(3) [OF safe Some] in simp)
    have "ms_safe S P a (stream_process (ms_vtable S P) (cq_next_id ?w1) running (alloc_handler ?c ?w1))"
      by (rule ms_safe_process_bind [where s = ?c]) (simp_all add: w1 ms_safe_alloc)
    then have "ms_safe S P a (ms_on_stream_rpc_connected h (grpc_run_deferred_handler_destroys
        (stream_process (ms_vtable S P) (cq_next_id ?w1) running (alloc_handler ?c ?w1))))"
      by (intro ms_safe_accept ms_safe_destroys)
    then show ?thesis
      using Some KAccepted safe
      by (cases running; subst stream_process.simps) (simp_all add: ms_on_stream_connect_failed_def ms_safe_teardown Let_def)
  qed
qed

lemma ms_safe_deliver: "ms_safe S P a w \<Longrightarrow> ms_safe S P a (deliver_read (ms_vtable S P) i ok m w)"
  by (auto simp: deliver_read_def Let_def intro!: ms_safe_set_handler dest: ms_safeD
      split: prod.splits option.splits)

lemma ms_safe_step: "ms_safe S P a w \<Longrightarrow> ms_safe S P a (ms_step S P i ev w)"
  by (simp add: ms_step_def stream_loop_step_def ms_safe_collect ms_safe_destroys ms_safe_process ms_safe_deliver)

lemma ms_safe_run: "ms_safe S P a (ms_run S P a evs)"
  unfolding ms_run_def
proof (rule run_events_induct)
  let ?w0 = "\<lparr>cq_handlers = (\<lambda>_. None), cq_next_id = 0, cq_outstanding = [], cq_issued = [], cq_deferred = [],
      cq_dangling = False, sw_auth = a, sw_router = Some \<lparr>sr_by_peer = Map.empty, sr_auth = a\<rparr>, sw_error = None\<rparr>"
  have "ms_safe S P a ?w0" by (simp add: ms_safe_def)
  then show "ms_safe S P a (start_message_stream_acceptor S P a (Some \<lparr>sr_by_peer = Map.empty, sr_auth = a\<rparr>))"
    unfolding start_message_stream_acceptor_def stream_prime_def
    by (intro ms_safe_destroys ms_safe_process ms_safe_alloc) simp_all
qed (rule ms_safe_step)

subsection \<open>Single steps\<close>

lemma ms_step_streaming:
  assumes "sw_error w = None" and "cq_outstanding w ! i = (h, op)" and "cq_handlers w h = Some s"
    and "sb_phase s = KStreaming"
  shows "ms_step S P i (ok, m) w = ms_collect (grpc_run_deferred_handler_destroys (ms_on_completion S P h ok
    (if op = OpRead \<and> ok then set_handler h (s\<lparr>ms_request := m\<rparr>) (take_op i w) else take_op i w)))"
  using assms by (auto simp: ms_step_def stream_loop_step_def deliver_read_def stream_process_streaming Let_def)

text \<open>What a handler is left with by a shutdown, and the router.\<close>

definition ms_closed :: "'k ms_world \<Rightarrow> ms_handler \<Rightarrow> ms_handler" where
  "ms_closed w s = s\<lparr>ms_session_active := False,
     ms_registered_peer_id := (if sw_router w = None then ms_registered_peer_id s else [])\<rparr>"

definition ms_router_without :: "string \<Rightarrow> ('k, nat) stream_router option \<Rightarrow> ('k, nat) stream_router option" where
  "ms_router_without i router = (if i = [] then router else map_option (unregister_session i) router)"

lemma ms_unset_peer_id:
  "ms_registered_peer_id s = [] \<Longrightarrow>
   s\<lparr>ms_session_active := b, ms_registered_peer_id := []\<rparr> = s\<lparr>ms_session_active := b\<rparr>"
  by (cases s) simp

lemma ms_unregister_closed:
  assumes "cq_handlers w h = Some s"
  shows "ms_unregister_if_registered h (ms_update h (\<lambda>s. s\<lparr>ms_session_active := False\<rparr>) w) =
    set_handler h (ms_closed w s) (w\<lparr>sw_router := ms_router_without (ms_registered_peer_id s) (sw_router w)\<rparr>)"
  using assms
  by (cases "sw_router w")
    (auto simp: ms_unregister_if_registered_def ms_update_def ms_closed_def ms_router_without_def set_handler_def
      ms_unset_peer_id)

lemma ms_shutdown_eq:
  assumes "cq_handlers w h = Some s"
  shows "ms_shutdown_with_status h st w =
    issue h (OpFinish st) (set_handler h ((ms_closed w s)\<lparr>ms_outbound := [], ms_write_pending := False,
        ms_closing_after_writes := False, ms_pending := KFinish\<rparr>)
      (w\<lparr>sw_router := ms_router_without (ms_registered_peer_id s) (sw_router w)\<rparr>))"
  unfolding ms_shutdown_with_status_def ms_unregister_closed [OF assms]
  by (simp add: ms_finish_def ms_update_def set_handler_def issue_def)

lemma ms_complete_eq:
  assumes "cq_handlers w h = Some s"
  shows "ms_complete_after_stream_finish h w =
    set_handler h ((ms_closed w s)\<lparr>ms_self_ref := False\<rparr>)
      (w\<lparr>sw_router := ms_router_without (ms_registered_peer_id s) (sw_router w)\<rparr>)"
  unfolding ms_complete_after_stream_finish_def ms_unregister_closed [OF assms]
  by (simp add: ms_update_def set_handler_def)

text \<open>A message that is not authenticated ends its session with one \<open>Finish\<close>; it is neither queued nor routed.\<close>

lemma ms_step_rejected:
  assumes "sw_error w = None" and "cq_outstanding w ! i = (h, OpRead)" and "cq_handlers w h = Some s"
    and "sb_phase s = KStreaming" and "ms_pending s = KRead"
    and "authenticate_signed_message_data S P (sw_auth w) m = Inr r" and "\<nexists>d. r = AuthOk d"
  shows "ms_step S P i (True, m) w = ms_collect (grpc_run_deferred_handler_destroys
    (issue h (OpFinish ms_rejected) (set_handler h ((ms_closed w (s\<lparr>ms_request := m\<rparr>))\<lparr>ms_outbound := [],
        ms_write_pending := False, ms_closing_after_writes := False, ms_pending := KFinish\<rparr>)
      ((take_op i w)\<lparr>sw_router := ms_router_without (ms_registered_peer_id s) (sw_router w)\<rparr>))))"
proof -
  have "ms_handle_incoming_message S P h (s\<lparr>ms_request := m\<rparr>) v = Inr (False, v)" if "sw_auth v = sw_auth w" for v
    using that assms(6,7) by (cases r) (simp_all add: ms_handle_incoming_message_def)
  then show ?thesis
    using assms(1-5)
    by (simp add: ms_step_streaming ms_on_completion_def ms_handle_read_completion_def ms_shutdown_eq)
      (simp add: ms_closed_def set_handler_def take_op_def issue_def)
qed

text \<open>Whatever completes on a handler that waits for its \<open>Finish\<close> is taken for the \<open>Finish\<close>.\<close>

lemma ms_step_finished:
  assumes "sw_error w = None" and "cq_outstanding w ! i = (h, op)" and "cq_handlers w h = Some s"
    and "sb_phase s = KStreaming" and "ms_pending s = KFinish" and "op \<noteq> OpRead"
    and "\<And>r. sw_router w = Some r \<Longrightarrow> h \<notin> ran (sr_by_peer r)"
  shows "cq_handlers (ms_step S P i (ok, m) w) h = None"
    and "cq_outstanding (ms_step S P i (ok, m) w) = remove_nth i (cq_outstanding w)"
    and "sw_error (ms_step S P i (ok, m) w) = None"
proof -
  have ran: "h \<notin> ran (sr_by_peer r)" if "ms_router_without i (sw_router w) = Some r" for i r
    using that assms(7)
    by (fastforce simp: ms_router_without_def unregister_session_def dest: ran_eraseD split: if_splits)
  show "cq_handlers (ms_step S P i (ok, m) w) h = None"
    "cq_outstanding (ms_step S P i (ok, m) w) = remove_nth i (cq_outstanding w)"
    "sw_error (ms_step S P i (ok, m) w) = None"
    using assms(1-6) ran
    by (auto simp: ms_step_streaming ms_on_completion_def ms_complete_eq ms_collect_def)
qed

lemma ms_step_freed:
  assumes "sw_error w = None" and "cq_outstanding w ! i = (h, op)" and "cq_handlers w h = None"
  shows "cq_dangling (ms_step S P i (ok, m) w)"
  using assms by (simp add: ms_step_def stream_loop_step_def deliver_read_def stream_process_freed ms_collect_def Let_def
    grpc_run_deferred_handler_destroys_def)

subsection \<open>Schedules, played through\<close>

lemmas ms_exec =
  ms_run_def start_message_stream_acceptor_def ms_step_def stream_loop_step_def stream_prime_def
  stream_process_unfold deliver_read_def remove_nth_def ms_collect_def
  ms_on_stream_rpc_connected_def ms_on_completion_def ms_handle_read_completion_def
  ms_handle_incoming_message_def ms_handle_write_completion_def ms_enqueue_outgoing_def ms_update_def
  dispatch_signed_message_recipient_def register_session_def ms_clone_def ms_handler_new_def Let_def

lemma run_events_append:
  "run_events step pending w (evs @ evs') = run_events step pending (run_events step pending w evs) evs'"
  by (induction evs arbitrary: w) auto

lemma ms_run_append:
  "ms_run S P a (evs @ evs') = run_events (ms_step S P) (\<lambda>w. length (cq_outstanding w)) (ms_run S P a evs) evs'"
  by (simp add: ms_run_def run_events_append)

text \<open>A first message that is addressed to nobody goes back on its own stream; meanwhile the next is read.\<close>

lemma ms_echo_state:
  assumes "authenticate_signed_message_data S P (Some st) m = Inr (AuthOk d)" and "md_recipient_id d = []"
    and w: "w = ms_run S P (Some st) [(0, True, x), (1, True, m)]"
  shows "sw_error w = None" and "sw_auth w = Some st" and "cq_deferred w = []"
    and "cq_outstanding w = [(1, OpRequest), (0, OpWrite m), (0, OpRead)]"
    and "sw_router w = Some \<lparr>sr_by_peer = [sm_sender_id m \<mapsto> 0], sr_auth = Some st\<rparr>"
    and "cq_handlers w 0 = Some \<lparr>sb_phase = KStreaming, ms_pending = KRead, ms_request = m, ms_response = m,
      ms_outbound = [m], ms_write_pending = True, ms_closing_after_writes = False, ms_session_active = True,
      ms_registered_peer_id = sm_sender_id m, ms_self_ref = True\<rparr>"
  using assms(1,2) unfolding w by (simp_all add: ms_exec ran_def insert_or_assign_def)

text \<open>A session that has registered and waits, and a second one that has just connected.\<close>

lemma ms_pair_state:
  assumes "authenticate_signed_message_data S P (Some st) m = Inr (AuthOk d)" and "md_recipient_id d \<noteq> []"
    and "\<not> is_self st (md_recipient_id d)" and "md_recipient_id d \<noteq> sm_sender_id m"
    and w: "w = ms_run S P (Some st) [(0, True, x), (1, True, m), (0, True, x)]"
  shows "sw_error w = None" and "sw_auth w = Some st" and "cq_deferred w = []"
    and "cq_outstanding w = [(0, OpRead), (2, OpRequest), (1, OpRead)]"
    and "sw_router w = Some \<lparr>sr_by_peer = [sm_sender_id m \<mapsto> 0], sr_auth = Some st\<rparr>"
    and "cq_handlers w 0 = Some \<lparr>sb_phase = KStreaming, ms_pending = KRead, ms_request = m, ms_response = empty_signed_message,
      ms_outbound = [], ms_write_pending = False, ms_closing_after_writes = False, ms_session_active = True,
      ms_registered_peer_id = sm_sender_id m, ms_self_ref = True\<rparr>"
    and "cq_handlers w 1 = Some \<lparr>sb_phase = KStreaming, ms_pending = KRead, ms_request = empty_signed_message,
      ms_response = empty_signed_message, ms_outbound = [], ms_write_pending = False, ms_closing_after_writes = False,
      ms_session_active = True, ms_registered_peer_id = [], ms_self_ref = True\<rparr>"
proof -
  have "validate_message S st m = Inr True" "has_peer st (sm_sender_id m)"
    using assms(1) by (auto simp: authenticate_iff validate_message_def verifier_verify_cases has_peer_def)
  then show "sw_error w = None" "sw_auth w = Some st" "cq_deferred w = []"
    "cq_outstanding w = [(0, OpRead), (2, OpRequest), (1, OpRead)]"
    "sw_router w = Some \<lparr>sr_by_peer = [sm_sender_id m \<mapsto> 0], sr_auth = Some st\<rparr>"
    "cq_handlers w 0 = Some \<lparr>sb_phase = KStreaming, ms_pending = KRead, ms_request = m, ms_response = empty_signed_message,
      ms_outbound = [], ms_write_pending = False, ms_closing_after_writes = False, ms_session_active = True,
      ms_registered_peer_id = sm_sender_id m, ms_self_ref = True\<rparr>"
    "cq_handlers w 1 = Some \<lparr>sb_phase = KStreaming, ms_pending = KRead, ms_request = empty_signed_message,
      ms_response = empty_signed_message, ms_outbound = [], ms_write_pending = False, ms_closing_after_writes = False,
      ms_session_active = True, ms_registered_peer_id = [], ms_self_ref = True\<rparr>"
    using assms(1-4) unfolding w by (simp_all add: ms_exec ran_def insert_or_assign_def route_to_recipient_def)
qed

subsection \<open>The properties of the message stream\<close>




text \<open>
  A message that is sent back on its own stream is handled twice: the handler issues the
  write and the next read together and keeps one \<open>pending_\<close> for both, so the completion of
  the write is taken for a message. The same request is registered and queued again, and
  two reads are outstanding on the stream at once.
\<close>

theorem echoed_message_handled_twice:
  assumes "authenticate_signed_message_data S P (Some st) m = Inr (AuthOk d)" and "md_recipient_id d = []"
    and "w = ms_run S P (Some st) [(0, True, x), (1, True, m), (1, True, y)]"
  shows "ms_queue 0 w = [m, m] \<and> ops_of 0 (cq_outstanding w) = [OpRead, OpRead]
    \<and> ops_of 0 (cq_issued w) = [OpRequest, OpRead, OpWrite m, OpRead, OpRead]"
  using assms(1,2) unfolding assms(3) by (simp add: ms_exec ran_def ms_queue_def)

text \<open>
  Forwarding to a session that is waiting for a message is undefined: the enqueue sets the
  recipient's \<open>pending_\<close> to the write although its read is outstanding; after the write has
  completed, the next message of the recipient is taken for another completed write, and
  \<open>pop_front\<close> meets an empty queue.
\<close>

theorem forwarding_pops_empty_queue:
  assumes "authenticate_signed_message_data S P (Some st) mb = Inr (AuthOk db)"
    and "md_recipient_id db \<noteq> []" and "\<not> is_self st (md_recipient_id db)" and "md_recipient_id db \<noteq> sm_sender_id mb"
    and "authenticate_signed_message_data S P (Some st) ma = Inr (AuthOk da)"
    and "md_recipient_id da = sm_sender_id mb" and "sm_sender_id mb \<noteq> []" and "\<not> is_self st (sm_sender_id mb)"
    and "sm_sender_id ma \<noteq> sm_sender_id mb"
  shows "sw_error (ms_run S P (Some st)
    [(0, True, x), (1, True, mb), (0, True, x), (2, True, ma), (2, True, x), (0, True, mc)]) = Some UndefinedBehaviour"
proof -
  have "validate_message S st mb = Inr True" "has_peer st (sm_sender_id mb)"
    "validate_message S st ma = Inr True" "has_peer st (sm_sender_id ma)"
    using assms(1,5) by (auto simp: authenticate_iff validate_message_def verifier_verify_cases has_peer_def)
  then show ?thesis
    using assms by (simp add: ms_exec ran_def ms_is_valid_def route_to_recipient_def)
qed

text \<open>
  Use after free: when a message is rejected while an earlier one is still being written
  back, the completion of that write is taken for the completion of \<open>Finish\<close> and frees the
  handler; the completion of \<open>Finish\<close> is then delivered to freed memory.
\<close>

theorem rejection_during_write_dangles:
  assumes "authenticate_signed_message_data S P (Some st) m = Inr (AuthOk d)" and "md_recipient_id d = []"
    and "sm_sender_id m \<noteq> []"
    and "authenticate_signed_message_data S P (Some st) m' = Inr r" and "\<nexists>d. r = AuthOk d"
  shows "cq_dangling (ms_run S P (Some st) ([(0, True, x), (1, True, m)] @ [(2, True, m'), (1, True, y), (1, True, y)]))"
proof -
  define w where "w = ms_run S P (Some st) [(0, True, x), (1, True, m)]"
  note w = ms_echo_state [OF assms(1,2) w_def]
  define w1 where "w1 = ms_step S P 2 (True, m') w"
  have w1: "w1 = ms_collect (grpc_run_deferred_handler_destroys (issue 0 (OpFinish ms_rejected)
      (set_handler 0 ((ms_closed w (the (cq_handlers w 0)\<lparr>ms_request := m'\<rparr>))\<lparr>ms_outbound := [],
        ms_write_pending := False, ms_closing_after_writes := False, ms_pending := KFinish\<rparr>)
      ((take_op 2 w)\<lparr>sw_router := ms_router_without (sm_sender_id m) (sw_router w)\<rparr>))))"
    unfolding w1_def
    by (subst ms_step_rejected [where h = 0 and r = r and s = "the (cq_handlers w 0)"]) (use w assms(4,5) in simp_all)
  define s1 where "s1 = the (cq_handlers w1 0)"
  have s1: "cq_handlers w1 0 = Some s1" "sb_phase s1 = KStreaming" "ms_pending s1 = KFinish"
    using w unfolding s1_def w1 by (simp_all add: ms_collect_def ms_closed_def)
  have o1: "cq_outstanding w1 = [(1, OpRequest), (0, OpWrite m), (0, OpFinish ms_rejected)]"
    and e1: "sw_error w1 = None" and r1: "\<And>r. sw_router w1 = Some r \<Longrightarrow> sr_by_peer r = Map.empty"
    using w assms(3) unfolding w1
    by (auto simp: ms_collect_def remove_nth_def ms_router_without_def unregister_session_def erase_def)
  define w2 where "w2 = ms_step S P 1 (True, y) w1"
  have w2: "cq_handlers w2 0 = None" "cq_outstanding w2 = [(1, OpRequest), (0, OpFinish ms_rejected)]" "sw_error w2 = None"
    unfolding w2_def
    using ms_step_finished [OF e1, of 1 0 "OpWrite m" s1] o1 s1 r1 by (simp_all add: remove_nth_def)
  have "cq_dangling (ms_step S P 1 (True, y) w2)"
    by (rule ms_step_freed) (use w2 in simp_all)
  then show ?thesis
    using w(4) o1 w2(2) unfolding ms_run_append w_def [symmetric] by (simp add: w1_def w2_def)
qed

subsection \<open>Concrete runs\<close>

definition toy_pair :: "string auth_store" where
  "toy_pair = auth_store_new\<lparr>as_peers := [''k'' \<mapsto> toy_peer, ''j'' \<mapsto> toy_peer]\<rparr>"

definition toy_from :: "string \<Rightarrow> string \<Rightarrow> signed_message" where
  "toy_from i dest = \<lparr>sm_sender_id = i, sm_signature = ''pk'' @ dest, sm_sender_cert = [], sm_data = dest, sm_ttl = 4\<rparr>"

lemma toy_from_authentic:
  "i \<in> {''k'', ''j''} \<Longrightarrow> authenticate_signed_message_data toy_openssl toy_protobuf (Some toy_pair) (toy_from i dest) =
     Inr (AuthOk (empty_message_data\<lparr>md_recipient_id := dest\<rparr>))"
  by (auto simp: authenticate_iff toy_pair_def toy_from_def toy_peer_def toy_protobuf_def)

lemma toy_from_stranger:
  "authenticate_signed_message_data toy_openssl toy_protobuf (Some toy_pair) (toy_from ''q'' dest) = Inr UnknownSender"
  by (simp add: authenticate_signed_message_data_def has_peer_def toy_pair_def toy_from_def auth_store_new_def)



theorem echoed_message_handled_twice_witness:
  "ms_queue 0 (ms_run toy_openssl toy_protobuf (Some toy_pair)
     [(0, True, toy_from ''k'' []), (1, True, toy_from ''k'' []), (1, True, toy_from ''k'' [])]) =
   [toy_from ''k'' [], toy_from ''k'' []]"
  using echoed_message_handled_twice [OF toy_from_authentic _ refl, of "''k''" "[]"] by simp

theorem forwarding_pops_empty_queue_witness:
  "sw_error (ms_run toy_openssl toy_protobuf (Some toy_pair)
     [(0, True, empty_signed_message), (1, True, toy_from ''k'' ''zz''), (0, True, empty_signed_message),
      (2, True, toy_from ''j'' ''k''), (2, True, empty_signed_message), (0, True, empty_signed_message)]) =
   Some UndefinedBehaviour"
  by (rule forwarding_pops_empty_queue [OF toy_from_authentic _ _ _ toy_from_authentic])
    (simp_all add: toy_from_def is_self_def toy_pair_def auth_store_new_def)

theorem rejection_during_write_dangles_witness:
  "cq_dangling (ms_run toy_openssl toy_protobuf (Some toy_pair) ([(0, True, toy_from ''k'' []), (1, True, toy_from ''k'' [])] @
     [(2, True, toy_from ''q'' []), (1, True, toy_from ''k'' []), (1, True, toy_from ''k'' [])]))"
  by (rule rejection_during_write_dangles [OF toy_from_authentic _ _ toy_from_stranger]) (simp_all add: toy_from_def)

end
