(* ===== verification/Query_Graph.thy ===== *)
theory Query_Graph
  imports Prelude "HOL-Library.Multiset" "HOL-Library.Char_ord" "HOL-Library.List_Lexorder"
begin

text \<open>
  The query graph (\<open>minion/planner/query/graph.h\<close>): constants, names, operations and the
  adjacency lists in parallel vectors, the functions that append nodes, the graph
  algorithms, the tagging with data frames and the node hashes. A \<open>node_t\<close> is an \<open>int\<close>
  (vectors of \<open>2 ^ 31\<close> nodes are out of scope); reading a vector out of range is an error value.
\<close>

named_theorems graph_defs \<open>the functions that append to the graph\<close>

subsection \<open>Data\<close>

text \<open>The enumerators of \<open>query.proto\<close> with the prefix \<open>OP_\<close> (\<open>OP_NULL\<close> is \<open>NULL_\<close>) and their numbers.\<close>

type_synonym node = int

definition NODE_NONE :: node where "NODE_NONE = -1"

datatype column_operation =
    OP_CONST | OP_ADD | OP_SUB | OP_MUL | OP_DIV | OP_NEG | OP_INV | OP_ABS | OP_SQRT | OP_EXP | OP_POW | OP_LN | OP_LOG
  | OP_NOT | OP_AND | OP_OR | OP_XOR | OP_NAND | OP_NOR | OP_XNOR
  | OP_EQ | OP_NEQ | OP_GT | OP_LT | OP_GTE | OP_LTE | OP_IN | OP_NOT_IN | OP_LIKE | OP_NOT_LIKE | OP_ILIKE | OP_NOT_ILIKE | OP_IS_NULL | OP_IS_NOT_NULL
  | OP_NULL | OP_TRUE | OP_FALSE
  | OP_MIN | OP_MAX | OP_SUM | OP_COUNT | OP_COUNT_DISTINCT | OP_AVG | OP_MEDIAN | OP_STD | OP_VAR
  | OP_COLUMN | OP_DESC
  | OP_TABLE | OP_DF | OP_FILTER | OP_RANGE | OP_GROUP | OP_SORT | OP_UNION
  | OP_NOP | OP_INVALID

primrec op_number :: "column_operation \<Rightarrow> int" where
  "op_number OP_CONST = 0" | "op_number OP_ADD = 1" | "op_number OP_SUB = 2" | "op_number OP_MUL = 3" | "op_number OP_DIV = 4"
| "op_number OP_NEG = 5" | "op_number OP_INV = 6" | "op_number OP_ABS = 7" | "op_number OP_SQRT = 8" | "op_number OP_EXP = 9"
| "op_number OP_POW = 10" | "op_number OP_LN = 11" | "op_number OP_LOG = 12"
| "op_number OP_NOT = 30" | "op_number OP_AND = 31" | "op_number OP_OR = 32" | "op_number OP_XOR = 35" | "op_number OP_NAND = 33"
| "op_number OP_NOR = 34" | "op_number OP_XNOR = 36"
| "op_number OP_EQ = 50" | "op_number OP_NEQ = 51" | "op_number OP_GT = 52" | "op_number OP_LT = 53" | "op_number OP_GTE = 54"
| "op_number OP_LTE = 55" | "op_number OP_IN = 56" | "op_number OP_NOT_IN = 57" | "op_number OP_LIKE = 58"
| "op_number OP_NOT_LIKE = 59" | "op_number OP_ILIKE = 60" | "op_number OP_NOT_ILIKE = 61" | "op_number OP_IS_NULL = 62"
| "op_number OP_IS_NOT_NULL = 63"
| "op_number OP_NULL = 90" | "op_number OP_TRUE = 91" | "op_number OP_FALSE = 92"
| "op_number OP_MIN = 104" | "op_number OP_MAX = 105" | "op_number OP_SUM = 106" | "op_number OP_COUNT = 107"
| "op_number OP_COUNT_DISTINCT = 108" | "op_number OP_AVG = 109" | "op_number OP_MEDIAN = 110" | "op_number OP_STD = 111"
| "op_number OP_VAR = 112"
| "op_number OP_COLUMN = 250" | "op_number OP_DESC = 251"
| "op_number OP_TABLE = 261" | "op_number OP_DF = 262" | "op_number OP_FILTER = 263" | "op_number OP_RANGE = 264"
| "op_number OP_GROUP = 265" | "op_number OP_SORT = 266" | "op_number OP_UNION = 267"
| "op_number OP_NOP = 400" | "op_number OP_INVALID = 500"

datatype value_type =
    Ty_Bool | Ty_Int8 | Ty_UInt8 | Ty_Int16 | Ty_UInt16 | Ty_Int32 | Ty_UInt32 | Ty_Int64 | Ty_UInt64
  | Ty_Float32 | Ty_Float64 | Ty_String | Ty_Bytes | Ty_Any | Ty_JSON

primrec type_number :: "value_type \<Rightarrow> int" where
  "type_number Ty_Bool = 0" | "type_number Ty_Int8 = 1" | "type_number Ty_UInt8 = 2" | "type_number Ty_Int16 = 3"
| "type_number Ty_UInt16 = 4" | "type_number Ty_Int32 = 5" | "type_number Ty_UInt32 = 6" | "type_number Ty_Int64 = 7"
| "type_number Ty_UInt64 = 8" | "type_number Ty_Float32 = 9" | "type_number Ty_Float64 = 10"
| "type_number Ty_String = 11" | "type_number Ty_Bytes = 12" | "type_number Ty_Any = 13" | "type_number Ty_JSON = 14"

datatype sequence_type = SEQ_ANY | SEQ_SINGLE | SEQ_ARRAY

primrec sequence_number :: "sequence_type \<Rightarrow> int" where
  "sequence_number SEQ_ANY = 0" | "sequence_number SEQ_SINGLE = 1" | "sequence_number SEQ_ARRAY = 2"

record operation =
  op_op :: column_operation
  op_name :: node
  op_const_id :: node
  op_df :: node
  op_type :: value_type
  op_sequence :: sequence_type

text \<open>An \<open>int64_t\<close> is a 64-bit word read as signed, a \<open>double\<close> its 64 bits.\<close>

record query_graph =
  int64_constants :: "64 word list"
  int64_array_constants :: "64 word list list"
  float64_constants :: "64 word list"
  float64_array_constants :: "64 word list list"
  string_constants :: "string list"
  string_array_constants :: "string list list"
  qg_names :: "string list"
  qg_operations :: "operation list"
  qg_mapping :: "node list list"

definition query_graph_new :: query_graph where
  "query_graph_new = \<lparr>int64_constants = [], int64_array_constants = [], float64_constants = [],
     float64_array_constants = [], string_constants = [], string_array_constants = [],
     qg_names = [], qg_operations = [], qg_mapping = []\<rparr>"

definition at :: "'a list \<Rightarrow> node \<Rightarrow> 'a result" where
  "at xs n = (if 0 \<le> n \<and> nat n < length xs then Inr (xs ! nat n) else Inl UndefinedBehaviour)"

lemma at_iff: "at xs n = Inr x \<longleftrightarrow> 0 \<le> n \<and> nat n < length xs \<and> x = xs ! nat n"
  by (auto simp: at_def)

lemma at_of_nat [simp]: "i < length xs \<Longrightarrow> at xs (int i) = Inr (xs ! i)"
  by (simp add: at_def)

subsection \<open>Tables of operations\<close>

definition getNegatedOperation :: "column_operation \<Rightarrow> column_operation" where
  "getNegatedOperation op = (case op of
      OP_NOT \<Rightarrow> OP_NOP
    | OP_NULL \<Rightarrow> OP_NULL
    | OP_AND \<Rightarrow> OP_NAND
    | OP_OR \<Rightarrow> OP_NOR
    | OP_XOR \<Rightarrow> OP_XNOR
    | OP_NAND \<Rightarrow> OP_AND
    | OP_NOR \<Rightarrow> OP_OR
    | OP_XNOR \<Rightarrow> OP_XOR
    | OP_GT \<Rightarrow> OP_LTE
    | OP_LT \<Rightarrow> OP_GTE
    | OP_GTE \<Rightarrow> OP_LT
    | OP_LTE \<Rightarrow> OP_GT
    | OP_EQ \<Rightarrow> OP_NEQ
    | OP_NEQ \<Rightarrow> OP_EQ
    | OP_IN \<Rightarrow> OP_NOT_IN
    | OP_NOT_IN \<Rightarrow> OP_IN
    | OP_LIKE \<Rightarrow> OP_NOT_LIKE
    | OP_NOT_LIKE \<Rightarrow> OP_LIKE
    | OP_ILIKE \<Rightarrow> OP_NOT_ILIKE
    | OP_NOT_ILIKE \<Rightarrow> OP_ILIKE
    | OP_IS_NULL \<Rightarrow> OP_IS_NOT_NULL
    | OP_IS_NOT_NULL \<Rightarrow> OP_IS_NULL
    | _ \<Rightarrow> OP_INVALID)"

definition isCummutative :: "column_operation \<Rightarrow> bool" where
  "isCummutative op \<longleftrightarrow> op \<in> {OP_AND, OP_NAND, OP_OR, OP_NOR, OP_XOR, OP_XNOR, OP_ADD, OP_MUL, OP_MIN, OP_MAX, OP_AVG, OP_COUNT, OP_COUNT_DISTINCT,
     OP_SUM, OP_MEDIAN, OP_VAR, OP_STD}"

definition isTableOperation :: "column_operation \<Rightarrow> bool" where
  "isTableOperation op \<longleftrightarrow> op \<in> {OP_TABLE, OP_DF, OP_FILTER, OP_RANGE, OP_SORT, OP_UNION}"

subsection \<open>Names and nodes\<close>

definition appendName :: "string \<Rightarrow> query_graph \<Rightarrow> node \<times> query_graph" where
  "appendName name g = (int (length (qg_names g)), g\<lparr>qg_names := qg_names g @ [name]\<rparr>)"

definition setNodeName :: "node \<Rightarrow> string \<Rightarrow> query_graph \<Rightarrow> query_graph result" where
  "setNodeName n name g =
     (let (name_id, g1) = appendName name g
      in bind_result (at (qg_operations g1) n) (\<lambda>op.
         Inr (g1\<lparr>qg_operations := (qg_operations g1)[nat n := op\<lparr>op_name := name_id\<rparr>]\<rparr>)))"

definition getNodeName :: "query_graph \<Rightarrow> node \<Rightarrow> string result" where
  "getNodeName g n =
     bind_result (at (qg_operations g) n) (\<lambda>op.
     if op_name op = NODE_NONE then Inr [] else at (qg_names g) (op_name op))"

text \<open>The common tail of the append functions: one entry in each of the two parallel vectors.\<close>

definition push_node :: "operation \<Rightarrow> node list \<Rightarrow> query_graph \<Rightarrow> node \<times> query_graph" where
  "push_node op args g =
     (int (length (qg_operations g)),
      g\<lparr>qg_operations := qg_operations g @ [op], qg_mapping := qg_mapping g @ [args]\<rparr>)"

definition appendInt64Constant :: "64 word \<Rightarrow> query_graph \<Rightarrow> node \<times> query_graph" where
  "appendInt64Constant x g =
     push_node \<lparr>op_op = OP_CONST, op_name = NODE_NONE, op_const_id = int (length (int64_constants g)), op_df = 0,
       op_type = Ty_Int64, op_sequence = SEQ_SINGLE\<rparr> [] (g\<lparr>int64_constants := int64_constants g @ [x]\<rparr>)"

definition appendFloat64Constant :: "64 word \<Rightarrow> query_graph \<Rightarrow> node \<times> query_graph" where
  "appendFloat64Constant x g =
     push_node \<lparr>op_op = OP_CONST, op_name = NODE_NONE, op_const_id = int (length (float64_constants g)), op_df = 0,
       op_type = Ty_Float64, op_sequence = SEQ_SINGLE\<rparr> [] (g\<lparr>float64_constants := float64_constants g @ [x]\<rparr>)"

definition appendStringConstant :: "string \<Rightarrow> query_graph \<Rightarrow> node \<times> query_graph" where
  "appendStringConstant x g =
     push_node \<lparr>op_op = OP_CONST, op_name = NODE_NONE, op_const_id = int (length (string_constants g)), op_df = 0,
       op_type = Ty_String, op_sequence = SEQ_SINGLE\<rparr> [] (g\<lparr>string_constants := string_constants g @ [x]\<rparr>)"

definition appendColumn :: "string \<Rightarrow> value_type \<Rightarrow> query_graph \<Rightarrow> node \<times> query_graph" where
  "appendColumn name ty g =
     (let (name_id, g1) = appendName name g
      in push_node \<lparr>op_op = OP_COLUMN, op_name = name_id, op_const_id = NODE_NONE, op_df = NODE_NONE,
           op_type = ty, op_sequence = SEQ_ARRAY\<rparr> [] g1)"

definition appendTable :: "string \<Rightarrow> node list \<Rightarrow> query_graph \<Rightarrow> node \<times> query_graph" where
  "appendTable name cols g =
     (let (name_id, g1) = appendName name g
      in push_node \<lparr>op_op = OP_TABLE, op_name = name_id, op_const_id = NODE_NONE, op_df = NODE_NONE,
           op_type = Ty_Any, op_sequence = SEQ_ARRAY\<rparr> cols g1)"

text \<open>The parameter \<open>sequence\<close> of \<open>appendNode\<close> is not used by its body.\<close>

definition appendNode :: "node \<Rightarrow> column_operation \<Rightarrow> value_type \<Rightarrow> node list \<Rightarrow> query_graph \<Rightarrow> node \<times> query_graph" where
  "appendNode df op ty args g =
     push_node \<lparr>op_op = op, op_name = NODE_NONE, op_const_id = NODE_NONE, op_df = df,
       op_type = ty, op_sequence = SEQ_SINGLE\<rparr> args g"

text \<open>
  A \<open>std::map\<close> from strings that is iterated is the list of its entries in ascending byte
  order of the keys, which assignment keeps.
\<close>

type_synonym ident_map = "(string \<times> node) list"

fun ident_assign :: "string \<Rightarrow> node \<Rightarrow> ident_map \<Rightarrow> ident_map" where
  "ident_assign k v [] = [(k, v)]"
| "ident_assign k v ((k', v') # xs) =
     (if k = k' then (k, v) # xs
      else if k < k' then (k, v) # (k', v') # xs
      else (k', v') # ident_assign k v xs)"

fun loadTableNames_loop :: "node list \<Rightarrow> query_graph \<Rightarrow> string \<Rightarrow> ident_map \<Rightarrow> ident_map result" where
  "loadTableNames_loop [] g table_name ctx = Inr ctx"
| "loadTableNames_loop (col # cols) g table_name ctx =
     bind_result (at (qg_operations g) col) (\<lambda>op.
     if op_name op = NODE_NONE then loadTableNames_loop cols g table_name ctx
     else bind_result (at (qg_names g) (op_name op)) (\<lambda>name.
       let ctx1 = ident_assign name col ctx;
           ctx2 = (if table_name \<noteq> [] then ident_assign (table_name @ ''.'' @ name) col ctx1 else ctx1)
       in loadTableNames_loop cols g table_name ctx2))"

definition loadTableNames :: "query_graph \<Rightarrow> node \<Rightarrow> string \<Rightarrow> ident_map \<Rightarrow> ident_map result" where
  "loadTableNames g table_node table_name ctx =
     bind_result (at (qg_mapping g) table_node) (\<lambda>cols. loadTableNames_loop cols g table_name ctx)"

text \<open>
  \<open>getNumericConstant\<close>: the number stored for a constant, \<open>Inl\<close> an integer, \<open>Inr\<close> the bits of
  a double (the conversion to the caller's type is the compiler's).
\<close>

definition constant_at :: "'a list \<Rightarrow> node \<Rightarrow> 'a result" where
  "constant_at xs n =
     (if n < 0 \<or> int (length xs) \<le> n then Inl (InvalidArgument ''Invalid constant id'') else at xs n)"

definition singleton_at :: "'a list list \<Rightarrow> node \<Rightarrow> 'a result" where
  "singleton_at xss n =
     bind_result (constant_at xss n) (\<lambda>xs.
     if length xs \<noteq> 1 then Inl (InvalidArgument ''Invalid array length'') else at xs 0)"

definition getNumericConstant :: "query_graph \<Rightarrow> operation \<Rightarrow> (64 word + 64 word) result" where
  "getNumericConstant g op =
     (case op_type op of
        Ty_Int64 \<Rightarrow>
          bind_result (if op_sequence op = SEQ_ARRAY then singleton_at (int64_array_constants g) (op_const_id op)
            else constant_at (int64_constants g) (op_const_id op)) (\<lambda>x. Inr (Inl x))
      | Ty_Float64 \<Rightarrow>
          bind_result (if op_sequence op = SEQ_ARRAY then singleton_at (float64_array_constants g) (op_const_id op)
            else constant_at (float64_constants g) (op_const_id op)) (\<lambda>x. Inr (Inr x))
      | _ \<Rightarrow> Inl (InvalidArgument ''Invalid constant id type''))"

lemmas [graph_defs] =
  push_node_def appendName_def appendInt64Constant_def appendFloat64Constant_def appendStringConstant_def
  appendColumn_def appendTable_def appendNode_def

subsection \<open>Adjacency lists and edges\<close>

definition push_back_at :: "node \<Rightarrow> 'a \<Rightarrow> 'a list list \<Rightarrow> 'a list list result" where
  "push_back_at n x xss = bind_result (at xss n) (\<lambda>xs. Inr (xss[nat n := xs @ [x]]))"

fun add_edges :: "(node \<times> node) list \<Rightarrow> node list list \<Rightarrow> node list list result" where
  "add_edges [] m = Inr m"
| "add_edges ((a, b) # es) m = bind_result (push_back_at a b m) (add_edges es)"

definition getGraphMapping :: "(node \<times> node) list \<Rightarrow> node list list result" where
  "getGraphMapping edges =
     (let n = fold (\<lambda>(a, b) n. max (max n a) b) edges 0 + 1
      in add_edges edges (replicate (nat n) []))"

fun revert_row :: "nat \<Rightarrow> node list \<Rightarrow> node list list \<Rightarrow> node list list result" where
  "revert_row i [] r = Inr r"
| "revert_row i (j # js) r = bind_result (push_back_at j (int i) r) (revert_row i js)"

fun revert_rows :: "nat \<Rightarrow> node list list \<Rightarrow> node list list \<Rightarrow> node list list result" where
  "revert_rows i [] r = Inr r"
| "revert_rows i (row # rows) r = bind_result (revert_row i row r) (revert_rows (Suc i) rows)"

definition revertGraphMapping :: "node list list \<Rightarrow> node list list result" where
  "revertGraphMapping m = revert_rows 0 m (replicate (length m) [])"

fun edges_from :: "nat \<Rightarrow> node list list \<Rightarrow> (node \<times> node) list" where
  "edges_from i [] = []"
| "edges_from i (row # rows) = map (\<lambda>j. (int i, j)) row @ edges_from (Suc i) rows"

definition getEdgesList :: "node list list \<Rightarrow> (node \<times> node) list" where
  "getEdgesList m = edges_from 0 m"

subsection \<open>Traversal\<close>

text \<open>
  \<open>fillVisited\<close> recurses on children that are still zero; the first argument bounds the depth
  of the recursion, and \<open>None\<close> means that it was not enough.
\<close>

fun fillVisited :: "nat \<Rightarrow> node list list \<Rightarrow> node list \<Rightarrow> node \<Rightarrow> node \<Rightarrow> node list result option"
  and fillVisited_children :: "nat \<Rightarrow> node list list \<Rightarrow> node list \<Rightarrow> node list \<Rightarrow> node \<Rightarrow> node list result option" where
  "fillVisited 0 gm visited n x = None"
| "fillVisited (Suc k) gm visited n x =
     (case (at visited n, at gm n) of
        (Inr _, Inr children) \<Rightarrow> fillVisited_children k gm (visited[nat n := x]) children (x + 1)
      | _ \<Rightarrow> Some (Inl UndefinedBehaviour))"
| "fillVisited_children k gm visited [] x = Some (Inr visited)"
| "fillVisited_children k gm visited (c # cs) x =
     (case at visited c of
        Inl e \<Rightarrow> Some (Inl e)
      | Inr v \<Rightarrow>
          if v = 0
          then (case fillVisited k gm visited c x of
                  Some (Inr visited') \<Rightarrow> fillVisited_children k gm visited' cs x
                | r \<Rightarrow> r)
          else fillVisited_children k gm visited cs x)"

text \<open>
  \<open>std::sort\<close> by descending value: any permutation in which no node stands after one with
  a smaller value (the order of equal ones is unspecified).
\<close>

definition visited_nodes :: "node list \<Rightarrow> nat list" where
  "visited_nodes visited = filter (\<lambda>i. visited ! i \<noteq> 0) [0..<length visited]"

definition visitedNodesOrder :: "node list \<Rightarrow> nat list \<Rightarrow> bool" where
  "visitedNodesOrder visited order \<longleftrightarrow>
     mset order = mset (visited_nodes visited) \<and> sorted_wrt (\<lambda>a b. visited ! b \<le> visited ! a) order"

text \<open>The position of each node in the order that the sort produced.\<close>

definition visitedLeaveMap :: "nat list \<Rightarrow> (node \<rightharpoonup> node)" where
  "visitedLeaveMap order = map_of (zip (map int order) (map int [0..<length order]))"

fun map_row :: "(node \<rightharpoonup> node) \<Rightarrow> node \<Rightarrow> node list \<Rightarrow> node list list \<Rightarrow> node list list result" where
  "map_row nm node1 [] m = Inr m"
| "map_row nm node1 (node2 # row) m =
     (case nm node2 of
        None \<Rightarrow> map_row nm node1 row m
      | Some node2' \<Rightarrow> bind_result (push_back_at node1 node2' m) (map_row nm node1 row))"

fun map_rows :: "(node \<rightharpoonup> node) \<Rightarrow> nat \<Rightarrow> node list list \<Rightarrow> node list list \<Rightarrow> node list list result" where
  "map_rows nm i [] m = Inr m"
| "map_rows nm i (row # rows) m =
     (case nm (int i) of
        None \<Rightarrow> map_rows nm (Suc i) rows m
      | Some node1' \<Rightarrow> bind_result (map_row nm node1' row m) (map_rows nm (Suc i) rows))"

text \<open>\<open>nm\<close> is a \<open>std::map\<close>, given with its size.\<close>

definition mapMappingGraph :: "node list list \<Rightarrow> (node \<rightharpoonup> node) \<Rightarrow> nat \<Rightarrow> node list list result" where
  "mapMappingGraph gm nm nm_size = map_rows nm 0 gm (replicate nm_size [])"

definition default_operation :: operation where
  "default_operation = \<lparr>op_op = OP_CONST, op_name = NODE_NONE, op_const_id = NODE_NONE, op_df = NODE_NONE,
     op_type = Ty_Any, op_sequence = SEQ_ANY\<rparr>"

fun assign_operations :: "operation list \<Rightarrow> (node \<times> node) list \<Rightarrow> operation list \<Rightarrow> operation list result" where
  "assign_operations ops [] new_ops = Inr new_ops"
| "assign_operations ops ((old, new) # entries) new_ops =
     bind_result (at ops old) (\<lambda>op.
     bind_result (at new_ops new) (\<lambda>_.
     assign_operations ops entries (new_ops[nat new := op])))"

text \<open>The entries of the \<open>std::map\<close> in the order of its iteration.\<close>

definition mapOperations :: "operation list \<Rightarrow> (node \<times> node) list \<Rightarrow> operation list result" where
  "mapOperations ops entries = assign_operations ops entries (replicate (length entries) default_operation)"

subsection \<open>Data frames\<close>

fun fillDFIdsWalk :: "nat \<Rightarrow> node list list \<Rightarrow> operation list \<Rightarrow> node \<Rightarrow> operation list result option"
  and fillDFIds_children :: "nat \<Rightarrow> node list list \<Rightarrow> operation list \<Rightarrow> node list \<Rightarrow> node \<Rightarrow> operation list result option" where
  "fillDFIdsWalk 0 gm ops df_node = None"
| "fillDFIdsWalk (Suc k) gm ops df_node =
     (case at ops df_node of
        Inl e \<Rightarrow> Some (Inl e)
      | Inr op \<Rightarrow>
          if op_df op \<noteq> NODE_NONE then Some (Inr ops)
          else (case at gm df_node of
                  Inl e \<Rightarrow> Some (Inl e)
                | Inr children \<Rightarrow>
                    fillDFIds_children k gm (ops[nat df_node := op\<lparr>op_df := df_node\<rparr>]) children df_node))"
| "fillDFIds_children k gm ops [] df_node = Some (Inr ops)"
| "fillDFIds_children k gm ops (child_id # cs) df_node =
     (case at ops child_id of
        Inl e \<Rightarrow> Some (Inl e)
      | Inr child \<Rightarrow>
          if \<not> isTableOperation (op_op child)
          then (case fillDFIdsWalk k gm ops df_node of
                  Some (Inr ops') \<Rightarrow> fillDFIds_children k gm ops' cs df_node
                | r \<Rightarrow> r)
          else fillDFIds_children k gm ops cs df_node)"

fun fillDFIds_from :: "nat \<Rightarrow> nat list \<Rightarrow> node list list \<Rightarrow> operation list \<Rightarrow> operation list result option" where
  "fillDFIds_from k [] gm ops = Some (Inr ops)"
| "fillDFIds_from k (i # rest) gm ops =
     (if isTableOperation (op_op (ops ! i))
      then (case fillDFIdsWalk k gm ops (int i) of
              Some (Inr ops') \<Rightarrow> fillDFIds_from k rest gm ops'
            | r \<Rightarrow> r)
      else fillDFIds_from k rest gm ops)"

definition fillDFIds :: "node list list \<Rightarrow> operation list \<Rightarrow> operation list result option" where
  "fillDFIds gm ops = fillDFIds_from (Suc (Suc (length ops))) [0..<length ops] gm ops"

subsection \<open>Hashes\<close>

type_synonym node_hash = "64 word"

fun hash_positional_loop :: "node list \<Rightarrow> node_hash list \<Rightarrow> node_hash \<Rightarrow> node_hash result" where
  "hash_positional_loop [] hs h = Inr h"
| "hash_positional_loop (c # cs) hs h =
     bind_result (at hs c) (\<lambda>x. hash_positional_loop cs hs ((h + x + 82937) * 4565))"

definition hashChildrenPositional :: "node list \<Rightarrow> node_hash list \<Rightarrow> node_hash result" where
  "hashChildrenPositional children hs = hash_positional_loop children hs 583747"

text \<open>The loop of \<open>hashChildrenSet\<close> does not look at the children.\<close>

fun hash_set_loop :: "node list \<Rightarrow> node_hash \<Rightarrow> node_hash" where
  "hash_set_loop [] h = h"
| "hash_set_loop (c # cs) h = hash_set_loop cs (h * (h + 989673))"

definition hashChildrenSet :: "node list \<Rightarrow> node_hash list \<Rightarrow> node_hash result" where
  "hashChildrenSet children hs = Inr (hash_set_loop children 583747)"

definition hashOperationParams :: "operation \<Rightarrow> node_hash" where
  "hashOperationParams op =
     (let h = 45643;
          h = h * 5667 + of_int (op_number (op_op op));
          h = h * 5453 + of_int (op_name op);
          h = h * 4567 + of_int (op_const_id op);
          h = h * 6357 + of_int (op_df op);
          h = h * 8763 + of_int (type_number (op_type op));
          h = h * 5 + of_int (sequence_number (op_sequence op) * 3)
      in h)"

definition hashNode :: "node list list \<Rightarrow> operation list \<Rightarrow> node \<Rightarrow> node_hash list \<Rightarrow> node_hash result" where
  "hashNode gm ops n hs =
     bind_result (at gm n) (\<lambda>children.
     bind_result (at ops n) (\<lambda>op.
     bind_result (if children = [] then Inr 0
        else if \<not> isCummutative (op_op op) then hashChildrenPositional children hs
        else hashChildrenSet children hs) (\<lambda>child_hash.
     Inr (hashOperationParams op + child_hash))))"

fun fillNodeHashes :: "node list list \<Rightarrow> operation list \<Rightarrow> node list \<Rightarrow> node_hash list \<Rightarrow> node_hash list result" where
  "fillNodeHashes gm ops [] hs = Inr hs"
| "fillNodeHashes gm ops (n # order) hs =
     bind_result (hashNode gm ops n hs) (\<lambda>h.
     bind_result (at hs n) (\<lambda>_.
     fillNodeHashes gm ops order (hs[nat n := h])))"

end
