(* ===== verification/Query_Algorithms.thy ===== *)
theory Query_Algorithms
  imports Query_Graph
begin

text \<open>
  What the functions of the query graph do: well-formedness is kept by every append, edge
  lists and adjacency lists are inverse to each other, reverting transposes, the traversal
  marks exactly what is reachable, and what the data-frame tags and the hashes depend on.
\<close>

subsection \<open>Well-formed graphs\<close>

definition node_ok :: "query_graph \<Rightarrow> node \<Rightarrow> bool" where
  "node_ok g n \<longleftrightarrow> 0 \<le> n \<and> nat n < length (qg_operations g)"

definition operation_ok :: "query_graph \<Rightarrow> operation \<Rightarrow> bool" where
  "operation_ok g op \<longleftrightarrow>
     (op_name op = NODE_NONE \<or> 0 \<le> op_name op \<and> nat (op_name op) < length (qg_names g))
   \<and> (op_op op = OP_CONST \<longrightarrow> op_sequence op = SEQ_SINGLE \<and> 0 \<le> op_const_id op \<and>
        (case op_type op of
           Ty_Int64 \<Rightarrow> nat (op_const_id op) < length (int64_constants g)
         | Ty_Float64 \<Rightarrow> nat (op_const_id op) < length (float64_constants g)
         | Ty_String \<Rightarrow> nat (op_const_id op) < length (string_constants g)
         | _ \<Rightarrow> False))
   \<and> (op_df op = NODE_NONE \<or> node_ok g (op_df op))"

text \<open>
  A data-frame tag is a node, \<open>NODE_NONE\<close>, or 0 for constants, which is a node as well. An argument may be
  \<open>NODE_NONE\<close>: a \<open>RANGE\<close> without an upper bound has one. The others stand
  before the node that they are arguments of, so the graph has no cycle.
\<close>

definition graph_wf :: "query_graph \<Rightarrow> bool" where
  "graph_wf g \<longleftrightarrow>
     length (qg_mapping g) = length (qg_operations g)
   \<and> (\<forall>op \<in> set (qg_operations g). operation_ok g op)
   \<and> (\<forall>row \<in> set (qg_mapping g). \<forall>n \<in> set row. n = NODE_NONE \<or> node_ok g n)
   \<and> (\<forall>i < length (qg_mapping g). \<forall>n \<in> set (qg_mapping g ! i). n < int i)"

definition same_but_name :: "operation \<Rightarrow> operation \<Rightarrow> bool" where
  "same_but_name op op' \<longleftrightarrow> op'\<lparr>op_name := op_name op\<rparr> = op"

text \<open>A later graph of the same query: nothing is removed and only names change.\<close>

definition graph_extends :: "query_graph \<Rightarrow> query_graph \<Rightarrow> bool" where
  "graph_extends g g' \<longleftrightarrow>
     (\<exists>rows. qg_mapping g' = qg_mapping g @ rows)
   \<and> (\<exists>names. qg_names g' = qg_names g @ names)
   \<and> (\<exists>xs. int64_constants g' = int64_constants g @ xs)
   \<and> (\<exists>xs. float64_constants g' = float64_constants g @ xs)
   \<and> (\<exists>xs. string_constants g' = string_constants g @ xs)
   \<and> (\<exists>ops. length (qg_operations g') = length (qg_operations g) + ops)
   \<and> (\<forall>i < length (qg_operations g). same_but_name (qg_operations g ! i) (qg_operations g' ! i))"

lemma same_but_name_refl [simp]: "same_but_name op op"
  by (simp add: same_but_name_def)

lemma same_but_name_trans: "same_but_name a b \<Longrightarrow> same_but_name b c \<Longrightarrow> same_but_name a c"
  unfolding same_but_name_def by (cases a; cases b; cases c) auto

lemma graph_extends_refl [simp]: "graph_extends g g"
  by (simp add: graph_extends_def)

lemma graph_extends_trans:
  assumes "graph_extends a b" and "graph_extends b c"
  shows "graph_extends a c"
proof -
  have "same_but_name (qg_operations a ! i) (qg_operations c ! i)" if "i < length (qg_operations a)" for i
    using assms that same_but_name_trans
    by (metis graph_extends_def trans_less_add1)
  then show ?thesis using assms by (auto simp: graph_extends_def)
qed

lemma graph_extends_node_ok: "graph_extends g g' \<Longrightarrow> node_ok g n \<Longrightarrow> node_ok g' n"
  by (auto simp: graph_extends_def node_ok_def)

lemma operation_ok_extends: "graph_extends g g' \<Longrightarrow> operation_ok g op \<Longrightarrow> operation_ok g' op"
  using graph_extends_node_ok [of g g' "op_df op"] by (auto simp: graph_extends_def operation_ok_def split: value_type.splits)

text \<open>Appending a well-formed node to a well-formed graph.\<close>

definition args_ok :: "query_graph \<Rightarrow> node list \<Rightarrow> bool" where
  "args_ok g args \<longleftrightarrow> (\<forall>n \<in> set args. n = NODE_NONE \<or> node_ok g n)"

definition good_append :: "query_graph \<Rightarrow> node \<times> query_graph \<Rightarrow> bool" where
  "good_append g r \<longleftrightarrow> graph_wf (snd r) \<and> graph_extends g (snd r) \<and> node_ok (snd r) (fst r)"

lemma args_ok_simps [simp]:
  "args_ok g []" "args_ok g (n # ns) \<longleftrightarrow> (n = NODE_NONE \<or> node_ok g n) \<and> args_ok g ns"
  "args_ok g (ns @ ms) \<longleftrightarrow> args_ok g ns \<and> args_ok g ms"
  by (auto simp: args_ok_def)

lemma args_ok_extends: "graph_extends g g' \<Longrightarrow> args_ok g ns \<Longrightarrow> args_ok g' ns"
  using graph_extends_node_ok by (auto simp: args_ok_def)

lemma graph_wf_iff:
  "graph_wf g \<longleftrightarrow> length (qg_mapping g) = length (qg_operations g) \<and>
     (\<forall>op \<in> set (qg_operations g). operation_ok g op) \<and> (\<forall>row \<in> set (qg_mapping g). args_ok g row) \<and>
     (\<forall>i < length (qg_mapping g). \<forall>n \<in> set (qg_mapping g ! i). n < int i)"
  by (simp add: graph_wf_def args_ok_def)

lemma push_node_good:
  assumes wf: "graph_wf g" and ext: "graph_extends g g1"
    and same: "qg_operations g1 = qg_operations g" "qg_mapping g1 = qg_mapping g"
    and op: "operation_ok (snd (push_node op args g1)) op" and args: "args_ok g args"
  shows "good_append g (push_node op args g1)"
proof -
  define g' where "g' = snd (push_node op args g1)"
  have ops: "qg_operations g' = qg_operations g @ [op]" and map: "qg_mapping g' = qg_mapping g @ [args]"
    using same by (simp_all add: g'_def push_node_def)
  have len: "length (qg_mapping g) = length (qg_operations g)" using wf by (simp add: graph_wf_def)
  have ext1: "graph_extends g1 g'"
    using same len by (auto simp: g'_def push_node_def graph_extends_def nth_append)
  have ext': "graph_extends g g'" by (rule graph_extends_trans [OF ext ext1])
  have "\<forall>op' \<in> set (qg_operations g'). operation_ok g' op'"
    using wf op operation_ok_extends [OF ext'] by (auto simp: ops graph_wf_def g'_def [symmetric])
  moreover have "\<forall>row \<in> set (qg_mapping g'). args_ok g' row"
    using wf args args_ok_extends [OF ext'] by (auto simp: map graph_wf_iff)
  moreover have "n < int i" if "i < length (qg_mapping g')" "n \<in> set (qg_mapping g' ! i)" for i n
  proof (cases "i < length (qg_mapping g)")
    case True
    then show ?thesis using wf that by (simp add: graph_wf_iff map nth_append)
  next
    case False
    then have "i = length (qg_operations g)" "n \<in> set args" using that len by (simp_all add: map nth_append)
    then show ?thesis using args by (auto simp: args_ok_def node_ok_def NODE_NONE_def)
  qed
  ultimately have "graph_wf g'" using len unfolding graph_wf_iff ops map by simp
  moreover have "node_ok g' (fst (push_node op args g1))"
    using same ops by (simp add: push_node_def node_ok_def)
  ultimately show ?thesis using ext' by (simp add: good_append_def g'_def)
qed

lemma appendNode_good: "graph_wf g \<Longrightarrow> op \<noteq> OP_CONST \<Longrightarrow> df \<in> {NODE_NONE, 0} \<Longrightarrow> args_ok g args \<Longrightarrow>
    good_append g (appendNode df op ty args g)"
  unfolding appendNode_def by (rule push_node_good) (auto simp: operation_ok_def push_node_def node_ok_def)

lemma appendInt64Constant_good: "graph_wf g \<Longrightarrow> good_append g (appendInt64Constant x g)"
  unfolding appendInt64Constant_def by (rule push_node_good) (simp_all add: operation_ok_def push_node_def node_ok_def graph_extends_def)

lemma appendFloat64Constant_good: "graph_wf g \<Longrightarrow> good_append g (appendFloat64Constant x g)"
  unfolding appendFloat64Constant_def by (rule push_node_good) (simp_all add: operation_ok_def push_node_def node_ok_def graph_extends_def)

lemma appendStringConstant_good: "graph_wf g \<Longrightarrow> good_append g (appendStringConstant y g)"
  unfolding appendStringConstant_def by (rule push_node_good) (simp_all add: operation_ok_def push_node_def node_ok_def graph_extends_def)

lemma appendColumn_good: "graph_wf g \<Longrightarrow> good_append g (appendColumn name ty g)"
  unfolding appendColumn_def appendName_def prod.case Let_def
  by (rule push_node_good) (simp_all add: operation_ok_def push_node_def node_ok_def graph_extends_def)

lemma appendTable_good: "graph_wf g \<Longrightarrow> args_ok g cols \<Longrightarrow> good_append g (appendTable name cols g)"
  unfolding appendTable_def appendName_def prod.case Let_def
  by (rule push_node_good) (simp_all add: operation_ok_def push_node_def node_ok_def graph_extends_def)

lemmas append_good =
  appendNode_good appendInt64Constant_good appendFloat64Constant_good appendStringConstant_good
  appendColumn_good appendTable_good

lemma good_appendD:
  assumes "good_append g (n, g')"
  shows "graph_wf g'" and "graph_extends g g'" and "node_ok g' n"
  using assms by (simp_all add: good_append_def)

lemma setNodeName_good:
  assumes wf: "graph_wf g" and res: "setNodeName n name g = Inr g'"
  shows "graph_wf g' \<and> graph_extends g g'"
proof -
  define op where "op = (qg_operations g ! nat n)\<lparr>op_name := int (length (qg_names g))\<rparr>"
  have n: "node_ok g n"
    and g': "g' = g\<lparr>qg_names := qg_names g @ [name], qg_operations := (qg_operations g)[nat n := op]\<rparr>"
    using res by (auto simp: setNodeName_def appendName_def node_ok_def at_iff bind_result_Inr_iff op_def)
  have same: "same_but_name (qg_operations g ! nat n) op" by (simp add: same_but_name_def op_def)
  have "same_but_name (qg_operations g ! i) ((qg_operations g)[nat n := op] ! i)" if "i < length (qg_operations g)" for i
    using same that by (cases "i = nat n") simp_all
  then have ext: "graph_extends g g'" by (simp add: g' graph_extends_def)
  have "operation_ok g (qg_operations g ! nat n)" using wf n by (simp add: graph_wf_def node_ok_def)
  then have new: "operation_ok g' op"
    by (simp add: operation_ok_def node_ok_def g' op_def split: value_type.splits)
  have "\<forall>op' \<in> set (qg_operations g'). operation_ok g' op'"
  proof
    fix op' assume "op' \<in> set (qg_operations g')"
    then have "op' = op \<or> op' \<in> set (qg_operations g)"
      using set_update_subset_insert by (fastforce simp: g')
    then show "operation_ok g' op'" using new wf operation_ok_extends [OF ext] by (auto simp: graph_wf_def)
  qed
  moreover have "\<forall>row \<in> set (qg_mapping g'). args_ok g' row"
    using wf args_ok_extends [OF ext] by (simp add: graph_wf_iff g')
  ultimately show ?thesis using wf ext by (simp add: graph_wf_iff g')
qed

lemma map_of_ident_assign: "map_of (ident_assign k v xs) = (map_of xs)(k \<mapsto> v)"
  by (induction xs) auto

lemma set_ident_assign: "set (ident_assign k v xs) \<subseteq> insert (k, v) (set xs)"
  by (induction xs) (auto split: if_splits)

lemma sorted_ident_assign: "sorted_wrt (<) (map fst xs) \<Longrightarrow> sorted_wrt (<) (map fst (ident_assign k v xs))"
proof (induction xs)
  case (Cons x xs)
  have "fst p = k \<or> p \<in> set xs" if "p \<in> set (ident_assign k v xs)" for p
    using set_ident_assign [of k v xs] that by auto
  then show ?case using Cons by (cases x) (fastforce simp: not_less_iff_gr_or_eq)
qed simp

definition context_ok :: "query_graph \<Rightarrow> ident_map \<Rightarrow> bool" where
  "context_ok g ctx \<longleftrightarrow> (\<forall>(i, n) \<in> set ctx. node_ok g n)"

lemma context_ok_empty [simp]: "context_ok g []"
  by (simp add: context_ok_def)

lemma context_ok_update: "context_ok g ctx \<Longrightarrow> node_ok g n \<Longrightarrow> context_ok g (ident_assign i n ctx)"
  using set_ident_assign by (fastforce simp: context_ok_def)

lemma context_okD: "context_ok g ctx \<Longrightarrow> map_of ctx i = Some n \<Longrightarrow> node_ok g n"
  by (auto simp: context_ok_def dest: map_of_SomeD)

lemma context_ok_extends: "graph_extends g g' \<Longrightarrow> context_ok g ctx \<Longrightarrow> context_ok g' ctx"
  using graph_extends_node_ok by (fastforce simp: context_ok_def)

lemma loadTableNames_loop_ok:
  "context_ok g ctx \<Longrightarrow> loadTableNames_loop cols g t ctx = Inr ctx' \<Longrightarrow> context_ok g ctx'"
proof (induction cols arbitrary: ctx)
  case (Cons col cols)
  obtain op where op: "at (qg_operations g) col = Inr op"
    using Cons.prems(2) by (auto simp: bind_result_Inr_iff)
  then have col: "node_ok g col" by (simp add: at_iff node_ok_def)
  show ?case
  proof (cases "op_name op = NODE_NONE")
    case True
    then show ?thesis using Cons op by simp
  next
    case False
    then obtain name where name: "at (qg_names g) (op_name op) = Inr name"
      using Cons.prems(2) op by (auto simp: bind_result_Inr_iff)
    define ctx2 where "ctx2 = (if t \<noteq> [] then ident_assign (t @ ''.'' @ name) col (ident_assign name col ctx)
      else ident_assign name col ctx)"
    have "context_ok g ctx2" using Cons.prems(1) col by (simp add: ctx2_def context_ok_update)
    moreover have "loadTableNames_loop cols g t ctx2 = Inr ctx'"
      using Cons.prems(2) op name False by (simp add: ctx2_def Let_def)
    ultimately show ?thesis by (rule Cons.IH)
  qed
qed simp

lemma loadTableNames_ok:
  "context_ok g ctx \<Longrightarrow> loadTableNames g n t ctx = Inr ctx' \<Longrightarrow> context_ok g ctx'"
  using loadTableNames_loop_ok by (auto simp: loadTableNames_def bind_result_Inr_iff)

subsection \<open>Edges and adjacency lists\<close>

definition mapping_ok :: "node list list \<Rightarrow> bool" where
  "mapping_ok m \<longleftrightarrow> (\<forall>row \<in> set m. \<forall>n \<in> set row. 0 \<le> n \<and> nat n < length m)"

definition mapping_row :: "node list list \<Rightarrow> nat \<Rightarrow> node list" where
  "mapping_row m i = (if i < length m then m ! i else [])"

lemma push_back_at_ok:
  "0 \<le> n \<Longrightarrow> nat n < length xss \<Longrightarrow> push_back_at n x xss = Inr (xss[nat n := xss ! nat n @ [x]])"
  by (simp add: push_back_at_def at_def)

lemma add_edges_eq:
  assumes "\<forall>(a, b) \<in> set es. 0 \<le> a \<and> nat a < length m"
  shows "add_edges es m = Inr (map (\<lambda>i. m ! i @ map snd (filter (\<lambda>e. fst e = int i) es)) [0..<length m])"
  using assms
proof (induction es arbitrary: m)
  case Nil
  then show ?case by (simp add: map_nth)
next
  case (Cons e es)
  obtain a b where e: "e = (a, b)" by fastforce
  let ?m = "m[nat a := m ! nat a @ [b]]"
  have a: "0 \<le> a" "nat a < length m" using Cons.prems e by auto
  have IH: "add_edges es ?m = Inr (map (\<lambda>i. ?m ! i @ map snd (filter (\<lambda>e. fst e = int i) es)) [0..<length ?m])"
    by (rule Cons.IH) (use Cons.prems in auto)
  have "?m ! i @ map snd (filter (\<lambda>e. fst e = int i) es) = m ! i @ map snd (filter (\<lambda>e. fst e = int i) ((a, b) # es))"
    if "i < length m" for i
    using that a by (cases "i = nat a") auto
  then show ?case using a IH by (simp add: e push_back_at_ok)
qed

lemma edges_from_fst: "(a, b) \<in> set (edges_from i rows) \<Longrightarrow> int i \<le> a \<and> a < int (i + length rows)"
  by (induction i rows rule: edges_from.induct) fastforce+

lemma edges_from_mem:
  "(a, b) \<in> set (edges_from i rows) \<longleftrightarrow> (\<exists>k < length rows. a = int (i + k) \<and> b \<in> set (rows ! k))"
  by (induction i rows rule: edges_from.induct) (auto simp: less_Suc_eq_0_disj)

lemma edges_from_filter:
  "map snd (filter (\<lambda>e. fst e = int j) (edges_from i rows)) =
     (if i \<le> j \<and> j < i + length rows then rows ! (j - i) else [])"
proof (induction i rows rule: edges_from.induct)
  case (2 i row rows)
  have "filter (\<lambda>e. fst e = int j) (map (\<lambda>x. (int i, x)) row) = (if i = j then map (\<lambda>x. (int i, x)) row else [])"
    by (induction row) auto
  moreover have "filter (\<lambda>e. fst e = int j) (edges_from (Suc i) rows) = []" if "j \<le> i"
    using edges_from_fst that by (fastforce simp: filter_empty_conv)
  ultimately show ?case using 2 by (cases "i = j") (auto simp: comp_def nth_Cons')
qed auto

lemma fold_max_ge:
  fixes n :: int
  shows "n \<le> fold (\<lambda>(a, b) n. max (max n a) b) es n"
    and "(a, b) \<in> set es \<Longrightarrow> a \<le> fold (\<lambda>(a, b) n. max (max n a) b) es n"
proof -
  show ge: "n \<le> fold (\<lambda>(a, b) n. max (max n a) b) es n" for n :: int and es
  proof (induction es arbitrary: n)
    case (Cons e es)
    obtain a b where e: "e = (a, b)" by fastforce
    have "n \<le> max (max n a) b" by simp
    also have "\<dots> \<le> fold (\<lambda>(a, b) n. max (max n a) b) es (max (max n a) b)" by (rule Cons.IH)
    finally show ?case by (simp add: e)
  qed simp
  show "a \<le> fold (\<lambda>(a, b) n. max (max n a) b) es n" if "(a, b) \<in> set es"
    using that
  proof (induction es arbitrary: n)
    case (Cons e es)
    obtain c d where e: "e = (c, d)" by fastforce
    show ?case
    proof (cases "(a, b) \<in> set es")
      case True
      then show ?thesis using Cons.IH by (simp add: e)
    next
      case False
      then have "a \<le> max (max n c) d" using Cons.prems e by auto
      also have "\<dots> \<le> fold (\<lambda>(a, b) n. max (max n a) b) es (max (max n c) d)" by (rule ge)
      finally show ?thesis by (simp add: e)
    qed
  qed simp
qed

lemma fold_max_le:
  fixes n :: int
  shows "n \<le> k \<Longrightarrow> \<forall>(a, b) \<in> set es. a \<le> k \<and> b \<le> k \<Longrightarrow> fold (\<lambda>(a, b) n. max (max n a) b) es n \<le> k"
  by (induction es arbitrary: n) auto

lemma adjacency_of_edges:
  assumes "mapping_ok m"
  shows "\<exists>m'. getGraphMapping (getEdgesList m) = Inr m' \<and> (\<forall>i. mapping_row m' i = mapping_row m i)
    \<and> length m' \<le> max 1 (length m)"
proof -
  let ?es = "getEdgesList m"
  let ?n = "fold (\<lambda>(a, b) n. max (max n a) b) ?es 0"
  have n0: "0 \<le> ?n" by (rule fold_max_ge(1))
  have mem: "0 \<le> a \<and> a \<le> ?n" if "(a, b) \<in> set ?es" for a b
    using that fold_max_ge(2) [OF that] edges_from_fst [of a b 0 m] by (simp add: getEdgesList_def)
  define m' where "m' = map (\<lambda>i. replicate (nat (?n + 1)) [] ! i @ map snd (filter (\<lambda>e. fst e = int i) ?es))
      [0..<length (replicate (nat (?n + 1)) ([] :: node list))]"
  have res: "getGraphMapping ?es = Inr m'"
    unfolding getGraphMapping_def Let_def m'_def
    by (rule add_edges_eq) (use mem in fastforce)
  have row: "map snd (filter (\<lambda>e. fst e = int i) ?es) = mapping_row m i" for i
    by (simp add: getEdgesList_def edges_from_filter mapping_row_def)
  have beyond: "mapping_row m i = []" if "nat (?n + 1) \<le> i" for i
  proof -
    have "filter (\<lambda>e. fst e = int i) ?es = []"
      using that mem n0 by (fastforce simp: filter_empty_conv)
    then show ?thesis using row [of i] by simp
  qed
  have "mapping_row m' i = (if i < nat (?n + 1) then mapping_row m i else [])" for i
    unfolding mapping_row_def [of m' i] using row by (simp add: m'_def)
  then have "mapping_row m' i = mapping_row m i" for i using beyond [of i] by simp
  moreover have "?n \<le> int (length m) - 1" if "m \<noteq> []"
  proof (rule fold_max_le)
    show "0 \<le> int (length m) - 1" using that by (cases m) simp_all
    show "\<forall>(a, b) \<in> set ?es. a \<le> int (length m) - 1 \<and> b \<le> int (length m) - 1"
      using assms by (fastforce simp: getEdgesList_def edges_from_mem mapping_ok_def)
  qed
  moreover have "?n = 0" if "m = []" using that by (simp add: getEdgesList_def)
  ultimately show ?thesis using res n0 by (cases "m = []") (auto simp: m'_def)
qed

lemma edges_from_sorted: "sorted (map fst (edges_from i rows))"
proof (induction i rows rule: edges_from.induct)
  case (2 i row rows)
  have "int i \<le> fst e" if "e \<in> set (edges_from (Suc i) rows)" for e
    using edges_from_fst [of "fst e" "snd e" "Suc i" rows] that by simp
  then show ?case using 2 by (simp add: sorted_append comp_def sorted_replicate map_replicate_const)
qed simp

lemma filter_fst_eq:
  fixes xs ys :: "('k \<times> 'v) list"
  assumes "map snd (filter (\<lambda>e. fst e = k) xs) = map snd (filter (\<lambda>e. fst e = k) ys)"
  shows "filter (\<lambda>e. fst e = k) xs = filter (\<lambda>e. fst e = k) ys"
proof -
  have "map (Pair k) (map snd (filter (\<lambda>e. fst e = k) zs)) = filter (\<lambda>e. fst e = k) zs" for zs :: "('k \<times> 'v) list"
    by (induction zs) auto
  then show ?thesis using assms by metis
qed

lemma same_parts_mset:
  assumes "\<And>k. filter (\<lambda>e. f e = k) xs = filter (\<lambda>e. f e = k) ys"
  shows "mset xs = mset ys"
proof (rule multiset_eqI)
  fix x
  have "count (mset zs) x = count (mset (filter (\<lambda>e. f e = f x) zs)) x" for zs by simp
  then show "count (mset xs) x = count (mset ys) x" using assms by metis
qed

lemma edges_of_adjacency:
  assumes "\<forall>(a, b) \<in> set es. 0 \<le> a"
  shows "\<exists>m'. getGraphMapping es = Inr m' \<and> getEdgesList m' = sort_key fst es"
proof -
  let ?n = "fold (\<lambda>(a, b) n. max (max n a) b) es 0"
  have n0: "0 \<le> ?n" by (rule fold_max_ge(1))
  have mem: "0 \<le> a \<and> a \<le> ?n" if "(a, b) \<in> set es" for a b
    using that fold_max_ge(2) [OF that] assms by fastforce
  define m' where "m' = map (\<lambda>i. replicate (nat (?n + 1)) [] ! i @ map snd (filter (\<lambda>e. fst e = int i) es))
      [0..<length (replicate (nat (?n + 1)) ([] :: node list))]"
  have res: "getGraphMapping es = Inr m'"
    unfolding getGraphMapping_def Let_def m'_def
    by (rule add_edges_eq) (use mem in fastforce)
  have part: "filter (\<lambda>e. fst e = k) (getEdgesList m') = filter (\<lambda>e. fst e = k) es" for k
  proof (cases "0 \<le> k \<and> k \<le> ?n")
    case True
    then obtain j where j: "k = int j" using nonneg_int_cases by blast
    then have k: "k = int j" "j < nat (?n + 1)" using True by linarith+
    have "map snd (filter (\<lambda>e. fst e = k) (getEdgesList m')) = map snd (filter (\<lambda>e. fst e = k) es)"
      using k by (simp add: getEdgesList_def edges_from_filter m'_def)
    then show ?thesis by (rule filter_fst_eq)
  next
    case False
    then have "filter (\<lambda>e. fst e = k) es = []" using mem by (fastforce simp: filter_empty_conv)
    moreover have "filter (\<lambda>e. fst e = k) (getEdgesList m') = []"
    proof -
      have "fst e \<noteq> k" if "e \<in> set (getEdgesList m')" for e
        using edges_from_fst [of "fst e" "snd e" 0 m'] that False n0 by (auto simp: getEdgesList_def m'_def)
      then show ?thesis by (simp add: filter_empty_conv)
    qed
    ultimately show ?thesis by simp
  qed
  have "filter (\<lambda>e. k = fst e) (getEdgesList m') = filter (\<lambda>e. k = fst e) es" for k
    using part [of k] by (simp only: eq_commute [of k])
  then have "sort_key fst es = getEdgesList m'"
    by (intro properties_for_sort_key)
      (use same_parts_mset [of fst "getEdgesList m'" es] part edges_from_sorted [of 0 m'] in \<open>simp_all add: getEdgesList_def\<close>)
  then show ?thesis using res by simp
qed

text \<open>
  C22. Edge list and adjacency lists are inverse: the edges that \<open>getEdgesList\<close> reads off a
  graph, fed to \<open>getGraphMapping\<close>, give the same adjacency list for every node (rows behind
  the last node that has an edge are absent); and the edges read off the adjacency lists of an edge
  list are that list, stably sorted by the source of the edges.
\<close>

theorem edges_mapping_roundtrip:
  "(mapping_ok m \<longrightarrow> (\<exists>m'. getGraphMapping (getEdgesList m) = Inr m' \<and> (\<forall>i. mapping_row m' i = mapping_row m i)
      \<and> length m' \<le> max 1 (length m)))
   \<and> ((\<forall>(a, b) \<in> set es. 0 \<le> a) \<longrightarrow> (\<exists>m'. getGraphMapping es = Inr m' \<and> getEdgesList m' = sort_key fst es))"
  using adjacency_of_edges edges_of_adjacency by blast

theorem edges_mapping_roundtrip_witness:
  "(\<exists>m'. getGraphMapping (getEdgesList [[1, 1], [0], []]) = Inr m' \<and> mapping_row m' 0 = [1, 1] \<and> mapping_row m' 1 = [0])
   \<and> (\<exists>m'. getGraphMapping [(2, 7), (0, 3), (2, 1)] = Inr m' \<and> getEdgesList m' = [(0, 3), (2, 7), (2, 1)])"
proof -
  have row: "mapping_row [[1, 1], [0], []] 0 = [1, 1]" "mapping_row [[1, 1], [0], []] 1 = [0]"
    by (simp_all add: mapping_row_def)
  have "mapping_ok [[1, 1], [0], []]" "\<forall>(a, b) \<in> set [(2, 7), (0, 3), (2, 1 :: int)]. (0 :: int) \<le> a"
    by (simp_all add: mapping_ok_def)
  then have "\<exists>m'. getGraphMapping (getEdgesList [[1, 1], [0], []]) = Inr m' \<and> (\<forall>i. mapping_row m' i = mapping_row [[1, 1], [0], []] i)"
    "\<exists>m'. getGraphMapping [(2, 7), (0, 3), (2, 1)] = Inr m' \<and> getEdgesList m' = sort_key fst [(2, 7), (0, 3), (2, 1)]"
    using edges_mapping_roundtrip [of "[[1, 1], [0], []]" "[(2, 7), (0, 3), (2, 1)]"] by blast+
  then show ?thesis using row by (simp add: sort_key_def) metis
qed

subsection \<open>Reverting\<close>

definition copies :: "nat \<Rightarrow> node list \<Rightarrow> node \<Rightarrow> node list" where
  "copies i row j = replicate (count_list row j) (int i)"

lemma revert_row_eq:
  assumes "\<forall>j \<in> set row. 0 \<le> j \<and> nat j < length r"
  shows "revert_row i row r = Inr (map (\<lambda>j. r ! j @ copies i row (int j)) [0..<length r])"
  using assms
proof (induction row arbitrary: r)
  case Nil
  then show ?case by (simp add: copies_def map_nth)
next
  case (Cons n row)
  let ?r = "r[nat n := r ! nat n @ [int i]]"
  have n: "0 \<le> n" "nat n < length r" using Cons.prems by auto
  have "revert_row i row ?r = Inr (map (\<lambda>j. ?r ! j @ copies i row (int j)) [0..<length r])"
    using Cons.IH [of ?r] Cons.prems by simp
  moreover have "?r ! j @ copies i row (int j) = r ! j @ copies i (n # row) (int j)" if "j < length r" for j
    using that n by (cases "j = nat n") (auto simp: copies_def replicate_append_same [symmetric])
  ultimately show ?case using n by (simp add: push_back_at_ok)
qed

lemma revert_rows_eq:
  assumes "\<forall>row \<in> set rows. \<forall>j \<in> set row. 0 \<le> j \<and> nat j < length r"
  shows "revert_rows i rows r =
    Inr (map (\<lambda>j. r ! j @ concat (map (\<lambda>k. copies (i + k) (rows ! k) (int j)) [0..<length rows])) [0..<length r])"
  using assms
proof (induction rows arbitrary: i r)
  case Nil
  then show ?case by (simp add: map_nth)
next
  case (Cons row rows)
  let ?r = "map (\<lambda>j. r ! j @ copies i row (int j)) [0..<length r]"
  have 1: "revert_row i row r = Inr ?r" by (rule revert_row_eq) (use Cons.prems in simp)
  have 2: "revert_rows (Suc i) rows ?r =
    Inr (map (\<lambda>j. ?r ! j @ concat (map (\<lambda>k. copies (Suc i + k) (rows ! k) (int j)) [0..<length rows])) [0..<length ?r])"
    by (rule Cons.IH) (use Cons.prems in simp)
  have "[0..<length (row # rows)] = 0 # map Suc [0..<length rows]"
    by (simp add: upt_conv_Cons map_Suc_upt del: upt_Suc)
  then have "concat (map (\<lambda>k. copies (i + k) ((row # rows) ! k) j) [0..<length (row # rows)]) =
      copies i row j @ concat (map (\<lambda>k. copies (Suc i + k) (rows ! k) j) [0..<length rows])" for j
    by (simp add: comp_def)
  then show ?case using 1 2 by simp
qed

definition transposed_row :: "node list list \<Rightarrow> nat \<Rightarrow> node list" where
  "transposed_row m j = concat (map (\<lambda>k. copies k (m ! k) (int j)) [0..<length m])"

lemma revertGraphMapping_eq:
  assumes "mapping_ok m"
  shows "revertGraphMapping m = Inr (map (transposed_row m) [0..<length m])"
proof -
  have "revertGraphMapping m = Inr (map (\<lambda>j. replicate (length m) [] ! j @
      concat (map (\<lambda>k. copies (0 + k) (m ! k) (int j)) [0..<length m])) [0..<length (replicate (length m) ([] :: node list))])"
    unfolding revertGraphMapping_def by (rule revert_rows_eq) (use assms in \<open>simp add: mapping_ok_def\<close>)
  also have "\<dots> = Inr (map (transposed_row m) [0..<length m])"
    by (simp add: transposed_row_def)
  finally show ?thesis .
qed

lemma count_list_replicate: "count_list (replicate n x) y = (if x = y then n else 0)"
  by (induction n) auto

lemma count_copies: "count_list (copies k row j) n = (if n = int k then count_list row j else 0)"
  by (simp add: copies_def count_list_replicate)

lemma count_concat_copies:
  "count_list (concat (map (\<lambda>k. copies k (f k) j) [0..<n])) (int i) = (if i < n then count_list (f i) j else 0)"
  by (induction n) (auto simp: count_copies less_Suc_eq)

lemma count_transposed: "i < length m \<Longrightarrow> count_list (transposed_row m j) (int i) = count_list (m ! i) (int j)"
  by (simp add: transposed_row_def count_concat_copies)

lemma transposed_row_bounds: "n \<in> set (transposed_row m j) \<Longrightarrow> 0 \<le> n \<and> nat n < length m"
  by (auto simp: transposed_row_def copies_def)

lemma transposed_ok: "mapping_ok (map (transposed_row m) [0..<length m])"
  using transposed_row_bounds by (fastforce simp: mapping_ok_def)

lemma sorted_concat_copies: "sorted (concat (map (\<lambda>k. copies k (f k) j) [0..<n]))"
  by (induction n) (auto simp: sorted_append copies_def)

lemma sorted_transposed: "sorted (transposed_row m j)"
  unfolding transposed_row_def by (rule sorted_concat_copies)

lemma transposed_twice:
  assumes "mapping_ok m" and "i < length m"
  shows "transposed_row (map (transposed_row m) [0..<length m]) i = sort (m ! i)"
proof (rule properties_for_sort [symmetric])
  let ?r = "map (transposed_row m) [0..<length m]"
  have bound: "0 \<le> n \<and> nat n < length m" if "n \<in> set (m ! i)" for n
    using assms that by (auto simp: mapping_ok_def)
  have "count_list (transposed_row ?r i) n = count_list (m ! i) n" for n
  proof (cases "0 \<le> n \<and> nat n < length m")
    case True
    then obtain k where k: "n = int k" "k < length m" by (metis nat_0_le)
    then show ?thesis using assms(2) count_transposed [of k ?r i] count_transposed [of i m k] by simp
  next
    case False
    then have "n \<notin> set (m ! i)" and "n \<notin> set (transposed_row ?r i)"
      using bound [of n] transposed_row_bounds [of n ?r i] by auto
    then show ?thesis by (simp add: count_notin)
  qed
  then show "mset (transposed_row ?r i) = mset (m ! i)"
    by (simp add: multiset_eq_iff count_mset count_list_eq_length_filter [symmetric])
  show "sorted (transposed_row ?r i)" by (rule sorted_transposed)
qed

text \<open>
  Reverting a graph: for a graph whose edges stay in range the result has an edge from
  \<open>j\<close> to \<open>i\<close> as often as the graph has one from \<open>i\<close> to \<open>j\<close>, and reverting twice gives
  the graph back with every adjacency list sorted.
\<close>

theorem revert_transposes:
  assumes "mapping_ok m"
  shows "\<exists>r. revertGraphMapping m = Inr r \<and> length r = length m
    \<and> revertGraphMapping r = Inr (map sort m)
    \<and> (\<forall>i < length m. \<forall>j < length m. count_list (r ! j) (int i) = count_list (m ! i) (int j))"
proof -
  let ?r = "map (transposed_row m) [0..<length m]"
  have "map (transposed_row ?r) [0..<length ?r] = map sort m"
    using transposed_twice [OF assms] by (intro nth_equalityI) simp_all
  then have "revertGraphMapping ?r = Inr (map sort m)"
    using revertGraphMapping_eq [OF transposed_ok] by simp
  then show ?thesis
    using revertGraphMapping_eq [OF assms] count_transposed [of _ m] by (intro exI [of _ ?r]) simp
qed

theorem revert_transposes_witness:
  "\<exists>r. revertGraphMapping [[2, 1], [2], []] = Inr r \<and> revertGraphMapping r = Inr [[1, 2], [2], []]"
proof -
  have "mapping_ok [[2, 1], [2], []]" by (simp add: mapping_ok_def)
  from revert_transposes [OF this] show ?thesis by auto
qed

subsection \<open>Traversal\<close>

definition graph_edge :: "node list list \<Rightarrow> nat \<Rightarrow> nat \<Rightarrow> bool" where
  "graph_edge gm u v \<longleftrightarrow> u < length gm \<and> int v \<in> set (gm ! u)"

text \<open>An edge to a node that is not marked in \<open>vis\<close>.\<close>

definition white_edge :: "node list list \<Rightarrow> node list \<Rightarrow> nat \<Rightarrow> nat \<Rightarrow> bool" where
  "white_edge gm vis u v \<longleftrightarrow> graph_edge gm u v \<and> vis ! v = 0"

definition pending_nodes :: "node list \<Rightarrow> nat" where
  "pending_nodes vis = card {i. i < length vis \<and> vis ! i = 0}"

text \<open>
  A traversal from \<open>R\<close> went from \<open>vis\<close> to \<open>vis'\<close>: marks are kept, \<open>R\<close> is marked, and a newly
  marked node is reached from an unmarked node of \<open>R\<close> through unmarked nodes and has all its children
  marked.
\<close>

definition traversal :: "node list list \<Rightarrow> node list \<Rightarrow> node list \<Rightarrow> nat set \<Rightarrow> bool" where
  "traversal gm vis vis' R \<longleftrightarrow>
     length vis' = length vis
   \<and> (\<forall>i < length vis. vis ! i \<noteq> 0 \<longrightarrow> vis' ! i = vis ! i)
   \<and> (\<forall>r \<in> R. vis' ! r \<noteq> 0)
   \<and> (\<forall>u < length vis. vis ! u = 0 \<longrightarrow> vis' ! u \<noteq> 0 \<longrightarrow>
        (\<exists>r \<in> R. vis ! r = 0 \<and> (white_edge gm vis)\<^sup>*\<^sup>* r u) \<and> (\<forall>v. graph_edge gm u v \<longrightarrow> vis' ! v \<noteq> 0))"

lemma traversal_empty: "traversal gm vis vis {}"
  by (simp add: traversal_def)

lemma graph_edge_bound: "mapping_ok gm \<Longrightarrow> graph_edge gm u v \<Longrightarrow> v < length gm"
  by (fastforce simp: mapping_ok_def graph_edge_def)

lemma traversalD:
  assumes "traversal gm vis vis' R"
  shows "length vis' = length vis"
    and "i < length vis \<Longrightarrow> vis ! i \<noteq> 0 \<Longrightarrow> vis' ! i = vis ! i"
    and "r \<in> R \<Longrightarrow> vis' ! r \<noteq> 0"
    and "i < length vis \<Longrightarrow> vis ! i = 0 \<Longrightarrow> vis' ! i \<noteq> 0 \<Longrightarrow> \<exists>r \<in> R. vis ! r = 0 \<and> (white_edge gm vis)\<^sup>*\<^sup>* r i"
    and "i < length vis \<Longrightarrow> vis ! i = 0 \<Longrightarrow> vis' ! i \<noteq> 0 \<Longrightarrow> graph_edge gm i v \<Longrightarrow> vis' ! v \<noteq> 0"
  using assms unfolding traversal_def by blast+

lemma traversalI:
  assumes "length vis' = length vis"
    and "\<And>i. i < length vis \<Longrightarrow> vis ! i \<noteq> 0 \<Longrightarrow> vis' ! i = vis ! i"
    and "\<And>r. r \<in> R \<Longrightarrow> vis' ! r \<noteq> 0"
    and "\<And>i. i < length vis \<Longrightarrow> vis ! i = 0 \<Longrightarrow> vis' ! i \<noteq> 0 \<Longrightarrow> \<exists>r \<in> R. vis ! r = 0 \<and> (white_edge gm vis)\<^sup>*\<^sup>* r i"
    and "\<And>i v. i < length vis \<Longrightarrow> vis ! i = 0 \<Longrightarrow> vis' ! i \<noteq> 0 \<Longrightarrow> graph_edge gm i v \<Longrightarrow> vis' ! v \<noteq> 0"
  shows "traversal gm vis vis' R"
  using assms unfolding traversal_def by blast

lemma traversal_seq:
  assumes ok: "mapping_ok gm" and len: "length vis = length gm"
    and R1: "R1 \<subseteq> {..<length gm}" and R2: "R2 \<subseteq> {..<length gm}"
    and t1: "traversal gm vis vis1 R1" and t2: "traversal gm vis1 vis2 R2"
  shows "traversal gm vis vis2 (R1 \<union> R2)"
proof (rule traversalI)
  have l1: "length vis1 = length vis" by (rule traversalD(1) [OF t1])
  then show "length vis2 = length vis" using traversalD(1) [OF t2] by simp
  have keep: "vis2 ! i \<noteq> 0" if "i < length vis" "vis1 ! i \<noteq> 0" for i
    using traversalD(2) [OF t2, of i] that l1 by simp
  show "vis2 ! i = vis ! i" if "i < length vis" "vis ! i \<noteq> 0" for i
    using traversalD(2) [OF t1 that] traversalD(2) [OF t2, of i] that l1 by simp
  show "vis2 ! r \<noteq> 0" if "r \<in> R1 \<union> R2" for r
    using that traversalD(3) [OF t1, of r] traversalD(3) [OF t2, of r] keep [of r] R1 len by auto
  have white: "vis ! i = 0" if "i < length gm" "vis1 ! i = 0" for i
    using traversalD(2) [OF t1, of i] that len by argo
  have "white_edge gm vis1 \<le> white_edge gm vis"
    using white graph_edge_bound [OF ok] by (auto simp: white_edge_def)
  note later = rtranclp_mono [OF this]
  show "\<exists>r \<in> R1 \<union> R2. vis ! r = 0 \<and> (white_edge gm vis)\<^sup>*\<^sup>* r i" if i: "i < length vis" "vis ! i = 0" "vis2 ! i \<noteq> 0" for i
  proof (cases "vis1 ! i = 0")
    case True
    then obtain r where "r \<in> R2" "vis1 ! r = 0" "(white_edge gm vis1)\<^sup>*\<^sup>* r i"
      using traversalD(4) [OF t2, of i] i l1 by auto
    moreover have "r < length gm" using calculation(1) R2 by auto
    ultimately show ?thesis using white later by blast
  next
    case False
    then show ?thesis using traversalD(4) [OF t1 i(1,2)] by blast
  qed
  show "vis2 ! v \<noteq> 0" if i: "i < length vis" "vis ! i = 0" "vis2 ! i \<noteq> 0" and e: "graph_edge gm i v" for i v
  proof (cases "vis1 ! i = 0")
    case True
    then show ?thesis using traversalD(5) [OF t2 _ True i(3) e] i(1) l1 by simp
  next
    case False
    have "vis1 ! v \<noteq> 0" by (rule traversalD(5) [OF t1 i(1,2) False e])
    then show ?thesis using keep [of v] graph_edge_bound [OF ok e] len by simp
  qed
qed

text \<open>Marking \<open>n\<close> and traversing from its children traverses from \<open>n\<close>.\<close>

lemma traversal_root:
  assumes len: "length vis = length gm" and n: "n < length gm" "vis ! n = 0" and x: "x \<noteq> 0"
    and rec: "traversal gm (vis[n := x]) vis' (nat ` set (gm ! n))" and ok: "mapping_ok gm"
  shows "traversal gm vis vis' {n}"
proof (rule traversalI)
  have child: "graph_edge gm n c" if "c \<in> nat ` set (gm ! n)" for c
    using that n ok by (force simp: graph_edge_def mapping_ok_def)
  have marked: "vis' ! n = x" using traversalD(2) [OF rec, of n] n len x by simp
  then show "vis' ! r \<noteq> 0" if "r \<in> {n}" for r using that x by simp
  show "length vis' = length vis" using traversalD(1) [OF rec] by simp
  show "vis' ! i = vis ! i" if "i < length vis" "vis ! i \<noteq> 0" for i
    using traversalD(2) [OF rec, of i] that n by (cases "i = n") simp_all
  have other: "v \<noteq> n \<and> vis ! v = 0" if "v < length gm" "vis[n := x] ! v = 0" for v
    using that x len by (cases "v = n") auto
  have "white_edge gm (vis[n := x]) \<le> white_edge gm vis"
    using other graph_edge_bound [OF ok] by (auto simp: white_edge_def)
  note later = rtranclp_mono [OF this]
  show "\<exists>r \<in> {n}. vis ! r = 0 \<and> (white_edge gm vis)\<^sup>*\<^sup>* r i" if i: "i < length vis" "vis ! i = 0" "vis' ! i \<noteq> 0" for i
  proof (cases "i = n")
    case False
    then obtain r where r: "r \<in> nat ` set (gm ! n)" "vis[n := x] ! r = 0" "(white_edge gm (vis[n := x]))\<^sup>*\<^sup>* r i"
      using traversalD(4) [OF rec, of i] i by auto
    have "white_edge gm vis n r"
      using child [OF r(1)] other [OF graph_edge_bound [OF ok child [OF r(1)]] r(2)] by (simp add: white_edge_def)
    then show ?thesis using r(3) later n(2) by (blast intro: converse_rtranclp_into_rtranclp)
  qed (use n in simp)
  show "vis' ! v \<noteq> 0" if i: "i < length vis" "vis ! i = 0" "vis' ! i \<noteq> 0" and e: "graph_edge gm i v" for i v
  proof (cases "i = n")
    case True
    then have "v \<in> nat ` set (gm ! n)" using e by (force simp: graph_edge_def)
    then show ?thesis by (rule traversalD(3) [OF rec])
  qed (use traversalD(5) [OF rec _ _ i(3) e] i in simp)
qed

lemma pending_nodes_mark:
  assumes "n < length vis" and "vis ! n = 0" and "x \<noteq> 0"
  shows "pending_nodes vis = Suc (pending_nodes (vis[n := x]))"
proof -
  have "{i. i < length vis \<and> vis ! i = 0} = insert n {i. i < length (vis[n := x]) \<and> vis[n := x] ! i = 0}"
    using assms by (auto simp: nth_list_update)
  then show ?thesis using assms by (simp add: pending_nodes_def)
qed

lemma pending_nodes_mono:
  assumes "traversal gm vis vis' R"
  shows "pending_nodes vis' \<le> pending_nodes vis"
proof -
  have "vis ! i = 0" if "i < length vis" "vis' ! i = 0" for i
    using traversalD(2) [OF assms that(1)] that(2) by argo
  then show ?thesis
    unfolding pending_nodes_def using traversalD(1) [OF assms] by (intro card_mono) auto
qed

lemma fillVisited_traversal:
  "mapping_ok gm \<Longrightarrow> length vis = length gm \<Longrightarrow> 0 \<le> n \<Longrightarrow> nat n < length gm \<Longrightarrow> vis ! nat n = 0 \<Longrightarrow> 0 < x \<Longrightarrow>
   pending_nodes vis \<le> k \<Longrightarrow> \<exists>vis'. fillVisited k gm vis n x = Some (Inr vis') \<and> traversal gm vis vis' {nat n}"
  "mapping_ok gm \<Longrightarrow> length vis = length gm \<Longrightarrow> \<forall>c \<in> set cs. 0 \<le> c \<and> nat c < length gm \<Longrightarrow> 0 < x \<Longrightarrow>
   pending_nodes vis \<le> k \<Longrightarrow>
   \<exists>vis'. fillVisited_children k gm vis cs x = Some (Inr vis') \<and> traversal gm vis vis' (nat ` set cs)"
proof (induction k gm vis n x and k gm vis cs x rule: fillVisited_fillVisited_children.induct)
  case (1 gm vis n x)
  then show ?case using pending_nodes_mark [of "nat n" vis 1] by simp
next
  case (2 k gm vis n x)
  have ats: "at vis n = Inr (vis ! nat n)" "at gm n = Inr (gm ! nat n)" using "2.prems" by (simp_all add: at_def)
  have row: "\<forall>c \<in> set (gm ! nat n). 0 \<le> c \<and> nat c < length gm"
    using "2.prems"(1,4) nth_mem unfolding mapping_ok_def by blast
  have "pending_nodes (vis[nat n := x]) \<le> k"
    using pending_nodes_mark [of "nat n" vis x] "2.prems" by simp
  then obtain vis' where vis': "fillVisited_children k gm (vis[nat n := x]) (gm ! nat n) (x + 1) = Some (Inr vis')"
    and t: "traversal gm (vis[nat n := x]) vis' (nat ` set (gm ! nat n))"
    using "2.IH" [OF refl ats "2.prems"(1)] row "2.prems" by auto
  then show ?case using traversal_root [OF "2.prems"(2,4,5) _ t "2.prems"(1)] "2.prems"(6) ats by simp
next
  case (3 k gm vis x)
  then show ?case by (simp add: traversal_empty)
next
  case (4 k gm vis c cs x)
  have c: "0 \<le> c" "nat c < length gm" and at: "at vis c = Inr (vis ! nat c)"
    using "4.prems" by (simp_all add: at_def)
  show ?case
  proof (cases "vis ! nat c = 0")
    case True
    obtain vis1 where vis1: "fillVisited k gm vis c x = Some (Inr vis1)" and t1: "traversal gm vis vis1 {nat c}"
      using "4.IH"(1) [OF at True] "4.prems" c True by auto
    have len: "length vis1 = length gm" using traversalD(1) [OF t1] "4.prems"(2) by simp
    obtain vis2 where vis2: "fillVisited_children k gm vis1 cs x = Some (Inr vis2)"
      and t2: "traversal gm vis1 vis2 (nat ` set cs)"
      using "4.IH"(2) [OF at True vis1 refl] "4.prems" len pending_nodes_mono [OF t1] by auto
    show ?thesis using traversal_seq [OF "4.prems"(1,2) _ _ t1 t2] "4.prems"(3) c at True vis1 vis2 by fastforce
  next
    case False
    obtain vis' where vis': "fillVisited_children k gm vis cs x = Some (Inr vis')"
      and t: "traversal gm vis vis' (nat ` set cs)"
      using "4.IH"(3) [OF at False] "4.prems" by auto
    have "vis' ! nat c \<noteq> 0" using traversalD(2) [OF t, of "nat c"] False c "4.prems"(2) by simp
    then have "traversal gm vis vis' (nat ` set (c # cs))"
      using t traversalD(3) [OF t] by (intro traversalI) (auto dest: traversalD(1,2,4,5))
    then show ?thesis using at False vis' by simp
  qed
qed

lemma traversal_complete:
  assumes t: "traversal gm vis vis' {n}" and ok: "mapping_ok gm" and len: "length vis = length gm"
    and reach: "(white_edge gm vis)\<^sup>*\<^sup>* n v" and n: "n < length gm" "vis ! n = 0"
  shows "vis' ! v \<noteq> 0 \<and> v < length gm \<and> vis ! v = 0"
  using reach
proof (induction rule: rtranclp_induct)
  case base
  then show ?case using traversalD(3) [OF t] n by simp
next
  case (step u v)
  then have e: "graph_edge gm u v" "vis ! v = 0" by (simp_all add: white_edge_def)
  show ?case
    using traversalD(5) [OF t, of u v] graph_edge_bound [OF ok e(1)] e step.IH len by simp
qed

text \<open>
  C21. \<open>fillVisited\<close> marks what is reachable: on a graph whose edges stay in range, started at an unmarked
  node with whatever marks there are, it ends (its recursion is never deeper than the number of nodes),
  leaves every mark that was there as it was, and the nodes that it marks are exactly those that the
  start node reaches through unmarked nodes.
\<close>

theorem fillVisited_marks_reachable:
  assumes "mapping_ok gm" and "length vis = length gm" and "n < length gm" and "vis ! n = 0" and "0 < x"
  shows "\<exists>vis'. fillVisited (length gm) gm vis (int n) x = Some (Inr vis') \<and> length vis' = length gm
    \<and> (\<forall>v < length gm. vis ! v \<noteq> 0 \<longrightarrow> vis' ! v = vis ! v)
    \<and> {v. v < length gm \<and> vis ! v = 0 \<and> vis' ! v \<noteq> 0} = {v. (\<lambda>u v. graph_edge gm u v \<and> vis ! v = 0)\<^sup>*\<^sup>* n v}"
proof -
  have "pending_nodes vis \<le> card {i. i < length gm}"
    unfolding pending_nodes_def by (rule card_mono) (auto simp: assms(2))
  then obtain vis' where vis': "fillVisited (length gm) gm vis (int n) x = Some (Inr vis')"
    and t: "traversal gm vis vis' {n}"
    using fillVisited_traversal(1) [OF assms(1,2), of "int n" x "length gm"] assms by auto
  have "v < length gm \<and> vis ! v = 0 \<and> vis' ! v \<noteq> 0 \<longleftrightarrow> (white_edge gm vis)\<^sup>*\<^sup>* n v" for v
    using traversalD(4) [OF t, of v] traversal_complete [OF t assms(1,2) _ assms(3,4), of v] assms(2) by auto
  moreover have "white_edge gm vis = (\<lambda>u v. graph_edge gm u v \<and> vis ! v = 0)"
    by (intro ext) (simp add: white_edge_def)
  ultimately show ?thesis using vis' traversalD(1) [OF t] traversalD(2) [OF t] assms(2) by auto
qed

text \<open>Node 3 is marked, so node 4 behind it is not reached.\<close>

theorem fillVisited_marks_reachable_witness:
  "\<exists>vis. fillVisited 5 [[1, 3], [2, 0], [], [4], []] [0, 0, 0, 9, 0] 0 1 = Some (Inr vis) \<and> length vis = 5 \<and> vis ! 3 = 9
    \<and> vis = [1, 2, 3, 9, 0]"
proof -
  have ok: "mapping_ok [[1, 3], [2, 0], [], [4], []]" by (simp add: mapping_ok_def)
  have run: "fillVisited 5 [[1, 3], [2, 0], [], [4], []] [0, 0, 0, 9, 0] 0 1 = Some (Inr [1, 2, 3, 9, 0])"
    by (simp add: at_def numeral_eq_Suc)
  from fillVisited_marks_reachable [OF ok, of "[0, 0, 0, 9, 0]" 0 1]
  obtain vis where vis: "fillVisited 5 [[1, 3], [2, 0], [], [4], []] [0, 0, 0, 9, 0] 0 1 = Some (Inr vis)" "length vis = 5"
      "\<forall>v < 5. [0, 0, 0, 9, 0] ! v \<noteq> (0 :: int) \<longrightarrow> vis ! v = [0, 0, 0, 9, 0] ! v"
    by (auto simp: numeral_eq_Suc simp del: fillVisited.simps)
  then have "vis = [1, 2, 3, 9, 0]" using run by (simp del: fillVisited.simps)
  then show ?thesis using vis by (simp del: fillVisited.simps)
qed

text \<open>
  Descending marks are not an order in which children come before their parents: the mark
  of a node is its depth on the path that happened to reach it first. Here node 1 is reached
  from 0 with mark 2 before it is seen below 3, and every order the sort may give puts 3
  first, although 1 is its child; hashing in that order gives 3 the hash of a child hash 0.
\<close>

theorem visit_order_not_topological:
  "fillVisited 4 [[1, 2], [], [3], [1]] [0, 0, 0, 0] 0 1 = Some (Inr [1, 2, 2, 3]) \<and>
   {order. visitedNodesOrder [1, 2, 2, 3] order} = {[3, 1, 2, 0], [3, 2, 1, 0]} \<and>
   graph_edge [[1, 2], [], [3], [1]] 3 1"
proof -
  have nodes: "visited_nodes [1, 2, 2, 3] = [0, 1, 2, 3]"
    by (simp add: visited_nodes_def upt_rec)
  have perm: "visitedNodesOrder [1, 2, 2, 3] order \<longleftrightarrow> order = [3, 1, 2, 0] \<or> order = [3, 2, 1, 0]" for order
  proof
    assume v: "visitedNodesOrder [1, 2, 2, 3] order"
    then have m: "mset order = {#0, 1, 2, 3#}" by (simp add: visitedNodesOrder_def nodes)
    then have "length order = 4" by (metis size_mset size_add_mset size_empty numeral_eq_Suc pred_numeral_simps(1,2,3) BitM.simps)
    then obtain a b c d where o: "order = [a, b, c, d]"
      by (auto simp: numeral_eq_Suc length_Suc_conv)
    let ?v = "[1, 2, 2, 3 :: int]"
    have "set order = {0, 1, 2, 3}" using m by (metis set_mset_mset set_mset_add_mset_insert set_mset_empty)
    then have s: "{a, b, c, d} = {0, 1, 2, 3}" by (simp add: o)
    have w: "?v ! b \<le> ?v ! a" "?v ! c \<le> ?v ! a" "?v ! d \<le> ?v ! a" "?v ! d \<le> ?v ! b" "?v ! d \<le> ?v ! c"
      using v by (simp_all add: visitedNodesOrder_def o)
    have "a \<in> {0, 1, 2, 3}" "d \<in> {0, 1, 2, 3}" unfolding s [symmetric] by simp_all
    moreover have "?v ! 3 \<le> ?v ! a"
    proof -
      have "3 \<in> {a, b, c, d}" unfolding s by simp
      then show ?thesis using w by auto
    qed
    moreover have "?v ! d \<le> ?v ! 0"
    proof -
      have "0 \<in> {a, b, c, d}" unfolding s by simp
      then show ?thesis using w by auto
    qed
    ultimately have a: "a = 3" and d: "d = 0" by (auto simp: numeral_eq_Suc)
    have "{#b, c#} = {#1, 2#}" using m by (simp add: o a d add_mset_commute)
    then have "b = 1 \<and> c = 2 \<or> b = 2 \<and> c = 1" by (auto simp: add_eq_conv_ex)
    then show "order = [3, 1, 2, 0] \<or> order = [3, 2, 1, 0]" using a d o by auto
  next
    assume "order = [3, 1, 2, 0] \<or> order = [3, 2, 1, 0]"
    then show "visitedNodesOrder [1, 2, 2, 3] order"
      by (auto simp: visitedNodesOrder_def nodes)
  qed
  then show ?thesis
    by (auto simp: at_def numeral_eq_Suc graph_edge_def)
qed

subsection \<open>Data frames\<close>

definition in_range :: "'a list \<Rightarrow> node \<Rightarrow> bool" where
  "in_range xs n \<longleftrightarrow> 0 \<le> n \<and> nat n < length xs"

lemma at_in_range: "at xs n = (if in_range xs n then Inr (xs ! nat n) else Inl UndefinedBehaviour)"
  by (simp add: at_def in_range_def)

definition untagged_table :: "operation list \<Rightarrow> nat \<Rightarrow> bool" where
  "untagged_table ops i \<longleftrightarrow> isTableOperation (op_op (ops ! i)) \<and> op_df (ops ! i) = NODE_NONE"

definition tag_table :: "nat \<Rightarrow> operation list \<Rightarrow> operation list" where
  "tag_table i ops = (if untagged_table ops i then ops[i := (ops ! i)\<lparr>op_df := int i\<rparr>] else ops)"

definition dangling_child :: "node list list \<Rightarrow> operation list \<Rightarrow> nat \<Rightarrow> bool" where
  "dangling_child gm ops i \<longleftrightarrow> untagged_table ops i \<and> (\<exists>c \<in> set (gm ! i). \<not> in_range ops c)"

lemma fillDFIds_children_tagged:
  assumes "i < length ops" and "op_df (ops ! i) \<noteq> NODE_NONE"
  shows "fillDFIds_children (Suc k) gm ops cs (int i) =
    Some (if \<forall>c \<in> set cs. in_range ops c then Inr ops else Inl UndefinedBehaviour)"
  using assms by (induction cs) (simp_all add: at_in_range in_range_def [of ops "int i"])

lemma fillDFIdsWalk_eq:
  assumes "i < length ops" and "length gm = length ops" and "isTableOperation (op_op (ops ! i))"
  shows "fillDFIdsWalk (Suc (Suc k)) gm ops (int i) =
    Some (if dangling_child gm ops i then Inl UndefinedBehaviour else Inr (tag_table i ops))"
proof -
  have [simp]: "in_range (ops[i := x]) c \<longleftrightarrow> in_range ops c" for x c by (simp add: in_range_def)
  show ?thesis
    using assms fillDFIds_children_tagged [of i "ops[i := (ops ! i)\<lparr>op_df := int i\<rparr>]" k gm "gm ! i"]
    by (auto simp: dangling_child_def untagged_table_def tag_table_def NODE_NONE_def)
qed

lemma tag_table_other:
  assumes "i \<noteq> j"
  shows "tag_table i ops ! j = ops ! j" and "length (tag_table i ops) = length ops"
    and "untagged_table (tag_table i ops) j = untagged_table ops j"
    and "dangling_child gm (tag_table i ops) j = dangling_child gm ops j"
  using assms by (simp_all add: tag_table_def untagged_table_def dangling_child_def in_range_def)

lemma fillDFIds_from_eq:
  assumes "length gm = length ops" and "distinct is" and "\<forall>i \<in> set is. i < length ops"
  shows "fillDFIds_from (Suc (Suc k)) is gm ops =
    Some (if \<exists>i \<in> set is. dangling_child gm ops i then Inl UndefinedBehaviour else Inr (fold tag_table is ops))"
  using assms
proof (induction "is" arbitrary: ops)
  case (Cons i rest)
  show ?case
  proof (cases "isTableOperation (op_op (ops ! i))")
    case False
    then have "\<not> dangling_child gm ops i" "tag_table i ops = ops"
      by (simp_all add: dangling_child_def untagged_table_def tag_table_def)
    then show ?thesis using Cons False by simp
  next
    case True
    have len: "length (tag_table i ops) = length ops" by (simp add: tag_table_def)
    have IH: "fillDFIds_from (Suc (Suc k)) rest gm (tag_table i ops) =
      Some (if \<exists>j \<in> set rest. dangling_child gm (tag_table i ops) j then Inl UndefinedBehaviour
        else Inr (fold tag_table rest (tag_table i ops)))"
      by (rule Cons.IH) (use Cons.prems len in auto)
    have "dangling_child gm (tag_table i ops) j = dangling_child gm ops j" if "j \<in> set rest" for j
      using that Cons.prems(2) by (intro tag_table_other(4)) auto
    then show ?thesis
      using IH Cons.prems True by (simp add: fillDFIdsWalk_eq del: fillDFIdsWalk.simps)
  qed
qed simp

lemma tag_table_self:
  "i < length ops \<Longrightarrow> tag_table i ops ! i = (if untagged_table ops i then (ops ! i)\<lparr>op_df := int i\<rparr> else ops ! i)"
  by (simp add: tag_table_def)

lemma length_tag_table [simp]: "length (tag_table i ops) = length ops"
  by (simp add: tag_table_def)

lemma length_fold_tag_table [simp]: "length (fold tag_table is ops) = length ops"
  by (induction "is" arbitrary: ops) simp_all

lemma fold_tag_table:
  assumes "distinct is" and "\<forall>i \<in> set is. i < length ops" and "j < length ops"
  shows "fold tag_table is ops ! j =
      (if j \<in> set is \<and> untagged_table ops j then (ops ! j)\<lparr>op_df := int j\<rparr> else ops ! j)"
  using assms
proof (induction "is" arbitrary: ops)
  case (Cons i rest)
  then have "fold tag_table rest (tag_table i ops) ! j =
      (if j \<in> set rest \<and> untagged_table (tag_table i ops) j
       then (tag_table i ops ! j)\<lparr>op_df := int j\<rparr> else tag_table i ops ! j)"
    by (intro Cons.IH) simp_all
  then show ?case
    using Cons.prems tag_table_other(1,3) [of i j ops] tag_table_self [of i ops] by (cases "i = j") auto
qed simp

text \<open>
  \<open>fillDFIds\<close> tags every table operation that has no data frame with itself and changes
  nothing else: the recursion passes the table and not the child, so a column or an
  expression below a table is never given its data frame. If such a table has a child that
  is not a node (the \<open>NODE_NONE\<close> of a range without limit), an operation out of range is read.
\<close>

theorem fillDFIds_tags_tables_only:
  assumes "length gm = length ops"
  shows "fillDFIds gm ops =
    Some (if \<exists>i < length ops. dangling_child gm ops i then Inl UndefinedBehaviour
      else Inr (map (\<lambda>i. if isTableOperation (op_op (ops ! i)) \<and> op_df (ops ! i) = NODE_NONE
                          then (ops ! i)\<lparr>op_df := int i\<rparr> else ops ! i) [0..<length ops]))"
proof -
  have "fold tag_table [0..<length ops] ops = map (\<lambda>i. if isTableOperation (op_op (ops ! i)) \<and> op_df (ops ! i) = NODE_NONE
      then (ops ! i)\<lparr>op_df := int i\<rparr> else ops ! i) [0..<length ops]"
    by (rule nth_equalityI) (simp_all add: fold_tag_table untagged_table_def)
  then show ?thesis
    using fillDFIds_from_eq [OF assms, of "[0..<length ops]" "length ops"] by (auto simp: fillDFIds_def)
qed

theorem fillDFIds_tags_tables_only_witness:
  "fillDFIds [[], [0]] [default_operation\<lparr>op_op := OP_COLUMN\<rparr>, default_operation\<lparr>op_op := OP_TABLE\<rparr>] =
   Some (Inr [default_operation\<lparr>op_op := OP_COLUMN\<rparr>, default_operation\<lparr>op_op := OP_TABLE, op_df := 1\<rparr>])"
  by (subst fillDFIds_tags_tables_only)
    (auto simp: dangling_child_def untagged_table_def in_range_def isTableOperation_def default_operation_def
      upt_rec less_Suc_eq)

subsection \<open>Hashes\<close>

lemma hash_set_loop_length: "length cs = length ds \<Longrightarrow> hash_set_loop cs h = hash_set_loop ds h"
  by (induction cs ds arbitrary: h rule: list_induct2) simp_all

text \<open>
  The hash of a commutative node does not depend on its children, only on their number:
  whatever they are replaced by and whatever their own hashes are, it stays the same, so
  any two sums with as many terms collide.
\<close>

theorem commutative_hash_ignores_children:
  assumes "n < length gm" and "n < length ops" and "isCummutative (op_op (ops ! n))" and "length cs = length (gm ! n)"
  shows "hashNode (gm[n := cs]) ops (int n) hs = hashNode gm ops (int n) hs'"
  using assms hash_set_loop_length [OF assms(4)]
  by (cases "gm ! n = []") (auto simp: hashNode_def hashChildrenSet_def)

theorem commutative_hash_ignores_children_witness:
  "hashNode ([[], [], [0, 0]][2 := [0, 1]]) (replicate 3 (default_operation\<lparr>op_op := OP_ADD\<rparr>)) (int 2) [5, 7, 0] =
   hashNode [[], [], [0, 0]] (replicate 3 (default_operation\<lparr>op_op := OP_ADD\<rparr>)) (int 2) [1, 2, 3]"
  by (rule commutative_hash_ignores_children) (simp_all add: isCummutative_def numeral_eq_Suc)

end
