(* ===== verification/Query_Rules.thy ===== *)
theory Query_Rules
  imports Query_Graph
begin

text \<open>
  The rewrite rules on query graphs (\<open>minion/planner/query/rules.h\<close>). A rule appends nodes to
  the two vectors it is given by reference and returns the node that replaces the one it was
  called for; when it throws, what it has appended stays. The meaning of a node is its value
  under any interpretation of the operators, in three-valued logic for the logical ones, and
  the contract of a rule is the locale \<open>rewrite_rule\<close>.
\<close>

named_theorems rw_defs \<open>the rules and the primitives they are made of\<close>

subsection \<open>The vectors as a state\<close>

record rw_state =
  rw_mapping :: "node list list"
  rw_operations :: "operation list"

type_synonym 'a rw = "rw_state \<Rightarrow> 'a result \<times> rw_state"

definition rw_return :: "'a \<Rightarrow> 'a rw" where
  "rw_return x s = (Inr x, s)"

definition rw_throw :: "exn \<Rightarrow> 'a rw" where
  "rw_throw e s = (Inl e, s)"

definition rw_bind :: "'a rw \<Rightarrow> ('a \<Rightarrow> 'b rw) \<Rightarrow> 'b rw" where
  "rw_bind m f s = (case m s of (Inl e, s1) \<Rightarrow> (Inl e, s1) | (Inr x, s1) \<Rightarrow> f x s1)"

definition rw_op :: "node \<Rightarrow> operation rw" where
  "rw_op n s = (at (rw_operations s) n, s)"

definition rw_row :: "node \<Rightarrow> node list rw" where
  "rw_row n s = (at (rw_mapping s) n, s)"

definition rw_set_op :: "node \<Rightarrow> operation \<Rightarrow> unit rw" where
  "rw_set_op n op s = (Inr (), s\<lparr>rw_operations := (rw_operations s)[nat n := op]\<rparr>)"

definition rw_set_row :: "node \<Rightarrow> node list \<Rightarrow> unit rw" where
  "rw_set_row n row s = (Inr (), s\<lparr>rw_mapping := (rw_mapping s)[nat n := row]\<rparr>)"

definition clone_node :: "node \<Rightarrow> node rw" where
  "clone_node n =
     rw_bind (rw_op n) (\<lambda>op.
     rw_bind (rw_row n) (\<lambda>row s.
       (Inr (int (length (rw_operations s))),
        s\<lparr>rw_operations := rw_operations s @ [op], rw_mapping := rw_mapping s @ [row]\<rparr>)))"

subsection \<open>The rules\<close>

definition is_const_leaf :: "node list list \<Rightarrow> operation list \<Rightarrow> node \<Rightarrow> bool result" where
  "is_const_leaf gm ops c =
     bind_result (at ops c) (\<lambda>op.
     if op_op op \<noteq> OP_CONST then Inr False
     else bind_result (at gm c) (\<lambda>row. Inr (row = [])))"

fun all_const_leaves :: "node list list \<Rightarrow> operation list \<Rightarrow> node list \<Rightarrow> bool result" where
  "all_const_leaves gm ops [] = Inr True"
| "all_const_leaves gm ops (c # cs) =
     bind_result (is_const_leaf gm ops c) (\<lambda>b. if b then all_const_leaves gm ops cs else Inr False)"

definition roll_constants_applies :: "node list list \<Rightarrow> operation list \<Rightarrow> node \<Rightarrow> bool result" where
  "roll_constants_applies gm ops n =
     bind_result (at ops n) (\<lambda>op.
     if op_op op \<noteq> OP_CONST then Inr False
     else bind_result (at gm n) (\<lambda>row. if row = [] then Inr False else all_const_leaves gm ops row))"

definition demorgan_op :: "column_operation \<Rightarrow> column_operation option" where
  "demorgan_op op = (case op of
      OP_AND \<Rightarrow> Some OP_NOR
    | OP_OR \<Rightarrow> Some OP_NAND
    | OP_NAND \<Rightarrow> Some OP_OR
    | OP_NOR \<Rightarrow> Some OP_AND
    | _ \<Rightarrow> None)"

text \<open>A clone of the node with the negated operation.\<close>

definition clone_negated :: "node \<Rightarrow> node rw" where
  "clone_negated n =
     rw_bind (clone_node n) (\<lambda>new_child_idx.
     rw_bind (rw_op new_child_idx) (\<lambda>op.
     if getNegatedOperation (op_op op) = OP_INVALID
     then rw_throw (InvalidArgument ''Invalid operation for negation'')
     else rw_bind (rw_set_op new_child_idx (op\<lparr>op_op := getNegatedOperation (op_op op)\<rparr>)) (\<lambda>_.
       rw_return new_child_idx)))"

fun demorgan_children :: "node list \<Rightarrow> node \<Rightarrow> unit rw" where
  "demorgan_children [] new_node_idx = rw_return ()"
| "demorgan_children (c # cs) new_node_idx =
     rw_bind (clone_negated c) (\<lambda>new_child_idx.
     rw_bind (rw_row new_node_idx) (\<lambda>row.
     rw_bind (rw_set_row new_node_idx (row @ [new_child_idx])) (\<lambda>_.
     demorgan_children cs new_node_idx)))"

definition demorgan_apply :: "node \<Rightarrow> node rw" where
  "demorgan_apply n =
     rw_bind (clone_node n) (\<lambda>new_node_idx.
     rw_bind (rw_op new_node_idx) (\<lambda>new_node.
     case demorgan_op (op_op new_node) of
       None \<Rightarrow> rw_throw (InvalidArgument ''Invalid operation for demorgan'')
     | Some op' \<Rightarrow>
         rw_bind (rw_set_op new_node_idx (new_node\<lparr>op_op := op'\<rparr>)) (\<lambda>_.
         rw_bind (rw_row n) (\<lambda>old_children.
         rw_bind (rw_set_row new_node_idx []) (\<lambda>_.
         rw_bind (demorgan_children old_children new_node_idx) (\<lambda>_.
         rw_return new_node_idx))))))"

text \<open>The loop of the two merging rules: a child with the operation is replaced by its children.\<close>

fun merge_children :: "column_operation \<Rightarrow> node list \<Rightarrow> node \<Rightarrow> unit rw" where
  "merge_children node_op [] new_node_idx = rw_return ()"
| "merge_children node_op (c # cs) new_node_idx =
     rw_bind (rw_op c) (\<lambda>child.
     rw_bind (rw_row new_node_idx) (\<lambda>row.
     rw_bind (if op_op child = node_op
         then rw_bind (rw_row c) (\<lambda>grand_children. rw_set_row new_node_idx (row @ grand_children))
         else rw_set_row new_node_idx (row @ [c])) (\<lambda>_.
     merge_children node_op cs new_node_idx)))"

definition merge_cummutative_numeric_apply :: "node \<Rightarrow> node rw" where
  "merge_cummutative_numeric_apply n =
     rw_bind (clone_node n) (\<lambda>new_node_idx.
     rw_bind (rw_op n) (\<lambda>op.
     rw_bind (rw_row new_node_idx) (\<lambda>old_children.
     rw_bind (rw_set_row new_node_idx []) (\<lambda>_.
     rw_bind (merge_children (op_op op) old_children new_node_idx) (\<lambda>_.
     rw_return new_node_idx)))))"

definition merge_logic_op :: "column_operation \<Rightarrow> column_operation option" where
  "merge_logic_op op = (case op of
      OP_AND \<Rightarrow> Some OP_AND
    | OP_OR \<Rightarrow> Some OP_OR
    | OP_XOR \<Rightarrow> Some OP_XOR
    | OP_NAND \<Rightarrow> Some OP_AND
    | OP_NOR \<Rightarrow> Some OP_OR
    | OP_XNOR \<Rightarrow> Some OP_XOR
    | _ \<Rightarrow> None)"

definition merge_cummutative_logic_apply :: "node \<Rightarrow> node rw" where
  "merge_cummutative_logic_apply n =
     rw_bind (clone_node n) (\<lambda>new_node_idx.
     rw_bind (rw_op n) (\<lambda>op.
     case merge_logic_op (op_op op) of
       None \<Rightarrow> rw_throw (InvalidArgument ''Invalid operation for merge cummutative logic'')
     | Some node_op \<Rightarrow>
         rw_bind (rw_row new_node_idx) (\<lambda>old_children.
         rw_bind (rw_set_row new_node_idx []) (\<lambda>_.
         rw_bind (merge_children node_op old_children new_node_idx) (\<lambda>_.
         rw_return new_node_idx)))))"

definition reduce_not_nop_apply :: "node \<Rightarrow> node rw" where
  "reduce_not_nop_apply n =
     rw_bind (rw_op n) (\<lambda>op.
     if op_op op \<noteq> OP_NOT \<and> op_op op \<noteq> OP_NOP
     then rw_throw (InvalidArgument ''Invalid operation for reduce not nop'')
     else rw_bind (rw_row n) (\<lambda>children.
       case children of
         [c] \<Rightarrow> if op_op op = OP_NOP then rw_return c else clone_negated c
       | _ \<Rightarrow> rw_throw (InvalidArgument ''Invalid number of children for reduce not nop'')))"

fun children_common_df :: "operation list \<Rightarrow> node list \<Rightarrow> node \<Rightarrow> node option result" where
  "children_common_df ops [] common = Inr (Some common)"
| "children_common_df ops (c # cs) common =
     bind_result (at ops c) (\<lambda>op.
     if op_df op \<noteq> 0 \<and> op_df op \<noteq> common
     then (if common \<noteq> 0 then Inr None else children_common_df ops cs (op_df op))
     else children_common_df ops cs common)"

definition pull_df_applies :: "node list list \<Rightarrow> operation list \<Rightarrow> node \<Rightarrow> bool result" where
  "pull_df_applies gm ops n =
     bind_result (at ops n) (\<lambda>op.
     if op_df op = 0 then Inr False
     else bind_result (at gm n) (\<lambda>row.
     bind_result (children_common_df ops row 0) (\<lambda>common.
     case common of
       None \<Rightarrow> Inr False
     | Some c \<Rightarrow> Inr (c \<noteq> 0 \<and> c \<noteq> op_df op))))"

fun first_df :: "operation list \<Rightarrow> node list \<Rightarrow> node result" where
  "first_df ops [] = Inr 0"
| "first_df ops (c # cs) =
     bind_result (at ops c) (\<lambda>op. if op_df op \<noteq> 0 then Inr (op_df op) else first_df ops cs)"

definition pull_df_apply :: "node \<Rightarrow> node rw" where
  "pull_df_apply n =
     rw_bind (rw_op n) (\<lambda>op.
     if op_df op = 0 then rw_throw (InvalidArgument ''Invalid df for pull df'')
     else rw_bind (clone_node n) (\<lambda>new_node_idx.
       rw_bind (rw_row new_node_idx) (\<lambda>row.
       rw_bind (\<lambda>s. (first_df (rw_operations s) row, s)) (\<lambda>df.
       rw_bind (rw_op new_node_idx) (\<lambda>new_op.
       rw_bind (rw_set_op new_node_idx (new_op\<lparr>op_df := df\<rparr>)) (\<lambda>_.
       rw_return new_node_idx))))))"

lemmas [rw_defs] =
  rw_return_def rw_throw_def rw_op_def rw_row_def rw_set_op_def rw_set_row_def

lemma rw_bind_Inr:
  "rw_bind m f s = (Inr y, s') \<longleftrightarrow> (\<exists>x s1. m s = (Inr x, s1) \<and> f x s1 = (Inr y, s'))"
  by (auto simp: rw_bind_def split: prod.splits sum.splits)

subsection \<open>Three-valued logic\<close>

type_synonym tri = "bool option"

definition not3 :: "tri \<Rightarrow> tri" where
  "not3 = map_option Not"

fun and2 :: "tri \<Rightarrow> tri \<Rightarrow> tri" where
  "and2 (Some False) _ = Some False"
| "and2 _ (Some False) = Some False"
| "and2 (Some True) b = b"
| "and2 a (Some True) = a"
| "and2 None None = None"

fun or2 :: "tri \<Rightarrow> tri \<Rightarrow> tri" where
  "or2 (Some True) _ = Some True"
| "or2 _ (Some True) = Some True"
| "or2 (Some False) b = b"
| "or2 a (Some False) = a"
| "or2 None None = None"

fun xor2 :: "tri \<Rightarrow> tri \<Rightarrow> tri" where
  "xor2 (Some a) (Some b) = Some (a \<noteq> b)"
| "xor2 _ _ = None"

definition and3 :: "tri list \<Rightarrow> tri" where "and3 ts = foldr and2 ts (Some True)"
definition or3 :: "tri list \<Rightarrow> tri" where "or3 ts = foldr or2 ts (Some False)"
definition xor3 :: "tri list \<Rightarrow> tri" where "xor3 ts = foldr xor2 ts (Some False)"

lemma not3_not3 [simp]: "not3 (not3 t) = t"
  by (cases t) (simp_all add: not3_def)

lemma not3_None [simp]: "not3 None = None"
  by (simp add: not3_def)

lemma tri_exhaust: "(t = None \<Longrightarrow> P) \<Longrightarrow> (t = Some True \<Longrightarrow> P) \<Longrightarrow> (t = Some False \<Longrightarrow> P) \<Longrightarrow> P"
  by (cases t) auto

lemma tri_monoid [simp]:
  "and2 (Some True) t = t" "and2 t (Some True) = t" "and2 (and2 a b) c = and2 a (and2 b c)"
  "or2 (Some False) t = t" "or2 t (Some False) = t" "or2 (or2 a b) c = or2 a (or2 b c)"
  "xor2 (Some False) t = t" "xor2 t (Some False) = t" "xor2 (xor2 a b) c = xor2 a (xor2 b c)"
proof -
  show "and2 (Some True) t = t" "and2 t (Some True) = t" "or2 (Some False) t = t" "or2 t (Some False) = t"
    "xor2 (Some False) t = t" "xor2 t (Some False) = t"
    by (rule tri_exhaust [of t]; simp)+
  show "and2 (and2 a b) c = and2 a (and2 b c)" "or2 (or2 a b) c = or2 a (or2 b c)"
    "xor2 (xor2 a b) c = xor2 a (xor2 b c)"
    by (rule tri_exhaust [of a]; rule tri_exhaust [of b]; rule tri_exhaust [of c]; simp)+
qed

lemma not3_and2: "not3 (and2 a b) = or2 (not3 a) (not3 b)"
  by (rule tri_exhaust [of a]; rule tri_exhaust [of b]; simp add: not3_def)

lemma not3_or2: "not3 (or2 a b) = and2 (not3 a) (not3 b)"
  by (rule tri_exhaust [of a]; rule tri_exhaust [of b]; simp add: not3_def)

lemma de_morgan_and3: "not3 (and3 ts) = or3 (map not3 ts)"
  by (induction ts) (simp_all add: and3_def or3_def not3_and2, simp add: not3_def)

lemma de_morgan_or3: "not3 (or3 ts) = and3 (map not3 ts)"
  by (induction ts) (simp_all add: and3_def or3_def not3_or2, simp add: not3_def)

lemma fold3_append:
  "and3 (ts @ us) = and2 (and3 ts) (and3 us)"
  "or3 (ts @ us) = or2 (or3 ts) (or3 us)"
  "xor3 (ts @ us) = xor2 (xor3 ts) (xor3 us)"
  by (induction ts) (simp_all add: and3_def or3_def xor3_def)

lemma fold3_concat:
  "and3 (concat tss) = and3 (map and3 tss)"
  "or3 (concat tss) = or3 (map or3 tss)"
  "xor3 (concat tss) = xor3 (map xor3 tss)"
  by (induction tss) (simp_all add: fold3_append, simp_all add: and3_def or3_def xor3_def)

lemma fold3_single [simp]: "and3 [t] = t" "or3 [t] = t" "xor3 [t] = t"
  by (simp_all add: and3_def or3_def xor3_def)

subsection \<open>The meaning of a node\<close>

text \<open>
  A value is a truth value, the null of SQL, or anything else. The interpretation of an operator
  may use the node's name, constant and type; the logical operators are fixed, and the
  negative comparisons are the negations of the positive ones.
\<close>

datatype 'a qval = Truth bool | QNull | Val 'a

fun tri_of :: "'a qval \<Rightarrow> tri" where
  "tri_of (Truth b) = Some b"
| "tri_of QNull = None"
| "tri_of (Val x) = None"

fun of_tri :: "tri \<Rightarrow> 'a qval" where
  "of_tri (Some b) = Truth b"
| "of_tri None = QNull"

lemma tri_of_tri [simp]: "tri_of (of_tri t) = t"
  by (cases t) simp_all

type_synonym 'a interp = "column_operation \<Rightarrow> node \<Rightarrow> node \<Rightarrow> value_type \<Rightarrow> 'a qval list \<Rightarrow> 'a qval"

definition sem :: "'a interp \<Rightarrow> operation \<Rightarrow> 'a qval list \<Rightarrow> 'a qval" where
  "sem I op vs =
     (let ts = map tri_of vs;
          base = (\<lambda>p. I p (op_name op) (op_const_id op) (op_type op) vs);
          neg = (\<lambda>p. of_tri (not3 (tri_of (base p))))
      in case op_op op of
           OP_AND \<Rightarrow> of_tri (and3 ts)
         | OP_OR \<Rightarrow> of_tri (or3 ts)
         | OP_XOR \<Rightarrow> of_tri (xor3 ts)
         | OP_NAND \<Rightarrow> of_tri (not3 (and3 ts))
         | OP_NOR \<Rightarrow> of_tri (not3 (or3 ts))
         | OP_XNOR \<Rightarrow> of_tri (not3 (xor3 ts))
         | OP_NOT \<Rightarrow> (case vs of [v] \<Rightarrow> of_tri (not3 (tri_of v)) | _ \<Rightarrow> QNull)
         | OP_NOP \<Rightarrow> (case vs of [v] \<Rightarrow> v | _ \<Rightarrow> QNull)
         | OP_NULL \<Rightarrow> QNull
         | OP_LTE \<Rightarrow> neg OP_GT
         | OP_GTE \<Rightarrow> neg OP_LT
         | OP_NEQ \<Rightarrow> neg OP_EQ
         | OP_NOT_IN \<Rightarrow> neg OP_IN
         | OP_NOT_LIKE \<Rightarrow> neg OP_LIKE
         | OP_NOT_ILIKE \<Rightarrow> neg OP_ILIKE
         | OP_IS_NOT_NULL \<Rightarrow> neg OP_IS_NULL
         | p \<Rightarrow> base p)"

text \<open>The table of negated operations negates, for every entry that is not \<open>INVALID\<close>.\<close>

lemma sem_negated:
  assumes "getNegatedOperation (op_op op) \<noteq> OP_INVALID"
  shows "tri_of (sem I (op\<lparr>op_op := getNegatedOperation (op_op op)\<rparr>) vs) = not3 (tri_of (sem I op vs))"
  using assms
  by (cases "op_op op") (simp_all add: getNegatedOperation_def sem_def Let_def split: list.split)

fun eval :: "nat \<Rightarrow> 'a interp \<Rightarrow> rw_state \<Rightarrow> node \<Rightarrow> 'a qval option" where
  "eval 0 I s n = None"
| "eval (Suc k) I s n =
     (case (at (rw_operations s) n, at (rw_mapping s) n) of
        (Inr op, Inr row) \<Rightarrow> map_option (sem I op) (those (map (eval k I s) row))
      | _ \<Rightarrow> None)"

text \<open>A state that has only been appended to.\<close>

definition rw_ok :: "rw_state \<Rightarrow> bool" where
  "rw_ok s \<longleftrightarrow> length (rw_mapping s) = length (rw_operations s)"

definition rw_extends :: "rw_state \<Rightarrow> rw_state \<Rightarrow> bool" where
  "rw_extends s s' \<longleftrightarrow> (\<exists>ops rows. rw_operations s' = rw_operations s @ ops \<and> rw_mapping s' = rw_mapping s @ rows)"

lemma rw_extends_refl [simp]: "rw_extends s s"
  by (simp add: rw_extends_def)

lemma rw_extends_trans: "rw_extends a b \<Longrightarrow> rw_extends b c \<Longrightarrow> rw_extends a c"
  by (auto simp: rw_extends_def)

lemma at_append: "at xs n = Inr x \<Longrightarrow> at (xs @ ys) n = Inr x"
  by (auto simp: at_def nth_append split: if_splits)

lemma those_map_iff: "those (map f xs) = Some ys \<longleftrightarrow> map f xs = map Some ys"
  by (induction xs arbitrary: ys) (auto split: option.splits simp: Cons_eq_map_conv)

lemma eval_Suc_iff:
  "eval (Suc k) I s n = Some v \<longleftrightarrow>
    (\<exists>op row vs. at (rw_operations s) n = Inr op \<and> at (rw_mapping s) n = Inr row \<and>
       map (eval k I s) row = map Some vs \<and> v = sem I op vs)"
  by (auto simp: those_map_iff split: sum.splits)

lemma map_eq_map_Some_mono:
  assumes "map f xs = map Some vs" and "\<And>x v. x \<in> set xs \<Longrightarrow> f x = Some v \<Longrightarrow> g x = Some v"
  shows "map g xs = map Some vs"
  using assms by (induction xs arbitrary: vs) (auto simp: Cons_eq_map_conv)

lemma eval_extends: "rw_extends s s' \<Longrightarrow> eval k I s n = Some v \<Longrightarrow> eval k I s' n = Some v"
proof (induction k arbitrary: n v)
  case (Suc k)
  obtain op row vs where e: "at (rw_operations s) n = Inr op" "at (rw_mapping s) n = Inr row"
    "map (eval k I s) row = map Some vs" "v = sem I op vs"
    using Suc.prems(2) unfolding eval_Suc_iff by blast
  have "map (eval k I s') row = map Some vs"
    by (rule map_eq_map_Some_mono [OF e(3)]) (use Suc.IH Suc.prems(1) in blast)
  moreover have "at (rw_operations s') n = Inr op" "at (rw_mapping s') n = Inr row"
    using e(1,2) Suc.prems(1) at_append by (auto simp: rw_extends_def)
  ultimately show ?case unfolding eval_Suc_iff using e(4) by blast
qed simp

lemma eval_Suc: "eval k I s n = Some v \<Longrightarrow> eval (Suc k) I s n = Some v"
proof (induction k arbitrary: n v)
  case (Suc k)
  obtain op row vs where e: "at (rw_operations s) n = Inr op" "at (rw_mapping s) n = Inr row"
    "map (eval k I s) row = map Some vs" "v = sem I op vs"
    using Suc.prems unfolding eval_Suc_iff by blast
  have "map (eval (Suc k) I s) row = map Some vs"
    by (rule map_eq_map_Some_mono [OF e(3)]) (use Suc.IH in blast)
  then show ?case unfolding eval_Suc_iff [of "Suc k"] using e by blast
qed simp

lemma eval_in_range: "eval k I s n = Some v \<Longrightarrow> 0 \<le> n \<and> nat n < length (rw_operations s) \<and> nat n < length (rw_mapping s)"
  by (cases k) (auto simp: at_def split: if_splits)

lemma eval_children_in_range:
  assumes "map (eval k I s) row = map Some vs" and "c \<in> set row"
  shows "0 \<le> c \<and> nat c < length (rw_operations s) \<and> nat c < length (rw_mapping s)"
proof -
  obtain v where "eval k I s c = Some v" using assms by (induction row arbitrary: vs) (auto simp: Cons_eq_map_conv)
  then show ?thesis by (rule eval_in_range)
qed

subsection \<open>The contract of a rule\<close>

text \<open>
  Called for a node that has a meaning, a rule that succeeds only appends to the vectors, keeps
  them of equal length, and returns a node with the same meaning as a truth value, found
  with no deeper evaluation.
\<close>

locale rewrite_rule =
  fixes I :: "'a interp" and rule :: "node \<Rightarrow> node rw"
  assumes sound: "rw_ok s \<Longrightarrow> eval k I s n = Some v \<Longrightarrow> rule n s = (Inr n', s') \<Longrightarrow>
    rw_ok s' \<and> rw_extends s s' \<and> (\<exists>v'. eval k I s' n' = Some v' \<and> tri_of v' = tri_of v)"
begin

text \<open>Nodes that were there before keep their meaning, whatever the rule was called for.\<close>

lemma others_unchanged:
  assumes "rw_ok s" and "eval k I s n = Some v" and "rule n s = (Inr n', s')" and "eval j I s m = Some x"
  shows "eval j I s' m = Some x"
  using sound [OF assms(1-3)] eval_extends assms(4) by blast

lemma result_in_range:
  assumes "rw_ok s" and "eval k I s n = Some v" and "rule n s = (Inr n', s')"
  shows "0 \<le> n' \<and> nat n' < length (rw_operations s')"
  using sound [OF assms] eval_in_range by blast

lemma keeps_truth:
  assumes "rw_ok s" and "eval k I s n = Some v" and "rule n s = (Inr n', s')"
  shows "map_option tri_of (eval k I s' n') = map_option tri_of (eval k I s n)"
  using sound [OF assms] assms(2) by auto

end

text \<open>Rules applied one after the other, each to the node the last one returned.\<close>

fun rw_sequence :: "(node \<Rightarrow> node rw) list \<Rightarrow> node \<Rightarrow> node rw" where
  "rw_sequence [] n = rw_return n"
| "rw_sequence (r # rs) n = rw_bind (r n) (rw_sequence rs)"

lemma rewrite_rule_sequence:
  assumes "\<And>r. r \<in> set rs \<Longrightarrow> rewrite_rule I r"
  shows "rewrite_rule I (rw_sequence rs)"
  using assms
proof (induction rs)
  case Nil
  show ?case by unfold_locales (auto simp: rw_return_def)
next
  case (Cons r rs)
  have r: "rewrite_rule I r" and rs: "rewrite_rule I (rw_sequence rs)"
    using Cons by simp_all
  show ?case
  proof unfold_locales
    fix s k n and v :: "'a qval" and n' s'
    assume ok: "rw_ok s" and e: "eval k I s n = Some v" and res: "rw_sequence (r # rs) n s = (Inr n', s')"
    obtain m s1 where 1: "r n s = (Inr m, s1)" and 2: "rw_sequence rs m s1 = (Inr n', s')"
      using res by (auto simp: rw_bind_Inr)
    obtain v1 where v1: "rw_ok s1" "rw_extends s s1" "eval k I s1 m = Some v1" "tri_of v1 = tri_of v"
      using rewrite_rule.sound [OF r ok e 1] by blast
    show "rw_ok s' \<and> rw_extends s s' \<and> (\<exists>v'. eval k I s' n' = Some v' \<and> tri_of v' = tri_of v)"
      using rewrite_rule.sound [OF rs v1(1,3) 2] v1(2,4) rw_extends_trans by fastforce
  qed
qed

subsection \<open>What the rules do to the vectors\<close>

definition rw_append :: "operation \<Rightarrow> node list \<Rightarrow> rw_state \<Rightarrow> rw_state" where
  "rw_append op row s = s\<lparr>rw_operations := rw_operations s @ [op], rw_mapping := rw_mapping s @ [row]\<rparr>"

lemma rw_update_order:
  "s\<lparr>rw_mapping := a, rw_operations := b\<rparr> = s\<lparr>rw_operations := b, rw_mapping := a\<rparr>"
  by simp

lemma rw_append_simps [simp]:
  "rw_operations (rw_append op row s) = rw_operations s @ [op]"
  "rw_mapping (rw_append op row s) = rw_mapping s @ [row]"
  "rw_ok (rw_append op row s) = rw_ok s"
  by (simp_all add: rw_append_def rw_ok_def)

lemma rw_extends_append [simp]: "rw_extends s (rw_append op row s)"
  by (simp add: rw_extends_def)

lemma at_length [simp]: "at (xs @ [x]) (int (length xs)) = Inr x"
  by (simp add: at_def nth_append)

lemma eval_append:
  assumes "rw_ok s" and "map (eval k I s) row = map Some vs"
  shows "eval (Suc k) I (rw_append op row s) (int (length (rw_operations s))) = Some (sem I op vs)"
proof -
  have "map (eval k I (rw_append op row s)) row = map Some vs"
    by (rule map_eq_map_Some_mono [OF assms(2)]) (rule eval_extends [OF rw_extends_append])
  moreover have "at (rw_mapping (rw_append op row s)) (int (length (rw_operations s))) = Inr row"
    using assms(1) at_length [of "rw_mapping s" row] by (simp add: rw_ok_def)
  ultimately show ?thesis unfolding eval_Suc_iff by fastforce
qed

lemma clone_node_iff:
  "clone_node n s = (Inr m, s') \<longleftrightarrow>
    (\<exists>op row. at (rw_operations s) n = Inr op \<and> at (rw_mapping s) n = Inr row \<and>
       m = int (length (rw_operations s)) \<and> s' = rw_append op row s)"
  by (auto simp: clone_node_def rw_bind_def rw_op_def rw_row_def rw_append_def split: sum.splits)

lemma clone_negated_iff:
  "clone_negated n s = (Inr m, s') \<longleftrightarrow>
    (\<exists>op row. at (rw_operations s) n = Inr op \<and> at (rw_mapping s) n = Inr row \<and>
       getNegatedOperation (op_op op) \<noteq> OP_INVALID \<and>
       m = int (length (rw_operations s)) \<and> s' = rw_append (op\<lparr>op_op := getNegatedOperation (op_op op)\<rparr>) row s)"
  by (auto simp: clone_negated_def rw_bind_Inr clone_node_iff rw_defs rw_append_def rw_update_order split: if_splits)

lemma eval_clone_negated:
  assumes ok: "rw_ok s" and e: "eval k I s c = Some v" and res: "clone_negated c s = (Inr m, s')"
  shows "rw_ok s' \<and> rw_extends s s' \<and> (\<exists>v'. eval k I s' m = Some v' \<and> tri_of v' = not3 (tri_of v))"
proof -
  obtain op row where c: "at (rw_operations s) c = Inr op" "at (rw_mapping s) c = Inr row"
    and neg: "getNegatedOperation (op_op op) \<noteq> OP_INVALID" and m: "m = int (length (rw_operations s))"
    and s': "s' = rw_append (op\<lparr>op_op := getNegatedOperation (op_op op)\<rparr>) row s"
    using res unfolding clone_negated_iff by blast
  obtain j where k: "k = Suc j" using e by (cases k) auto
  obtain vs where vs: "map (eval j I s) row = map Some vs" "v = sem I op vs"
    using e c unfolding k eval_Suc_iff by auto
  show ?thesis
    using ok eval_append [OF ok vs(1)] sem_negated [OF neg] unfolding k m s' vs(2) by auto
qed

interpretation clone: rewrite_rule I clone_node for I :: "'a interp"
proof unfold_locales
  fix s k n and v :: "'a qval" and n' s'
  assume ok: "rw_ok s" and e: "eval k I s n = Some v" and res: "clone_node n s = (Inr n', s')"
  obtain op row where c: "at (rw_operations s) n = Inr op" "at (rw_mapping s) n = Inr row"
    and m: "n' = int (length (rw_operations s))" and s': "s' = rw_append op row s"
    using res unfolding clone_node_iff by blast
  obtain j where k: "k = Suc j" using e by (cases k) auto
  obtain vs where vs: "map (eval j I s) row = map Some vs" "v = sem I op vs"
    using e c unfolding k eval_Suc_iff by auto
  show "rw_ok s' \<and> rw_extends s s' \<and> (\<exists>v'. eval k I s' n' = Some v' \<and> tri_of v' = tri_of v)"
    using ok eval_append [OF ok vs(1)] unfolding k m s' vs(2) by auto
qed

interpretation reduce: rewrite_rule I reduce_not_nop_apply for I :: "'a interp"
proof unfold_locales
  fix s k n and v :: "'a qval" and n' s'
  assume ok: "rw_ok s" and e: "eval k I s n = Some v" and res: "reduce_not_nop_apply n s = (Inr n', s')"
  obtain op where op: "at (rw_operations s) n = Inr op" "op_op op \<in> {OP_NOT, OP_NOP}"
    using res by (auto simp: reduce_not_nop_apply_def rw_bind_Inr rw_op_def rw_throw_def split: if_splits)
  have "(rw_bind (rw_row n) (\<lambda>children. case children of
      [c] \<Rightarrow> if op_op op = OP_NOP then rw_return c else clone_negated c
    | _ \<Rightarrow> rw_throw (InvalidArgument ''Invalid number of children for reduce not nop''))) s = (Inr n', s')"
    using res op by (auto simp: reduce_not_nop_apply_def rw_bind_Inr rw_op_def cong: list.case_cong)
  then obtain c where row: "at (rw_mapping s) n = Inr [c]"
    and r: "(if op_op op = OP_NOP then rw_return c else clone_negated c) s = (Inr n', s')"
    unfolding rw_bind_Inr rw_row_def
    by (elim exE conjE) (simp add: rw_throw_def split: list.splits)
  obtain j where k: "k = Suc j" using e by (cases k) auto
  obtain w where w: "eval j I s c = Some w" "v = sem I op [w]"
    using e op(1) row unfolding k eval_Suc_iff by (auto simp: Cons_eq_map_conv)
  have w': "eval k I s c = Some w" unfolding k by (rule eval_Suc [OF w(1)])
  show "rw_ok s' \<and> rw_extends s s' \<and> (\<exists>v'. eval k I s' n' = Some v' \<and> tri_of v' = tri_of v)"
  proof (cases "op_op op = OP_NOP")
    case True
    then show ?thesis using r ok w' by (simp add: rw_return_def w(2) sem_def Let_def)
  next
    case False
    then show ?thesis
      using eval_clone_negated [OF ok w', of n' s'] r op(2) by (auto simp: w(2) sem_def Let_def)
  qed
qed

lemma sem_df [simp]: "sem I (op\<lparr>op_df := d\<rparr>) vs = sem I op vs"
  by (simp add: sem_def)

lemma pull_df_apply_iff:
  "pull_df_apply n s = (Inr m, s') \<longleftrightarrow>
    (\<exists>op row df. at (rw_operations s) n = Inr op \<and> at (rw_mapping s) n = Inr row \<and> op_df op \<noteq> 0 \<and>
       at (rw_mapping s @ [row]) (int (length (rw_operations s))) \<in> range Inr \<and>
       first_df (rw_operations s @ [op]) (projr (at (rw_mapping s @ [row]) (int (length (rw_operations s))))) = Inr df \<and>
       m = int (length (rw_operations s)) \<and> s' = rw_append (op\<lparr>op_df := df\<rparr>) row s)"
  by (auto simp: pull_df_apply_def rw_bind_Inr clone_node_iff rw_defs rw_append_def split: if_splits)

interpretation pull: rewrite_rule I pull_df_apply for I :: "'a interp"
proof unfold_locales
  fix s k n and v :: "'a qval" and n' s'
  assume ok: "rw_ok s" and e: "eval k I s n = Some v" and res: "pull_df_apply n s = (Inr n', s')"
  obtain op row df where c: "at (rw_operations s) n = Inr op" "at (rw_mapping s) n = Inr row"
    and m: "n' = int (length (rw_operations s))" and s': "s' = rw_append (op\<lparr>op_df := df\<rparr>) row s"
    using res unfolding pull_df_apply_iff by blast
  obtain j where k: "k = Suc j" using e by (cases k) auto
  obtain vs where vs: "map (eval j I s) row = map Some vs" "v = sem I op vs"
    using e c unfolding k eval_Suc_iff by auto
  show "rw_ok s' \<and> rw_extends s s' \<and> (\<exists>v'. eval k I s' n' = Some v' \<and> tri_of v' = tri_of v)"
    using ok eval_append [OF ok vs(1)] unfolding k m s' vs(2) by auto
qed

subsection \<open>De Morgan\<close>

definition neg_op :: "operation \<Rightarrow> operation" where
  "neg_op op = op\<lparr>op_op := getNegatedOperation (op_op op)\<rparr>"

lemma demorgan_children_effect:
  assumes "demorgan_children cs (int N) t = (Inr u, t')" and "rw_ok t" and "N < length (rw_mapping t)"
    and "\<forall>c \<in> set cs. 0 \<le> c \<and> nat c < N"
  shows "(\<forall>c \<in> set cs. getNegatedOperation (op_op (rw_operations t ! nat c)) \<noteq> OP_INVALID)
    \<and> rw_operations t' = rw_operations t @ map (\<lambda>c. neg_op (rw_operations t ! nat c)) cs
    \<and> rw_mapping t' = (rw_mapping t)[N := rw_mapping t ! N @
          map int [length (rw_operations t)..<length (rw_operations t) + length cs]]
        @ map (\<lambda>c. rw_mapping t ! nat c) cs"
  using assms
proof (induction cs arbitrary: t)
  case Nil
  then show ?case by (simp add: rw_return_def)
next
  case (Cons c cs)
  define m where "m = length (rw_operations t)"
  define row where "row = rw_mapping t ! N"
  have c: "0 \<le> c" "nat c < N" and cs: "\<forall>c' \<in> set cs. 0 \<le> c' \<and> nat c' < N" using Cons.prems(4) by auto
  have lens: "length (rw_mapping t) = m" "N < m" using Cons.prems(2,3) by (simp_all add: rw_ok_def m_def)
  define t1 where "t1 = rw_append (neg_op (rw_operations t ! nat c)) (rw_mapping t ! nat c) t"
  define t2 where "t2 = t1\<lparr>rw_mapping := (rw_mapping t1)[N := row @ [int m]]\<rparr>"
  have ats: "at (rw_operations t) c = Inr (rw_operations t ! nat c)" "at (rw_mapping t) c = Inr (rw_mapping t ! nat c)"
    using c lens by (simp_all add: at_def m_def [symmetric])
  have neg: "getNegatedOperation (op_op (rw_operations t ! nat c)) \<noteq> OP_INVALID"
    and rest: "demorgan_children cs (int N) t2 = (Inr u, t')"
    using Cons.prems(1) ats lens
    by (auto simp: rw_bind_Inr clone_negated_iff rw_row_def rw_set_row_def t2_def t1_def row_def m_def neg_op_def
        at_def nth_append)
  have t2: "rw_operations t2 = rw_operations t @ [neg_op (rw_operations t ! nat c)]"
    "rw_mapping t2 = (rw_mapping t)[N := row @ [int m]] @ [rw_mapping t ! nat c]"
    using lens by (simp_all add: t2_def t1_def list_update_append)
  have IH: "(\<forall>c' \<in> set cs. getNegatedOperation (op_op (rw_operations t2 ! nat c')) \<noteq> OP_INVALID)
    \<and> rw_operations t' = rw_operations t2 @ map (\<lambda>c. neg_op (rw_operations t2 ! nat c)) cs
    \<and> rw_mapping t' = (rw_mapping t2)[N := rw_mapping t2 ! N @
          map int [length (rw_operations t2)..<length (rw_operations t2) + length cs]]
        @ map (\<lambda>c. rw_mapping t2 ! nat c) cs"
    by (rule Cons.IH [OF rest]) (use lens cs in \<open>simp_all add: rw_ok_def t2 m_def\<close>)
  have same: "rw_operations t2 ! nat c' = rw_operations t ! nat c'" "rw_mapping t2 ! nat c' = rw_mapping t ! nat c'"
    if "c' \<in> set cs" for c'
    using cs that lens by (fastforce simp: t2 nth_append m_def [symmetric])+
  have N: "rw_mapping t2 ! N = row @ [int m]" "length (rw_operations t2) = Suc m"
    using lens by (simp_all add: t2 nth_append m_def)
  have map': "rw_mapping t' = (rw_mapping t2)[N := row @ int m # map int [Suc m..<Suc m + length cs]]
        @ map (\<lambda>c. rw_mapping t ! nat c) cs"
    and ops': "rw_operations t' = rw_operations t2 @ map (\<lambda>c. neg_op (rw_operations t ! nat c)) cs"
    using IH same by (simp_all add: N cong: map_cong del: upt_Suc)
  have "[m..<m + length (c # cs)] = m # [Suc m..<Suc m + length cs]" by (simp add: upt_conv_Cons del: upt_Suc)
  then have "rw_mapping t' = (rw_mapping t)[N := row @ map int [m..<m + length (c # cs)]]
        @ map (\<lambda>c. rw_mapping t ! nat c) (c # cs)"
    using map' lens by (simp add: t2 list_update_append del: upt_Suc)
  then show ?case using IH ops' same neg by (simp add: t2 m_def row_def)
qed

lemma demorgan_apply_effect:
  assumes "demorgan_apply n s = (Inr m, s')" and "rw_ok s"
    and "at (rw_operations s) n = Inr op" and "at (rw_mapping s) n = Inr row"
    and "\<forall>c \<in> set row. 0 \<le> c \<and> nat c < length (rw_operations s)"
  obtains p where "demorgan_op (op_op op) = Some p" and "m = int (length (rw_operations s))"
    and "\<forall>c \<in> set row. getNegatedOperation (op_op (rw_operations s ! nat c)) \<noteq> OP_INVALID"
    and "rw_operations s' = rw_operations s @ op\<lparr>op_op := p\<rparr> # map (\<lambda>c. neg_op (rw_operations s ! nat c)) row"
    and "rw_mapping s' = rw_mapping s @
      map int [Suc (length (rw_operations s))..<Suc (length (rw_operations s)) + length row] #
      map (\<lambda>c. rw_mapping s ! nat c) row"
proof -
  define N where "N = length (rw_operations s)"
  have len: "length (rw_mapping s) = N" using assms(2) by (simp add: rw_ok_def N_def)
  obtain p where p: "demorgan_op (op_op op) = Some p"
    using assms(1,3,4) by (auto simp: demorgan_apply_def rw_bind_Inr clone_node_iff rw_defs split: option.splits)
  define t where "t = s\<lparr>rw_operations := rw_operations s @ [op\<lparr>op_op := p\<rparr>], rw_mapping := rw_mapping s @ [[]]\<rparr>"
  have t: "rw_operations t = rw_operations s @ [op\<lparr>op_op := p\<rparr>]" "rw_mapping t = rw_mapping s @ [[]]"
    by (simp_all add: t_def)
  have loop: "demorgan_children row (int N) t = (Inr (), s')" and m: "m = int N"
    using assms(1,3,4) p len at_append [OF assms(4)]
    by (auto simp: demorgan_apply_def rw_bind_Inr clone_node_iff rw_defs t_def rw_append_def rw_update_order N_def
        list_update_append)
  have "(\<forall>c \<in> set row. getNegatedOperation (op_op (rw_operations t ! nat c)) \<noteq> OP_INVALID)
    \<and> rw_operations s' = rw_operations t @ map (\<lambda>c. neg_op (rw_operations t ! nat c)) row
    \<and> rw_mapping s' = (rw_mapping t)[N := rw_mapping t ! N @
          map int [length (rw_operations t)..<length (rw_operations t) + length row]]
        @ map (\<lambda>c. rw_mapping t ! nat c) row"
    by (rule demorgan_children_effect [OF loop]) (use assms(5) len in \<open>simp_all add: rw_ok_def t N_def\<close>)
  moreover have "rw_operations t ! nat c = rw_operations s ! nat c" "rw_mapping t ! nat c = rw_mapping s ! nat c"
    if "c \<in> set row" for c
    using assms(5) that len by (simp_all add: t nth_append N_def)
  moreover have "rw_mapping t ! N = []" "(rw_mapping t)[N := x] = rw_mapping s @ [x]" for x
    using len by (simp_all add: t nth_append list_update_append)
  ultimately show thesis using that [OF p] m by (simp add: t N_def cong: map_cong)
qed

lemma sem_demorgan:
  assumes "demorgan_op (op_op op) = Some p" and "map tri_of vs' = map (\<lambda>v. not3 (tri_of v)) vs"
  shows "sem I (op\<lparr>op_op := p\<rparr>) vs' = sem I op vs"
proof -
  have "map tri_of vs' = map not3 (map tri_of vs)" using assms(2) by (simp add: comp_def)
  then show ?thesis
    using assms(1)
    by (cases "op_op op")
      (auto simp: demorgan_op_def sem_def Let_def de_morgan_and3 [symmetric] de_morgan_or3 [symmetric]
        simp del: map_map)
qed

lemma nth_in_appended:
  "i < length xs \<Longrightarrow> at (ys @ x # xs) (int (Suc (length ys) + i)) = Inr (xs ! i)"
proof -
  assume i: "i < length xs"
  have "at (ys @ x # xs) (int (Suc (length ys) + i)) = Inr ((ys @ x # xs) ! (Suc (length ys) + i))"
    by (rule at_of_nat) (use i in simp)
  then show ?thesis by (simp add: nth_append)
qed

interpretation demorgan: rewrite_rule I demorgan_apply for I :: "'a interp"
proof unfold_locales
  fix s k n and v :: "'a qval" and n' s'
  assume ok: "rw_ok s" and e: "eval k I s n = Some v" and res: "demorgan_apply n s = (Inr n', s')"
  obtain j where k: "k = Suc j" using e by (cases k) auto
  obtain op row vs where n: "at (rw_operations s) n = Inr op" "at (rw_mapping s) n = Inr row"
    and vs: "map (eval j I s) row = map Some vs" "v = sem I op vs"
    using e unfolding k eval_Suc_iff by blast
  have range: "\<forall>c \<in> set row. 0 \<le> c \<and> nat c < length (rw_operations s)"
    using eval_children_in_range [OF vs(1)] by blast
  define N where "N = length (rw_operations s)"
  have len: "length (rw_mapping s) = N" using ok by (simp add: rw_ok_def N_def)
  obtain p where p: "demorgan_op (op_op op) = Some p" and n': "n' = int N"
    and neg: "\<forall>c \<in> set row. getNegatedOperation (op_op (rw_operations s ! nat c)) \<noteq> OP_INVALID"
    and ops: "rw_operations s' = rw_operations s @ op\<lparr>op_op := p\<rparr> # map (\<lambda>c. neg_op (rw_operations s ! nat c)) row"
    and gm: "rw_mapping s' = rw_mapping s @ map int [Suc N..<Suc N + length row] # map (\<lambda>c. rw_mapping s ! nat c) row"
    using demorgan_apply_effect [OF res ok n range] unfolding N_def by metis
  have ext: "rw_extends s s'" by (simp add: rw_extends_def ops gm)
  have lenvs: "length vs = length row" using vs(1) by (metis length_map)
  have child: "\<exists>w. eval j I s' (int (Suc N + i)) = Some w \<and> tri_of w = not3 (tri_of (vs ! i))" if i: "i < length row" for i
  proof -
    let ?c = "row ! i"
    have ec: "eval j I s ?c = Some (vs ! i)" using vs(1) i lenvs by (metis nth_map)
    obtain j' where j: "j = Suc j'" using ec by (cases j) auto
    obtain opc rowc ws where c: "at (rw_operations s) ?c = Inr opc" "at (rw_mapping s) ?c = Inr rowc"
      and ws: "map (eval j' I s) rowc = map Some ws" "vs ! i = sem I opc ws"
      using ec unfolding j eval_Suc_iff by blast
    have nths: "rw_operations s ! nat ?c = opc" "rw_mapping s ! nat ?c = rowc" using c by (auto simp: at_iff)
    have a1: "at (rw_operations s') (int (Suc N + i)) = Inr (neg_op opc)"
      using nth_in_appended [of i "map (\<lambda>c. neg_op (rw_operations s ! nat c)) row" "rw_operations s"] i nths
      by (simp add: ops N_def)
    have a2: "at (rw_mapping s') (int (Suc N + i)) = Inr rowc"
      using nth_in_appended [of i "map (\<lambda>c. rw_mapping s ! nat c) row" "rw_mapping s"] i nths len by (simp add: gm)
    have "map (eval j' I s') rowc = map Some ws"
      by (rule map_eq_map_Some_mono [OF ws(1)]) (rule eval_extends [OF ext])
    then have "eval j I s' (int (Suc N + i)) = Some (sem I (neg_op opc) ws)"
      unfolding j eval_Suc_iff using a1 a2 by blast
    moreover have "tri_of (sem I (neg_op opc) ws) = not3 (tri_of (vs ! i))"
      using sem_negated [of opc I ws] neg nth_mem [OF i] nths ws(2) by (auto simp: neg_op_def)
    ultimately show ?thesis by blast
  qed
  obtain f where f: "\<forall>i < length row. eval j I s' (int (Suc N + i)) = Some (f i) \<and> tri_of (f i) = not3 (tri_of (vs ! i))"
    using child by metis
  define vs' where "vs' = map f [0..<length row]"
  have "map (eval j I s') (map int [Suc N..<Suc N + length row]) = map Some vs'"
    by (rule nth_equalityI) (use f in \<open>simp_all add: vs'_def del: upt_Suc\<close>)
  moreover have "at (rw_operations s') n' = Inr (op\<lparr>op_op := p\<rparr>)"
    "at (rw_mapping s') n' = Inr (map int [Suc N..<Suc N + length row])"
    using len by (simp_all add: ops gm n' N_def at_def nth_append)
  ultimately have "eval k I s' n' = Some (sem I (op\<lparr>op_op := p\<rparr>) vs')"
    unfolding k eval_Suc_iff by blast
  moreover have "map tri_of vs' = map (\<lambda>v. not3 (tri_of v)) vs"
    by (rule nth_equalityI) (use f lenvs in \<open>simp_all add: vs'_def\<close>)
  ultimately have "eval k I s' n' = Some v" using sem_demorgan [OF p] by (simp add: vs(2))
  then show "rw_ok s' \<and> rw_extends s s' \<and> (\<exists>v'. eval k I s' n' = Some v' \<and> tri_of v' = tri_of v)"
    using ext len by (simp add: rw_ok_def ops gm N_def)
qed

subsection \<open>Merging\<close>

definition expand :: "rw_state \<Rightarrow> column_operation \<Rightarrow> node \<Rightarrow> node list" where
  "expand s p c = (if op_op (rw_operations s ! nat c) = p then rw_mapping s ! nat c else [c])"

lemma merge_children_effect:
  assumes "merge_children p cs (int N) t = (Inr u, t')" and "N < length (rw_mapping t)"
    and "\<forall>c \<in> set cs. 0 \<le> c \<and> nat c < N"
  shows "t' = t\<lparr>rw_mapping := (rw_mapping t)[N := rw_mapping t ! N @ concat (map (expand t p) cs)]\<rparr>"
  using assms
proof (induction cs arbitrary: t)
  case Nil
  then show ?case by (simp add: rw_return_def)
next
  case (Cons c cs)
  have c: "0 \<le> c" "nat c < N" and cs: "\<forall>c' \<in> set cs. 0 \<le> c' \<and> nat c' < N" using Cons.prems(3) by auto
  define t1 where "t1 = t\<lparr>rw_mapping := (rw_mapping t)[N := rw_mapping t ! N @ expand t p c]\<rparr>"
  have rest: "merge_children p cs (int N) t1 = (Inr u, t')"
    using Cons.prems(1,2) c
    by (auto simp: rw_bind_Inr rw_defs t1_def expand_def at_iff split: if_splits)
  have t': "t' = t1\<lparr>rw_mapping := (rw_mapping t1)[N := rw_mapping t1 ! N @ concat (map (expand t1 p) cs)]\<rparr>"
    by (rule Cons.IH [OF rest]) (use Cons.prems(2) cs in \<open>simp_all add: t1_def\<close>)
  have "expand t1 p c' = expand t p c'" if "c' \<in> set cs" for c'
    using cs that by (fastforce simp: expand_def t1_def)
  then have cc: "map (expand t1 p) cs = map (expand t p) cs" by simp
  show ?case using Cons.prems(2) unfolding t' cc by (simp add: t1_def)
qed

text \<open>A merging rule appends the node with its children expanded.\<close>

lemma merge_effect:
  assumes ok: "rw_ok s" and op: "at (rw_operations s) n = Inr op" and row: "at (rw_mapping s) n = Inr row"
    and range: "\<forall>c \<in> set row. 0 \<le> c \<and> nat c < length (rw_operations s)"
    and loop: "merge_children p row (int (length (rw_operations s))) (rw_append op [] s) = (Inr u, s')"
  shows "s' = rw_append op (concat (map (expand s p) row)) s"
proof -
  define N where "N = length (rw_operations s)"
  have len: "length (rw_mapping s) = N" using ok by (simp add: rw_ok_def N_def)
  have s': "s' = (rw_append op [] s)\<lparr>rw_mapping := (rw_mapping (rw_append op [] s))
      [N := rw_mapping (rw_append op [] s) ! N @ concat (map (expand (rw_append op [] s) p) row)]\<rparr>"
    by (rule merge_children_effect) (use loop range len in \<open>simp_all add: N_def\<close>)
  have "expand (rw_append op [] s) p c = expand s p c" if "c \<in> set row" for c
    using range that len by (simp add: expand_def nth_append N_def)
  then have cc: "map (expand (rw_append op [] s) p) row = map (expand s p) row" by simp
  have "(rw_mapping s @ [[]]) ! N = []" using len by (simp add: nth_append)
  then show ?thesis using len unfolding s' cc by (simp add: list_update_append rw_append_def)
qed

lemma merge_logic_loop:
  assumes ok: "rw_ok s" and op: "at (rw_operations s) n = Inr op" and row: "at (rw_mapping s) n = Inr row"
    and res: "merge_cummutative_logic_apply n s = (Inr m, s')"
  obtains p where "merge_logic_op (op_op op) = Some p" and "m = int (length (rw_operations s))"
    and "merge_children p row (int (length (rw_operations s))) (rw_append op [] s) = (Inr (), s')"
proof -
  obtain p where p: "merge_logic_op (op_op op) = Some p"
    using res op row at_append [OF op] ok
    by (auto simp: merge_cummutative_logic_apply_def rw_bind_Inr clone_node_iff rw_defs split: option.splits)
  show thesis
    using that [OF p] res op row p at_append [OF op] ok
    by (auto simp: merge_cummutative_logic_apply_def rw_bind_Inr clone_node_iff rw_defs rw_append_def rw_update_order
        rw_ok_def list_update_append nth_append)
qed

lemma merge_numeric_loop:
  assumes ok: "rw_ok s" and op: "at (rw_operations s) n = Inr op" and row: "at (rw_mapping s) n = Inr row"
    and res: "merge_cummutative_numeric_apply n s = (Inr m, s')"
  shows "m = int (length (rw_operations s))"
    and "merge_children (op_op op) row (int (length (rw_operations s))) (rw_append op [] s) = (Inr (), s')"
  using res op row at_append [OF op] ok
  by (auto simp: merge_cummutative_numeric_apply_def rw_bind_Inr clone_node_iff rw_defs rw_append_def rw_update_order
      rw_ok_def list_update_append nth_append)

text \<open>Values of the expanded children: a child's own value, or those of its children.\<close>

lemma expand_values:
  assumes "map (eval j I s) cs = map Some vs"
  shows "\<exists>vss. map (eval j I s) (concat (map (expand s p) cs)) = map Some (concat vss) \<and>
    list_all2 (\<lambda>ws v. ws = [v] \<or> (\<exists>op. op_op op = p \<and> v = sem I op ws)) vss vs"
  using assms
proof (induction cs arbitrary: vs)
  case Nil
  then show ?case by (intro exI [of _ "[]"]) simp
next
  case (Cons c cs)
  obtain v vs1 where vs: "vs = v # vs1" and v: "eval j I s c = Some v" and vs1: "map (eval j I s) cs = map Some vs1"
    using Cons.prems by (auto simp: Cons_eq_map_conv)
  obtain vss where vss: "map (eval j I s) (concat (map (expand s p) cs)) = map Some (concat vss)"
    "list_all2 (\<lambda>ws v. ws = [v] \<or> (\<exists>op. op_op op = p \<and> v = sem I op ws)) vss vs1"
    using Cons.IH [OF vs1] by blast
  have "\<exists>ws. map (eval j I s) (expand s p c) = map Some ws \<and> (ws = [v] \<or> (\<exists>op. op_op op = p \<and> v = sem I op ws))"
  proof (cases "op_op (rw_operations s ! nat c) = p")
    case False
    then show ?thesis using v by (intro exI [of _ "[v]"]) (simp add: expand_def)
  next
    case True
    obtain j' where j: "j = Suc j'" using v by (cases j) auto
    obtain op row ws where c: "at (rw_operations s) c = Inr op" "at (rw_mapping s) c = Inr row"
      and ws: "map (eval j' I s) row = map Some ws" "v = sem I op ws"
      using v unfolding j eval_Suc_iff by blast
    have "map (eval j I s) row = map Some ws"
      unfolding j by (rule map_eq_map_Some_mono [OF ws(1)]) (rule eval_Suc)
    moreover have "rw_mapping s ! nat c = row" "rw_operations s ! nat c = op" using c by (auto simp: at_iff)
    ultimately show ?thesis using True ws(2) unfolding expand_def by auto
  qed
  then obtain ws where "map (eval j I s) (expand s p c) = map Some ws" "ws = [v] \<or> (\<exists>op. op_op op = p \<and> v = sem I op ws)"
    by blast
  then show ?case using vss by (intro exI [of _ "ws # vss"]) (simp add: vs)
qed

lemma sem_merge_logic:
  assumes "merge_logic_op (op_op op) = Some p"
    and "list_all2 (\<lambda>ws v. ws = [v] \<or> (\<exists>op. op_op op = p \<and> v = sem I op ws)) vss vs"
  shows "sem I op (concat vss) = sem I op vs"
proof -
  have p: "p = OP_AND \<or> p = OP_OR \<or> p = OP_XOR"
    using assms(1) by (auto simp: merge_logic_op_def split: column_operation.splits)
  have eq: "map (\<lambda>ws. F (map tri_of ws)) vss = map tri_of vs"
    if "\<And>t. F [t] = t" "\<And>op ws. op_op op = p \<Longrightarrow> tri_of (sem I op ws) = F (map tri_of ws)" for F
    using assms(2) by (induction rule: list_all2_induct) (use that in auto)
  have cc: "map tri_of (concat vss) = concat (map (map tri_of) vss)" by (simp add: map_concat)
  consider "p = OP_AND" | "p = OP_OR" | "p = OP_XOR" using p by blast
  then show ?thesis
  proof cases
    case 1
    have "map (\<lambda>ws. and3 (map tri_of ws)) vss = map tri_of vs" by (rule eq) (simp_all add: 1 sem_def)
    then have "and3 (map tri_of (concat vss)) = and3 (map tri_of vs)"
      unfolding cc fold3_concat by (simp add: comp_def)
    then show ?thesis using assms(1) 1
      by (cases "op_op op") (simp_all add: merge_logic_op_def sem_def Let_def del: map_concat)
  next
    case 2
    have "map (\<lambda>ws. or3 (map tri_of ws)) vss = map tri_of vs" by (rule eq) (simp_all add: 2 sem_def)
    then have "or3 (map tri_of (concat vss)) = or3 (map tri_of vs)"
      unfolding cc fold3_concat by (simp add: comp_def)
    then show ?thesis using assms(1) 2
      by (cases "op_op op") (simp_all add: merge_logic_op_def sem_def Let_def del: map_concat)
  next
    case 3
    have "map (\<lambda>ws. xor3 (map tri_of ws)) vss = map tri_of vs" by (rule eq) (simp_all add: 3 sem_def)
    then have "xor3 (map tri_of (concat vss)) = xor3 (map tri_of vs)"
      unfolding cc fold3_concat by (simp add: comp_def)
    then show ?thesis using assms(1) 3
      by (cases "op_op op") (simp_all add: merge_logic_op_def sem_def Let_def del: map_concat)
  qed
qed

interpretation merge_logic: rewrite_rule I merge_cummutative_logic_apply for I :: "'a interp"
proof unfold_locales
  fix s k n and v :: "'a qval" and n' s'
  assume ok: "rw_ok s" and e: "eval k I s n = Some v" and res: "merge_cummutative_logic_apply n s = (Inr n', s')"
  obtain j where k: "k = Suc j" using e by (cases k) auto
  obtain op row vs where n: "at (rw_operations s) n = Inr op" "at (rw_mapping s) n = Inr row"
    and vs: "map (eval j I s) row = map Some vs" "v = sem I op vs"
    using e unfolding k eval_Suc_iff by blast
  have range: "\<forall>c \<in> set row. 0 \<le> c \<and> nat c < length (rw_operations s)"
    using eval_children_in_range [OF vs(1)] by blast
  obtain p where p: "merge_logic_op (op_op op) = Some p" and n': "n' = int (length (rw_operations s))"
    and loop: "merge_children p row (int (length (rw_operations s))) (rw_append op [] s) = (Inr (), s')"
    using merge_logic_loop [OF ok n res] .
  have s': "s' = rw_append op (concat (map (expand s p) row)) s" by (rule merge_effect [OF ok n range loop])
  obtain vss where vss: "map (eval j I s) (concat (map (expand s p) row)) = map Some (concat vss)"
    "list_all2 (\<lambda>ws v. ws = [v] \<or> (\<exists>op. op_op op = p \<and> v = sem I op ws)) vss vs"
    using expand_values [OF vs(1)] by blast
  have "eval k I s' n' = Some v"
    unfolding k s' n' using eval_append [OF ok vss(1)] sem_merge_logic [OF p vss(2)] by (simp add: vs(2))
  then show "rw_ok s' \<and> rw_extends s s' \<and> (\<exists>v'. eval k I s' n' = Some v' \<and> tri_of v' = tri_of v)"
    using ok by (simp add: s')
qed

subsection \<open>The properties of the rules\<close>

definition logic_rules :: "(node \<Rightarrow> node rw) set" where
  "logic_rules = {clone_node, reduce_not_nop_apply, demorgan_apply, merge_cummutative_logic_apply, pull_df_apply}"

lemma logic_rules_sound: "r \<in> logic_rules \<Longrightarrow> rewrite_rule I r"
  by (auto simp: logic_rules_def clone.rewrite_rule_axioms reduce.rewrite_rule_axioms demorgan.rewrite_rule_axioms
      merge_logic.rewrite_rule_axioms pull.rewrite_rule_axioms)

text \<open>
  C4. The rewrite rules preserve meaning: any sequence of De Morgan, merging of logical
  operators, removal of NOT and NOP, pulling to another data frame and cloning, each applied
  to the node the last one returned, only appends to the graph, leaves the value of every
  other node as it was, and returns a node with the same three-valued truth value, under
  every interpretation of the operators, nulls included.
\<close>

theorem rewriting_preserves_meaning:
  assumes "set rs \<subseteq> logic_rules" and "rw_ok s" and "eval k I s n = Some v" and "rw_sequence rs n s = (Inr n', s')"
  shows "rw_extends s s' \<and> rw_ok s' \<and> (\<exists>v'. eval k I s' n' = Some v' \<and> tri_of v' = tri_of v)
    \<and> (eval j I s m = Some x \<longrightarrow> eval j I s' m = Some x)"
proof -
  have "rewrite_rule I (rw_sequence rs)"
    by (rule rewrite_rule_sequence) (use assms(1) logic_rules_sound in blast)
  from rewrite_rule.sound [OF this assms(2-4)] show ?thesis using eval_extends by blast
qed

definition toy_interp :: "nat interp" where
  "toy_interp p name_id const_id ty vs =
     (if p = OP_CONST then Truth (const_id = 1)
      else Val (sum_list (map (\<lambda>v. case v of Val x \<Rightarrow> x | _ \<Rightarrow> 1) vs)))"

definition toy_op :: "column_operation \<Rightarrow> node \<Rightarrow> operation" where
  "toy_op p c = default_operation\<lparr>op_op := p, op_const_id := c\<rparr>"

text \<open>\<open>NOT (NULL AND NOT TRUE)\<close>, the node 4.\<close>

definition toy_logic :: rw_state where
  "toy_logic = \<lparr>rw_mapping = [[], [], [1], [0, 2], [3]],
     rw_operations = [toy_op OP_NULL 0, toy_op OP_CONST 1, toy_op OP_NOT 0, toy_op OP_AND 0, toy_op OP_NOT 0]\<rparr>"

lemma toy_logic_rewritten:
  "rw_sequence [reduce_not_nop_apply, demorgan_apply] 4 toy_logic =
   (Inr 6, \<lparr>rw_mapping = [[], [], [1], [0, 2], [3], [0, 2], [7, 8], [], [1]],
      rw_operations = [toy_op OP_NULL 0, toy_op OP_CONST 1, toy_op OP_NOT 0, toy_op OP_AND 0, toy_op OP_NOT 0,
        toy_op OP_NAND 0, toy_op OP_OR 0, toy_op OP_NULL 0, toy_op OP_NOP 0]\<rparr>)"
  by (simp add: toy_logic_def toy_op_def rw_bind_def reduce_not_nop_apply_def clone_negated_def clone_node_def
      demorgan_apply_def demorgan_op_def getNegatedOperation_def rw_defs at_def default_operation_def)

theorem rewriting_preserves_meaning_witness:
  "\<exists>v'. eval 5 toy_interp (snd (rw_sequence [reduce_not_nop_apply, demorgan_apply] 4 toy_logic)) 6 = Some v' \<and>
     tri_of v' = Some True"
proof -
  have e: "eval 5 toy_interp toy_logic 4 = Some (Truth True)"
    by (simp add: toy_logic_def toy_op_def at_def sem_def default_operation_def toy_interp_def numeral_eq_Suc
        and3_def not3_def)
  have "set [reduce_not_nop_apply, demorgan_apply] \<subseteq> logic_rules" by (simp add: logic_rules_def)
  moreover have "rw_ok toy_logic" by (simp add: rw_ok_def toy_logic_def)
  ultimately show ?thesis
    using rewriting_preserves_meaning [OF _ _ e toy_logic_rewritten] unfolding toy_logic_rewritten by simp
qed

text \<open>
  Merging nested sums and the like: where the operator is associative as a function of its
  argument list, replacing each child that has the same operator by that child's children
  leaves the value unchanged.
\<close>

theorem merge_numeric_preserves_value:
  assumes "rw_ok s" and "eval k I s n = Some v" and "merge_cummutative_numeric_apply n s = (Inr n', s')"
    and "op_op (rw_operations s ! nat n) = p" and "p \<in> {OP_ADD, OP_MUL, OP_MIN, OP_MAX}"
    and assoc: "\<And>a b c a' b' c' xs ys zs. I p a b c (xs @ I p a' b' c' ys # zs) = I p a b c (xs @ ys @ zs)"
  shows "rw_extends s s' \<and> eval k I s' n' = Some v"
proof -
  obtain j where k: "k = Suc j" using assms(2) by (cases k) auto
  obtain op row vs where n: "at (rw_operations s) n = Inr op" "at (rw_mapping s) n = Inr row"
    and vs: "map (eval j I s) row = map Some vs" "v = sem I op vs"
    using assms(2) unfolding k eval_Suc_iff by blast
  have range: "\<forall>c \<in> set row. 0 \<le> c \<and> nat c < length (rw_operations s)"
    using eval_children_in_range [OF vs(1)] by blast
  have p: "op_op op = p" using assms(4) n(1) by (simp add: at_iff)
  have s': "s' = rw_append op (concat (map (expand s p) row)) s"
    using merge_effect [OF assms(1) n range] merge_numeric_loop(2) [OF assms(1) n assms(3)] by (simp add: p)
  obtain vss where vss: "map (eval j I s) (concat (map (expand s p) row)) = map Some (concat vss)"
    and rel: "list_all2 (\<lambda>ws v. ws = [v] \<or> (\<exists>op. op_op op = p \<and> v = sem I op ws)) vss vs"
    using expand_values [OF vs(1)] by blast
  have base: "sem I op' ws = I p (op_name op') (op_const_id op') (op_type op') ws" if "op_op op' = p" for op' ws
    using assms(5) that by (auto simp: sem_def)
  have "I p a b c (xs @ concat vss) = I p a b c (xs @ vs)" for a b c xs
    using rel
  proof (induction vss vs arbitrary: xs rule: list_all2_induct)
    case (Cons ws vss v vs)
    have "I p a b c (xs @ ws @ vs) = I p a b c (xs @ v # vs)"
      using Cons.hyps(1) base assoc [of a b c xs] by auto
    then show ?case using Cons.IH [of "xs @ ws"] by simp
  qed simp
  from this [of _ _ _ "[]"] have "sem I op (concat vss) = sem I op vs" by (simp add: base p)
  then show ?thesis
    using eval_append [OF assms(1) vss, of op] merge_numeric_loop(1) [OF assms(1) n assms(3)]
    by (simp add: s' k vs(2))
qed

definition toy_sum :: rw_state where
  "toy_sum = \<lparr>rw_mapping = [[], [], [0, 1], [2, 0]],
     rw_operations = [toy_op OP_COLUMN 0, toy_op OP_COLUMN 0, toy_op OP_ADD 0, toy_op OP_ADD 0]\<rparr>"

definition toy_sum_interp :: "nat interp" where
  "toy_sum_interp p name_id const_id ty vs =
     (if p = OP_COLUMN then Val 7 else Val (sum_list (map (\<lambda>v. case v of Val x \<Rightarrow> x | _ \<Rightarrow> 0) vs)))"

theorem merge_numeric_preserves_value_witness:
  "eval 4 toy_sum_interp (snd (merge_cummutative_numeric_apply 3 toy_sum)) 4 = Some (Val 21) \<and>
   rw_mapping (snd (merge_cummutative_numeric_apply 3 toy_sum)) ! 4 = [0, 1, 0]"
proof -
  have r: "merge_cummutative_numeric_apply 3 toy_sum =
      (Inr 4, \<lparr>rw_mapping = [[], [], [0, 1], [2, 0], [0, 1, 0]],
        rw_operations = [toy_op OP_COLUMN 0, toy_op OP_COLUMN 0, toy_op OP_ADD 0, toy_op OP_ADD 0, toy_op OP_ADD 0]\<rparr>)"
    by (simp add: toy_sum_def toy_op_def rw_bind_def merge_cummutative_numeric_apply_def clone_node_def rw_defs
        at_def default_operation_def)
  have e: "eval 4 toy_sum_interp toy_sum 3 = Some (Val 21)"
    by (simp add: toy_sum_def toy_op_def at_def sem_def default_operation_def toy_sum_interp_def numeral_eq_Suc)
  have "rw_ok toy_sum" by (simp add: rw_ok_def toy_sum_def)
  from merge_numeric_preserves_value [OF this e r, of OP_ADD] show ?thesis
    by (simp add: r toy_sum_interp_def) (simp add: toy_sum_def toy_op_def default_operation_def)
qed

text \<open>
  Constant folding never applies: the test demands that the node itself is a constant and has
  children, and in a graph whose constants have no children there is no such node, whatever
  operator is applied to whatever constants.
\<close>

theorem roll_constants_never_applies:
  assumes "length gm = length ops" and "n < length ops"
    and "\<And>i. i < length ops \<Longrightarrow> op_op (ops ! i) = OP_CONST \<Longrightarrow> gm ! i = []"
  shows "roll_constants_applies gm ops (int n) = Inr False"
  using assms by (simp add: roll_constants_applies_def)

theorem roll_constants_never_applies_witness:
  "roll_constants_applies [[], [], [0, 1]] [toy_op OP_CONST 0, toy_op OP_CONST 1, toy_op OP_ADD 0] (int 2) = Inr False"
  by (rule roll_constants_never_applies) (auto simp: toy_op_def less_Suc_eq numeral_eq_Suc)

text \<open>The frames of the children that are not constants.\<close>

definition child_dfs :: "operation list \<Rightarrow> node list \<Rightarrow> node set" where
  "child_dfs ops cs = (\<lambda>c. op_df (ops ! nat c)) ` set cs - {0}"

lemma children_common_df_eq:
  assumes "\<forall>c \<in> set cs. 0 \<le> c \<and> nat c < length ops"
  shows "common \<noteq> 0 \<Longrightarrow> children_common_df ops cs common = Inr (if child_dfs ops cs \<subseteq> {common} then Some common else None)"
    and "children_common_df ops cs 0 =
      Inr (if child_dfs ops cs = {} then Some 0
           else if \<exists>d. child_dfs ops cs = {d} then Some (the_elem (child_dfs ops cs)) else None)"
proof -
  have 1: "children_common_df ops cs common = Inr (if child_dfs ops cs \<subseteq> {common} then Some common else None)"
    if "common \<noteq> 0" "\<forall>c \<in> set cs. 0 \<le> c \<and> nat c < length ops" for cs common
    using that(2)
  proof (induction cs)
    case (Cons c cs)
    then have at: "at ops c = Inr (ops ! nat c)" by (simp add: at_def)
    have "child_dfs ops (c # cs) \<subseteq> {common} \<longleftrightarrow>
        (op_df (ops ! nat c) = 0 \<or> op_df (ops ! nat c) = common) \<and> child_dfs ops cs \<subseteq> {common}"
      using that(1) by (auto simp: child_dfs_def)
    then show ?case using Cons at that(1) by auto
  qed (simp add: child_dfs_def)
  show "common \<noteq> 0 \<Longrightarrow> children_common_df ops cs common = Inr (if child_dfs ops cs \<subseteq> {common} then Some common else None)"
    by (rule 1) (use assms in simp_all)
  show "children_common_df ops cs 0 =
      Inr (if child_dfs ops cs = {} then Some 0
           else if \<exists>d. child_dfs ops cs = {d} then Some (the_elem (child_dfs ops cs)) else None)"
    using assms
  proof (induction cs)
    case (Cons c cs)
    then have at: "at ops c = Inr (ops ! nat c)" by (simp add: at_def)
    show ?case
    proof (cases "op_df (ops ! nat c) = 0")
      case True
      then have "child_dfs ops (c # cs) = child_dfs ops cs" by (auto simp: child_dfs_def)
      then show ?thesis using Cons at True by simp
    next
      case False
      let ?d = "op_df (ops ! nat c)"
      have ins: "child_dfs ops (c # cs) = insert ?d (child_dfs ops cs)" using False by (auto simp: child_dfs_def)
      have "(\<exists>d. insert ?d (child_dfs ops cs) = {d}) \<longleftrightarrow> child_dfs ops cs \<subseteq> {?d}" by auto
      moreover have "the_elem (insert ?d (child_dfs ops cs)) = ?d" if "child_dfs ops cs \<subseteq> {?d}"
      proof -
        have "insert ?d (child_dfs ops cs) = {?d}" using that by auto
        then show ?thesis by (simp only: the_elem_eq)
      qed
      ultimately show ?thesis using at False 1 [OF False, of cs] Cons.prems by (simp add: ins)
    qed
  qed (simp add: child_dfs_def)
qed

text \<open>
  \<open>pull_df_applies\<close>: a node can be pulled exactly when it has a data frame of its own other than
  the constants' frame 0 and its children that are not constants share one data frame, a
  different one; a child without any frame (\<open>NODE_NONE\<close>) counts as having the frame -1.
\<close>

theorem pull_df_applies_iff:
  assumes "n < length ops" and "n < length gm" and "\<And>c. c \<in> set (gm ! n) \<Longrightarrow> 0 \<le> c \<and> nat c < length ops"
  shows "pull_df_applies gm ops (int n) = Inr
    (op_df (ops ! n) \<noteq> 0 \<and> (\<exists>d. child_dfs ops (gm ! n) = {d} \<and> d \<noteq> op_df (ops ! n)))"
proof -
  have "\<forall>c \<in> set (gm ! n). 0 \<le> c \<and> nat c < length ops" using assms(3) by blast
  note common = children_common_df_eq(2) [OF this]
  have nz: "d \<noteq> 0" if "child_dfs ops (gm ! n) = {d}" for d using that by (auto simp: child_dfs_def)
  consider "child_dfs ops (gm ! n) = {}" | d where "child_dfs ops (gm ! n) = {d}"
    | "child_dfs ops (gm ! n) \<noteq> {}" "\<nexists>d. child_dfs ops (gm ! n) = {d}" by blast
  then show ?thesis
    by cases (use assms(1,2) common nz in \<open>simp_all add: pull_df_applies_def\<close>)
qed

theorem pull_df_applies_iff_witness:
  "pull_df_applies [[], [], [0, 1, 0]]
     [toy_op OP_COLUMN 0\<lparr>op_df := 7\<rparr>, toy_op OP_CONST 0\<lparr>op_df := 0\<rparr>, toy_op OP_ADD 0] (int 2) = Inr True"
  by (subst pull_df_applies_iff) (auto simp: child_dfs_def toy_op_def default_operation_def NODE_NONE_def numeral_eq_Suc)

end
