(* ===== verification/Decimal.thy ===== *)
theory Decimal
  imports Prelude
begin

text \<open>
  Decimal numbers as text: the digits that \<open>std::stoll\<close> and \<open>std::stoul\<close> read, \<open>std::to_string\<close>, and that
  what is printed is read back.
\<close>

definition code_of :: "char \<Rightarrow> nat" where
  "code_of c = of_char c"

definition digit_value :: "char \<Rightarrow> nat" where
  "digit_value c = code_of c - 48"

definition is_digit :: "char \<Rightarrow> bool" where
  "is_digit c \<longleftrightarrow> 48 \<le> code_of c \<and> code_of c \<le> 57"

definition decimal :: "string \<Rightarrow> nat" where
  "decimal s = fold (\<lambda>c n. n * 10 + digit_value c) s 0"

fun to_string :: "nat \<Rightarrow> string" where
  "to_string n = (if n < 10 then [char_of (48 + n)] else to_string (n div 10) @ [char_of (48 + n mod 10)])"

declare to_string.simps [simp del]

lemma code_of_char_of: "(n :: nat) < 256 \<Longrightarrow> code_of (char_of n) = n"
  by (simp add: code_of_def)

lemma is_digit_char: "(n :: nat) < 10 \<Longrightarrow> is_digit (char_of (48 + n))"
  by (simp add: is_digit_def code_of_char_of)

lemma to_string_digits: "list_all is_digit (to_string n)"
proof (induction n rule: to_string.induct)
  case (1 n)
  then show ?case by (subst to_string.simps) (simp add: is_digit_char)
qed

lemma decimal_to_string: "decimal (to_string n) = n"
proof (induction n rule: to_string.induct)
  case (1 n)
  have last: "digit_value (char_of (48 + n mod 10)) = n mod 10" by (simp add: digit_value_def code_of_char_of)
  show ?case
  proof (cases "n < 10")
    case True
    then show ?thesis by (subst to_string.simps) (simp add: decimal_def digit_value_def code_of_char_of)
  next
    case False
    then show ?thesis using 1 [OF False] last by (subst to_string.simps) (simp add: decimal_def)
  qed
qed

lemma to_string_nonempty: "to_string n \<noteq> []"
  by (subst to_string.simps) simp

lemma to_string_no_sign: "hd (to_string n) \<noteq> CHR ''-''"
proof
  assume "hd (to_string n) = CHR ''-''"
  moreover have "is_digit (hd (to_string n))"
    using to_string_digits to_string_nonempty by (metis hd_in_set list_all_iff)
  ultimately show False by (simp add: is_digit_def code_of_def)
qed

lemma takeWhile_to_string: "takeWhile is_digit (to_string n) = to_string n"
  using to_string_digits by (simp add: takeWhile_eq_all_conv list_all_iff)

end
