(* ===== verification/Sql_Text.thy ===== *)
theory Sql_Text
  imports Query_Graph Decimal
begin

text \<open>
  The text functions of the SQL front end (\<open>minion/planner/parse/parse_query.cc\<close>): unescaping
  of string literals, normalisation of operator tokens, the table of operators, lookup of
  identifiers, the line of an error message, and \<open>std::stoll\<close> on integer literals.
\<close>

subsection \<open>String literals\<close>

abbreviation quote :: char where "quote \<equiv> CHR 0x27"
abbreviation backslash :: char where "backslash \<equiv> CHR 0x5C"
abbreviation double_quote :: char where "double_quote \<equiv> CHR 0x22"

definition hex_value :: "char \<Rightarrow> nat option" where
  "hex_value c =
     (if c \<in> set ''0123456789'' then Some (code_of c - 48)
      else if c \<in> set ''abcdef'' then Some (code_of c - 87)
      else if c \<in> set ''ABCDEF'' then Some (code_of c - 55)
      else None)"

definition octal_value :: "char \<Rightarrow> nat option" where
  "octal_value c = (if c \<in> set ''01234567'' then Some (code_of c - 48) else None)"

text \<open>The run of at most \<open>n\<close> octal digits at the head, its value so far in \<open>acc\<close>.\<close>

fun read_octal :: "nat \<Rightarrow> nat \<Rightarrow> string \<Rightarrow> nat \<times> string" where
  "read_octal 0 acc s = (acc, s)"
| "read_octal (Suc n) acc [] = (acc, [])"
| "read_octal (Suc n) acc (c # s) =
     (case octal_value c of None \<Rightarrow> (acc, c # s) | Some d \<Rightarrow> read_octal n (acc * 8 + d) s)"

lemma read_octal_length: "length (snd (read_octal n acc s)) \<le> length s"
  by (induction n acc s rule: read_octal.induct) (auto split: option.split)

text \<open>The escapes of one character; an unknown one keeps the backslash.\<close>

definition simple_escape :: "char \<Rightarrow> string" where
  "simple_escape c =
     (if c = CHR ''n'' then [CHR 0x0A]
      else if c = CHR ''t'' then [CHR 0x09]
      else if c = CHR ''r'' then [CHR 0x0D]
      else if c = backslash then [backslash]
      else if c = quote then [quote]
      else if c = double_quote then [double_quote]
      else if c = CHR ''0'' then [CHR 0x00]
      else [backslash, c])"

definition hex_escape :: "string \<Rightarrow> (char \<times> string) option" where
  "hex_escape s =
     (case s of
        h1 # h2 # rest \<Rightarrow>
          (case (hex_value h1, hex_value h2) of
             (Some a, Some b) \<Rightarrow> Some (char_of (a * 16 + b), rest)
           | _ \<Rightarrow> None)
      | _ \<Rightarrow> None)"

lemma hex_escape_length: "hex_escape s = Some (c, rest) \<Longrightarrow> length rest < length s"
  by (auto simp: hex_escape_def split: list.splits option.splits)

lemma octal_rest: "octal_value c \<noteq> None \<Longrightarrow> length (snd (read_octal 3 0 (c # s))) \<le> length s"
  using read_octal_length [of 2 _ s] by (auto simp: numeral_eq_Suc)

function unescapeSqlString :: "string \<Rightarrow> string" where
  "unescapeSqlString [] = []"
| "unescapeSqlString [c] = [c]"
| "unescapeSqlString (c # next # rest) =
     (if c = quote \<and> next = quote then quote # unescapeSqlString rest
      else if c = backslash then
        (case (if next = CHR ''x'' \<or> next = CHR ''X'' then hex_escape rest else None) of
           Some (decoded, rest') \<Rightarrow> decoded # unescapeSqlString rest'
         | None \<Rightarrow>
             if octal_value next \<noteq> None
             then (let (v, rest') = read_octal 3 0 (next # rest)
                   in char_of v # unescapeSqlString rest')
             else simple_escape next @ unescapeSqlString rest)
      else c # unescapeSqlString (next # rest))"
  by pat_completeness auto

termination
  apply (relation "measure length")
        apply simp_all
  subgoal for c nxt rest by (metis less_Suc_eq_le octal_rest option.distinct(1) snd_conv le_imp_less_Suc less_SucI)
  subgoal by (fastforce split: if_splits dest: hex_escape_length)
  done

text \<open>How a text is written as a literal: the quote and the backslash are doubled.\<close>

fun escapeSqlString :: "string \<Rightarrow> string" where
  "escapeSqlString [] = []"
| "escapeSqlString (c # s) = (if c = quote \<or> c = backslash then [c, c] else [c]) @ escapeSqlString s"

lemma unescape_plain: "c \<noteq> quote \<Longrightarrow> c \<noteq> backslash \<Longrightarrow> unescapeSqlString (c # s) = c # unescapeSqlString s"
  by (cases s) simp_all

text \<open>
  Unescaping undoes escaping: any text, written with its quotes and backslashes doubled,
  is read back as it was, and a text without these two characters is read as it stands.
\<close>

theorem unescape_escape:
  "unescapeSqlString (escapeSqlString s) = s \<and>
   ({quote, backslash} \<inter> set s = {} \<longrightarrow> unescapeSqlString s = s)"
proof
  show "unescapeSqlString (escapeSqlString s) = s"
  proof (induction s)
    case (Cons c s)
    consider "c = quote" | "c = backslash" | "c \<noteq> quote" "c \<noteq> backslash" by blast
    then show ?case
      by cases (simp_all add: Cons unescape_plain octal_value_def simple_escape_def)
  qed simp
  show "{quote, backslash} \<inter> set s = {} \<longrightarrow> unescapeSqlString s = s"
    by (induction s) (simp_all add: unescape_plain)
qed

theorem unescape_escape_witness: "unescapeSqlString ''plain text'' = ''plain text''"
  using unescape_escape [of "''plain text''"] by simp

lemma simple_escape_length: "length (simple_escape c) \<le> 2"
  by (simp add: simple_escape_def)

text \<open>
  A literal never grows: every escape stands for no more characters than it is written with,
  so the \<open>reserve\<close> of the input's length is enough.
\<close>

theorem unescape_length: "length (unescapeSqlString s) \<le> length s"
proof (induction s rule: unescapeSqlString.induct)
  case (3 c nxt rest)
  show ?case
  proof (cases "c = backslash")
    case False
    then show ?thesis using 3(1,5) by auto
  next
    case bs: True
    let ?h = "if nxt = CHR ''x'' \<or> nxt = CHR ''X'' then hex_escape rest else None"
    show ?thesis
    proof (cases ?h)
      case (Some p)
      obtain d rest' where p: "p = (d, rest')" by fastforce
      have "length rest' < length rest" using Some p hex_escape_length by (auto split: if_splits)
      then show ?thesis using 3(4) [OF _ bs Some p [symmetric]] bs Some p by auto
    next
      case None
      show ?thesis
      proof (cases "octal_value nxt = None")
        case True
        then show ?thesis using 3(3) [OF _ bs None] bs None simple_escape_length [of nxt] by auto
      next
        case False
        obtain v rest' where r: "read_octal 3 0 (nxt # rest) = (v, rest')" by fastforce
        have "length rest' \<le> length rest" using octal_rest [OF False, of rest] r by simp
        then show ?thesis using 3(2) [OF _ bs None False refl r [symmetric]] bs None False r by auto
      qed
    qed
  qed
qed simp_all


subsection \<open>Operators and identifiers\<close>

definition toupper :: "char \<Rightarrow> char" where
  "toupper c = (if 97 \<le> code_of c \<and> code_of c \<le> 122 then char_of (code_of c - 32) else c)"

definition normalizeOp :: "string \<Rightarrow> string" where
  "normalizeOp op = map toupper (filter (\<lambda>c. c \<noteq> CHR '' '') op)"

definition opMap :: "string \<rightharpoonup> column_operation" where
  "opMap = map_of [
     (''+'', OP_ADD), (''-'', OP_SUB), (''*'', OP_MUL), (''/'', OP_DIV),
     (''|'', OP_OR), (''||'', OP_OR), (''OR'', OP_OR),
     (''&'', OP_AND), (''&&'', OP_AND), (''AND'', OP_AND),
     (''^'', OP_XOR), (''XOR'', OP_XOR),
     (''~'', OP_NOT), (''!'', OP_NOT), (''NOT'', OP_NOT),
     (''!='', OP_NEQ), (''<>'', OP_NEQ), (''<='', OP_LTE), (''>='', OP_GTE), (''<'', OP_LT), (''>'', OP_GT),
     (''='', OP_EQ), (''=='', OP_EQ),
     (''IN'', OP_IN), (''NOTIN'', OP_NOT_IN), (''LIKE'', OP_LIKE), (''NOTLIKE'', OP_NOT_LIKE),
     (''ILIKE'', OP_ILIKE), (''NOTILIKE'', OP_NOT_ILIKE),
     (''ISNULL'', OP_IS_NULL), (''ISNOTNULL'', OP_IS_NOT_NULL),
     (''NULL'', OP_NULL), (''TRUE'', OP_TRUE), (''FALSE'', OP_FALSE)]"

lemma opMap_not_const: "opMap s = Some op \<Longrightarrow> op \<noteq> OP_CONST \<and> \<not> isTableOperation op"
  unfolding opMap_def by (drule map_of_SomeD) (auto simp: isTableOperation_def)

fun findIdent :: "string \<Rightarrow> ident_map list \<Rightarrow> node" where
  "findIdent ident [] = NODE_NONE"
| "findIdent ident (m # ms) = (case map_of m ident of Some n \<Rightarrow> n | None \<Rightarrow> findIdent ident ms)"

subsection \<open>Lines of an error message\<close>

text \<open>
  \<open>std::getline\<close> on a string stream: the characters up to the next newline, which is dropped;
  it fails when nothing is left.
\<close>

definition getline :: "string \<Rightarrow> (string \<times> string) option" where
  "getline s = (if s = [] then None
     else Some (takeWhile (\<lambda>c. c \<noteq> CHR 0x0A) s, drop 1 (dropWhile (\<lambda>c. c \<noteq> CHR 0x0A) s)))"

fun get_line_loop :: "nat \<Rightarrow> string \<Rightarrow> string \<Rightarrow> string" where
  "get_line_loop 0 line stream = line"
| "get_line_loop (Suc i) line stream =
     (case getline stream of
        None \<Rightarrow> ''<Line out of bounds>''
      | Some (line', rest) \<Rightarrow> get_line_loop i line' rest)"

definition getLineFromString :: "string \<Rightarrow> nat \<Rightarrow> string" where
  "getLineFromString sql line_number = get_line_loop line_number [] sql"

definition join_lines :: "string list \<Rightarrow> string" where
  "join_lines ls = concat (map (\<lambda>l. l @ [CHR 0x0A]) ls)"

lemma getline_line: "CHR 0x0A \<notin> set l \<Longrightarrow> getline (l @ CHR 0x0A # rest) = Some (l, rest)"
  by (induction l) (auto simp: getline_def)

lemma get_line_loop_join:
  "\<forall>l \<in> set ls. CHR 0x0A \<notin> set l \<Longrightarrow>
   get_line_loop (Suc i) line (join_lines ls) = (if i < length ls then ls ! i else ''<Line out of bounds>'')"
proof (induction ls arbitrary: i line)
  case Nil
  then show ?case by (simp add: join_lines_def getline_def)
next
  case (Cons l ls)
  have "join_lines (l # ls) = l @ CHR 0x0A # join_lines ls" by (simp add: join_lines_def)
  then have "get_line_loop (Suc i) line (join_lines (l # ls)) = get_line_loop i l (join_lines ls)"
    using getline_line [of l "join_lines ls"] Cons.prems by simp
  then show ?case using Cons by (cases i) simp_all
qed

text \<open>
  The line shown with an error is the line of the query it is reported for: line numbers
  count from 1, and a number beyond the last line gives the out-of-bounds text.
\<close>

theorem getLineFromString_nth:
  assumes "\<forall>l \<in> set ls. CHR 0x0A \<notin> set l"
  shows "getLineFromString (join_lines ls) (Suc i) = (if i < length ls then ls ! i else ''<Line out of bounds>'')"
  unfolding getLineFromString_def by (rule get_line_loop_join [OF assms])

theorem getLineFromString_nth_witness:
  "getLineFromString (join_lines [''SELECT a'', ''FROM t'']) 2 = ''FROM t''"
  using getLineFromString_nth [of "[''SELECT a'', ''FROM t'']" 1] by (simp add: numeral_2_eq_2)

subsection \<open>Integer literals\<close>

text \<open>\<open>std::stoll\<close> in base ten: an optional sign, then the longest run of digits.\<close>

definition stoll :: "string \<Rightarrow> 64 word result" where
  "stoll s =
     (let neg = (s \<noteq> [] \<and> hd s = CHR ''-'');
          ds = takeWhile is_digit (if neg then tl s else s);
          x = (if neg then - int (decimal ds) else int (decimal ds))
      in if ds = [] then Inl (InvalidArgument ''stoll'')
         else if - (2 ^ 63) \<le> x \<and> x < 2 ^ 63 then Inr (word_of_int x)
         else Inl OutOfRange)"

definition int_literal :: "int \<Rightarrow> string" where
  "int_literal i = (if i < 0 then CHR ''-'' # to_string (nat (- i)) else to_string (nat i))"

text \<open>
  The decimal text of an integer is read as that integer exactly when it fits in 64 bits,
  with its sign; one that does not fit throws.
\<close>

theorem stoll_int_literal:
  "stoll (int_literal i) = (if - (2 ^ 63) \<le> i \<and> i < 2 ^ 63 then Inr (word_of_int i) else Inl OutOfRange)"
proof (cases "i < 0")
  case True
  then show ?thesis
    by (simp add: stoll_def int_literal_def takeWhile_to_string decimal_to_string to_string_nonempty)
next
  case False
  then show ?thesis
    by (simp add: stoll_def int_literal_def takeWhile_to_string decimal_to_string to_string_nonempty to_string_no_sign)
qed

subsection \<open>The printed error\<close>

record sql_error =
  se_message :: string
  se_line :: nat
  se_column :: nat
  se_length :: nat

text \<open>What \<open>printSqlError\<close> writes to the standard error stream.\<close>

definition printSqlError :: "string \<Rightarrow> sql_error \<Rightarrow> string" where
  "printSqlError raw_sql e =
     (let nl = [CHR 0x0A];
          rule = ''========================================='';
          offending_line = getLineFromString raw_sql (se_line e);
          prefix = ''LINE '' @ to_string (se_line e) @ '': ''
      in nl @ rule @ nl
         @ ''             SQL PARSE ERROR               '' @ nl
         @ rule @ nl
         @ ''ERROR: '' @ se_message e @ nl @ nl
         @ prefix @ offending_line @ nl
         @ replicate (length prefix + se_column e) (CHR '' '')
         @ replicate (se_length e) (CHR ''^'')
         @ nl @ rule @ nl @ nl)"

end
