(* ===== verification/Sql_Visitor.thy ===== *)
theory Sql_Visitor
  imports Sql_Text Query_Algorithms
begin

text \<open>
  The compiler from parse trees to the query graph (\<open>SqlVisitor\<close> in
  \<open>minion/planner/parse/parse_query.cc\<close>). The data types are the contexts that the visitor
  reads, one constructor per labelled alternative of \<open>sql.g4\<close>, with the texts of their
  tokens; an alternative with one child and no visit function of its own is its child. A visit
  function is an action on the state of the visitor that returns a \<open>std::any\<close> (\<open>None\<close> when
  it is empty) or throws, and the state that it leaves stays when it throws.

  The default \<open>visitChildren\<close> of the parser runtime is a parameter, with the documented law
  \<open>visits_in_order\<close>, and so is the conversion \<open>stod\<close> of a decimal text to a double.
\<close>

subsection \<open>Parse trees\<close>

datatype literal = StringLit string | IntLit string | FloatLit string | NullLit | TrueLit | FalseLit

datatype 'e select_element = GlobalStar | TableStar string | ElementExpr 'e "string option"

datatype 'q relation = NamedRelation string "string option" | QueryRelation 'q "string option"

datatype ('e, 'q) join_clause = JoinClause (join_type: "string option") (join_relation: "'q relation") (join_on: 'e)

datatype ('e, 'q) select_statement =
  SelectStatement
    (select_elements: "'e select_element list")
    (select_from: "('q relation \<times> ('e, 'q) join_clause list) option")
    (select_where: "'e option")
    (group_by_exprs: "'e list")
    (sort_items: "('e \<times> bool) list")
    (limit_expr: "'e option")
    (offset_expr: "'e option")

datatype ('e, 'q) array_expression = ArrayQuery 'q | ArrayItems "'e list"

datatype sql_expr =
    LiteralExpr literal
  | ParenthesizedExpr sql_expr
  | SubqueryExpr query_expression
  | FunctionExpr string "sql_expr option"
  | ColumnExpr "string option" string
  | CastExpr sql_expr string
  | MulDivExpr string sql_expr sql_expr
  | AddSubExpr string sql_expr sql_expr
  | ComparisonExpr sql_expr "(string \<times> sql_expr) list"
  | IsNullExpr sql_expr string
  | InExpr sql_expr "string list" "(sql_expr, query_expression) array_expression"
  | LikeExpr string sql_expr sql_expr
  | BetweenExpr bool sql_expr sql_expr sql_expr
  | NotExpr string sql_expr
  | AndExpr sql_expr "sql_expr list"
  | XorExpr sql_expr "sql_expr list"
  | OrExpr sql_expr "sql_expr list"
and query_expression = QueryExpression "(sql_expr, query_expression) select_statement list"

datatype statement = SelectStmt query_expression | UpdateStmt | DeleteStmt

datatype query = Query (query_ctes: "(string \<times> query_expression) list") (query_statement: statement)

subsection \<open>The visitor\<close>

record table_schema =
  ts_name :: string
  ts_columns :: "(string \<times> value_type) list"

record sql_visitor =
  out_graph :: query_graph
  fileTableContext :: ident_map
  withTableContext :: ident_map
  exprTableContext :: ident_map
  exprVarContext :: ident_map
  db_schema :: "table_schema list"

definition sql_visitor_new :: sql_visitor where
  "sql_visitor_new = \<lparr>out_graph = query_graph_new, fileTableContext = [], withTableContext = [],
     exprTableContext = [], exprVarContext = [], db_schema = []\<rparr>"

type_synonym 'a action = "sql_visitor \<Rightarrow> 'a result \<times> sql_visitor"
type_synonym any_action = "node option action"

definition act_return :: "'a \<Rightarrow> 'a action" where
  "act_return x s = (Inr x, s)"

definition act_throw :: "exn \<Rightarrow> 'a action" where
  "act_throw e s = (Inl e, s)"

definition act_bind :: "'a action \<Rightarrow> ('a \<Rightarrow> 'b action) \<Rightarrow> 'b action" where
  "act_bind m f s = (case m s of (Inl e, s') \<Rightarrow> (Inl e, s') | (Inr x, s') \<Rightarrow> f x s')"

text \<open>Reading the graph, and appending to it.\<close>

definition act_read :: "(sql_visitor \<Rightarrow> 'a result) \<Rightarrow> 'a action" where
  "act_read f s = (f s, s)"

definition act_append :: "(query_graph \<Rightarrow> node \<times> query_graph) \<Rightarrow> node action" where
  "act_append f s = (let (n, g) = f (out_graph s) in (Inr n, s\<lparr>out_graph := g\<rparr>))"

definition act_update :: "(sql_visitor \<Rightarrow> sql_visitor result) \<Rightarrow> unit action" where
  "act_update f s = (case f s of Inl e \<Rightarrow> (Inl e, s) | Inr s' \<Rightarrow> (Inr (), s'))"

fun act_map :: "'a action list \<Rightarrow> 'a list action" where
  "act_map [] = act_return []"
| "act_map (m # ms) = act_bind m (\<lambda>x. act_bind (act_map ms) (\<lambda>xs. act_return (x # xs)))"

text \<open>A \<open>node_t\<close> in the \<open>std::any\<close> that a visit function returns, and taking it out again.\<close>

definition act_node :: "node action \<Rightarrow> any_action" where
  "act_node m = act_bind m (\<lambda>n. act_return (Some n))"

definition visitNode :: "any_action \<Rightarrow> node action" where
  "visitNode m = act_bind m (\<lambda>r. case r of None \<Rightarrow> act_throw BadAnyCast | Some n \<Rightarrow> act_return n)"

definition visit_terminal :: any_action where
  "visit_terminal = act_return None"

record sql_runtime =
  visitChildren :: "any_action list \<Rightarrow> any_action"
  stod :: "string \<Rightarrow> 64 word result"

text \<open>
  The documented default of the runtime: the children in order, an exception ends the visit,
  and the result is that of the last child (an empty one without children).
\<close>

definition visits_in_order :: "sql_runtime \<Rightarrow> bool" where
  "visits_in_order rt \<longleftrightarrow>
     visitChildren rt [] = act_return None
   \<and> (\<forall>m. visitChildren rt [m] = m)
   \<and> (\<forall>m ms. ms \<noteq> [] \<longrightarrow> visitChildren rt (m # ms) = act_bind m (\<lambda>_. visitChildren rt ms))"

definition visit_tokens :: "sql_runtime \<Rightarrow> nat \<Rightarrow> any_action" where
  "visit_tokens rt n = visitChildren rt (replicate n visit_terminal)"

subsection \<open>Tables and operations\<close>

fun append_columns :: "(string \<times> value_type) list \<Rightarrow> node list action" where
  "append_columns [] = act_return []"
| "append_columns ((name, ty) # cols) =
     act_bind (act_append (appendColumn name ty)) (\<lambda>n.
     act_bind (append_columns cols) (\<lambda>ns. act_return (n # ns)))"

definition insertTableColumnNodes :: "table_schema \<Rightarrow> node action" where
  "insertTableColumnNodes schema =
     act_bind (append_columns (ts_columns schema)) (\<lambda>col_node_ids.
     act_append (appendTable (ts_name schema) col_node_ids))"

definition findOrInsertTable :: "string \<Rightarrow> node action" where
  "findOrInsertTable name s =
     (let table_node_id = findIdent name [fileTableContext s, withTableContext s] in
      if table_node_id \<noteq> NODE_NONE
      then (case at (qg_operations (out_graph s)) table_node_id of
              Inl e \<Rightarrow> (Inl e, s)
            | Inr op \<Rightarrow>
                if \<not> isTableOperation (op_op op)
                then (Inl (CompileError (''Invalid table name: '' @ name)), s)
                else (Inr table_node_id, s))
      else (case find (\<lambda>schema. ts_name schema = name) (db_schema s) of
              Some schema \<Rightarrow>
                act_bind (insertTableColumnNodes schema) (\<lambda>n.
                act_bind (act_update (\<lambda>s. Inr (s\<lparr>fileTableContext := ident_assign name n (fileTableContext s)\<rparr>))) (\<lambda>_.
                act_return n)) s
            | None \<Rightarrow> (Inl (CompileError (''Unknown table name: '' @ name)), s)))"

definition appendOperation :: "string \<Rightarrow> node list \<Rightarrow> node action" where
  "appendOperation text nodeArgs =
     (case opMap (normalizeOp text) of
        None \<Rightarrow> act_throw (CompileError (''Unknown operator: '' @ text))
      | Some op_value \<Rightarrow> act_append (appendNode NODE_NONE op_value Ty_Any nodeArgs))"

definition append_any :: "column_operation \<Rightarrow> node list \<Rightarrow> node action" where
  "append_any op args = act_append (appendNode NODE_NONE op Ty_Any args)"

definition act_setNodeName :: "node \<Rightarrow> string \<Rightarrow> unit action" where
  "act_setNodeName n name =
     act_update (\<lambda>s. bind_result (setNodeName n name (out_graph s)) (\<lambda>g. Inr (s\<lparr>out_graph := g\<rparr>)))"

definition act_getNodeName :: "node \<Rightarrow> string action" where
  "act_getNodeName n = act_read (\<lambda>s. getNodeName (out_graph s) n)"

subsection \<open>Expressions\<close>

text \<open>The text of a literal is that of the context, with the sign in front of the digits.\<close>

primrec literal_tokens :: "literal \<Rightarrow> nat" where
  "literal_tokens (StringLit text) = 1"
| "literal_tokens (IntLit text) = (if take 1 text = ''-'' then 2 else 1)"
| "literal_tokens (FloatLit text) = (if take 1 text = ''-'' then 2 else 1)"
| "literal_tokens NullLit = 1"
| "literal_tokens TrueLit = 1"
| "literal_tokens FalseLit = 1"

definition append_literal :: "sql_runtime \<Rightarrow> literal \<Rightarrow> node action" where
  "append_literal rt l = (case l of
      StringLit text \<Rightarrow> act_append (appendStringConstant (unescapeSqlString (take (length text - 2) (drop 1 text))))
    | IntLit text \<Rightarrow> act_bind (act_read (\<lambda>_. stoll text)) (\<lambda>num. act_append (appendInt64Constant num))
    | FloatLit text \<Rightarrow> act_bind (act_read (\<lambda>_. stod rt text)) (\<lambda>num. act_append (appendFloat64Constant num))
    | NullLit \<Rightarrow> act_append (appendNode 0 OP_NULL Ty_Any [])
    | TrueLit \<Rightarrow> act_append (appendNode 0 OP_TRUE Ty_Bool [])
    | FalseLit \<Rightarrow> act_append (appendNode 0 OP_FALSE Ty_Bool []))"

definition visitLiteralExpr :: "sql_runtime \<Rightarrow> literal \<Rightarrow> any_action" where
  "visitLiteralExpr rt l = act_bind (visit_tokens rt (literal_tokens l)) (\<lambda>_. act_node (append_literal rt l))"

definition visitParenthesizedExpr :: "any_action \<Rightarrow> any_action" where
  "visitParenthesizedExpr inside = act_node (visitNode inside)"

definition visit_identifier :: "sql_runtime \<Rightarrow> any_action" where
  "visit_identifier rt = visit_tokens rt 1"

definition visitColumnExpr :: "sql_runtime \<Rightarrow> string option \<Rightarrow> string \<Rightarrow> any_action" where
  "visitColumnExpr rt tableName columnName =
     (let var_name = (case tableName of None \<Rightarrow> columnName | Some t \<Rightarrow> t @ ''.'' @ columnName) in
      act_bind (visitChildren rt (case tableName of None \<Rightarrow> [visit_identifier rt]
          | Some _ \<Rightarrow> [visit_identifier rt, visit_terminal, visit_identifier rt])) (\<lambda>_.
      act_bind (act_read (\<lambda>s. Inr (findIdent var_name [exprVarContext s]))) (\<lambda>node_id.
      if node_id = NODE_NONE then act_throw (CompileError (''Unknown identifier: '' @ var_name))
      else act_return (Some node_id))))"

text \<open>The three binary forms share the shape: both sides are visited, then the operator is looked up.\<close>

definition visit_binary :: "string \<Rightarrow> any_action \<Rightarrow> any_action \<Rightarrow> any_action" where
  "visit_binary op left right =
     act_node (act_bind (visitNode left) (\<lambda>l. act_bind (visitNode right) (\<lambda>r. appendOperation op [l, r])))"

definition visitIsNullExpr :: "any_action \<Rightarrow> string \<Rightarrow> any_action" where
  "visitIsNullExpr left op = act_node (appendOperation op [])"

definition visitNotExpr :: "string \<Rightarrow> any_action \<Rightarrow> any_action" where
  "visitNotExpr op exprNot = act_node (act_bind (visitNode exprNot) (\<lambda>n. appendOperation op [n]))"

definition visitBetweenExpr :: "bool \<Rightarrow> any_action \<Rightarrow> any_action \<Rightarrow> any_action \<Rightarrow> any_action" where
  "visitBetweenExpr notOp left lower upper = act_node (
     act_bind (visitNode lower) (\<lambda>lower_node_id.
     act_bind (visitNode left) (\<lambda>middle_node_id.
     act_bind (visitNode upper) (\<lambda>upper_node_id.
     act_bind (append_any OP_LTE [lower_node_id, middle_node_id]) (\<lambda>cmp1_id.
     act_bind (append_any OP_LTE [middle_node_id, upper_node_id]) (\<lambda>cmp2_id.
     append_any (if notOp then OP_NAND else OP_AND) [cmp1_id, cmp2_id]))))))"

fun comparison_loop :: "node \<Rightarrow> (string \<times> any_action) list \<Rightarrow> node list action" where
  "comparison_loop left_node_id [] = act_return []"
| "comparison_loop left_node_id ((op, right) # rest) =
     act_bind (visitNode right) (\<lambda>right_node_id.
     act_bind (case opMap op of None \<Rightarrow> act_throw OutOfRange
               | Some opValue \<Rightarrow> append_any opValue [left_node_id, right_node_id]) (\<lambda>cmp_id.
     act_bind (comparison_loop right_node_id rest) (\<lambda>cmp_ids. act_return (cmp_id # cmp_ids))))"

definition visitComparisonExpr :: "any_action \<Rightarrow> (string \<times> any_action) list \<Rightarrow> any_action" where
  "visitComparisonExpr left rights = act_node (
     act_bind (visitNode left) (\<lambda>left_node_id.
     act_bind (comparison_loop left_node_id rights) (\<lambda>cmp_node_ids.
     if 2 \<le> length cmp_node_ids then append_any OP_AND cmp_node_ids
     else act_read (\<lambda>_. at cmp_node_ids 0))))"

text \<open>\<open>visitAndExpr\<close>, \<open>visitXorExpr\<close> and \<open>visitOrExpr\<close> differ in the operation alone.\<close>

definition visit_logic :: "column_operation \<Rightarrow> any_action \<Rightarrow> any_action list \<Rightarrow> any_action" where
  "visit_logic op firstArg args = act_node (
     act_bind (visitNode firstArg) (\<lambda>first_id.
     act_bind (act_map (map visitNode args)) (\<lambda>ids.
     if ids = [] then act_return first_id else append_any op (first_id # ids))))"

definition visit_array :: "sql_runtime \<Rightarrow> (any_action, any_action) array_expression \<Rightarrow> any_action" where
  "visit_array rt a = visitChildren rt (case a of
      ArrayQuery q \<Rightarrow> [visit_terminal, q, visit_terminal]
    | ArrayItems es \<Rightarrow> visit_terminal # concat (map (\<lambda>e. [e, visit_terminal]) es))"

subsection \<open>Queries\<close>

definition visitRelation :: "any_action relation \<Rightarrow> any_action" where
  "visitRelation r = (case r of
      NamedRelation name alias \<Rightarrow> act_node (
        act_bind (findOrInsertTable name) (\<lambda>table_node_id.
        act_bind (act_getNodeName table_node_id) (\<lambda>expr_name.
        act_bind (if expr_name = [] \<and> alias \<noteq> None \<and> the alias \<noteq> []
          then act_setNodeName table_node_id (the alias) else act_return ()) (\<lambda>_.
        act_return table_node_id))))
    | QueryRelation q alias \<Rightarrow> act_node (
        act_bind (visitNode q) (\<lambda>table_node_id.
        act_bind (act_getNodeName table_node_id) (\<lambda>expr_name.
        act_bind (if expr_name = [] \<and> alias \<noteq> None \<and> the alias \<noteq> []
          then act_setNodeName table_node_id (the alias) else act_return ()) (\<lambda>_.
        act_return table_node_id)))))"

primrec relation_alias :: "'q relation \<Rightarrow> string option" where
  "relation_alias (NamedRelation name alias) = alias"
| "relation_alias (QueryRelation q alias) = alias"

text \<open>The names of a table that was just visited enter the contexts of the statement.\<close>

definition enter_table :: "'q relation \<Rightarrow> node \<Rightarrow> unit action" where
  "enter_table r table_node_id =
     act_bind (case relation_alias r of Some a \<Rightarrow> act_return a | None \<Rightarrow> act_getNodeName table_node_id) (\<lambda>table_alias.
     act_bind (act_update (\<lambda>s. bind_result (loadTableNames (out_graph s) table_node_id table_alias (exprVarContext s)) (\<lambda>ctx.
       Inr (s\<lparr>exprVarContext := ctx\<rparr>)))) (\<lambda>_.
     if table_alias \<noteq> []
     then act_update (\<lambda>s. Inr (s\<lparr>exprTableContext := ident_assign table_alias table_node_id (exprTableContext s)\<rparr>))
     else act_return ()))"

fun visit_joins :: "(any_action, any_action) join_clause list \<Rightarrow> (node list \<times> node list) action" where
  "visit_joins [] = act_return ([], [])"
| "visit_joins (j # js) =
     act_bind (visitRelation (join_relation j)) (\<lambda>_.
     act_bind (visitNode (visitRelation (join_relation j))) (\<lambda>table_node_id.
     act_bind (enter_table (join_relation j) table_node_id) (\<lambda>_.
     act_bind (visitNode (join_on j)) (\<lambda>filter_id.
     act_bind (visit_joins js) (\<lambda>(tables, filters).
     act_return (table_node_id # tables, filter_id # filters))))))"

definition visit_from :: "(any_action relation \<times> (any_action, any_action) join_clause list) option \<Rightarrow> (node list \<times> node list) action" where
  "visit_from fr = (case fr of
      None \<Rightarrow> act_return ([], [])
    | Some (baseTable, joins) \<Rightarrow>
        act_bind (visitNode (visitRelation baseTable)) (\<lambda>table_node_id.
        act_bind (enter_table baseTable table_node_id) (\<lambda>_.
        act_bind (visit_joins joins) (\<lambda>(tables, filters).
        act_return (table_node_id # tables, filters)))))"

definition visit_element :: "any_action select_element \<Rightarrow> node list action" where
  "visit_element el = (case el of
      GlobalStar \<Rightarrow> act_read (\<lambda>s. Inr (map snd (filter (\<lambda>(name, n). CHR ''.'' \<notin> set name) (exprVarContext s))))
    | TableStar t \<Rightarrow> act_return []
    | ElementExpr e alias \<Rightarrow>
        act_bind (visitNode e) (\<lambda>n.
        act_bind (case alias of None \<Rightarrow> act_return () | Some a \<Rightarrow> act_setNodeName n a) (\<lambda>_.
        act_return [n])))"

definition visit_sort_item :: "any_action \<times> bool \<Rightarrow> node action" where
  "visit_sort_item item =
     act_bind (visitNode (fst item)) (\<lambda>n. if snd item then append_any OP_DESC [n] else act_return n)"

definition visit_optional :: "any_action option \<Rightarrow> node action" where
  "visit_optional e = (case e of None \<Rightarrow> act_return NODE_NONE | Some m \<Rightarrow> visitNode m)"

text \<open>The nodes of the statement, from the node of its data frame up.\<close>

definition append_filter :: "node list \<Rightarrow> node \<Rightarrow> node action" where
  "append_filter filters df_node_id =
     (if filters = [] then act_return df_node_id
      else act_bind (if 2 \<le> length filters then append_any OP_AND filters else act_return (hd filters)) (\<lambda>filter_node_id.
           append_any OP_FILTER [df_node_id, filter_node_id]))"

definition append_with :: "column_operation \<Rightarrow> node list \<Rightarrow> node \<Rightarrow> node action" where
  "append_with op ids df_node_id =
     (if ids = [] then act_return df_node_id else append_any op (df_node_id # ids))"

definition append_range :: "node \<Rightarrow> node \<Rightarrow> node \<Rightarrow> node action" where
  "append_range offset_node_id limit_node_id df_node_id =
     (if limit_node_id \<noteq> NODE_NONE \<or> offset_node_id \<noteq> NODE_NONE then
        act_bind (if offset_node_id = NODE_NONE then act_append (appendInt64Constant 0) else act_return offset_node_id) (\<lambda>offset.
        act_bind (if limit_node_id \<noteq> NODE_NONE
          then act_append (appendNode NODE_NONE OP_ADD Ty_Int64 [offset, limit_node_id])
          else act_return limit_node_id) (\<lambda>limit.
        append_any OP_RANGE [df_node_id, offset, limit]))
      else act_return df_node_id)"

definition select_body :: "(any_action, any_action) select_statement \<Rightarrow> node action" where
  "select_body st =
     act_bind (visit_from (select_from st)) (\<lambda>(table_node_ids, join_filters).
     act_bind (act_map (map visit_element (select_elements st))) (\<lambda>columns.
     act_bind (case select_where st of None \<Rightarrow> act_return [] | Some e \<Rightarrow> act_map [visitNode e]) (\<lambda>where_filters.
     act_bind (act_map (map visitNode (group_by_exprs st))) (\<lambda>group_node_ids.
     act_bind (act_map (map visit_sort_item (sort_items st))) (\<lambda>order_node_ids.
     act_bind (visit_optional (offset_expr st)) (\<lambda>offset_node_id.
     act_bind (visit_optional (limit_expr st)) (\<lambda>limit_node_id.
     act_bind (append_any OP_DF (table_node_ids @ concat columns)) (\<lambda>df0.
     act_bind (append_filter (join_filters @ where_filters) df0) (\<lambda>df1.
     act_bind (append_with OP_GROUP group_node_ids df1) (\<lambda>df2.
     act_bind (append_with OP_SORT order_node_ids df2) (\<lambda>df3.
     append_range offset_node_id limit_node_id df3)))))))))))"

text \<open>
  Both exits assign to \<open>exprVarContext\<close> twice, so it ends as it was, while
  \<open>exprTableContext\<close> keeps what the statement put there.
\<close>

definition visitSelectStatement :: "(any_action, any_action) select_statement \<Rightarrow> any_action" where
  "visitSelectStatement st s =
     (let exprVarContextOld = exprVarContext s;
          (r, s') = act_node (select_body st) (s\<lparr>exprTableContext := [], exprVarContext := []\<rparr>)
      in (r, s'\<lparr>exprVarContext := exprVarContextOld\<rparr>))"

definition visitQueryExpression :: "any_action list \<Rightarrow> any_action" where
  "visitQueryExpression selects = act_node (
     act_bind (act_map (map visitNode selects)) (\<lambda>select_node_ids.
     if length select_node_ids = 1 then act_return (hd select_node_ids)
     else append_any OP_UNION select_node_ids))"

primrec visit_expr :: "sql_runtime \<Rightarrow> sql_expr \<Rightarrow> any_action"
  and visit_query_expression :: "sql_runtime \<Rightarrow> query_expression \<Rightarrow> any_action" where
  "visit_expr rt (LiteralExpr l) = visitLiteralExpr rt l"
| "visit_expr rt (ParenthesizedExpr e) = visitParenthesizedExpr (visit_expr rt e)"
| "visit_expr rt (SubqueryExpr q) = visitChildren rt [visit_terminal, visit_query_expression rt q, visit_terminal]"
| "visit_expr rt (FunctionExpr f arg) =
     visitChildren rt [visit_terminal, visit_terminal,
       (case map_option (visit_expr rt) arg of None \<Rightarrow> visit_terminal | Some m \<Rightarrow> m), visit_terminal]"
| "visit_expr rt (ColumnExpr t c) = visitColumnExpr rt t c"
| "visit_expr rt (CastExpr e ty) = visitChildren rt [visit_expr rt e, visit_terminal, visit_tokens rt 1]"
| "visit_expr rt (MulDivExpr op l r) = visit_binary op (visit_expr rt l) (visit_expr rt r)"
| "visit_expr rt (AddSubExpr op l r) = visit_binary op (visit_expr rt l) (visit_expr rt r)"
| "visit_expr rt (ComparisonExpr l rs) = visitComparisonExpr (visit_expr rt l) (map (map_prod id (visit_expr rt)) rs)"
| "visit_expr rt (IsNullExpr l op) = visitIsNullExpr (visit_expr rt l) op"
| "visit_expr rt (InExpr l op a) =
     visitChildren rt [visit_expr rt l, visit_tokens rt (length op),
       visit_array rt (map_array_expression (visit_expr rt) (visit_query_expression rt) a)]"
| "visit_expr rt (LikeExpr op l r) = visit_binary op (visit_expr rt l) (visit_expr rt r)"
| "visit_expr rt (BetweenExpr n l lo up) = visitBetweenExpr n (visit_expr rt l) (visit_expr rt lo) (visit_expr rt up)"
| "visit_expr rt (NotExpr op e) = visitNotExpr op (visit_expr rt e)"
| "visit_expr rt (AndExpr e es) = visit_logic OP_AND (visit_expr rt e) (map (visit_expr rt) es)"
| "visit_expr rt (XorExpr e es) = visit_logic OP_XOR (visit_expr rt e) (map (visit_expr rt) es)"
| "visit_expr rt (OrExpr e es) = visit_logic OP_OR (visit_expr rt e) (map (visit_expr rt) es)"
| "visit_query_expression rt (QueryExpression sts) =
     visitQueryExpression (map visitSelectStatement (map (map_select_statement (visit_expr rt) (visit_query_expression rt)) sts))"

subsection \<open>Whole queries\<close>

definition visitUpdateStatement :: any_action where
  "visitUpdateStatement = act_throw (CompileError ''Update unimplemented'')"

definition visitDeleteStatement :: any_action where
  "visitDeleteStatement = act_throw (CompileError ''Delete unimplemented'')"

definition visit_statement :: "sql_runtime \<Rightarrow> statement \<Rightarrow> any_action" where
  "visit_statement rt st = (case st of
      SelectStmt q \<Rightarrow> visit_query_expression rt q
    | UpdateStmt \<Rightarrow> visitUpdateStatement
    | DeleteStmt \<Rightarrow> visitDeleteStatement)"

fun visit_ctes :: "sql_runtime \<Rightarrow> (string \<times> query_expression) list \<Rightarrow> unit action" where
  "visit_ctes rt [] = act_return ()"
| "visit_ctes rt ((alias, q) # ctes) =
     act_bind (visitNode (visit_query_expression rt q)) (\<lambda>n.
     act_bind (act_update (\<lambda>s. Inr (s\<lparr>withTableContext := ident_assign alias n (withTableContext s)\<rparr>))) (\<lambda>_.
     visit_ctes rt ctes))"

definition visitQuery :: "sql_runtime \<Rightarrow> query \<Rightarrow> any_action" where
  "visitQuery rt q s =
     (let withTableContextOld = withTableContext s;
          (r, s') = act_node (act_bind (visit_ctes rt (query_ctes q)) (\<lambda>_.
            visitNode (visit_statement rt (query_statement q)))) (s\<lparr>withTableContext := []\<rparr>)
      in (r, s'\<lparr>withTableContext := withTableContextOld\<rparr>))"

text \<open>
  The part of \<open>parseAndPrintSQL\<close> after the parser: the visitor starts empty, and the graph that
  is printed has its data frames filled in.
\<close>

definition compile_query :: "sql_runtime \<Rightarrow> query \<Rightarrow> query_graph result option" where
  "compile_query rt q =
     (case visitQuery rt q sql_visitor_new of
        (Inl e, s) \<Rightarrow> Some (Inl e)
      | (Inr _, s) \<Rightarrow>
          map_option (\<lambda>r. bind_result r (\<lambda>ops. Inr ((out_graph s)\<lparr>qg_operations := ops\<rparr>)))
            (fillDFIds (qg_mapping (out_graph s)) (qg_operations (out_graph s))))"

end
