(* ===== verification/Sql_Compile.thy ===== *)
theory Sql_Compile
  imports Sql_Visitor
begin

text \<open>
  What the visitor keeps: the graph stays well-formed and is only appended to, every identifier
  in scope is a node of it, and every node that is returned is one. What it cannot compile: the
  constructs without a visit function fail wherever they stand.
\<close>

named_theorems good_intros \<open>actions that keep the visitor well-formed\<close>
named_theorems fail_intros \<open>actions that never return\<close>

subsection \<open>Well-formed visitors\<close>

definition visitor_ok :: "sql_visitor \<Rightarrow> bool" where
  "visitor_ok s \<longleftrightarrow> graph_wf (out_graph s)
   \<and> context_ok (out_graph s) (fileTableContext s) \<and> context_ok (out_graph s) (withTableContext s)
   \<and> context_ok (out_graph s) (exprTableContext s) \<and> context_ok (out_graph s) (exprVarContext s)"

definition known :: "query_graph \<Rightarrow> node set \<Rightarrow> bool" where
  "known g ns \<longleftrightarrow> (\<forall>n \<in> ns. node_ok g n)"

lemma known_simps [simp]:
  "known g {}" "known g (insert n ns) \<longleftrightarrow> node_ok g n \<and> known g ns" "known g (ns \<union> ms) \<longleftrightarrow> known g ns \<and> known g ms"
  by (auto simp: known_def)

lemma known_extends: "graph_extends g g' \<Longrightarrow> known g ns \<Longrightarrow> known g' ns"
  using graph_extends_node_ok by (auto simp: known_def)

lemma known_subset: "ns \<subseteq> ms \<Longrightarrow> known g ms \<Longrightarrow> known g ns"
  by (auto simp: known_def)

text \<open>
  An action is good for \<open>ns\<close> when, from a well-formed visitor that has the nodes \<open>ns\<close>, it leaves
  a well-formed one with a later graph, thrown or not, that has the nodes of its result.
\<close>

definition step_ok :: "sql_visitor \<Rightarrow> sql_visitor \<Rightarrow> bool" where
  "step_ok s s' \<longleftrightarrow> visitor_ok s' \<and> graph_extends (out_graph s) (out_graph s') \<and> db_schema s' = db_schema s"

definition act_good :: "node set \<Rightarrow> 'a action \<Rightarrow> ('a \<Rightarrow> node set) \<Rightarrow> bool" where
  "act_good ns m res \<longleftrightarrow>
     (\<forall>s r s'. visitor_ok s \<longrightarrow> known (out_graph s) ns \<longrightarrow> m s = (r, s') \<longrightarrow>
        step_ok s s' \<and> (\<forall>x. r = Inr x \<longrightarrow> known (out_graph s') (res x)))"

lemma act_goodI:
  assumes "\<And>s r s'. visitor_ok s \<Longrightarrow> known (out_graph s) ns \<Longrightarrow> m s = (r, s') \<Longrightarrow>
    step_ok s s' \<and> (\<forall>x. r = Inr x \<longrightarrow> known (out_graph s') (res x))"
  shows "act_good ns m res"
  using assms by (simp add: act_good_def)

lemma act_goodD:
  assumes "act_good ns m res" and "visitor_ok s" and "known (out_graph s) ns" and "m s = (r, s')"
  shows "step_ok s s'" and "r = Inr x \<Longrightarrow> known (out_graph s') (res x)"
  using assms by (auto simp: act_good_def)

lemma step_ok_refl: "visitor_ok s \<Longrightarrow> step_ok s s"
  by (simp add: step_ok_def)

lemma step_ok_trans: "step_ok a b \<Longrightarrow> step_ok b c \<Longrightarrow> step_ok a c"
  using graph_extends_trans by (auto simp: step_ok_def)

lemma act_good_weaken: "act_good ns m res \<Longrightarrow> ns \<subseteq> ms \<Longrightarrow> act_good ms m res"
  unfolding act_good_def using known_subset by metis

lemma act_good_result: "act_good ns m res \<Longrightarrow> (\<And>x. res' x \<subseteq> res x) \<Longrightarrow> act_good ns m res'"
  unfolding act_good_def using known_subset by metis

lemma act_good_bind [good_intros]:
  assumes m: "act_good ns m res" and f: "\<And>x. act_good (res x \<union> ns) (f x) res'"
  shows "act_good ns (act_bind m f) res'"
proof (rule act_goodI)
  fix s r s'
  assume ok: "visitor_ok s" and kn: "known (out_graph s) ns" and run: "act_bind m f s = (r, s')"
  obtain r1 s1 where 1: "m s = (r1, s1)" by fastforce
  have s1: "step_ok s s1" by (rule act_goodD(1) [OF m ok kn 1])
  show "step_ok s s' \<and> (\<forall>x. r = Inr x \<longrightarrow> known (out_graph s') (res' x))"
  proof (cases r1)
    case (Inl e)
    then show ?thesis using 1 run s1 by (auto simp: act_bind_def)
  next
    case (Inr x)
    have 2: "f x s1 = (r, s')" using 1 run Inr by (simp add: act_bind_def)
    have ok1: "visitor_ok s1" and "known (out_graph s1) ns"
      using s1 kn known_extends by (auto simp: step_ok_def)
    then have kn1: "known (out_graph s1) (res x \<union> ns)" using act_goodD(2) [OF m ok kn 1 Inr] by simp
    show ?thesis
      using act_goodD [OF f ok1 kn1 2] step_ok_trans [OF s1] by blast
  qed
qed

lemma act_good_return [good_intros]: "res x \<subseteq> ns \<Longrightarrow> act_good ns (act_return x) res"
  by (rule act_goodI) (auto simp: act_return_def step_ok_refl intro: known_subset)

lemma act_good_throw [good_intros]: "act_good ns (act_throw e) res"
  by (rule act_goodI) (auto simp: act_throw_def step_ok_refl)

lemma act_good_read:
  assumes "\<And>s x. visitor_ok s \<Longrightarrow> known (out_graph s) ns \<Longrightarrow> f s = Inr x \<Longrightarrow> known (out_graph s) (res x)"
  shows "act_good ns (act_read f) res"
  by (rule act_goodI) (use assms in \<open>auto simp: act_read_def step_ok_refl\<close>)

lemma visitor_ok_graph:
  assumes "visitor_ok s" and "graph_wf g" and "graph_extends (out_graph s) g"
  shows "visitor_ok (s\<lparr>out_graph := g\<rparr>)"
  using assms context_ok_extends by (simp add: visitor_ok_def)

lemma act_good_append:
  assumes "\<And>g. graph_wf g \<Longrightarrow> known g ns \<Longrightarrow> good_append g (f g)"
  shows "act_good ns (act_append f) (\<lambda>n. {n})"
proof (rule act_goodI)
  fix s r s'
  assume ok: "visitor_ok s" and kn: "known (out_graph s) ns" and run: "act_append f s = (r, s')"
  obtain n g where a: "f (out_graph s) = (n, g)" by fastforce
  have "good_append (out_graph s) (n, g)" using assms [of "out_graph s"] ok kn a by (simp add: visitor_ok_def)
  note g = good_appendD [OF this]
  have "r = Inr n" "s' = s\<lparr>out_graph := g\<rparr>" using run a by (simp_all add: act_append_def)
  then show "step_ok s s' \<and> (\<forall>x. r = Inr x \<longrightarrow> known (out_graph s') {x})"
    using visitor_ok_graph [OF ok g(1,2)] g by (simp add: step_ok_def)
qed

lemma act_good_update:
  assumes "\<And>s s'. visitor_ok s \<Longrightarrow> known (out_graph s) ns \<Longrightarrow> f s = Inr s' \<Longrightarrow> step_ok s s'"
  shows "act_good ns (act_update f) res \<longleftrightarrow> (\<forall>s s'. visitor_ok s \<longrightarrow> known (out_graph s) ns \<longrightarrow> f s = Inr s' \<longrightarrow> known (out_graph s') (res ()))"
  using assms by (auto simp: act_good_def act_update_def step_ok_refl split: sum.splits)

lemma act_good_update_unit:
  assumes "\<And>s s'. visitor_ok s \<Longrightarrow> known (out_graph s) ns \<Longrightarrow> f s = Inr s' \<Longrightarrow> step_ok s s'"
  shows "act_good ns (act_update f) (\<lambda>_. {})"
  using assms by (subst act_good_update) auto

lemma act_good_map [good_intros]:
  assumes "\<And>m. m \<in> set ms \<Longrightarrow> act_good ns m res"
  shows "act_good ns (act_map ms) (\<lambda>xs. \<Union>x \<in> set xs. res x)"
  using assms
proof (induction ms)
  case (Cons m ms)
  have rest: "act_good ns (act_map ms) (\<lambda>xs. \<Union>x \<in> set xs. res x)" by (rule Cons.IH) (use Cons.prems in simp)
  have "act_good ns m res" using Cons.prems by simp
  then show ?case
    unfolding act_map.simps
    by (intro act_good_bind [where res = res] act_good_bind [where res = "\<lambda>xs. \<Union>x \<in> set xs. res x"] act_good_return)
      (auto intro: act_good_weaken [OF rest])
qed (simp add: act_good_return)

subsection \<open>The shared steps\<close>

definition any_nodes :: "node option \<Rightarrow> node set" where
  "any_nodes r = (case r of None \<Rightarrow> {} | Some n \<Rightarrow> {n})"

lemma any_nodes_simps [simp]: "any_nodes None = {}" "any_nodes (Some n) = {n}"
  by (simp_all add: any_nodes_def)

lemma act_good_node [good_intros]: "act_good ns m (\<lambda>n. {n}) \<Longrightarrow> act_good ns (act_node m) any_nodes"
  unfolding act_node_def by (erule act_good_bind) (simp add: act_good_return)

lemma act_good_visitNode [good_intros]: "act_good ns m any_nodes \<Longrightarrow> act_good ns (visitNode m) (\<lambda>n. {n})"
  unfolding visitNode_def
  by (erule act_good_bind) (auto intro: act_good_throw act_good_return split: option.split)

lemma act_good_terminal: "act_good ns visit_terminal any_nodes"
  unfolding visit_terminal_def by (rule act_good_return) simp

lemma act_good_children:
  assumes "visits_in_order rt" and "\<And>m. m \<in> set ms \<Longrightarrow> act_good ns m any_nodes"
  shows "act_good ns (visitChildren rt ms) any_nodes"
  using assms(2)
proof (induction ms)
  case Nil
  then show ?case using assms(1) act_good_return [of any_nodes None ns] by (simp add: visits_in_order_def)
next
  case (Cons m ms)
  have m: "act_good ns m any_nodes" and ms: "act_good ns (visitChildren rt ms) any_nodes"
    using Cons by simp_all
  show ?case
  proof (cases "ms = []")
    case True
    then show ?thesis using assms(1) m by (simp add: visits_in_order_def)
  next
    case False
    then have "visitChildren rt (m # ms) = act_bind m (\<lambda>_. visitChildren rt ms)"
      using assms(1) by (simp add: visits_in_order_def)
    moreover have "act_good ns (act_bind m (\<lambda>_. visitChildren rt ms)) any_nodes"
      by (rule act_good_bind [OF m], rule act_good_weaken [OF ms]) simp
    ultimately show ?thesis by simp
  qed
qed

lemma act_good_tokens: "visits_in_order rt \<Longrightarrow> act_good ns (visit_tokens rt n) any_nodes"
  unfolding visit_tokens_def by (rule act_good_children) (auto intro: act_good_terminal)

lemma known_args_none: "set args - {NODE_NONE} \<subseteq> ns \<Longrightarrow> known g ns \<Longrightarrow> args_ok g args"
  by (fastforce simp: known_def args_ok_def)

lemma act_good_append_any [good_intros]:
  "op \<noteq> OP_CONST \<Longrightarrow> set args - {NODE_NONE} \<subseteq> ns \<Longrightarrow> act_good ns (append_any op args) (\<lambda>n. {n})"
  unfolding append_any_def
  by (rule act_good_append) (auto intro!: appendNode_good known_args_none [where ns = ns])

lemma act_good_appendOperation [good_intros]:
  "set args \<subseteq> ns \<Longrightarrow> act_good ns (appendOperation text args) (\<lambda>n. {n})"
  unfolding appendOperation_def
  by (auto split: option.split intro!: act_good_throw act_good_append appendNode_good known_args_none [where ns = ns]
      dest: opMap_not_const)

lemma act_good_setNodeName: "act_good ns (act_setNodeName n name) (\<lambda>_. {})"
  unfolding act_setNodeName_def
proof (rule act_good_update_unit)
  fix s s'
  assume ok: "visitor_ok s" and upd: "bind_result (setNodeName n name (out_graph s)) (\<lambda>g. Inr (s\<lparr>out_graph := g\<rparr>)) = Inr s'"
  obtain g where g: "setNodeName n name (out_graph s) = Inr g" "s' = s\<lparr>out_graph := g\<rparr>"
    using upd by (auto simp: bind_result_Inr_iff)
  have "graph_wf g \<and> graph_extends (out_graph s) g"
    by (rule setNodeName_good [OF _ g(1)]) (use ok in \<open>simp add: visitor_ok_def\<close>)
  then show "step_ok s s'" using visitor_ok_graph [OF ok] by (simp add: step_ok_def g(2))
qed

lemma act_good_getNodeName: "act_good ns (act_getNodeName n) (\<lambda>_. {})"
  unfolding act_getNodeName_def by (rule act_good_read) simp


lemma act_good_columns: "act_good ns (append_columns cols) set"
proof (induction cols arbitrary: ns rule: append_columns.induct)
  case (2 name ty cols)
  show ?case
    unfolding append_columns.simps
    by (intro act_good_bind [where res = "\<lambda>n. {n}"] act_good_bind [where res = set] act_good_return
        act_good_append appendColumn_good 2) auto
qed (simp add: act_good_return)

lemma act_good_insertTable: "act_good ns (insertTableColumnNodes schema) (\<lambda>n. {n})"
  unfolding insertTableColumnNodes_def
  by (rule act_good_bind [OF act_good_columns], rule act_good_append)
    (auto intro!: appendTable_good simp: known_def args_ok_def)

lemma act_good_context_file:
  "n \<in> ns \<Longrightarrow> act_good ns (act_update (\<lambda>s. Inr (s\<lparr>fileTableContext := ident_assign name n (fileTableContext s)\<rparr>))) (\<lambda>_. {})"
  by (rule act_good_update_unit) (auto simp: step_ok_def visitor_ok_def known_def intro!: context_ok_update)

lemma act_good_context_with:
  "n \<in> ns \<Longrightarrow> act_good ns (act_update (\<lambda>s. Inr (s\<lparr>withTableContext := ident_assign name n (withTableContext s)\<rparr>))) (\<lambda>_. {})"
  by (rule act_good_update_unit) (auto simp: step_ok_def visitor_ok_def known_def intro!: context_ok_update)

lemma act_good_context_table:
  "n \<in> ns \<Longrightarrow> act_good ns (act_update (\<lambda>s. Inr (s\<lparr>exprTableContext := ident_assign name n (exprTableContext s)\<rparr>))) (\<lambda>_. {})"
  by (rule act_good_update_unit) (auto simp: step_ok_def visitor_ok_def known_def intro!: context_ok_update)

lemma act_good_load:
  "act_good ns (act_update (\<lambda>s. bind_result (loadTableNames (out_graph s) n a (exprVarContext s)) (\<lambda>ctx.
     Inr (s\<lparr>exprVarContext := ctx\<rparr>)))) (\<lambda>_. {})"
  by (rule act_good_update_unit)
    (auto simp: bind_result_Inr_iff step_ok_def visitor_ok_def intro: loadTableNames_ok)

lemma findIdent_known:
  assumes "\<forall>m \<in> set ms. context_ok g m" and "findIdent i ms \<noteq> NODE_NONE"
  shows "node_ok g (findIdent i ms)"
  using assms by (induction ms) (auto split: option.splits dest: context_okD)

lemma act_good_findOrInsertTable: "act_good ns (findOrInsertTable name) (\<lambda>n. {n})"
proof (rule act_goodI)
  fix s r s'
  assume ok: "visitor_ok s" and kn: "known (out_graph s) ns" and run: "findOrInsertTable name s = (r, s')"
  let ?n = "findIdent name [fileTableContext s, withTableContext s]"
  show "step_ok s s' \<and> (\<forall>x. r = Inr x \<longrightarrow> known (out_graph s') {x})"
  proof (cases "?n = NODE_NONE")
    case False
    have "node_ok (out_graph s) ?n"
      by (rule findIdent_known [OF _ False]) (use ok in \<open>auto simp: visitor_ok_def\<close>)
    then show ?thesis
      using False run ok by (auto simp: findOrInsertTable_def Let_def step_ok_refl split: sum.splits if_splits)
  next
    case True
    note none = this
    show ?thesis
    proof (cases "find (\<lambda>schema. ts_name schema = name) (db_schema s)")
      case None
      then show ?thesis using True run ok by (auto simp: findOrInsertTable_def Let_def step_ok_refl)
    next
      case (Some schema)
      let ?m = "act_bind (insertTableColumnNodes schema) (\<lambda>n.
        act_bind (act_update (\<lambda>s. Inr (s\<lparr>fileTableContext := ident_assign name n (fileTableContext s)\<rparr>))) (\<lambda>_.
        act_return n))"
      have "act_good {} ?m (\<lambda>n. {n})"
        by (intro act_good_bind [OF act_good_insertTable] act_good_bind [OF act_good_context_file] act_good_return) auto
      moreover have "?m s = (r, s')" using True Some run by (simp add: findOrInsertTable_def Let_def)
      ultimately show ?thesis using ok by (auto simp: act_good_def)
    qed
  qed
qed

subsection \<open>Expressions\<close>

lemma act_good_literal: "visits_in_order rt \<Longrightarrow> act_good ns (visitLiteralExpr rt l) any_nodes"
proof -
  assume rt: "visits_in_order rt"
  have "act_good ms (append_literal rt l) (\<lambda>n. {n})" for ms
    unfolding append_literal_def
    by (auto split: literal.split intro!: act_good_append act_good_bind [where res = "\<lambda>_. {}"] act_good_read append_good)
  then show ?thesis
    unfolding visitLiteralExpr_def by (intro act_good_bind [OF act_good_tokens [OF rt]] act_good_node)
qed

lemma act_good_column: "visits_in_order rt \<Longrightarrow> act_good ns (visitColumnExpr rt t c) any_nodes"
  unfolding visitColumnExpr_def Let_def visit_identifier_def
  by (intro act_good_bind [where res = any_nodes] act_good_children
      act_good_bind [where res = "\<lambda>n. if n = NODE_NONE then {} else {n}"] act_good_read)
    (auto intro: act_good_tokens act_good_terminal act_good_throw act_good_return findIdent_known
      simp: visitor_ok_def split: option.splits simp del: findIdent.simps)

lemma act_good_binary:
  "act_good {} l any_nodes \<Longrightarrow> act_good {} r any_nodes \<Longrightarrow> act_good ns (visit_binary op l r) any_nodes"
  unfolding visit_binary_def
  by (intro act_good_node act_good_bind [where res = "\<lambda>n. {n}"] act_good_visitNode act_good_appendOperation)
    (auto elim: act_good_weaken)

lemma act_good_between:
  "act_good {} l any_nodes \<Longrightarrow> act_good {} lo any_nodes \<Longrightarrow> act_good {} up any_nodes \<Longrightarrow>
   act_good ns (visitBetweenExpr n l lo up) any_nodes"
  unfolding visitBetweenExpr_def
  by (intro act_good_node act_good_bind [where res = "\<lambda>n. {n}"] act_good_visitNode act_good_append_any)
    (auto elim: act_good_weaken)

lemma act_good_comparison_loop:
  assumes "\<And>op m. (op, m) \<in> set rs \<Longrightarrow> act_good {} m any_nodes" and "l \<in> ns"
  shows "act_good ns (comparison_loop l rs) set"
  using assms
proof (induction l rs arbitrary: ns rule: comparison_loop.induct)
  case (2 l op right rest)
  have right: "act_good ns (visitNode right) (\<lambda>n. {n})"
    by (rule act_good_visitNode, rule act_good_weaken) (use 2(2) in auto)
  have rest: "act_good ms (comparison_loop n rest) set" if "n \<in> ms" for n ms
    by (rule 2(1)) (use 2(2) that in auto)
  show ?case
    unfolding comparison_loop.simps
  proof (intro act_good_bind [OF right] act_good_bind [where res = "\<lambda>n. {n}"])
    show "act_good ({n} \<union> ns) (case opMap op of None \<Rightarrow> act_throw OutOfRange | Some v \<Rightarrow> append_any v [l, n]) (\<lambda>n. {n})" for n
      using 2(3) by (auto split: option.split intro!: act_good_throw act_good_append_any dest: opMap_not_const)
    show "act_good ({c} \<union> ({n} \<union> ns)) (act_bind (comparison_loop n rest) (\<lambda>cs. act_return (c # cs))) set" for n c
      by (intro act_good_bind [where res = set] rest act_good_return) auto
  qed
qed (simp add: act_good_return)

lemma act_good_comparison:
  assumes l: "act_good {} l any_nodes" and rs: "\<And>op m. (op, m) \<in> set rs \<Longrightarrow> act_good {} m any_nodes"
  shows "act_good ns (visitComparisonExpr l rs) any_nodes"
  unfolding visitComparisonExpr_def
  by (intro act_good_node act_good_bind [where res = "\<lambda>n. {n}"] act_good_bind [where res = set]
      act_good_visitNode act_good_weaken [OF l] act_good_comparison_loop rs)
    (auto intro!: act_good_append_any act_good_read simp: at_iff known_def)

lemma act_good_logic:
  assumes "op \<noteq> OP_CONST" and m: "act_good {} m any_nodes" and ms: "\<And>m. m \<in> set ms \<Longrightarrow> act_good {} m any_nodes"
  shows "act_good ns (visit_logic op m ms) any_nodes"
  unfolding visit_logic_def
  by (intro act_good_node act_good_bind [where res = "\<lambda>n. {n}"]
      act_good_bind [where res = "\<lambda>ns. \<Union>n \<in> set ns. {n}"] act_good_visitNode act_good_weaken [OF m] act_good_map)
    (use assms in \<open>auto intro!: act_good_visitNode act_good_return act_good_append_any intro: act_good_weaken\<close>)


subsection \<open>Statements\<close>

lemma act_good_array:
  assumes "visits_in_order rt" and "\<And>m. m \<in> set1_array_expression a \<union> set2_array_expression a \<Longrightarrow> act_good {} m any_nodes"
  shows "act_good ns (visit_array rt a) any_nodes"
  unfolding visit_array_def
  by (rule act_good_children [OF assms(1)])
    (use assms(2) in \<open>auto split: array_expression.splits intro: act_good_terminal act_good_weaken [where ns = "{}"]\<close>)

lemma act_good_if: "(b \<Longrightarrow> act_good ns m res) \<Longrightarrow> (\<not> b \<Longrightarrow> act_good ns m' res) \<Longrightarrow> act_good ns (if b then m else m') res"
  by simp

lemma act_good_relation:
  assumes "\<And>m. m \<in> set_relation r \<Longrightarrow> act_good {} m any_nodes"
  shows "act_good ns (visitRelation r) any_nodes"
proof (cases r)
  case (NamedRelation name a)
  show ?thesis
    unfolding visitRelation_def NamedRelation relation.case
    by (intro act_good_node act_good_bind [OF act_good_findOrInsertTable] act_good_bind [OF act_good_getNodeName]
        act_good_bind [where res = "\<lambda>_. {}"] act_good_if act_good_setNodeName act_good_return) simp_all
next
  case (QueryRelation q a)
  have q: "act_good ns (visitNode q) (\<lambda>n. {n})"
    by (rule act_good_visitNode, rule act_good_weaken [OF assms]) (simp_all add: QueryRelation)
  show ?thesis
    unfolding visitRelation_def QueryRelation relation.case
    by (intro act_good_node act_good_bind [OF q] act_good_bind [OF act_good_getNodeName]
        act_good_bind [where res = "\<lambda>_. {}"] act_good_if act_good_setNodeName act_good_return) simp_all
qed

lemma act_good_enter_table: "n \<in> ns \<Longrightarrow> act_good ns (enter_table r n) (\<lambda>_. {})"
  unfolding enter_table_def
  by (intro act_good_bind [where res = "\<lambda>_. {}"] act_good_bind [OF act_good_load] act_good_if act_good_context_table)
    (auto intro: act_good_return act_good_getNodeName split: option.split)

definition pair_nodes :: "node list \<times> node list \<Rightarrow> node set" where
  "pair_nodes p = set (fst p) \<union> set (snd p)"

lemma act_good_joins:
  assumes "\<And>j. j \<in> set js \<Longrightarrow> (\<forall>m \<in> set_relation (join_relation j). act_good {} m any_nodes) \<and> act_good {} (join_on j) any_nodes"
  shows "act_good ns (visit_joins js) pair_nodes"
  using assms
proof (induction js arbitrary: ns)
  case (Cons j js)
  have rel: "act_good ms (visitRelation (join_relation j)) any_nodes" for ms
    by (rule act_good_relation) (use Cons.prems in auto)
  have on: "act_good ms (visitNode (join_on j)) (\<lambda>n. {n})" for ms
    by (rule act_good_visitNode, rule act_good_weaken) (use Cons.prems in auto)
  have rest: "act_good ms (visit_joins js) pair_nodes" for ms
    by (rule Cons.IH) (use Cons.prems in auto)
  show ?case
    unfolding visit_joins.simps
    by (intro act_good_bind [OF rel] act_good_bind [OF act_good_visitNode [OF rel]]
        act_good_bind [OF act_good_enter_table] act_good_bind [OF on] act_good_bind [OF rest])
      (auto intro: act_good_return simp: pair_nodes_def)
qed (simp add: act_good_return pair_nodes_def)

lemma act_good_from:
  assumes "\<And>base js. fr = Some (base, js) \<Longrightarrow> (\<forall>m \<in> set_relation base. act_good {} m any_nodes) \<and>
    (\<forall>j \<in> set js. (\<forall>m \<in> set_relation (join_relation j). act_good {} m any_nodes) \<and> act_good {} (join_on j) any_nodes)"
  shows "act_good ns (visit_from fr) pair_nodes"
proof (cases fr)
  case None
  then show ?thesis by (simp add: visit_from_def act_good_return pair_nodes_def)
next
  case (Some p)
  obtain base js where p: "p = (base, js)" by fastforce
  have base: "act_good ns (visitNode (visitRelation base)) (\<lambda>n. {n})"
    by (rule act_good_visitNode, rule act_good_relation) (use assms Some p in blast)
  have joins: "act_good ms (visit_joins js) pair_nodes" for ms
    by (rule act_good_joins) (use assms Some p in blast)
  show ?thesis
    unfolding visit_from_def Some p option.case prod.case
    by (intro act_good_bind [OF base] act_good_bind [OF act_good_enter_table] act_good_bind [OF joins])
      (auto intro: act_good_return simp: pair_nodes_def)
qed

lemma act_good_element:
  assumes "\<And>m. m \<in> set_select_element el \<Longrightarrow> act_good {} m any_nodes"
  shows "act_good ns (visit_element el) set"
proof (cases el)
  case GlobalStar
  have "known (out_graph s) (snd ` {x \<in> set (exprVarContext s). P x})" if "visitor_ok s" for s P
    using that by (fastforce simp: visitor_ok_def context_ok_def known_def)
  then show ?thesis
    unfolding visit_element_def GlobalStar select_element.case
    by (intro act_good_read) (auto simp: case_prod_unfold)
next
  case (TableStar t)
  then show ?thesis by (simp add: visit_element_def act_good_return)
next
  case (ElementExpr e a)
  have e: "act_good ns (visitNode e) (\<lambda>n. {n})"
    by (rule act_good_visitNode, rule act_good_weaken [OF assms]) (simp_all add: ElementExpr)
  show ?thesis
    unfolding visit_element_def ElementExpr select_element.case
    by (intro act_good_bind [OF e] act_good_bind [where res = "\<lambda>_. {}"])
      (auto intro: act_good_return act_good_setNodeName split: option.split)
qed

lemma act_good_sort_item:
  assumes "act_good {} (fst item) any_nodes"
  shows "act_good ns (visit_sort_item item) (\<lambda>n. {n})"
proof -
  have e: "act_good ns (visitNode (fst item)) (\<lambda>n. {n})"
    by (rule act_good_visitNode, rule act_good_weaken [OF assms]) simp
  show ?thesis
    unfolding visit_sort_item_def
    by (intro act_good_bind [OF e] act_good_if act_good_append_any act_good_return) auto
qed

definition optional_node :: "node \<Rightarrow> node set" where
  "optional_node n = (if n = NODE_NONE then {} else {n})"

lemma act_good_optional:
  assumes "\<And>m. e = Some m \<Longrightarrow> act_good {} m any_nodes"
  shows "act_good ns (visit_optional e) optional_node"
proof (cases e)
  case None
  then show ?thesis by (simp add: visit_optional_def act_good_return optional_node_def)
next
  case (Some m)
  have "act_good ns (visitNode m) (\<lambda>n. {n})"
    by (rule act_good_visitNode, rule act_good_weaken [OF assms [OF Some]]) simp
  then show ?thesis
    by (simp add: visit_optional_def Some, elim act_good_result) (simp add: optional_node_def)
qed

lemma act_good_filter:
  assumes "insert df (set fs) \<subseteq> ns"
  shows "act_good ns (append_filter fs df) (\<lambda>n. {n})"
proof (cases "fs = []")
  case True
  then show ?thesis using assms by (simp add: append_filter_def act_good_return)
next
  case False
  have f: "act_good ns (if 2 \<le> length fs then append_any OP_AND fs else act_return (hd fs)) (\<lambda>n. {n})"
    using assms False by (intro act_good_if act_good_append_any act_good_return) auto
  have "act_good ({n} \<union> ns) (append_any OP_FILTER [df, n]) (\<lambda>n. {n})" for n
    using assms by (intro act_good_append_any) auto
  note bind = act_good_bind [OF f this]
  show ?thesis unfolding append_filter_def using False bind by (simp only: if_False)
qed

lemma act_good_with: "op \<noteq> OP_CONST \<Longrightarrow> insert df (set ids) \<subseteq> ns \<Longrightarrow> act_good ns (append_with op ids df) (\<lambda>n. {n})"
  unfolding append_with_def by (intro act_good_if act_good_return act_good_append_any) auto

lemma act_good_range:
  assumes "df \<in> ns" and "optional_node offset \<subseteq> ns" and "optional_node limit \<subseteq> ns"
  shows "act_good ns (append_range offset limit df) (\<lambda>n. {n})"
proof -
  have off: "act_good ns (if offset = NODE_NONE then act_append (appendInt64Constant 0) else act_return offset) (\<lambda>n. {n})"
    using assms(2) by (auto simp: optional_node_def intro!: act_good_append act_good_return append_good)
  have lim: "act_good ({o'} \<union> ns) (if limit \<noteq> NODE_NONE
      then act_append (appendNode NODE_NONE OP_ADD Ty_Int64 [o', limit]) else act_return limit) optional_node" for o'
  proof (cases "limit = NODE_NONE")
    case False
    have "act_good ({o'} \<union> ns) (act_append (appendNode NODE_NONE OP_ADD Ty_Int64 [o', limit])) (\<lambda>n. {n})"
      using assms(3) False by (auto simp: optional_node_def known_def intro!: act_good_append appendNode_good)
    then show ?thesis using False by (simp, elim act_good_result) (simp add: optional_node_def)
  qed (simp add: act_good_return optional_node_def)
  show ?thesis
    unfolding append_range_def
    by (intro act_good_if act_good_bind [OF off] act_good_bind [OF lim] act_good_append_any act_good_return)
      (use assms(1) in \<open>auto simp: optional_node_def\<close>)
qed


lemma act_good_where:
  assumes "\<And>m. e = Some m \<Longrightarrow> act_good {} m any_nodes"
  shows "act_good ns (case e of None \<Rightarrow> act_return [] | Some m \<Rightarrow> act_map [visitNode m]) set"
proof (cases e)
  case (Some m)
  have "act_good ns (act_map [visitNode m]) (\<lambda>xs. \<Union>x \<in> set xs. {x})"
    by (rule act_good_map) (use act_good_weaken [OF assms [OF Some]] act_good_visitNode in auto)
  then show ?thesis by (simp add: Some del: act_map.simps)
qed (simp add: act_good_return)

definition statement_good :: "(any_action, any_action) select_statement \<Rightarrow> bool" where
  "statement_good st \<longleftrightarrow>
     (\<forall>m \<in> set1_select_statement st. act_good {} m any_nodes) \<and> (\<forall>m \<in> set2_select_statement st. act_good {} m any_nodes)"

lemma statement_goodD:
  assumes "statement_good st"
  shows "\<And>el m. el \<in> set (select_elements st) \<Longrightarrow> m \<in> set_select_element el \<Longrightarrow> act_good {} m any_nodes"
    and "\<And>base js. select_from st = Some (base, js) \<Longrightarrow> (\<forall>m \<in> set_relation base. act_good {} m any_nodes) \<and>
      (\<forall>j \<in> set js. (\<forall>m \<in> set_relation (join_relation j). act_good {} m any_nodes) \<and> act_good {} (join_on j) any_nodes)"
    and "\<And>m. select_where st = Some m \<Longrightarrow> act_good {} m any_nodes"
    and "\<And>m. m \<in> set (group_by_exprs st) \<Longrightarrow> act_good {} m any_nodes"
    and "\<And>item. item \<in> set (sort_items st) \<Longrightarrow> act_good {} (fst item) any_nodes"
    and "\<And>m. limit_expr st = Some m \<Longrightarrow> act_good {} m any_nodes"
    and "\<And>m. offset_expr st = Some m \<Longrightarrow> act_good {} m any_nodes"
proof -
  obtain els fr wh gr so li off where st: "st = SelectStatement els fr wh gr so li off" by (cases st)
  have g1: "\<And>m. m \<in> set1_select_statement st \<Longrightarrow> act_good {} m any_nodes"
    and g2: "\<And>m. m \<in> set2_select_statement st \<Longrightarrow> act_good {} m any_nodes"
    using assms by (simp_all add: statement_good_def)
  show "\<And>el m. el \<in> set (select_elements st) \<Longrightarrow> m \<in> set_select_element el \<Longrightarrow> act_good {} m any_nodes"
    by (rule g1) (auto simp: st)
  show "\<And>m. select_where st = Some m \<Longrightarrow> act_good {} m any_nodes" by (rule g1) (auto simp: st)
  show "\<And>m. m \<in> set (group_by_exprs st) \<Longrightarrow> act_good {} m any_nodes" by (rule g1) (auto simp: st)
  show "\<And>item. item \<in> set (sort_items st) \<Longrightarrow> act_good {} (fst item) any_nodes"
    by (rule g1) (fastforce simp: st prod_set_defs)
  show "\<And>m. limit_expr st = Some m \<Longrightarrow> act_good {} m any_nodes" by (rule g1) (auto simp: st)
  show "\<And>m. offset_expr st = Some m \<Longrightarrow> act_good {} m any_nodes" by (rule g1) (auto simp: st)
  fix base js
  assume fr: "select_from st = Some (base, js)"
  have "join_on j \<in> set1_select_statement st \<and> set_relation (join_relation j) \<subseteq> set2_select_statement st" if "j \<in> set js" for j
  proof -
    obtain ty r e where "j = JoinClause ty r e" by (cases j)
    then show ?thesis using that fr by (fastforce simp: st prod_set_defs)
  qed
  moreover have "set_relation base \<subseteq> set2_select_statement st" using fr by (auto simp: st prod_set_defs)
  ultimately show "(\<forall>m \<in> set_relation base. act_good {} m any_nodes) \<and>
      (\<forall>j \<in> set js. (\<forall>m \<in> set_relation (join_relation j). act_good {} m any_nodes) \<and> act_good {} (join_on j) any_nodes)"
    using g1 g2 by blast
qed

lemma act_good_select_body:
  assumes "statement_good st"
  shows "act_good {} (select_body st) (\<lambda>n. {n})"
proof -
  note st = statement_goodD [OF assms]
  have frm: "act_good ns (visit_from (select_from st)) pair_nodes" for ns
    by (rule act_good_from) (rule st(2))
  have els: "act_good ns (act_map (map visit_element (select_elements st))) (\<lambda>xs. \<Union>x \<in> set xs. set x)" for ns
    by (rule act_good_map) (auto intro!: act_good_element st(1))
  have groups: "act_good ns (act_map (map visitNode (group_by_exprs st))) (\<lambda>xs. \<Union>x \<in> set xs. {x})" for ns
    by (rule act_good_map) (auto intro!: act_good_visitNode intro: act_good_weaken [OF st(4)])
  have sorts: "act_good ns (act_map (map visit_sort_item (sort_items st))) (\<lambda>xs. \<Union>x \<in> set xs. {x})" for ns
    by (rule act_good_map) (auto intro!: act_good_sort_item dest: st(5))
  show ?thesis
    unfolding select_body_def
    apply (rule act_good_bind [OF frm])
    apply (simp only: case_prod_beta)
    apply (rule act_good_bind [OF els])
    apply (rule act_good_bind [OF act_good_where [OF st(3)]], assumption)
    apply (rule act_good_bind [OF groups])
    apply (rule act_good_bind [OF sorts])
    apply (rule act_good_bind [OF act_good_optional [OF st(7)]], assumption)
    apply (rule act_good_bind [OF act_good_optional [OF st(6)]], assumption)
    apply (rule act_good_bind [OF act_good_append_any], simp, force simp: pair_nodes_def)
    apply (rule act_good_bind [OF act_good_filter], force simp: pair_nodes_def)
    apply (rule act_good_bind [OF act_good_with], simp, force)
    apply (rule act_good_bind [OF act_good_with], simp, force)
    apply (rule act_good_range; blast)
    done
qed

lemma act_good_select:
  assumes "statement_good st"
  shows "act_good ns (visitSelectStatement st) any_nodes"
proof (rule act_goodI)
  fix s r s'
  assume ok: "visitor_ok s" and run: "visitSelectStatement st s = (r, s')"
  let ?s = "s\<lparr>exprTableContext := [], exprVarContext := []\<rparr>"
  obtain s1 where 1: "act_node (select_body st) ?s = (r, s1)" and s': "s' = s1\<lparr>exprVarContext := exprVarContext s\<rparr>"
    using run by (auto simp: visitSelectStatement_def Let_def split: prod.splits)
  have "visitor_ok ?s" using ok by (simp add: visitor_ok_def)
  then have g: "step_ok ?s s1" "\<And>x. r = Inr x \<Longrightarrow> known (out_graph s1) (any_nodes x)"
    using act_goodD [OF act_good_node [OF act_good_select_body [OF assms]] _ _ 1] by auto
  have "context_ok (out_graph s1) (exprVarContext s)"
    using ok g(1) context_ok_extends by (auto simp: visitor_ok_def step_ok_def)
  then show "step_ok s s' \<and> (\<forall>x. r = Inr x \<longrightarrow> known (out_graph s') (any_nodes x))"
    using g by (simp add: s' step_ok_def visitor_ok_def)
qed

lemma act_good_query:
  assumes "\<And>m. m \<in> set ms \<Longrightarrow> act_good {} m any_nodes"
  shows "act_good ns (visitQueryExpression ms) any_nodes"
proof -
  have sel: "act_good ns (act_map (map visitNode ms)) (\<lambda>xs. \<Union>x \<in> set xs. {x})"
    by (rule act_good_map) (use act_good_weaken [OF assms] in \<open>auto intro!: act_good_visitNode\<close>)
  show ?thesis
    unfolding visitQueryExpression_def
    by (intro act_good_node act_good_bind [OF sel] act_good_if act_good_return act_good_append_any)
      (auto simp: length_Suc_conv)
qed

subsection \<open>The invariant of the visitor\<close>

lemma set_map_actions:
  "set1_array_expression (map_array_expression f g a) = f ` set1_array_expression a"
  "set2_array_expression (map_array_expression f g a) = g ` set2_array_expression a"
  "set1_select_statement (map_select_statement f g st) = f ` set1_select_statement st"
  "set2_select_statement (map_select_statement f g st) = g ` set2_select_statement st"
  by (simp_all add: array_expression.set_map select_statement.set_map)

lemma visit_good:
  assumes rt: "visits_in_order rt"
  shows "act_good {} (visit_expr rt e) any_nodes"
    and "act_good {} (visit_query_expression rt q) any_nodes"
proof (induction e and q)
  case (SubqueryExpr q)
  then show ?case by (simp, intro act_good_children [OF rt]) (auto intro: act_good_terminal)
next
  case (FunctionExpr f arg)
  then show ?case
    by (simp, intro act_good_children [OF rt]) (cases arg; auto intro: act_good_terminal)
next
  case (CastExpr e ty)
  then show ?case
    by (simp, intro act_good_children [OF rt]) (auto intro: act_good_terminal act_good_tokens [OF rt])
next
  case (InExpr e op a)
  have "act_good {} (visit_array rt (map_array_expression (visit_expr rt) (visit_query_expression rt) a)) any_nodes"
    by (rule act_good_array [OF rt]) (use InExpr in \<open>auto simp: set_map_actions\<close>)
  then show ?case
    using InExpr(1) by (simp, intro act_good_children [OF rt]) (auto intro: act_good_tokens [OF rt])
next
  case (ComparisonExpr e rs)
  then show ?case by (simp, intro act_good_comparison) (force simp: prod_set_defs)+
next
  case (QueryExpression sts)
  then have "statement_good (map_select_statement (visit_expr rt) (visit_query_expression rt) st)" if "st \<in> set sts" for st
    using that by (auto simp: statement_good_def set_map_actions)
  then show ?case by (simp, intro act_good_query) (auto intro!: act_good_select)
qed (auto intro!: act_good_literal [OF rt] act_good_column [OF rt] act_good_binary act_good_between act_good_logic
    act_good_node act_good_visitNode act_good_bind [where res = "\<lambda>n. {n}"] act_good_appendOperation
    simp: visitParenthesizedExpr_def visitIsNullExpr_def visitNotExpr_def)

lemma visit_statement_good:
  assumes "visits_in_order rt"
  shows "act_good ns (visit_statement rt st) any_nodes"
  unfolding visit_statement_def visitUpdateStatement_def visitDeleteStatement_def
  by (cases st) (auto intro: act_good_throw act_good_weaken [OF visit_good(2) [OF assms]])

lemma visit_ctes_good:
  assumes "visits_in_order rt"
  shows "act_good ns (visit_ctes rt ctes) (\<lambda>_. {})"
proof (induction ctes arbitrary: ns)
  case (Cons p ctes)
  obtain a q where p: "p = (a, q)" by fastforce
  have q: "act_good ns (visitNode (visit_query_expression rt q)) (\<lambda>n. {n})"
    by (rule act_good_visitNode, rule act_good_weaken [OF visit_good(2) [OF assms]]) simp
  show ?case
    unfolding p visit_ctes.simps
    by (intro act_good_bind [OF q] act_good_bind [OF act_good_context_with] Cons) simp
qed (simp add: act_good_return)

lemma visitQuery_good:
  assumes rt: "visits_in_order rt" and ok: "visitor_ok s" and run: "visitQuery rt q s = (r, s')"
  shows "step_ok s s' \<and> (\<forall>n. r = Inr (Some n) \<longrightarrow> node_ok (out_graph s') n)"
proof -
  let ?m = "act_node (act_bind (visit_ctes rt (query_ctes q)) (\<lambda>_. visitNode (visit_statement rt (query_statement q))))"
  let ?s = "s\<lparr>withTableContext := []\<rparr>"
  obtain s1 where 1: "?m ?s = (r, s1)" and s': "s' = s1\<lparr>withTableContext := withTableContext s\<rparr>"
    using run by (auto simp: visitQuery_def Let_def split: prod.splits)
  have good: "act_good {} ?m any_nodes"
    by (intro act_good_node act_good_bind [OF visit_ctes_good [OF rt]] act_good_visitNode visit_statement_good [OF rt])
  have "visitor_ok ?s" using ok by (simp add: visitor_ok_def)
  then have g: "step_ok ?s s1" "\<And>x. r = Inr x \<Longrightarrow> known (out_graph s1) (any_nodes x)"
    using act_goodD [OF good _ _ 1] by auto
  have "context_ok (out_graph s1) (withTableContext s)"
    using ok g(1) context_ok_extends by (auto simp: visitor_ok_def step_ok_def)
  then show ?thesis using g by (fastforce simp: s' step_ok_def visitor_ok_def)
qed

text \<open>
  C8. Compiling a query keeps the visitor well-formed, whatever the query is and whether it
  succeeds or throws: the graph is only appended to, every argument of a node stands before
  it, every identifier in scope and the node that is returned are nodes of the graph, and the
  scopes of the surrounding query are as they were.
\<close>

theorem visitQuery_keeps_graph:
  assumes "visits_in_order rt" and "visitor_ok s" and "visitQuery rt q s = (r, s')"
  shows "visitor_ok s' \<and> graph_extends (out_graph s) (out_graph s') \<and> withTableContext s' = withTableContext s
    \<and> (\<forall>n. r = Inr (Some n) \<longrightarrow> node_ok (out_graph s') n)"
  using visitQuery_good [OF assms] assms(3)
  by (auto simp: step_ok_def visitQuery_def Let_def split: prod.splits)

fun visit_in_order :: "any_action list \<Rightarrow> any_action" where
  "visit_in_order [] = act_return None"
| "visit_in_order [m] = m"
| "visit_in_order (m # ms) = act_bind m (\<lambda>_. visit_in_order ms)"

definition example_runtime :: sql_runtime where
  "example_runtime = \<lparr>visitChildren = visit_in_order, stod = (\<lambda>s. Inr 0)\<rparr>"

lemma example_runtime_in_order: "visits_in_order example_runtime"
  unfolding visits_in_order_def example_runtime_def by (auto simp: neq_Nil_conv)

lemma visitor_ok_new: "visitor_ok (sql_visitor_new\<lparr>db_schema := tables\<rparr>)"
  by (simp add: visitor_ok_def sql_visitor_new_def query_graph_new_def graph_wf_def)

definition select_one :: query where
  "select_one = Query [] (SelectStmt (QueryExpression [SelectStatement [ElementExpr (LiteralExpr NullLit) None] None None [] [] None None]))"

theorem visitQuery_keeps_graph_witness:
  "visitor_ok (snd (visitQuery example_runtime select_one sql_visitor_new))"
  using visitQuery_keeps_graph [OF example_runtime_in_order, of sql_visitor_new select_one]
    visitor_ok_new [of "[]"]
  by (metis prod.collapse sql_visitor.unfold_congs(6) sql_visitor_new_def sql_visitor.update_convs(6))

end
