(* ===== verification/Sql_Support.thy ===== *)
theory Sql_Support
  imports Sql_Compile
begin

text \<open>
  Which queries compile: the compilation of every query returns, the constructs without a visit
  function never do, and neither do an offset without a limit nor, with the empty schema that
  \<open>parseAndPrintSQL\<close> leaves in the visitor, a select from a table.
\<close>

subsection \<open>Every query returns\<close>

lemma fold_tag_table_operation:
  assumes "op \<in> set (fold tag_table [0..<length ops] ops)"
  shows "\<exists>op' \<in> set ops. \<exists>df. op = op'\<lparr>op_df := df\<rparr> \<and> (df = op_df op' \<or> 0 \<le> df \<and> nat df < length ops)"
proof -
  obtain i where i: "i < length ops" "op = fold tag_table [0..<length ops] ops ! i"
    using assms by (auto simp: in_set_conv_nth)
  then have "op = (ops ! i)\<lparr>op_df := int i\<rparr> \<or> op = (ops ! i)\<lparr>op_df := op_df (ops ! i)\<rparr>"
    by (simp add: fold_tag_table)
  then show ?thesis using nth_mem [OF i(1)] i(1) by fastforce
qed

lemma graph_wf_tagged:
  assumes "graph_wf g" and "length ops = length (qg_operations g)"
    and "\<And>op. op \<in> set ops \<Longrightarrow> \<exists>op' \<in> set (qg_operations g). \<exists>df. op = op'\<lparr>op_df := df\<rparr> \<and> (df = op_df op' \<or> node_ok g df)"
  shows "graph_wf (g\<lparr>qg_operations := ops\<rparr>)"
proof -
  have "operation_ok (g\<lparr>qg_operations := ops\<rparr>) op" if op: "op \<in> set ops" for op
  proof -
    obtain op' df where "op' \<in> set (qg_operations g)" "op = op'\<lparr>op_df := df\<rparr>" "df = op_df op' \<or> node_ok g df"
      using assms(3) [OF op] by blast
    moreover have "operation_ok g op'" using assms(1) \<open>op' \<in> _\<close> by (simp add: graph_wf_iff)
    ultimately show ?thesis using assms(2) by (auto simp: operation_ok_def node_ok_def cong: value_type.case_cong)
  qed
  moreover have "args_ok (g\<lparr>qg_operations := ops\<rparr>) row = args_ok g row" for row
    using assms(2) by (simp add: args_ok_def node_ok_def)
  ultimately show ?thesis using assms(1,2) by (simp add: graph_wf_iff)
qed

lemma compile_query_eq:
  assumes rt: "visits_in_order rt"
  shows "\<exists>r. compile_query rt q = Some r \<and> (\<forall>g. r = Inr g \<longrightarrow> graph_wf g)"
proof -
  obtain r s where run: "visitQuery rt q sql_visitor_new = (r, s)" by fastforce
  have "visitor_ok sql_visitor_new" using visitor_ok_new [of "[]"] by (simp add: sql_visitor_new_def)
  then have wf: "graph_wf (out_graph s)"
    using visitQuery_good [OF rt _ run] by (auto simp: step_ok_def visitor_ok_def)
  let ?ops = "qg_operations (out_graph s)" and ?gm = "qg_mapping (out_graph s)"
  let ?tagged = "fold tag_table [0..<length ?ops] ?ops"
  have len: "length ?gm = length ?ops" using wf by (simp add: graph_wf_iff)
  have "fillDFIds ?gm ?ops = Some (if \<exists>i \<in> set [0..<length ?ops]. dangling_child ?gm ?ops i then Inl UndefinedBehaviour else Inr ?tagged)"
    unfolding fillDFIds_def by (rule fillDFIds_from_eq [OF len]) auto
  moreover have "graph_wf ((out_graph s)\<lparr>qg_operations := ?tagged\<rparr>)"
    by (rule graph_wf_tagged [OF wf]) (use fold_tag_table_operation [of _ ?ops] in \<open>auto simp: node_ok_def\<close>)
  ultimately show ?thesis
    by (cases r) (auto simp: compile_query_def run)
qed

text \<open>
  C20. The compilation of every parse tree returns: the recursion of the tagging never runs on,
  and when no exception is thrown the graph that is printed is well-formed.
\<close>

theorem compile_query_returns:
  assumes "visits_in_order rt"
  shows "\<exists>r. compile_query rt q = Some r \<and> (\<forall>g. r = Inr g \<longrightarrow> graph_wf g)"
  by (rule compile_query_eq [OF assms])

theorem compile_query_returns_witness: "\<exists>r. compile_query example_runtime select_one = Some r"
  using compile_query_returns [OF example_runtime_in_order, of select_one] by blast

subsection \<open>Constructs without a visit function\<close>

definition act_fails :: "'a action \<Rightarrow> bool" where
  "act_fails m \<longleftrightarrow> (\<forall>s. \<exists>e. fst (m s) = Inl e)"

lemma act_fails_bind1: "act_fails m \<Longrightarrow> act_fails (act_bind m f)"
  unfolding act_fails_def act_bind_def by (auto split: prod.split sum.split) (metis fst_conv sum.distinct(1))

lemma act_fails_bind2: "(\<And>x. act_fails (f x)) \<Longrightarrow> act_fails (act_bind m f)"
  unfolding act_fails_def act_bind_def by (auto split: prod.split sum.split)

lemma act_fails_bind_pair: "(\<And>x y. act_fails (f x y)) \<Longrightarrow> act_fails (act_bind m (\<lambda>(x, y). f x y))"
  by (rule act_fails_bind2) auto

lemma act_fails_map: "m \<in> set ms \<Longrightarrow> act_fails m \<Longrightarrow> act_fails (act_map ms)"
  by (induction ms) (auto intro: act_fails_bind1 act_fails_bind2)

lemma act_fails_node: "act_fails m \<Longrightarrow> act_fails (act_node m)"
  unfolding act_node_def by (rule act_fails_bind1)

lemma act_fails_visitNode: "act_fails m \<Longrightarrow> act_fails (visitNode m)"
  unfolding visitNode_def by (rule act_fails_bind1)

text \<open>A visit whose last child is a token returns an empty \<open>std::any\<close>.\<close>

definition returns_empty :: "any_action \<Rightarrow> bool" where
  "returns_empty m \<longleftrightarrow> (\<forall>s r s'. m s = (Inr r, s') \<longrightarrow> r = None)"

lemma visitNode_empty: "returns_empty m \<Longrightarrow> act_fails (visitNode m)"
  unfolding returns_empty_def act_fails_def visitNode_def act_bind_def
  by (auto simp: act_throw_def split: prod.split sum.split option.split)

lemma children_empty:
  assumes "visits_in_order rt" and "ms \<noteq> []" and "returns_empty (last ms)"
  shows "returns_empty (visitChildren rt ms)"
  using assms(2,3)
proof (induction ms)
  case (Cons m ms)
  show ?case
  proof (cases "ms = []")
    case True
    then show ?thesis using assms(1) Cons.prems by (simp add: visits_in_order_def)
  next
    case False
    then have "returns_empty (visitChildren rt ms)" using Cons by simp
    moreover have "visitChildren rt (m # ms) = act_bind m (\<lambda>_. visitChildren rt ms)"
      using assms(1) False by (simp add: visits_in_order_def)
    ultimately show ?thesis
      by (auto simp: returns_empty_def act_bind_def split: prod.splits sum.splits)
  qed
qed simp

lemma terminal_empty: "returns_empty visit_terminal"
  by (simp add: returns_empty_def visit_terminal_def act_return_def)

lemma tokens_empty: "visits_in_order rt \<Longrightarrow> returns_empty (visit_tokens rt n)"
proof (cases n)
  case 0
  assume "visits_in_order rt"
  then show ?thesis using 0 by (simp add: visit_tokens_def visits_in_order_def returns_empty_def act_return_def)
next
  case (Suc k)
  assume "visits_in_order rt"
  then show ?thesis
    unfolding visit_tokens_def by (rule children_empty) (use Suc in \<open>simp_all add: terminal_empty last_replicate\<close>)
qed

lemma array_empty: "visits_in_order rt \<Longrightarrow> returns_empty (visit_array rt a)"
  unfolding visit_array_def
proof (rule children_empty)
  show "returns_empty (last (case a of ArrayQuery q \<Rightarrow> [visit_terminal, q, visit_terminal]
      | ArrayItems es \<Rightarrow> visit_terminal # concat (map (\<lambda>e. [e, visit_terminal]) es)))"
  proof (cases a)
    case (ArrayItems es)
    then show ?thesis by (cases es rule: rev_cases) (simp_all add: terminal_empty)
  qed (simp add: terminal_empty)
qed (auto split: array_expression.split)

text \<open>
  Whether a tree has one of these constructs where it is visited; the operand of \<open>IS NULL\<close> is not.
\<close>

definition statement_unsupported :: "(bool, bool) select_statement \<Rightarrow> bool" where
  "statement_unsupported st \<longleftrightarrow> True \<in> set1_select_statement st \<union> set2_select_statement st"

primrec unsupported :: "sql_expr \<Rightarrow> bool" and unsupported_query :: "query_expression \<Rightarrow> bool" where
  "unsupported (LiteralExpr l) = False"
| "unsupported (ParenthesizedExpr e) = unsupported e"
| "unsupported (SubqueryExpr q) = True"
| "unsupported (FunctionExpr f arg) = True"
| "unsupported (ColumnExpr t c) = False"
| "unsupported (CastExpr e ty) = True"
| "unsupported (MulDivExpr op l r) = (unsupported l \<or> unsupported r)"
| "unsupported (AddSubExpr op l r) = (unsupported l \<or> unsupported r)"
| "unsupported (ComparisonExpr l rs) = (unsupported l \<or> (\<exists>p \<in> set (map (map_prod id unsupported) rs). snd p))"
| "unsupported (IsNullExpr l op) = False"
| "unsupported (InExpr l op a) = True"
| "unsupported (LikeExpr op l r) = (unsupported l \<or> unsupported r)"
| "unsupported (BetweenExpr n l lo up) = (unsupported l \<or> unsupported lo \<or> unsupported up)"
| "unsupported (NotExpr op e) = unsupported e"
| "unsupported (AndExpr e es) = (unsupported e \<or> True \<in> set (map unsupported es))"
| "unsupported (XorExpr e es) = (unsupported e \<or> True \<in> set (map unsupported es))"
| "unsupported (OrExpr e es) = (unsupported e \<or> True \<in> set (map unsupported es))"
| "unsupported_query (QueryExpression sts) =
     (\<exists>st \<in> set (map (map_select_statement unsupported unsupported_query) sts). statement_unsupported st)"

abbreviation node_fails :: "any_action \<Rightarrow> bool" where
  "node_fails m \<equiv> act_fails (visitNode m)"

lemma binary_fails: "node_fails l \<or> node_fails r \<Longrightarrow> node_fails (visit_binary op l r)"
  unfolding visit_binary_def
  by (intro act_fails_visitNode act_fails_node) (auto intro: act_fails_bind1 act_fails_bind2)

lemma between_fails: "node_fails l \<or> node_fails lo \<or> node_fails up \<Longrightarrow> node_fails (visitBetweenExpr n l lo up)"
  unfolding visitBetweenExpr_def
  by (intro act_fails_visitNode act_fails_node) (auto intro: act_fails_bind1 act_fails_bind2)

lemma comparison_loop_fails: "p \<in> set rs \<Longrightarrow> node_fails (snd p) \<Longrightarrow> act_fails (comparison_loop l rs)"
  by (induction l rs rule: comparison_loop.induct) (auto intro: act_fails_bind1 act_fails_bind2)

lemma comparison_fails:
  "node_fails l \<or> (\<exists>p \<in> set rs. node_fails (snd p)) \<Longrightarrow> node_fails (visitComparisonExpr l rs)"
  unfolding visitComparisonExpr_def
  by (intro act_fails_visitNode act_fails_node)
    (auto intro: act_fails_bind1 act_fails_bind2 comparison_loop_fails)

lemma logic_fails: "node_fails m \<or> (\<exists>m \<in> set ms. node_fails m) \<Longrightarrow> node_fails (visit_logic op m ms)"
proof (intro act_fails_visitNode)
  assume "node_fails m \<or> (\<exists>m \<in> set ms. node_fails m)"
  then show "act_fails (visit_logic op m ms)"
    unfolding visit_logic_def
  proof (elim disjE bexE; intro act_fails_node)
    fix m' assume "m' \<in> set ms" "node_fails m'"
    then have "act_fails (act_map (map visitNode ms))" by (intro act_fails_map) auto
    then show "act_fails (act_bind (visitNode m) (\<lambda>first_id. act_bind (act_map (map visitNode ms)) (\<lambda>ids.
        if ids = [] then act_return first_id else append_any op (first_id # ids))))"
      by (intro act_fails_bind2 act_fails_bind1)
  qed (rule act_fails_bind1)
qed

lemma relation_fails: "m \<in> set_relation r \<Longrightarrow> node_fails m \<Longrightarrow> act_fails (visitRelation r)"
  unfolding visitRelation_def by (cases r) (auto intro!: act_fails_node act_fails_bind1)

lemma joins_fails:
  assumes "j \<in> set js" and "m \<in> set_relation (join_relation j) \<or> m = join_on j" and "node_fails m"
  shows "act_fails (visit_joins js)"
  using assms
proof (induction js)
  case (Cons j' js)
  show ?case
  proof (cases "j = j'")
    case True
    then consider "act_fails (visitRelation (join_relation j'))" | "node_fails (join_on j')"
      using Cons.prems(2,3) relation_fails by blast
    then show ?thesis
    proof cases
      case 1
      then show ?thesis by (auto intro: act_fails_bind1)
    next
      case 2
      then show ?thesis
        unfolding visit_joins.simps by - ((rule act_fails_bind1, assumption) | rule act_fails_bind2)+
    qed
  next
    case False
    then have "act_fails (visit_joins js)" using Cons by simp
    then show ?thesis
      unfolding visit_joins.simps by - ((rule act_fails_bind1, assumption) | rule act_fails_bind2)+
  qed
qed simp

lemma select_body_fails:
  assumes "m \<in> set1_select_statement st \<union> set2_select_statement st" and fails: "node_fails m"
  shows "act_fails (select_body st)"
proof -
  obtain els fr wh gr so li off where st: "st = SelectStatement els fr wh gr so li off" by (cases st)
  consider el where "el \<in> set els" "m \<in> set_select_element el"
    | base js where "fr = Some (base, js)" "m \<in> set_relation base"
    | base js j where "fr = Some (base, js)" "j \<in> set js" "m \<in> set_relation (join_relation j) \<or> m = join_on j"
    | "wh = Some m" | "m \<in> set gr" | d where "(m, d) \<in> set so" | "li = Some m" | "off = Some m"
  proof -
    have "m \<in> set1_join_clause j \<longleftrightarrow> m = join_on j" "m \<in> set2_join_clause j \<longleftrightarrow> m \<in> set_relation (join_relation j)" for j :: "(any_action, any_action) join_clause"
      by (cases j; simp)+
    then show thesis using assms(1) that by (fastforce simp: st prod_set_defs)
  qed
  then have "act_fails (act_map (map visit_element els)) \<or> act_fails (visit_from fr)
      \<or> act_fails (case wh of None \<Rightarrow> act_return [] | Some e \<Rightarrow> act_map [visitNode e])
      \<or> act_fails (act_map (map visitNode gr)) \<or> act_fails (act_map (map visit_sort_item so))
      \<or> act_fails (visit_optional li) \<or> act_fails (visit_optional off)"
  proof cases
    case 1
    then have "act_fails (visit_element el)"
      using fails by (auto simp: visit_element_def intro: act_fails_bind1 split: select_element.splits)
    then have "act_fails (act_map (map visit_element els))" using 1(1) by (intro act_fails_map) auto
    then show ?thesis by blast
  next
    case 2
    then have "act_fails (visit_from fr)"
      using fails relation_fails by (auto simp: visit_from_def intro!: act_fails_bind1 act_fails_visitNode)
    then show ?thesis by blast
  next
    case 3
    then have "act_fails (visit_joins js)" using fails joins_fails by blast
    then have "act_fails (visit_from fr)"
      unfolding visit_from_def 3(1) option.case prod.case
      by - ((rule act_fails_bind1, assumption) | rule act_fails_bind2)+
    then show ?thesis by blast
  next
    case 6
    then have "act_fails (act_map (map visit_sort_item so))"
      using fails by (intro act_fails_map [of "visit_sort_item (m, d)"]) (force, simp add: visit_sort_item_def act_fails_bind1)
    then show ?thesis by blast
  next
    case 5
    then have "act_fails (act_map (map visitNode gr))" using fails by (intro act_fails_map) auto
    then show ?thesis by blast
  qed (use fails in \<open>auto simp: visit_optional_def intro: act_fails_bind1\<close>)
  then show ?thesis
    unfolding select_body_def st select_statement.sel
    by (elim disjE) ((rule act_fails_bind1, assumption) | rule act_fails_bind_pair | rule act_fails_bind2)+
qed

lemma select_fails: "act_fails (select_body st) \<Longrightarrow> act_fails (visitSelectStatement st)"
  using act_fails_node [of "select_body st"]
  unfolding act_fails_def visitSelectStatement_def by (auto simp: Let_def split: prod.split) (metis fst_conv)

lemma query_fails: "m \<in> set ms \<Longrightarrow> node_fails m \<Longrightarrow> node_fails (visitQueryExpression ms)"
proof -
  assume "m \<in> set ms" "node_fails m"
  then have "act_fails (act_map (map visitNode ms))" by (intro act_fails_map [of "visitNode m"]) simp_all
  then show ?thesis
    unfolding visitQueryExpression_def by (intro act_fails_visitNode act_fails_node act_fails_bind1)
qed

lemma unsupported_fails:
  assumes rt: "visits_in_order rt"
  shows "unsupported e \<Longrightarrow> node_fails (visit_expr rt e)"
    and "unsupported_query q \<Longrightarrow> node_fails (visit_query_expression rt q)"
proof (induction e and q)
  case (SubqueryExpr q)
  show ?case by (simp, intro visitNode_empty children_empty [OF rt]) (simp_all add: terminal_empty)
next
  case (FunctionExpr f arg)
  show ?case by (simp, intro visitNode_empty children_empty [OF rt]) (simp_all add: terminal_empty)
next
  case (CastExpr e ty)
  show ?case by (simp, intro visitNode_empty children_empty [OF rt]) (simp_all add: tokens_empty [OF rt])
next
  case (InExpr e op a)
  show ?case by (simp, intro visitNode_empty children_empty [OF rt]) (simp_all add: array_empty [OF rt])
next
  case (ComparisonExpr e rs)
  then show ?case by (simp, intro comparison_fails) (fastforce simp: prod_set_defs)
next
  case (BetweenExpr n l lo up)
  then show ?case using between_fails by auto
next
  case (AndExpr e es)
  then show ?case using logic_fails [of "visit_expr rt e" "map (visit_expr rt) es"] by auto
next
  case (XorExpr e es)
  then show ?case using logic_fails [of "visit_expr rt e" "map (visit_expr rt) es"] by auto
next
  case (OrExpr e es)
  then show ?case using logic_fails [of "visit_expr rt e" "map (visit_expr rt) es"] by auto
next
  case (QueryExpression sts)
  let ?act = "\<lambda>st. map_select_statement (visit_expr rt) (visit_query_expression rt) st"
  obtain st where st: "st \<in> set sts" and un: "statement_unsupported (map_select_statement unsupported unsupported_query st)"
    using QueryExpression(3) by auto
  have "\<exists>m \<in> set1_select_statement (?act st) \<union> set2_select_statement (?act st). node_fails m"
    using un QueryExpression(1,2) [OF st] by (auto simp: statement_unsupported_def set_map_actions)
  then have "act_fails (visitSelectStatement (?act st))" using select_body_fails select_fails by blast
  then show ?case
    using st query_fails [of "visitSelectStatement (?act st)"] act_fails_visitNode by (auto simp: comp_def)
qed (auto intro!: binary_fails logic_fails act_fails_node act_fails_visitNode [OF act_fails_node] act_fails_bind1
    simp: visitParenthesizedExpr_def visitNotExpr_def)

text \<open>
  \<open>CAST\<close>, function calls and aggregates, \<open>IN\<close> and scalar subqueries have no visit function:
  their default visit returns the empty value of the last token, so an expression that
  contains one of them, or a query that does anywhere but under \<open>IS NULL\<close>, never compiles.
\<close>

theorem unsupported_never_compiles:
  assumes "visits_in_order rt" and "unsupported_query q"
  shows "\<exists>e. compile_query rt (Query ctes (SelectStmt q)) = Some (Inl e)"
proof -
  have "act_fails (visitNode (visit_statement rt (SelectStmt q)))"
    using unsupported_fails(2) [OF assms] by (simp add: visit_statement_def)
  then have "act_fails (act_node (act_bind (visit_ctes rt ctes) (\<lambda>_. visitNode (visit_statement rt (SelectStmt q)))))"
    by (intro act_fails_node act_fails_bind2)
  then obtain e where "fst (act_node (act_bind (visit_ctes rt ctes) (\<lambda>_. visitNode (visit_statement rt (SelectStmt q))))
      (sql_visitor_new\<lparr>withTableContext := []\<rparr>)) = Inl e"
    unfolding act_fails_def by blast
  then have "fst (visitQuery rt (Query ctes (SelectStmt q)) sql_visitor_new) = Inl e"
    by (simp add: visitQuery_def case_prod_beta)
  then show ?thesis by (auto simp: compile_query_def split: prod.split)
qed

definition select_max :: query_expression where
  "select_max = QueryExpression [SelectStatement [ElementExpr (FunctionExpr ''MAX'' (Some (LiteralExpr (IntLit ''1'')))) None] None None [] [] None None]"

theorem unsupported_never_compiles_witness:
  "\<exists>e. compile_query example_runtime (Query [] (SelectStmt select_max)) = Some (Inl e)"
  by (rule unsupported_never_compiles [OF example_runtime_in_order])
    (simp add: select_max_def statement_unsupported_def)

subsection \<open>The empty schema\<close>

lemma select_from_unknown:
  assumes "findIdent t [fileTableContext s, withTableContext s] = NODE_NONE"
    and "find (\<lambda>schema. ts_name schema = t) (db_schema s) = None"
    and "select_from st = Some (NamedRelation t a, js)"
  shows "fst (visitSelectStatement st s) = Inl (CompileError (''Unknown table name: '' @ t))"
  using assms
  by (simp add: visitSelectStatement_def select_body_def visit_from_def act_node_def act_bind_def
      visitRelation_def visitNode_def findOrInsertTable_def)

text \<open>
  \<open>parseAndPrintSQL\<close> never gives the visitor a schema, so every select from a table that is
  not a common table expression throws, whatever else it says.
\<close>

theorem no_table_without_schema:
  assumes "select_from st = Some (NamedRelation t a, js)"
  shows "compile_query rt (Query [] (SelectStmt (QueryExpression (st # sts)))) =
    Some (Inl (CompileError (''Unknown table name: '' @ t)))"
proof -
  let ?st = "map_select_statement (visit_expr rt) (visit_query_expression rt) st"
  let ?s = "sql_visitor_new\<lparr>withTableContext := []\<rparr>"
  have "select_from ?st = Some (NamedRelation t a, map (map_join_clause (visit_expr rt) (visit_query_expression rt)) js)"
    using assms by (cases st) simp
  then have "fst (visitSelectStatement ?st ?s) = Inl (CompileError (''Unknown table name: '' @ t))"
    by (rule select_from_unknown [rotated 2]) (simp_all add: sql_visitor_new_def)
  then show ?thesis
    by (cases "visitSelectStatement ?st ?s")
      (simp add: compile_query_def visitQuery_def visit_statement_def visitQueryExpression_def act_node_def
        visitNode_def act_bind_def act_return_def)
qed

theorem no_table_without_schema_witness:
  "compile_query example_runtime (Query [] (SelectStmt (QueryExpression
     [SelectStatement [GlobalStar] (Some (NamedRelation ''users'' None, [])) None [] [] None None]))) =
   Some (Inl (CompileError ''Unknown table name: users''))"
  by (subst no_table_without_schema) auto

end
