(* ===== verification/Sql_Meaning.thy ===== *)
theory Sql_Meaning
  imports Sql_Compile Query_Rules
begin

text \<open>
  Correctness of the compilation of expressions: the value of an expression is defined on the
  parse tree, with three-valued logic, and the node that the visitor returns has that value in
  the graph it leaves.
\<close>

subsection \<open>The value of an expression\<close>

text \<open>
  What a value depends on: the meaning of the operators, the columns in scope by their names,
  and how the constants of the graph are read.
\<close>

record 'a meaning =
  operators :: "'a interp"
  columns :: "string \<rightharpoonup> 'a qval"
  int_value :: "64 word \<Rightarrow> 'a"
  float_value :: "64 word \<Rightarrow> 'a"
  text_value :: "string \<Rightarrow> 'a"

definition apply_op :: "'a meaning \<Rightarrow> column_operation \<Rightarrow> 'a qval list \<Rightarrow> 'a qval" where
  "apply_op M op vs = sem (operators M) \<lparr>op_op = op, op_name = NODE_NONE, op_const_id = NODE_NONE,
     op_df = NODE_NONE, op_type = Ty_Any, op_sequence = SEQ_SINGLE\<rparr> vs"

definition literal_value :: "'a meaning \<Rightarrow> sql_runtime \<Rightarrow> literal \<Rightarrow> 'a qval option" where
  "literal_value M rt l = (case l of
      StringLit text \<Rightarrow> Some (Val (text_value M (unescapeSqlString (take (length text - 2) (drop 1 text)))))
    | IntLit text \<Rightarrow> (case stoll text of Inl e \<Rightarrow> None | Inr x \<Rightarrow> Some (Val (int_value M x)))
    | FloatLit text \<Rightarrow> (case stod rt text of Inl e \<Rightarrow> None | Inr x \<Rightarrow> Some (Val (float_value M x)))
    | NullLit \<Rightarrow> Some QNull
    | TrueLit \<Rightarrow> Some (Truth True)
    | FalseLit \<Rightarrow> Some (Truth False))"

definition operator_value :: "'a meaning \<Rightarrow> string \<Rightarrow> 'a qval option list \<Rightarrow> 'a qval option" where
  "operator_value M text vs =
     (case (opMap (normalizeOp text), those vs) of (Some op, Some vs') \<Rightarrow> Some (apply_op M op vs') | _ \<Rightarrow> None)"

text \<open>A chain of comparisons compares neighbours, and holds when all of them do.\<close>

fun chain_values :: "'a meaning \<Rightarrow> 'a qval \<Rightarrow> (string \<times> 'a qval option) list \<Rightarrow> 'a qval list option" where
  "chain_values M v [] = Some []"
| "chain_values M v ((op, w) # rest) =
     (case (opMap op, w) of
        (Some p, Some w') \<Rightarrow> map_option ((#) (apply_op M p [v, w'])) (chain_values M w' rest)
      | _ \<Rightarrow> None)"

definition comparison_value :: "'a meaning \<Rightarrow> 'a qval option \<Rightarrow> (string \<times> 'a qval option) list \<Rightarrow> 'a qval option" where
  "comparison_value M v rs =
     (case v of None \<Rightarrow> None
      | Some v' \<Rightarrow> (case chain_values M v' rs of
            Some [c] \<Rightarrow> Some c
          | Some (c # cs) \<Rightarrow> Some (of_tri (and3 (map tri_of (c # cs))))
          | _ \<Rightarrow> None))"

definition between_value :: "'a meaning \<Rightarrow> bool \<Rightarrow> 'a qval option \<Rightarrow> 'a qval option \<Rightarrow> 'a qval option \<Rightarrow> 'a qval option" where
  "between_value M negated x lo up =
     (case (x, lo, up) of
        (Some x', Some lo', Some up') \<Rightarrow>
          (let inside = and3 [tri_of (apply_op M OP_LTE [lo', x']), tri_of (apply_op M OP_LTE [x', up'])]
           in Some (of_tri (if negated then not3 inside else inside)))
      | _ \<Rightarrow> None)"

definition logic_value :: "(tri list \<Rightarrow> tri) \<Rightarrow> 'a qval option \<Rightarrow> 'a qval option list \<Rightarrow> 'a qval option" where
  "logic_value f v vs =
     (case (v, those vs) of
        (Some v', Some vs') \<Rightarrow> Some (if vs' = [] then v' else of_tri (f (map tri_of (v' # vs'))))
      | _ \<Rightarrow> None)"

text \<open>An expression that does not compile has no value, and neither is \<open>IS NULL\<close> given one.\<close>

primrec expr_value :: "'a meaning \<Rightarrow> sql_runtime \<Rightarrow> sql_expr \<Rightarrow> 'a qval option"
  and query_value :: "'a meaning \<Rightarrow> sql_runtime \<Rightarrow> query_expression \<Rightarrow> 'a qval option" where
  "expr_value M rt (LiteralExpr l) = literal_value M rt l"
| "expr_value M rt (ParenthesizedExpr e) = expr_value M rt e"
| "expr_value M rt (SubqueryExpr q) = None"
| "expr_value M rt (FunctionExpr f arg) = None"
| "expr_value M rt (ColumnExpr t c) = columns M (case t of None \<Rightarrow> c | Some t' \<Rightarrow> t' @ ''.'' @ c)"
| "expr_value M rt (CastExpr e ty) = None"
| "expr_value M rt (MulDivExpr op l r) = operator_value M op [expr_value M rt l, expr_value M rt r]"
| "expr_value M rt (AddSubExpr op l r) = operator_value M op [expr_value M rt l, expr_value M rt r]"
| "expr_value M rt (ComparisonExpr l rs) = comparison_value M (expr_value M rt l) (map (map_prod id (expr_value M rt)) rs)"
| "expr_value M rt (IsNullExpr l op) = None"
| "expr_value M rt (InExpr l op a) = None"
| "expr_value M rt (LikeExpr op l r) = operator_value M op [expr_value M rt l, expr_value M rt r]"
| "expr_value M rt (BetweenExpr n l lo up) = between_value M n (expr_value M rt l) (expr_value M rt lo) (expr_value M rt up)"
| "expr_value M rt (NotExpr op e) = operator_value M op [expr_value M rt e]"
| "expr_value M rt (AndExpr e es) = logic_value and3 (expr_value M rt e) (map (expr_value M rt) es)"
| "expr_value M rt (XorExpr e es) = logic_value xor3 (expr_value M rt e) (map (expr_value M rt) es)"
| "expr_value M rt (OrExpr e es) = logic_value or3 (expr_value M rt e) (map (expr_value M rt) es)"
| "query_value M rt (QueryExpression sts) = None"

subsection \<open>Actions that compute values\<close>

definition rw_of :: "query_graph \<Rightarrow> rw_state" where
  "rw_of g = \<lparr>rw_mapping = qg_mapping g, rw_operations = qg_operations g\<rparr>"

definition has_value :: "'a meaning \<Rightarrow> query_graph \<Rightarrow> node \<Rightarrow> 'a qval \<Rightarrow> bool" where
  "has_value M g n v \<longleftrightarrow> (\<exists>k. eval k (operators M) (rw_of g) n = Some v)"

definition holds :: "'a meaning \<Rightarrow> query_graph \<Rightarrow> (node \<times> 'a qval) set \<Rightarrow> bool" where
  "holds M g A \<longleftrightarrow> (\<forall>(n, v) \<in> A. has_value M g n v)"

text \<open>The operators read the constants of the graph, and the two truth literals.\<close>

definition reads_constants :: "'a meaning \<Rightarrow> query_graph \<Rightarrow> bool" where
  "reads_constants M g \<longleftrightarrow>
     (\<forall>i < length (int64_constants g). operators M OP_CONST NODE_NONE (int i) Ty_Int64 [] = Val (int_value M (int64_constants g ! i)))
   \<and> (\<forall>i < length (float64_constants g). operators M OP_CONST NODE_NONE (int i) Ty_Float64 [] = Val (float_value M (float64_constants g ! i)))
   \<and> (\<forall>i < length (string_constants g). operators M OP_CONST NODE_NONE (int i) Ty_String [] = Val (text_value M (string_constants g ! i)))
   \<and> operators M OP_TRUE NODE_NONE NODE_NONE Ty_Bool [] = Truth True
   \<and> operators M OP_FALSE NODE_NONE NODE_NONE Ty_Bool [] = Truth False"

definition in_scope :: "'a meaning \<Rightarrow> sql_visitor \<Rightarrow> bool" where
  "in_scope M s \<longleftrightarrow> (\<forall>x v. columns M x = Some v \<longrightarrow>
     (\<exists>n. map_of (exprVarContext s) x = Some n \<and> n \<noteq> NODE_NONE \<and> holds M (out_graph s) {(n, v)}))"

definition appended :: "sql_visitor \<Rightarrow> sql_visitor \<Rightarrow> bool" where
  "appended s s' \<longleftrightarrow>
     rw_extends (rw_of (out_graph s)) (rw_of (out_graph s')) \<and> rw_ok (rw_of (out_graph s'))
   \<and> (\<exists>xs. int64_constants (out_graph s') = int64_constants (out_graph s) @ xs)
   \<and> (\<exists>xs. float64_constants (out_graph s') = float64_constants (out_graph s) @ xs)
   \<and> (\<exists>xs. string_constants (out_graph s') = string_constants (out_graph s) @ xs)
   \<and> exprVarContext s' = exprVarContext s"

definition computes :: "'a meaning \<Rightarrow> (node \<times> 'a qval) set \<Rightarrow> 'b action \<Rightarrow> ('b \<Rightarrow> bool) \<Rightarrow> ('b \<Rightarrow> (node \<times> 'a qval) set) \<Rightarrow> bool" where
  "computes M A m Q res \<longleftrightarrow>
     (\<forall>s. rw_ok (rw_of (out_graph s)) \<longrightarrow> in_scope M s \<longrightarrow>
        (\<exists>x s'. m s = (Inr x, s') \<and> appended s s' \<and> Q x \<and>
           (reads_constants M (out_graph s') \<longrightarrow> holds M (out_graph s) A \<longrightarrow> holds M (out_graph s') (res x))))"

lemma holds_simps [simp]:
  "holds M g {}" "holds M g (insert (n, v) A) \<longleftrightarrow> has_value M g n v \<and> holds M g A" "holds M g (A \<union> B) \<longleftrightarrow> holds M g A \<and> holds M g B"
  by (simp_all add: holds_def ball_Un)

lemma holds_subset: "A \<subseteq> B \<Longrightarrow> holds M g B \<Longrightarrow> holds M g A"
  by (auto simp: holds_def)

lemma holds_appended: "appended s s' \<Longrightarrow> holds M (out_graph s) A \<Longrightarrow> holds M (out_graph s') A"
  using eval_extends unfolding appended_def holds_def has_value_def by fast

lemma appended_refl: "rw_ok (rw_of (out_graph s)) \<Longrightarrow> appended s s"
  by (simp add: appended_def)

lemma appended_trans: "appended a b \<Longrightarrow> appended b c \<Longrightarrow> appended a c"
  using rw_extends_trans by (auto simp: appended_def)

lemma all_nth_prefix: "\<forall>i < length (xs @ ys). P i ((xs @ ys) ! i) \<Longrightarrow> \<forall>i < length xs. P i (xs ! i)"
  by (metis length_append nth_append trans_less_add1)

lemma reads_appended:
  assumes "appended s s'" and reads: "reads_constants M (out_graph s')"
  shows "reads_constants M (out_graph s)"
proof -
  obtain xs ys zs where c: "int64_constants (out_graph s') = int64_constants (out_graph s) @ xs"
    "float64_constants (out_graph s') = float64_constants (out_graph s) @ ys"
    "string_constants (out_graph s') = string_constants (out_graph s) @ zs"
    using assms(1) by (auto simp: appended_def)
  have "\<forall>i < length (int64_constants (out_graph s)). operators M OP_CONST NODE_NONE (int i) Ty_Int64 [] =
      Val (int_value M (int64_constants (out_graph s) ! i))"
    using reads unfolding reads_constants_def c
    by (elim conjE) (rule all_nth_prefix [where P = "\<lambda>i x. operators M OP_CONST NODE_NONE (int i) Ty_Int64 [] = Val (int_value M x)"])
  moreover have "\<forall>i < length (float64_constants (out_graph s)). operators M OP_CONST NODE_NONE (int i) Ty_Float64 [] =
      Val (float_value M (float64_constants (out_graph s) ! i))"
    using reads unfolding reads_constants_def c
    by (elim conjE) (rule all_nth_prefix [where P = "\<lambda>i x. operators M OP_CONST NODE_NONE (int i) Ty_Float64 [] = Val (float_value M x)"])
  moreover have "\<forall>i < length (string_constants (out_graph s)). operators M OP_CONST NODE_NONE (int i) Ty_String [] =
      Val (text_value M (string_constants (out_graph s) ! i))"
    using reads unfolding reads_constants_def c
    by (elim conjE) (rule all_nth_prefix [where P = "\<lambda>i x. operators M OP_CONST NODE_NONE (int i) Ty_String [] = Val (text_value M x)"])
  ultimately show ?thesis using reads unfolding reads_constants_def by simp
qed

lemma in_scope_appended:
  assumes ap: "appended s s'" and sc: "in_scope M s"
  shows "in_scope M s'"
  unfolding in_scope_def
proof (intro allI impI)
  fix x v assume "columns M x = Some v"
  then obtain n where n: "map_of (exprVarContext s) x = Some n" "n \<noteq> NODE_NONE" "holds M (out_graph s) {(n, v)}"
    using sc unfolding in_scope_def by blast
  have "map_of (exprVarContext s') x = Some n" using n(1) ap by (simp add: appended_def)
  then show "\<exists>n. map_of (exprVarContext s') x = Some n \<and> n \<noteq> NODE_NONE \<and> holds M (out_graph s') {(n, v)}"
    using n(2) holds_appended [OF ap n(3)] by blast
qed

lemma computesI:
  assumes "\<And>s. rw_ok (rw_of (out_graph s)) \<Longrightarrow> in_scope M s \<Longrightarrow>
    \<exists>x s'. m s = (Inr x, s') \<and> appended s s' \<and> Q x \<and>
      (reads_constants M (out_graph s') \<longrightarrow> holds M (out_graph s) A \<longrightarrow> holds M (out_graph s') (res x))"
  shows "computes M A m Q res"
  using assms by (simp add: computes_def)

lemma computesD:
  assumes "computes M A m Q res" and "rw_ok (rw_of (out_graph s))" and "in_scope M s"
  obtains x s' where "m s = (Inr x, s')" "appended s s'" "Q x"
    "reads_constants M (out_graph s') \<Longrightarrow> holds M (out_graph s) A \<Longrightarrow> holds M (out_graph s') (res x)"
  using assms by (auto simp: computes_def)

lemma computes_bind:
  assumes m: "computes M A m Q res" and f: "\<And>x. Q x \<Longrightarrow> computes M (res x \<union> A) (f x) Q' res'"
  shows "computes M A (act_bind m f) Q' res'"
proof (rule computesI)
  fix s assume ok: "rw_ok (rw_of (out_graph s))" and sc: "in_scope M s"
  obtain x s1 where 1: "m s = (Inr x, s1)" "appended s s1" "Q x"
    "reads_constants M (out_graph s1) \<Longrightarrow> holds M (out_graph s) A \<Longrightarrow> holds M (out_graph s1) (res x)"
    using computesD [OF m ok sc] by blast
  have "rw_ok (rw_of (out_graph s1))" using 1(2) by (simp add: appended_def)
  then obtain y s2 where 2: "f x s1 = (Inr y, s2)" "appended s1 s2" "Q' y"
    "reads_constants M (out_graph s2) \<Longrightarrow> holds M (out_graph s1) (res x \<union> A) \<Longrightarrow> holds M (out_graph s2) (res' y)"
    using computesD [OF f [OF 1(3)]] in_scope_appended [OF 1(2) sc] by blast
  have "holds M (out_graph s2) (res' y)" if "reads_constants M (out_graph s2)" "holds M (out_graph s) A"
    using 2(4) [OF that(1)] 1(4) [OF reads_appended [OF 2(2) that(1)] that(2)] holds_appended [OF 1(2) that(2)] by simp
  then show "\<exists>y s2. act_bind m f s = (Inr y, s2) \<and> appended s s2 \<and> Q' y \<and>
      (reads_constants M (out_graph s2) \<longrightarrow> holds M (out_graph s) A \<longrightarrow> holds M (out_graph s2) (res' y))"
    using 1(1) 2(1,3) appended_trans [OF 1(2) 2(2)] by (simp add: act_bind_def)
qed

lemma computes_return: "Q x \<Longrightarrow> res x \<subseteq> A \<Longrightarrow> computes M A (act_return x) Q res"
  by (rule computesI) (auto simp: act_return_def appended_refl intro: holds_subset)

lemma computes_weaken: "computes M A m Q res \<Longrightarrow> A \<subseteq> B \<Longrightarrow> computes M B m Q res"
  unfolding computes_def using holds_subset by metis


subsection \<open>The steps of the visitor\<close>

lemma eval_mono: "eval k I g n = Some v \<Longrightarrow> k \<le> j \<Longrightarrow> eval j I g n = Some v"
  by (induction j) (auto simp: le_Suc_eq simp del: eval.simps intro: eval_Suc)

lemma holds_list:
  assumes "length ns = length vs" and "holds M g (set (zip ns vs))"
  shows "\<exists>k. map (eval k (operators M) (rw_of g)) ns = map Some vs"
  using assms
proof (induction ns vs rule: list_induct2)
  case (Cons n ns v vs)
  have IH: "\<exists>k. map (eval k (operators M) (rw_of g)) ns = map Some vs" using Cons by simp
  obtain k where k: "eval k (operators M) (rw_of g) n = Some v" using Cons.prems by (auto simp: has_value_def)
  obtain j where j: "map (eval j (operators M) (rw_of g)) ns = map Some vs" using IH by blast
  have "map (eval (k + j) (operators M) (rw_of g)) ns = map Some vs"
    by (rule map_eq_map_Some_mono [OF j], erule eval_mono) simp
  then show ?case using eval_mono [OF k, of "k + j"] by (intro exI [of _ "k + j"]) (simp del: eval.simps)
qed simp

lemma rw_of_push: "rw_of (snd (push_node op row g)) = rw_append op row (rw_of g)"
  by (simp add: rw_of_def push_node_def rw_append_def)

lemma holds_push:
  assumes "rw_ok (rw_of g)" and "length row = length vs" and "holds M g (set (zip row vs))"
  shows "holds M (snd (push_node op row g)) {(fst (push_node op row g), sem (operators M) op vs)}"
proof -
  obtain k where k: "map (eval k (operators M) (rw_of g)) row = map Some vs" using holds_list [OF assms(2,3)] by blast
  have "fst (push_node op row g) = int (length (rw_operations (rw_of g)))" by (simp add: push_node_def rw_of_def)
  then have "eval (Suc k) (operators M) (rw_of (snd (push_node op row g))) (fst (push_node op row g)) = Some (sem (operators M) op vs)"
    using eval_append [OF assms(1) k, of op] by (simp only: rw_of_push)
  then show ?thesis by (simp add: has_value_def del: eval.simps) (rule exI)
qed

lemma sem_anonymous:
  "sem I op vs = sem I op' vs" if "op_op op = op_op op'" "op_name op = op_name op'" "op_const_id op = op_const_id op'" "op_type op = op_type op'"
  using that by (simp add: sem_def)

lemma appended_push:
  assumes "rw_ok (rw_of (out_graph s))" and "s' = s\<lparr>out_graph := snd (push_node op row g)\<rparr>"
    and "rw_of g = rw_of (out_graph s)"
    and "\<exists>xs. int64_constants g = int64_constants (out_graph s) @ xs"
    and "\<exists>xs. float64_constants g = float64_constants (out_graph s) @ xs"
    and "\<exists>xs. string_constants g = string_constants (out_graph s) @ xs"
  shows "appended s s'"
  unfolding appended_def assms(2)
  using assms(1,3-6) by (simp add: rw_of_push, simp add: push_node_def)

lemma computes_push:
  assumes "length row = length vs" and "set (zip row vs) \<subseteq> A"
  shows "computes M A (act_append (push_node op row)) (\<lambda>_. True) (\<lambda>n. {(n, sem (operators M) op vs)})"
proof (rule computesI)
  fix s :: sql_visitor assume ok: "rw_ok (rw_of (out_graph s))"
  let ?p = "push_node op row (out_graph s)"
  have "act_append (push_node op row) s = (Inr (fst ?p), s\<lparr>out_graph := snd ?p\<rparr>)"
    by (simp add: act_append_def push_node_def)
  moreover have "appended s (s\<lparr>out_graph := snd ?p\<rparr>)" by (rule appended_push [OF ok refl]) simp_all
  moreover have "holds M (snd ?p) {(fst ?p, sem (operators M) op vs)}" if "holds M (out_graph s) A"
    by (rule holds_push [OF ok assms(1)]) (rule holds_subset [OF assms(2) that])
  ultimately show "\<exists>x s'. act_append (push_node op row) s = (Inr x, s') \<and> appended s s' \<and> True \<and>
      (reads_constants M (out_graph s') \<longrightarrow> holds M (out_graph s) A \<longrightarrow> holds M (out_graph s') {(x, sem (operators M) op vs)})"
    by auto
qed

lemma computes_append_any:
  assumes "length row = length vs" and "set (zip row vs) \<subseteq> A"
  shows "computes M A (append_any op row) (\<lambda>_. True) (\<lambda>n. {(n, apply_op M op vs)})"
  using computes_push [OF assms, of M "\<lparr>op_op = op, op_name = NODE_NONE, op_const_id = NODE_NONE, op_df = NODE_NONE,
      op_type = Ty_Any, op_sequence = SEQ_SINGLE\<rparr>"]
  unfolding append_any_def apply_op_def appendNode_def [abs_def] .

lemma computes_node:
  "computes M A m (\<lambda>_. True) (\<lambda>n. {(n, v)}) \<Longrightarrow>
   computes M A (act_node m) (\<lambda>r. \<exists>n. r = Some n) (\<lambda>r. {(the r, v)})"
  unfolding act_node_def by (erule computes_bind) (rule computes_return, auto)

lemma computes_visitNode:
  "computes M A m (\<lambda>r. \<exists>n. r = Some n) (\<lambda>r. {(the r, v)}) \<Longrightarrow>
   computes M A (visitNode m) (\<lambda>_. True) (\<lambda>n. {(n, v)})"
  unfolding visitNode_def by (erule computes_bind) (auto intro: computes_return)

definition any_computes :: "'a meaning \<Rightarrow> any_action \<Rightarrow> 'a qval \<Rightarrow> bool" where
  "any_computes M m v \<longleftrightarrow> (\<forall>A. computes M A m (\<lambda>r. \<exists>n. r = Some n) (\<lambda>r. {(the r, v)}))"

lemma any_computes_nodeI: "(\<And>A. computes M A m (\<lambda>_. True) (\<lambda>n. {(n, v)})) \<Longrightarrow> any_computes M (act_node m) v"
  by (simp add: any_computes_def computes_node)

lemma any_computes_visit: "any_computes M m v \<Longrightarrow> computes M A (visitNode m) (\<lambda>_. True) (\<lambda>n. {(n, v)})"
  by (simp add: any_computes_def computes_visitNode)

lemma computes_map:
  assumes "list_all2 (any_computes M) ms vs"
  shows "computes M A (act_map (map visitNode ms)) (\<lambda>ns. length ns = length vs) (\<lambda>ns. set (zip ns vs))"
  using assms
proof (induction ms vs arbitrary: A rule: list_all2_induct)
  case (Cons m ms v vs)
  show ?case
    unfolding list.map act_map.simps
    by (rule computes_bind [OF any_computes_visit [OF Cons(1)]], rule computes_bind [OF Cons(3)], rule computes_return) auto
qed (simp add: computes_return)

lemma those_map_list_all2: "those (map f xs) = Some ys \<longleftrightarrow> list_all2 (\<lambda>x y. f x = Some y) xs ys"
  by (induction xs arbitrary: ys) (auto simp: list_all2_Cons1 split: option.splits)

lemma computes_operator:
  assumes "length row = length vs" and "set (zip row vs) \<subseteq> A" and "opMap (normalizeOp text) = Some op"
  shows "computes M A (appendOperation text row) (\<lambda>_. True) (\<lambda>n. {(n, apply_op M op vs)})"
  using computes_append_any [OF assms(1,2)] assms(3) by (simp add: appendOperation_def append_any_def)

subsection \<open>Expressions\<close>

lemma tokens_return:
  assumes "visits_in_order rt"
  shows "visit_tokens rt n = act_return None"
  unfolding visit_tokens_def
proof (induction n)
  case (Suc n)
  have "act_bind visit_terminal (\<lambda>_. act_return None) = act_return None"
    by (simp add: fun_eq_iff act_bind_def visit_terminal_def act_return_def)
  then show ?case
    using Suc assms by (cases n) (simp_all add: visits_in_order_def visit_terminal_def)
qed (use assms in \<open>simp add: visits_in_order_def\<close>)

lemma children_return:
  assumes "visits_in_order rt" and "\<forall>m \<in> set ms. m = act_return None"
  shows "visitChildren rt ms = act_return None"
proof -
  have "ms = replicate (length ms) visit_terminal"
    using assms(2) by (simp add: visit_terminal_def list_eq_iff_nth_eq)
  then show ?thesis using tokens_return [OF assms(1), of "length ms"] by (simp add: visit_tokens_def)
qed

lemma bind_return [simp]: "act_bind (act_return x) f = f x"
  by (simp add: fun_eq_iff act_bind_def act_return_def)

lemma appended_constant:
  assumes "rw_ok (rw_of (out_graph s))" and "rw_of g = rw_of (out_graph s)"
    and "int64_constants g = int64_constants (out_graph s) @ xs"
    and "float64_constants g = float64_constants (out_graph s) @ ys"
    and "string_constants g = string_constants (out_graph s) @ zs"
  shows "appended s (s\<lparr>out_graph := snd (push_node op row g)\<rparr>)"
  by (rule appended_push [OF assms(1) refl assms(2)]) (use assms(3-5) in blast)+

lemma computes_constant:
  assumes push: "\<And>g. f g = push_node (op g) [] (upd g)"
    and same: "\<And>g. rw_of (upd g) = rw_of g"
    and ap: "\<And>s. rw_ok (rw_of (out_graph s)) \<Longrightarrow> appended s (s\<lparr>out_graph := snd (f (out_graph s))\<rparr>)"
    and v: "\<And>g. reads_constants M (snd (f g)) \<Longrightarrow> sem (operators M) (op g) [] = v"
  shows "computes M A (act_append f) (\<lambda>_. True) (\<lambda>n. {(n, v)})"
proof (rule computesI)
  fix s :: sql_visitor assume ok: "rw_ok (rw_of (out_graph s))"
  let ?g = "out_graph s"
  have "act_append f s = (Inr (fst (f ?g)), s\<lparr>out_graph := snd (f ?g)\<rparr>)" by (simp add: act_append_def case_prod_beta)
  moreover have "has_value M (snd (f ?g)) (fst (f ?g)) v" if "reads_constants M (snd (f ?g))"
  proof -
    have "holds M (snd (f ?g)) {(fst (f ?g), sem (operators M) (op ?g) [])}"
      unfolding push by (rule holds_push) (use ok same in simp_all)
    then show ?thesis using v [OF that] by simp
  qed
  ultimately show "\<exists>x s'. act_append f s = (Inr x, s') \<and> appended s s' \<and> True \<and>
      (reads_constants M (out_graph s') \<longrightarrow> holds M (out_graph s) A \<longrightarrow> holds M (out_graph s') {(x, v)})"
    using ap [OF ok] by simp
qed

lemma computes_int: "computes M A (act_append (appendInt64Constant x)) (\<lambda>_. True) (\<lambda>n. {(n, Val (int_value M x))})"
proof (rule computes_constant)
  show "appendInt64Constant x g = push_node \<lparr>op_op = OP_CONST, op_name = NODE_NONE, op_const_id = int (length (int64_constants g)),
      op_df = 0, op_type = Ty_Int64, op_sequence = SEQ_SINGLE\<rparr> [] (g\<lparr>int64_constants := int64_constants g @ [x]\<rparr>)" for g
    by (simp add: appendInt64Constant_def)
  show "appended s (s\<lparr>out_graph := snd (appendInt64Constant x (out_graph s))\<rparr>)" if "rw_ok (rw_of (out_graph s))" for s
    unfolding appendInt64Constant_def by (rule appended_constant [OF that, where ys = "[]" and zs = "[]"]) (simp_all add: rw_of_def)
qed (auto simp: rw_of_def appendInt64Constant_def push_node_def reads_constants_def sem_def Let_def)

lemma computes_float: "computes M A (act_append (appendFloat64Constant x)) (\<lambda>_. True) (\<lambda>n. {(n, Val (float_value M x))})"
proof (rule computes_constant)
  show "appendFloat64Constant x g = push_node \<lparr>op_op = OP_CONST, op_name = NODE_NONE, op_const_id = int (length (float64_constants g)),
      op_df = 0, op_type = Ty_Float64, op_sequence = SEQ_SINGLE\<rparr> [] (g\<lparr>float64_constants := float64_constants g @ [x]\<rparr>)" for g
    by (simp add: appendFloat64Constant_def)
  show "appended s (s\<lparr>out_graph := snd (appendFloat64Constant x (out_graph s))\<rparr>)" if "rw_ok (rw_of (out_graph s))" for s
    unfolding appendFloat64Constant_def by (rule appended_constant [OF that, where xs = "[]" and zs = "[]"]) (simp_all add: rw_of_def)
qed (auto simp: rw_of_def appendFloat64Constant_def push_node_def reads_constants_def sem_def Let_def)

lemma computes_text: "computes M A (act_append (appendStringConstant x)) (\<lambda>_. True) (\<lambda>n. {(n, Val (text_value M x))})"
proof (rule computes_constant)
  show "appendStringConstant x g = push_node \<lparr>op_op = OP_CONST, op_name = NODE_NONE, op_const_id = int (length (string_constants g)),
      op_df = 0, op_type = Ty_String, op_sequence = SEQ_SINGLE\<rparr> [] (g\<lparr>string_constants := string_constants g @ [x]\<rparr>)" for g
    by (simp add: appendStringConstant_def)
  show "appended s (s\<lparr>out_graph := snd (appendStringConstant x (out_graph s))\<rparr>)" if "rw_ok (rw_of (out_graph s))" for s
    unfolding appendStringConstant_def by (rule appended_constant [OF that, where xs = "[]" and ys = "[]"]) (simp_all add: rw_of_def)
qed (auto simp: rw_of_def appendStringConstant_def push_node_def reads_constants_def sem_def Let_def)

lemma computes_keyword:
  assumes "\<And>g. reads_constants M g \<Longrightarrow> sem (operators M) \<lparr>op_op = op, op_name = NODE_NONE, op_const_id = NODE_NONE,
    op_df = 0, op_type = ty, op_sequence = SEQ_SINGLE\<rparr> [] = v"
  shows "computes M A (act_append (appendNode 0 op ty [])) (\<lambda>_. True) (\<lambda>n. {(n, v)})"
proof (rule computes_constant)
  show "appendNode 0 op ty [] g = push_node \<lparr>op_op = op, op_name = NODE_NONE, op_const_id = NODE_NONE,
    op_df = 0, op_type = ty, op_sequence = SEQ_SINGLE\<rparr> [] ((\<lambda>g. g) g)" for g by (simp add: appendNode_def)
  show "appended s (s\<lparr>out_graph := snd (appendNode 0 op ty [] (out_graph s))\<rparr>)" if "rw_ok (rw_of (out_graph s))" for s
    unfolding appendNode_def by (rule appended_constant [OF that, where xs = "[]" and ys = "[]" and zs = "[]"]) simp_all
qed (use assms in auto)

lemma computes_read: "f = (\<lambda>_. Inr x) \<Longrightarrow> act_bind (act_read f) h = h x"
  by (simp add: fun_eq_iff act_bind_def act_read_def)

lemma literal_computes:
  assumes "visits_in_order rt" and "literal_value M rt l = Some v"
  shows "any_computes M (visitLiteralExpr rt l) v"
  unfolding visitLiteralExpr_def tokens_return [OF assms(1)] bind_return
proof (rule any_computes_nodeI)
  show "computes M A (append_literal rt l) (\<lambda>_. True) (\<lambda>n. {(n, v)})" for A
    using assms(2) unfolding append_literal_def literal_value_def
    by (cases l)
      (auto simp: computes_read split: sum.splits intro!: computes_int computes_float computes_text computes_keyword
        simp: sem_def Let_def reads_constants_def)
qed

lemma column_computes:
  assumes rt: "visits_in_order rt" and v: "columns M (case t of None \<Rightarrow> c | Some t' \<Rightarrow> t' @ ''.'' @ c) = Some v"
  shows "any_computes M (visitColumnExpr rt t c) v"
  unfolding any_computes_def
proof
  fix A
  let ?x = "case t of None \<Rightarrow> c | Some t' \<Rightarrow> t' @ ''.'' @ c"
  have kids: "visitChildren rt (case t of None \<Rightarrow> [visit_identifier rt]
      | Some _ \<Rightarrow> [visit_identifier rt, visit_terminal, visit_identifier rt]) = act_return None"
    by (rule children_return [OF rt]) (simp add: visit_identifier_def tokens_return [OF rt] visit_terminal_def split: option.split)
  show "computes M A (visitColumnExpr rt t c) (\<lambda>r. \<exists>n. r = Some n) (\<lambda>r. {(the r, v)})"
    unfolding visitColumnExpr_def Let_def kids bind_return
  proof (rule computesI)
    fix s :: sql_visitor assume ok: "rw_ok (rw_of (out_graph s))" and sc: "in_scope M s"
    obtain n where "map_of (exprVarContext s) ?x = Some n" "n \<noteq> NODE_NONE" "holds M (out_graph s) {(n, v)}"
      using sc v unfolding in_scope_def by blast
    then show "\<exists>r s'. act_bind (act_read (\<lambda>s. Inr (findIdent ?x [exprVarContext s]))) (\<lambda>node_id.
        if node_id = NODE_NONE then act_throw (CompileError (''Unknown identifier: '' @ ?x)) else act_return (Some node_id)) s = (Inr r, s')
        \<and> appended s s' \<and> (\<exists>n. r = Some n)
        \<and> (reads_constants M (out_graph s') \<longrightarrow> holds M (out_graph s) A \<longrightarrow> holds M (out_graph s') {(the r, v)})"
      using appended_refl [OF ok] by (simp add: act_bind_def act_read_def act_return_def)
  qed
qed

lemma binary_computes:
  assumes "any_computes M l a" and "any_computes M r b" and "opMap (normalizeOp text) = Some op"
  shows "any_computes M (visit_binary text l r) (apply_op M op [a, b])"
  unfolding visit_binary_def
  by (rule any_computes_nodeI, rule computes_bind [OF any_computes_visit [OF assms(1)]],
      rule computes_bind [OF any_computes_visit [OF assms(2)]], rule computes_operator [OF _ _ assms(3)]) auto

lemma not_computes:
  assumes "any_computes M m a" and "opMap (normalizeOp text) = Some op"
  shows "any_computes M (visitNotExpr text m) (apply_op M op [a])"
  unfolding visitNotExpr_def
  by (rule any_computes_nodeI, rule computes_bind [OF any_computes_visit [OF assms(1)]],
      rule computes_operator [OF _ _ assms(2)]) auto

lemma apply_logic:
  "apply_op M OP_AND vs = of_tri (and3 (map tri_of vs))" "apply_op M OP_OR vs = of_tri (or3 (map tri_of vs))"
  "apply_op M OP_XOR vs = of_tri (xor3 (map tri_of vs))" "apply_op M OP_NAND vs = of_tri (not3 (and3 (map tri_of vs)))"
  by (simp_all add: apply_op_def sem_def)

lemma between_computes:
  assumes "any_computes M m x" and "any_computes M lo a" and "any_computes M up b"
  shows "any_computes M (visitBetweenExpr neg m lo up) (the (between_value M neg (Some x) (Some a) (Some b)))"
proof -
  let ?in = "[apply_op M OP_LTE [a, x], apply_op M OP_LTE [x, b]]"
  have "the (between_value M neg (Some x) (Some a) (Some b)) = apply_op M (if neg then OP_NAND else OP_AND) ?in"
    by (simp add: between_value_def apply_logic Let_def)
  then show ?thesis
    unfolding visitBetweenExpr_def
    by (simp only:, intro any_computes_nodeI)
      (rule computes_bind [OF any_computes_visit [OF assms(2)]], rule computes_bind [OF any_computes_visit [OF assms(1)]],
       rule computes_bind [OF any_computes_visit [OF assms(3)]],
       rule computes_bind [OF computes_append_any [where vs = "[a, x]"]], simp, simp,
       rule computes_bind [OF computes_append_any [where vs = "[x, b]"]], simp, simp,
       rule computes_append_any, auto)
qed

lemma chain_computes:
  assumes "list_all2 (\<lambda>(op, m) (op', w). op = op' \<and> any_computes M m w) rs ws" and "(l, v) \<in> A"
    and "chain_values M v (map (map_prod id Some) ws) = Some cs"
  shows "computes M A (comparison_loop l rs) (\<lambda>ns. length ns = length cs) (\<lambda>ns. set (zip ns cs))"
  using assms
proof (induction rs ws arbitrary: A l v cs rule: list_all2_induct)
  case (Cons r rs w ws)
  obtain op m x where r: "r = (op, m)" "w = (op, x)" and m: "any_computes M m x"
    using Cons.hyps(1) by (cases r; cases w) auto
  obtain p cs' where p: "opMap op = Some p" and cs: "cs = apply_op M p [v, x] # cs'"
    and rest: "chain_values M x (map (map_prod id Some) ws) = Some cs'"
    using Cons.prems(2) by (auto simp: r id_def split: option.splits)
  show ?case
    unfolding r comparison_loop.simps p option.case cs
  proof (rule computes_bind [OF any_computes_visit [OF m]])
    fix n
    let ?A = "{(n, x)} \<union> A"
    have cmp: "computes M ?A (append_any p [l, n]) (\<lambda>_. True) (\<lambda>c. {(c, apply_op M p [v, x])})"
      by (rule computes_append_any) (use Cons.prems(1) in auto)
    show "computes M ?A (act_bind (append_any p [l, n]) (\<lambda>c. act_bind (comparison_loop n rs) (\<lambda>cs. act_return (c # cs))))
        (\<lambda>ns. length ns = length (apply_op M p [v, x] # cs')) (\<lambda>ns. set (zip ns (apply_op M p [v, x] # cs')))"
      by (rule computes_bind [OF cmp], rule computes_bind [OF Cons.IH [OF _ rest]], simp, rule computes_return) auto
  qed
qed (simp add: computes_return)

lemma comparison_computes:
  assumes l: "any_computes M m v" and rs: "list_all2 (\<lambda>(op, m) (op', w). op = op' \<and> any_computes M m w) rs ws"
    and val: "comparison_value M (Some v) (map (map_prod id Some) ws) = Some x"
  shows "any_computes M (visitComparisonExpr m rs) x"
  unfolding visitComparisonExpr_def
proof (rule any_computes_nodeI, rule computes_bind [OF any_computes_visit [OF l]])
  fix n A
  obtain cs where cs: "chain_values M v (map (map_prod id Some) ws) = Some cs" "cs \<noteq> []"
    and x: "x = (if length cs = 1 then hd cs else of_tri (and3 (map tri_of cs)))"
    using val by (auto simp: comparison_value_def split: option.splits list.splits)
  have chain: "computes M ({(n, v)} \<union> A) (comparison_loop n rs) (\<lambda>ns. length ns = length cs) (\<lambda>ns. set (zip ns cs))"
    by (rule chain_computes [OF rs _ cs(1)]) simp
  show "computes M ({(n, v)} \<union> A) (act_bind (comparison_loop n rs) (\<lambda>ids. if 2 \<le> length ids
      then append_any OP_AND ids else act_read (\<lambda>_. at ids 0))) (\<lambda>_. True) (\<lambda>n. {(n, x)})"
  proof (rule computes_bind [OF chain])
    fix ids :: "node list" assume len: "length ids = length cs"
    show "computes M (set (zip ids cs) \<union> ({(n, v)} \<union> A)) (if 2 \<le> length ids then append_any OP_AND ids
        else act_read (\<lambda>_. at ids 0)) (\<lambda>_. True) (\<lambda>n. {(n, x)})"
    proof (cases "2 \<le> length ids")
      case True
      then have "x = apply_op M OP_AND cs" using x len by (auto simp: apply_logic)
      moreover have "set (zip ids cs) \<subseteq> set (zip ids cs) \<union> ({(n, v)} \<union> A)" by blast
      ultimately show ?thesis using True computes_append_any [OF len] by simp
    next
      case False
      then have one: "length cs = 1" using len cs(2) by (cases cs) (simp_all add: not_less_eq_eq)
      obtain c where "cs = [c]" using one by (cases cs) simp_all
      moreover obtain i where "ids = [i]" using one len by (cases ids) simp_all
      moreover have "act_read (\<lambda>_. at [i] 0) = act_return i" for i :: node
        by (simp add: fun_eq_iff act_read_def act_return_def at_def)
      ultimately show ?thesis using x False by (simp add: computes_return)
    qed
  qed
qed

lemma logic_computes:
  assumes m: "any_computes M m v" and ms: "list_all2 (any_computes M) ms vs"
    and f: "\<And>us. apply_op M op us = of_tri (f (map tri_of us))"
  shows "any_computes M (visit_logic op m ms) (if vs = [] then v else of_tri (f (map tri_of (v # vs))))"
  unfolding visit_logic_def
proof (rule any_computes_nodeI, rule computes_bind [OF any_computes_visit [OF m]], rule computes_bind [OF computes_map [OF ms]])
  fix n A ids assume len: "length (ids :: node list) = length vs"
  show "computes M (set (zip ids vs) \<union> ({(n, v)} \<union> A)) (if ids = [] then act_return n else append_any op (n # ids))
      (\<lambda>_. True) (\<lambda>n. {(n, if vs = [] then v else of_tri (f (map tri_of (v # vs))))})"
  proof (cases "vs = []")
    case True
    then show ?thesis using len by (simp add: computes_return)
  next
    case False
    then show ?thesis using len unfolding f [symmetric] by (auto intro!: computes_append_any)
  qed
qed

lemma operator_value_iff:
  "operator_value M text vs = Some v \<longleftrightarrow>
     (\<exists>op vs'. opMap (normalizeOp text) = Some op \<and> those vs = Some vs' \<and> v = apply_op M op vs')"
  by (auto simp: operator_value_def split: option.splits)

lemma logic_value_iff:
  "logic_value f v vs = Some u \<longleftrightarrow>
     (\<exists>v' vs'. v = Some v' \<and> those vs = Some vs' \<and> u = (if vs' = [] then v' else of_tri (f (map tri_of (v' # vs')))))"
  by (auto simp: logic_value_def split: option.splits)

lemma those_two: "those [a, b] = Some xs \<longleftrightarrow> (\<exists>x y. a = Some x \<and> b = Some y \<and> xs = [x, y])"
  by (auto split: option.splits)

lemma those_one: "those [a] = Some xs \<longleftrightarrow> (\<exists>x. a = Some x \<and> xs = [x])"
  by (auto split: option.splits)

lemma chain_values_some:
  "chain_values M v rs = Some cs \<Longrightarrow> \<exists>ws. rs = map (map_prod id Some) ws"
proof (induction M v rs arbitrary: cs rule: chain_values.induct)
  case (2 M v op w rest)
  obtain p w' cs' where c: "opMap op = Some p" "w = Some w'" "chain_values M w' rest = Some cs'"
    using 2(2) by (auto split: option.splits)
  obtain ws where "rest = map (map_prod id Some) ws" using 2(1) [OF refl c(1,2,3)] by blast
  then show ?case using c(2) by (intro exI [of _ "(op, w') # ws"]) (simp add: id_def)
qed simp

lemma logic_expression_computes:
  assumes "\<And>v. value e = Some v \<Longrightarrow> any_computes M (visit e) v"
    and "\<And>x v. x \<in> set es \<Longrightarrow> value x = Some v \<Longrightarrow> any_computes M (visit x) v"
    and "logic_value f (value e) (map value es) = Some v"
    and "\<And>us. apply_op M op us = of_tri (f (map tri_of us))"
  shows "any_computes M (visit_logic op (visit e) (map visit es)) v"
proof -
  obtain a bs where a: "value e = Some a" and bs: "list_all2 (\<lambda>x y. value x = Some y) es bs"
    and v: "v = (if bs = [] then a else of_tri (f (map tri_of (a # bs))))"
    using assms(3) by (auto simp: logic_value_iff those_map_list_all2)
  have "list_all2 (any_computes M) (map visit es) bs"
    using bs assms(2) by (auto simp: list_all2_conv_all_nth)
  then show ?thesis using logic_computes [OF assms(1) [OF a] _ assms(4)] v by blast
qed

lemma expression_computes:
  assumes rt: "visits_in_order rt"
  shows "expr_value M rt e = Some v \<Longrightarrow> any_computes M (visit_expr rt e) v"
    and "query_value M rt q = Some v \<Longrightarrow> any_computes M (visit_query_expression rt q) v"
proof (induction e and q arbitrary: v and v)
  case (LiteralExpr l)
  then show ?case using literal_computes [OF rt] by simp
next
  case (ParenthesizedExpr e)
  then show ?case
    by (simp add: visitParenthesizedExpr_def) (rule any_computes_nodeI, rule any_computes_visit)
next
  case (ColumnExpr t c)
  then show ?case using column_computes [OF rt] by simp
next
  case (MulDivExpr op l r)
  then show ?case by (auto simp: operator_value_iff those_two simp del: those.simps intro: binary_computes)
next
  case (AddSubExpr op l r)
  then show ?case by (auto simp: operator_value_iff those_two simp del: those.simps intro: binary_computes)
next
  case (LikeExpr op l r)
  then show ?case by (auto simp: operator_value_iff those_two simp del: those.simps intro: binary_computes)
next
  case (NotExpr op e)
  then show ?case by (auto simp: operator_value_iff those_one simp del: those.simps intro: not_computes)
next
  case (BetweenExpr neg m lo up)
  obtain x a b where xab: "expr_value M rt m = Some x" "expr_value M rt lo = Some a" "expr_value M rt up = Some b"
    using BetweenExpr(4) by (auto simp: between_value_def split: option.splits)
  have "v = the (between_value M neg (Some x) (Some a) (Some b))" using BetweenExpr(4) by (simp add: xab)
  then show ?case using between_computes BetweenExpr(1-3) xab by fastforce
next
  case (ComparisonExpr l rs)
  obtain a where a: "expr_value M rt l = Some a" using ComparisonExpr(3) by (auto simp: comparison_value_def split: option.splits)
  obtain ws where ws: "map (map_prod id (expr_value M rt)) rs = map (map_prod id Some) ws"
    using ComparisonExpr(3) chain_values_some by (auto simp: a comparison_value_def split: option.splits) blast
  have "list_all2 (\<lambda>(op, m) (op', w). op = op' \<and> any_computes M m w) (map (map_prod id (visit_expr rt)) rs) ws"
  proof (rule list_all2_all_nthI)
    show "length (map (map_prod id (visit_expr rt)) rs) = length ws" using ws by (metis length_map)
    fix i assume i: "i < length (map (map_prod id (visit_expr rt)) rs)"
    obtain op e where e: "rs ! i = (op, e)" by fastforce
    obtain op' w where w: "ws ! i = (op', w)" by fastforce
    have "map_prod id (expr_value M rt) (rs ! i) = map_prod id Some (ws ! i)"
      using ws i by (metis length_map nth_map)
    then have "op = op'" "expr_value M rt e = Some w" by (simp_all add: e w)
    moreover have "(op, e) \<in> set rs" using e i by (metis length_map nth_mem)
    ultimately show "(\<lambda>(op, m) (op', w). op = op' \<and> any_computes M m w) (map (map_prod id (visit_expr rt)) rs ! i) (ws ! i)"
      using ComparisonExpr(2) [of "(op, e)" e] i by (simp add: e w prod_set_defs)
  qed
  then show ?case
    using comparison_computes [OF ComparisonExpr(1) [OF a]] ComparisonExpr(3) by (simp add: a ws)
next
  case (AndExpr e es)
  then show ?case by (simp, intro logic_expression_computes [where f = and3]) (auto simp: apply_logic)
next
  case (XorExpr e es)
  then show ?case by (simp, intro logic_expression_computes [where f = xor3]) (auto simp: apply_logic)
next
  case (OrExpr e es)
  then show ?case by (simp, intro logic_expression_computes [where f = or3]) (auto simp: apply_logic)
qed simp_all

subsection \<open>Correctness\<close>

lemma compiled_expression:
  assumes "visits_in_order rt" and "graph_wf (out_graph s)" and "in_scope M s"
    and "expr_value M rt e = Some v"
    and "reads_constants M (out_graph (snd (visit_expr rt e s)))"
  shows "\<exists>n s' k. visit_expr rt e s = (Inr (Some n), s') \<and> appended s s'
    \<and> eval k (operators M) (rw_of (out_graph s')) n = Some v"
proof -
  have ok: "rw_ok (rw_of (out_graph s))" using assms(2) by (simp add: rw_ok_def rw_of_def graph_wf_iff)
  have "computes M {} (visit_expr rt e) (\<lambda>r. \<exists>n. r = Some n) (\<lambda>r. {(the r, v)})"
    using expression_computes(1) [OF assms(1,4)] unfolding any_computes_def by blast
  then obtain r s' where run: "visit_expr rt e s = (Inr r, s')" and ap: "appended s s'" and r: "\<exists>n. r = Some n"
    and val: "reads_constants M (out_graph s') \<Longrightarrow> holds M (out_graph s) {} \<Longrightarrow> holds M (out_graph s') {(the r, v)}"
    using computesD [OF _ ok assms(3)] by blast
  obtain n where n: "r = Some n" using r by blast
  have "has_value M (out_graph s') n v" using val assms(5) by (simp add: run n)
  then show ?thesis using run ap n by (auto simp: has_value_def simp del: eval.simps)
qed

text \<open>
  C5. Compiling an expression is correct: when every column of it is in scope and it has a value
  (so it uses none of the constructs that do not compile), the visit succeeds, only appends
  to the graph, and returns a node that evaluates to that value, under every meaning of the
  operators that reads the constants of the graph.
\<close>

theorem expression_compiles_to_its_value:
  assumes "visits_in_order rt" and "graph_wf (out_graph s)" and "in_scope M s"
    and "expr_value M rt e = Some v"
    and "reads_constants M (out_graph (snd (visit_expr rt e s)))"
  shows "\<exists>n s' k. visit_expr rt e s = (Inr (Some n), s') \<and> exprVarContext s' = exprVarContext s
    \<and> rw_extends (rw_of (out_graph s)) (rw_of (out_graph s'))
    \<and> eval k (operators M) (rw_of (out_graph s')) n = Some v"
  using compiled_expression [OF assms] by (auto simp: appended_def simp del: eval.simps)

definition example_meaning :: "int meaning" where
  "example_meaning = \<lparr>
     operators = (\<lambda>op name c ty vs.
       case (op, vs) of
         (OP_CONST, []) \<Rightarrow> Val (if c \<le> 1 then 1 else 3)
       | (OP_TRUE, []) \<Rightarrow> Truth True
       | (OP_FALSE, []) \<Rightarrow> Truth False
       | (OP_GT, [Val x, Val y]) \<Rightarrow> Truth (y < x)
       | (OP_ADD, [Val x, Val y]) \<Rightarrow> Val (x + y)
       | _ \<Rightarrow> QNull),
     columns = Map.empty,
     int_value = (\<lambda>w. if w = 1 then 1 else 3),
     float_value = (\<lambda>w. 0),
     text_value = (\<lambda>s. 0)\<rparr>"

definition example_expr :: sql_expr where
  "example_expr = BetweenExpr False (AddSubExpr ''+'' (LiteralExpr (IntLit ''1'')) (LiteralExpr (IntLit ''3'')))
     (LiteralExpr (IntLit ''1'')) (LiteralExpr (IntLit ''3''))"

lemma example_stoll: "stoll ''1'' = Inr 1" "stoll ''3'' = Inr 3"
  by (simp_all add: stoll_def is_digit_def decimal_def digit_value_def code_of_def)

lemma example_plus: "opMap (normalizeOp ''+'') = Some OP_ADD"
  by (simp add: opMap_def normalizeOp_def toupper_def code_of_def)

lemma example_constants:
  "int64_constants (out_graph (snd (visit_expr example_runtime example_expr sql_visitor_new))) = [1, 1, 3, 3]"
  "float64_constants (out_graph (snd (visit_expr example_runtime example_expr sql_visitor_new))) = []"
  "string_constants (out_graph (snd (visit_expr example_runtime example_expr sql_visitor_new))) = []"
  by (simp_all add: example_expr_def visitBetweenExpr_def visit_binary_def visitLiteralExpr_def visitNode_def act_node_def
      tokens_return [OF example_runtime_in_order] append_literal_def computes_read example_stoll example_plus
      appendOperation_def append_any_def act_bind_def act_append_def act_return_def act_read_def case_prod_beta
      graph_defs sql_visitor_new_def query_graph_new_def)

lemma example_value: "expr_value example_meaning example_runtime example_expr = Some (Truth False)"
  by (simp add: example_expr_def literal_value_def example_stoll operator_value_def example_plus between_value_def
      apply_op_def sem_def Let_def example_meaning_def not3_def and3_def)

lemma example_reads_constants:
  "reads_constants example_meaning (out_graph (snd (visit_expr example_runtime example_expr sql_visitor_new)))"
  unfolding reads_constants_def example_constants
  by (auto simp: example_meaning_def less_Suc_eq nth_Cons' numeral_eq_Suc)

lemma example_in_scope: "in_scope example_meaning sql_visitor_new"
  by (simp add: in_scope_def example_meaning_def)

lemma example_graph_wf: "graph_wf (out_graph sql_visitor_new)"
  by (simp add: sql_visitor_new_def query_graph_new_def graph_wf_def)

theorem expression_compiles_to_its_value_witness:
  "\<exists>n s' k. visit_expr example_runtime example_expr sql_visitor_new = (Inr (Some n), s')
    \<and> eval k (operators example_meaning) (rw_of (out_graph s')) n = Some (Truth False)"
  using expression_compiles_to_its_value [OF example_runtime_in_order example_graph_wf example_in_scope example_value example_reads_constants]
  by blast

end
