(* ===== verification/Obj_Store.thy ===== *)
theory Obj_Store
  imports Crypto Resource_Guard
begin

text \<open>
  The object store (\<open>minion/obj_store/obj_store.cc\<close>): \<open>handle_request\<close> of the write, read,
  delete and hash handlers over the files of the process. A file is the string of its bytes.
  What the system may do with one call (refuse to open, transfer fewer bytes than asked for,
  fail) is the choice \<open>file_choices\<close>; the rest is what POSIX fixes for regular files.
\<close>

named_theorems store_defs \<open>the calls on files that the handlers make\<close>

subsection \<open>Files\<close>

type_synonym files = "string \<rightharpoonup> string"

text \<open>
  \<open>fc_write\<close> is what the only \<open>write\<close> transfers, \<open>fc_read k\<close> what the \<open>k\<close>-th \<open>read\<close> may
  transfer; a negative number is an error. A \<open>read\<close> that asks for something returns 0 at the
  end of the file and only there.
\<close>

record file_choices =
  fc_open :: bool
  fc_write :: int
  fc_read :: "nat \<Rightarrow> int"
  fc_unlink :: bool

text \<open>A path passed as \<open>c_str\<close> ends at its first NUL.\<close>

definition c_str :: "string \<Rightarrow> string" where
  "c_str s = takeWhile (\<lambda>c. c \<noteq> CHR 0x00) s"

definition obj_path :: "string \<Rightarrow> string" where
  "obj_path oid = ''data/'' @ oid"

definition object :: "files \<Rightarrow> string \<Rightarrow> string option" where
  "object fs oid = fs (c_str (obj_path oid))"

definition open_create :: "file_choices \<Rightarrow> string \<Rightarrow> files \<Rightarrow> files option" where
  "open_create ch path fs =
     (if \<not> fc_open ch then None
      else Some (case fs (c_str path) of None \<Rightarrow> fs(c_str path \<mapsto> []) | Some _ \<Rightarrow> fs))"

definition open_read :: "file_choices \<Rightarrow> string \<Rightarrow> files \<Rightarrow> string option" where
  "open_read ch path fs = (if fc_open ch then fs (c_str path) else None)"

text \<open>
  \<open>seek_ok\<close> gives the new position, from the start or relative to the end. A positive position is taken
  to be one that the file system can address.
\<close>

definition seek_ok :: "nat \<Rightarrow> int \<Rightarrow> nat option" where
  "seek_ok sz offset =
     (if offset > 0 then Some (nat offset)
      else if offset < 0 then
        (let pos = int sz + (offset + 1) in if pos < 0 then None else Some (nat pos))
      else Some 0)"

definition write_at :: "nat \<Rightarrow> string \<Rightarrow> string \<Rightarrow> string" where
  "write_at pos d content =
     (if d = [] then content
      else take pos content @ replicate (pos - length content) (CHR 0x00) @ d @ drop (pos + length d) content)"

definition file_write :: "int \<Rightarrow> nat \<Rightarrow> string \<Rightarrow> string \<Rightarrow> int \<times> string" where
  "file_write c pos d content =
     (if c < 0 then (-1, content)
      else let n = min (length d) (nat c) in (int n, write_at pos (take n d) content))"

definition file_read :: "int \<Rightarrow> nat \<Rightarrow> nat \<Rightarrow> string \<Rightarrow> int \<times> string" where
  "file_read c want pos content =
     (let n = min want (length content - pos) in
      if c < 0 then (-1, [])
      else if n = 0 then (0, [])
      else let m = max 1 (min n (nat c)) in (int m, take m (drop pos content)))"

lemmas [store_defs] = open_create_def open_read_def file_write_def file_read_def

subsection \<open>Requests and responses\<close>

datatype hash_type = SHA256 | SHA512 | SHA3_256 | SHA3_512 | Unknown_hash

record write_request =
  wr_id :: string
  wr_offset :: int
  wr_data :: string

record read_request =
  rd_id :: string
  rd_offset :: int
  rd_data_len :: int

record hash_request =
  hq_id :: string
  hq_hash_type :: hash_type
  hq_offset :: int
  hq_data_len :: int

record content_result =
  cr_result :: operation_result
  cr_content :: string

definition hash_digest_name :: "hash_type \<Rightarrow> string" where
  "hash_digest_name t = (case t of
      SHA256 \<Rightarrow> ''sha256''
    | SHA512 \<Rightarrow> ''sha512''
    | SHA3_256 \<Rightarrow> ''sha3-256''
    | SHA3_512 \<Rightarrow> ''sha3-512''
    | Unknown_hash \<Rightarrow> ''sha256'')"

definition failed_content :: content_result where
  "failed_content = \<lparr>cr_result = FAILED, cr_content = []\<rparr>"

subsection \<open>The handlers\<close>

text \<open>The \<open>ssize_t\<close> of \<open>write\<close> is compared with the size of the data, so \<open>-1\<close> differs from it.\<close>

definition write_handle_request :: "file_choices \<Rightarrow> write_request \<Rightarrow> files \<Rightarrow> operation_result \<times> files" where
  "write_handle_request ch req fs =
     (let path = obj_path (wr_id req) in
      case open_create ch path fs of
        None \<Rightarrow> (FAILED, fs)
      | Some fs1 \<Rightarrow>
          let content = the (fs1 (c_str path)) in
          case seek_ok (length content) (wr_offset req) of
            None \<Rightarrow> (FAILED, fs1)
          | Some pos \<Rightarrow>
              let (n, content') = file_write (fc_write ch) pos (wr_data req) content;
                  fs2 = fs1(c_str path \<mapsto> content')
              in if n \<noteq> int (length (wr_data req)) then (FAILED, fs2) else (OK, fs2))"

text \<open>
  \<open>string_max\<close> is the length beyond which constructing the \<open>std::string\<close> throws; nothing in the
  handler catches that.
\<close>

definition read_handle_request :: "int \<Rightarrow> file_choices \<Rightarrow> read_request \<Rightarrow> files \<Rightarrow> content_result result" where
  "read_handle_request string_max ch req fs =
     (case open_read ch (obj_path (rd_id req)) fs of
        None \<Rightarrow> Inr failed_content
      | Some content \<Rightarrow>
          case seek_ok (length content) (rd_offset req) of
            None \<Rightarrow> Inr failed_content
          | Some pos \<Rightarrow>
              let to_read = rd_data_len req in
              if to_read > 0 then
                if to_read > string_max then Inl LengthError
                else
                  let (read_res, d) = file_read (fc_read ch 0) (nat to_read) pos content in
                  if read_res \<le> 0 then Inr failed_content
                  else Inr \<lparr>cr_result = OK, cr_content = d\<rparr>
              else Inr \<lparr>cr_result = OK, cr_content = []\<rparr>)"

definition delete_handle_request :: "file_choices \<Rightarrow> string \<Rightarrow> files \<Rightarrow> operation_result \<times> files" where
  "delete_handle_request ch oid fs =
     (let path = c_str (obj_path oid) in
      if fs path = None \<or> \<not> fc_unlink ch then (FAILED, fs) else (OK, fs(path := None)))"

definition kChunk :: nat where "kChunk = 65536"

lemma file_read_take:
  assumes "file_read c want pos content = (n, d)" and "0 < n"
  shows "\<exists>m. n = int m \<and> 0 < m \<and> m \<le> want \<and> pos + m \<le> length content \<and> d = take m (drop pos content)"
proof -
  define a where "a = min want (length content - pos)"
  define m where "m = max 1 (min a (nat c))"
  have c: "\<not> c < 0" "a \<noteq> 0"
    using assms unfolding file_read_def Let_def a_def by (auto split: if_splits)
  then have "n = int m" "d = take m (drop pos content)"
    using assms(1) unfolding file_read_def Let_def a_def [symmetric] m_def by simp_all
  moreover have "0 < m" "m \<le> a" using c(2) by (simp_all add: m_def)
  ultimately show ?thesis using c(2) unfolding a_def by auto
qed

lemma file_read_zero:
  assumes "file_read c want pos content = (0, d)" and "0 < want"
  shows "length content \<le> pos"
  using assms unfolding file_read_def Let_def by (simp split: if_splits)

text \<open>The two loops of the hash handler; \<open>Inr None\<close> is the early return with \<open>FAILED\<close>.\<close>

function hash_exactly ::
  "file_choices \<Rightarrow> string \<Rightarrow> int \<Rightarrow> nat \<Rightarrow> nat \<Rightarrow> ssl_hasher \<Rightarrow> ssl_hasher option result" where
  "hash_exactly ch content remaining pos k hs =
     (if remaining \<le> 0 then Inr (Some hs)
      else
        let want = nat (min remaining (int kChunk));
            (n, d) = file_read (fc_read ch k) want pos content
        in if n \<le> 0 then Inr None
           else (case hasher_put d hs of
                   Inl e \<Rightarrow> Inl e
                 | Inr hs' \<Rightarrow> hash_exactly ch content (remaining - n) (pos + nat n) (Suc k) hs'))"
  by pat_completeness auto
termination
  by (relation "measure (\<lambda>(ch, content, remaining, pos, k, hs). nat remaining)") auto

function hash_to_end ::
  "file_choices \<Rightarrow> string \<Rightarrow> nat \<Rightarrow> nat \<Rightarrow> ssl_hasher \<Rightarrow> ssl_hasher option result" where
  "hash_to_end ch content pos k hs =
     (let (n, d) = file_read (fc_read ch k) kChunk pos content
      in if n < 0 then Inr None
         else if n = 0 then Inr (Some hs)
         else (case hasher_put d hs of
                 Inl e \<Rightarrow> Inl e
               | Inr hs' \<Rightarrow> hash_to_end ch content (pos + nat n) (Suc k) hs'))"
  by pat_completeness auto
termination
proof (relation "measure (\<lambda>(ch, content, pos, k, hs). length content - pos)", goal_cases)
  case (2 ch content pos k hs x n d hs')
  then have "0 < n" "file_read (fc_read ch k) kChunk pos content = (n, d)" by simp_all
  then show ?case using file_read_take by fastforce
qed simp

declare hash_exactly.simps [simp del] hash_to_end.simps [simp del]

text \<open>Everything but undefined behaviour is caught by \<open>catch (...)\<close>.\<close>

definition hash_body :: "('x, 'k) openssl \<Rightarrow> file_choices \<Rightarrow> hash_request \<Rightarrow> string \<Rightarrow> nat \<Rightarrow> content_result result" where
  "hash_body S ch req content pos =
     bind_result (ssl_hasher_new S (hash_digest_name (hq_hash_type req))) (\<lambda>h0.
     bind_result (hasher_start S h0) (\<lambda>h1.
     bind_result (if hq_data_len req > 0 then hash_exactly ch content (hq_data_len req) pos 0 h1
                  else hash_to_end ch content pos 0 h1) (\<lambda>r.
     case r of
       None \<Rightarrow> Inr failed_content
     | Some h2 \<Rightarrow>
         bind_result (hasher_digest_size S h2) (\<lambda>size.
         bind_result (hasher_finish S h2) (\<lambda>(out, h3).
         if length out > size then Inl UndefinedBehaviour
         else Inr \<lparr>cr_result = OK, cr_content = out\<rparr>)))))"

definition hash_handle_request :: "('x, 'k) openssl \<Rightarrow> file_choices \<Rightarrow> hash_request \<Rightarrow> files \<Rightarrow> content_result result" where
  "hash_handle_request S ch req fs =
     (case open_read ch (obj_path (hq_id req)) fs of
        None \<Rightarrow> Inr failed_content
      | Some content \<Rightarrow>
          case seek_ok (length content) (hq_offset req) of
            None \<Rightarrow> Inr failed_content
          | Some pos \<Rightarrow>
              case hash_body S ch req content pos of
                Inl UndefinedBehaviour \<Rightarrow> Inl UndefinedBehaviour
              | Inl e \<Rightarrow> Inr failed_content
              | Inr r \<Rightarrow> Inr r)"

subsection \<open>Reading and writing at a position\<close>

lemma write_at_read: "d \<noteq> [] \<Longrightarrow> take (length d) (drop pos (write_at pos d content)) = d"
  by (simp add: write_at_def min_def)

lemma write_at_length: "d \<noteq> [] \<Longrightarrow> length (write_at pos d content) = max (length content) (pos + length d)"
  by (simp add: write_at_def max_def min_def)

lemma write_at_outside:
  assumes "d \<noteq> []"
  shows "take pos (write_at pos d content) = take pos content @ replicate (pos - length content) (CHR 0x00)
    \<and> drop (pos + length d) (write_at pos d content) = drop (pos + length d) content"
  using assms by (simp add: write_at_def min_def)

lemma write_at_end: "write_at (length content) d content = content @ d"
  by (simp add: write_at_def)

lemma file_write_all:
  assumes "file_write c pos d content = (int (length d), content')"
  shows "content' = write_at pos d content"
  using assms by (auto simp: file_write_def Let_def min_def split: if_splits)

text \<open>A write that succeeds, and what a write that fails may leave.\<close>

lemma write_request_ok:
  assumes "write_handle_request ch req fs = (OK, fs')"
  defines "old \<equiv> (case object fs (wr_id req) of None \<Rightarrow> [] | Some c \<Rightarrow> c)"
  shows "\<exists>pos. seek_ok (length old) (wr_offset req) = Some pos
    \<and> fs' = fs(c_str (obj_path (wr_id req)) \<mapsto> write_at pos (wr_data req) old)"
proof -
  let ?path = "c_str (obj_path (wr_id req))"
  obtain fs1 where fs1: "open_create ch (obj_path (wr_id req)) fs = Some fs1"
    using assms(1) by (auto simp: write_handle_request_def Let_def split: option.splits)
  then have "fs1 = fs(?path \<mapsto> old)"
    by (auto simp: open_create_def old_def object_def fun_upd_idem split: if_splits option.splits)
  then show ?thesis
    using assms(1) fs1 file_write_all
    by (auto simp: write_handle_request_def Let_def split: option.splits prod.splits if_splits)
qed

lemma write_request_failed:
  assumes "write_handle_request ch req fs = (FAILED, fs')"
  defines "old \<equiv> (case object fs (wr_id req) of None \<Rightarrow> [] | Some c \<Rightarrow> c)"
  shows "fs' = fs \<or> (\<exists>pos n. n \<le> length (wr_data req)
    \<and> fs' = fs(c_str (obj_path (wr_id req)) \<mapsto> write_at pos (take n (wr_data req)) old))"
proof (cases "open_create ch (obj_path (wr_id req)) fs")
  case None
  then show ?thesis using assms(1) by (simp add: write_handle_request_def)
next
  case (Some fs1)
  let ?path = "c_str (obj_path (wr_id req))"
  have fs1: "fs1 = fs(?path \<mapsto> old)"
    using Some by (auto simp: open_create_def old_def object_def fun_upd_idem split: if_splits option.splits)
  have none: "write_at 0 (take 0 (wr_data req)) old = old" by (simp add: write_at_def)
  show ?thesis
  proof (cases "seek_ok (length old) (wr_offset req)")
    case None
    then have "fs' = fs1" using assms(1) Some fs1 by (simp add: write_handle_request_def Let_def)
    then show ?thesis using fs1 none by (metis le0)
  next
    case (Some pos)
    define n where "n = (if fc_write ch < 0 then 0 else min (length (wr_data req)) (nat (fc_write ch)))"
    have "fs' = fs(?path \<mapsto> write_at pos (take n (wr_data req)) old)"
      using assms(1) Some \<open>open_create _ _ _ = _\<close> fs1
      by (auto simp: write_handle_request_def Let_def file_write_def n_def write_at_def split: if_splits)
    moreover have "n \<le> length (wr_data req)" by (simp add: n_def)
    ultimately show ?thesis by blast
  qed
qed


definition all_ok :: file_choices where
  "all_ok = \<lparr>fc_open = True, fc_write = 1000, fc_read = (\<lambda>k. 1000), fc_unlink = True\<rparr>"


subsection \<open>Appending\<close>

fun append_all :: "string \<Rightarrow> (file_choices \<times> string) list \<Rightarrow> files \<Rightarrow> bool \<times> files" where
  "append_all oid [] fs = (True, fs)"
| "append_all oid ((ch, d) # ds) fs =
     (let (r, fs1) = write_handle_request ch \<lparr>wr_id = oid, wr_offset = -1, wr_data = d\<rparr> fs;
          (ok, fs2) = append_all oid ds fs1
      in (r = OK \<and> ok, fs2))"

text \<open>
  Writing at the offset \<open>-1\<close> appends: after any sequence of such writes that all succeeded the
  object is what it was followed by all the data in order, whatever was chosen for each write.
\<close>

theorem appends_accumulate:
  assumes "append_all oid ds fs = (True, fs')" and "ds \<noteq> []"
  shows "object fs' oid = Some ((case object fs oid of None \<Rightarrow> [] | Some c \<Rightarrow> c) @ concat (map snd ds))"
  using assms
proof (induction ds arbitrary: fs)
  case (Cons p ds)
  obtain ch d where p: "p = (ch, d)" by fastforce
  let ?old = "case object fs oid of None \<Rightarrow> [] | Some c \<Rightarrow> c"
  obtain fs1 where w: "write_handle_request ch \<lparr>wr_id = oid, wr_offset = -1, wr_data = d\<rparr> fs = (OK, fs1)"
    and rest: "append_all oid ds fs1 = (True, fs')"
    using Cons.prems(1) by (auto simp: p split: prod.splits)
  have "fs1 = fs(c_str (obj_path oid) \<mapsto> ?old @ d)"
    using write_request_ok [OF w] write_at_end [of ?old d] by (auto simp: seek_ok_def)
  then have 1: "object fs1 oid = Some (?old @ d)" by (simp add: object_def)
  show ?case
  proof (cases "ds = []")
    case True
    then show ?thesis using 1 rest by (simp add: p)
  next
    case False
    then show ?thesis using Cons.IH [OF rest] 1 by (simp add: p)
  qed
qed simp

theorem appends_accumulate_witness:
  "object (snd (append_all ''log'' [(all_ok, ''ab''), (all_ok, ''cd'')] Map.empty)) ''log'' = Some ''abcd''"
proof -
  let ?ds = "[(all_ok, ''ab''), (all_ok, ''cd'')]"
  have "append_all ''log'' ?ds Map.empty = (True, [''data/log'' \<mapsto> ''abcd''])"
    by (simp add: write_handle_request_def open_create_def all_ok_def c_str_def obj_path_def seek_ok_def file_write_def
        write_at_def Let_def)
  then have all: "append_all ''log'' ?ds Map.empty = (True, [''data/log'' \<mapsto> ''abcd''])" .
  show ?thesis
    using appends_accumulate [OF all] by (simp add: all object_def c_str_def obj_path_def del: append_all.simps)
qed

subsection \<open>Hashing\<close>

lemma put_some: "hs_ctx hs = Some (md, acc) \<Longrightarrow> hasher_put d hs = Inr (hs\<lparr>hs_ctx := Some (md, acc @ d)\<rparr>)"
  by (simp add: hasher_put_def)

lemma take_drop_step: "take m (drop pos xs) @ take n (drop (pos + m) xs) = take (m + n) (drop pos xs)"
  by (simp add: take_add add.commute)

lemma hash_exactly_range:
  assumes "hs_ctx hs = Some (md, acc)" and "0 < remaining"
  shows "\<exists>r. hash_exactly ch content remaining pos k hs = Inr r
    \<and> (\<forall>hs'. r = Some hs' \<longrightarrow> hs' = hs\<lparr>hs_ctx := Some (md, acc @ take (nat remaining) (drop pos content))\<rparr>
          \<and> nat remaining \<le> length content - pos)
    \<and> ((\<forall>j. 0 \<le> fc_read ch j) \<and> nat remaining \<le> length content - pos \<longrightarrow> r \<noteq> None)"
  using assms
proof (induction ch content remaining pos k hs arbitrary: acc rule: hash_exactly.induct)
  case (1 ch content remaining pos k hs)
  let ?want = "nat (min remaining (int kChunk))"
  obtain n d where nd: "file_read (fc_read ch k) ?want pos content = (n, d)" by fastforce
  have want: "0 < ?want" using 1(3) by (simp add: kChunk_def)
  show ?case
  proof (cases "n \<le> 0")
    case True
    have "\<not> ((\<forall>j. 0 \<le> fc_read ch j) \<and> nat remaining \<le> length content - pos)"
    proof
      assume a: "(\<forall>j. 0 \<le> fc_read ch j) \<and> nat remaining \<le> length content - pos"
      then have "\<not> fc_read ch k < 0" by (simp add: not_less)
      then have "n = 0" using nd True unfolding file_read_def Let_def by (auto split: if_splits)
      then show False using file_read_zero [OF _ want] nd a 1(3) by fastforce
    qed
    then show ?thesis using True nd 1(3) by (subst hash_exactly.simps) simp
  next
    case False
    obtain m where m: "n = int m" "0 < m" "m \<le> ?want" "pos + m \<le> length content" "d = take m (drop pos content)"
      using file_read_take [OF nd] False by auto
    let ?hs = "hs\<lparr>hs_ctx := Some (md, acc @ d)\<rparr>"
    have step: "hash_exactly ch content remaining pos k hs = hash_exactly ch content (remaining - n) (pos + nat n) (Suc k) ?hs"
      using False nd 1(3) put_some [OF 1(2)] by (subst hash_exactly.simps) simp
    have mr: "int m \<le> remaining" using m(2,3) by linarith
    show ?thesis
    proof (cases "remaining - n = 0")
      case True
      then have "hash_exactly ch content remaining pos k hs = Inr (Some ?hs)"
        unfolding step by (subst hash_exactly.simps) simp
      then show ?thesis using True m by (auto simp: nat_int)
    next
      case False
      then have pos: "0 < remaining - n" using mr m(1) by simp
      have sum: "nat remaining = m + nat (remaining - n)" using mr m(1) by simp
      have "\<exists>r. hash_exactly ch content (remaining - n) (pos + nat n) (Suc k) ?hs = Inr r
        \<and> (\<forall>hs'. r = Some hs' \<longrightarrow> hs' = ?hs\<lparr>hs_ctx := Some (md, (acc @ d) @ take (nat (remaining - n)) (drop (pos + nat n) content))\<rparr>
              \<and> nat (remaining - n) \<le> length content - (pos + nat n))
        \<and> ((\<forall>j. 0 \<le> fc_read ch j) \<and> nat (remaining - n) \<le> length content - (pos + nat n) \<longrightarrow> r \<noteq> None)"
        by (rule 1(1) [OF _ refl nd [symmetric]]) (use 1(3) \<open>\<not> n \<le> 0\<close> put_some [OF 1(2)] pos in simp_all)
      then show ?thesis
        unfolding step sum using m(1,4,5) take_drop_step [of m pos content "nat (remaining - n)"] by auto
    qed
  qed
qed

lemma hash_to_end_range:
  assumes "hs_ctx hs = Some (md, acc)"
  shows "\<exists>r. hash_to_end ch content pos k hs = Inr r
    \<and> (\<forall>hs'. r = Some hs' \<longrightarrow> hs' = hs\<lparr>hs_ctx := Some (md, acc @ drop pos content)\<rparr>)
    \<and> ((\<forall>j. 0 \<le> fc_read ch j) \<longrightarrow> r \<noteq> None)"
  using assms
proof (induction ch content pos k hs arbitrary: acc rule: hash_to_end.induct)
  case (1 ch content pos k hs)
  obtain n d where nd: "file_read (fc_read ch k) kChunk pos content = (n, d)" by fastforce
  have chunk: "0 < kChunk" by (simp add: kChunk_def)
  consider "n < 0" | "n = 0" | "0 < n" by linarith
  then show ?case
  proof cases
    case 1
    then have "fc_read ch k < 0" using nd unfolding file_read_def Let_def by (auto split: if_splits)
    then show ?thesis using 1 nd by (subst hash_to_end.simps) (auto simp: not_le)
  next
    case 2
    then have "length content \<le> pos" using file_read_zero [OF _ chunk] nd by blast
    then show ?thesis using 2 nd \<open>hs_ctx hs = _\<close> by (subst hash_to_end.simps) simp
  next
    case 3
    obtain m where m: "n = int m" "0 < m" "pos + m \<le> length content" "d = take m (drop pos content)"
      using file_read_take [OF nd 3] by blast
    let ?hs = "hs\<lparr>hs_ctx := Some (md, acc @ d)\<rparr>"
    have step: "hash_to_end ch content pos k hs = hash_to_end ch content (pos + nat n) (Suc k) ?hs"
      using 3 nd put_some [OF \<open>hs_ctx hs = _\<close>] by (subst hash_to_end.simps) simp
    have "\<exists>r. hash_to_end ch content (pos + nat n) (Suc k) ?hs = Inr r
      \<and> (\<forall>hs'. r = Some hs' \<longrightarrow> hs' = ?hs\<lparr>hs_ctx := Some (md, (acc @ d) @ drop (pos + nat n) content)\<rparr>)
      \<and> ((\<forall>j. 0 \<le> fc_read ch j) \<longrightarrow> r \<noteq> None)"
      by (rule "1.IH") (use nd 3 put_some [OF \<open>hs_ctx hs = _\<close>] in simp_all)
    moreover have "d @ drop (pos + nat n) content = drop pos content"
      using m by (metis append_take_drop_id drop_drop add.commute nat_int)
    ultimately show ?thesis unfolding step by auto
  qed
qed

text \<open>The bytes a hash request is about, if the object has all of them.\<close>

definition hash_range :: "hash_request \<Rightarrow> string \<Rightarrow> string option" where
  "hash_range req content =
     (case seek_ok (length content) (hq_offset req) of
        None \<Rightarrow> None
      | Some pos \<Rightarrow>
          if hq_data_len req \<le> 0 then Some (drop pos content)
          else if pos + nat (hq_data_len req) \<le> length content
          then Some (take (nat (hq_data_len req)) (drop pos content)) else None)"

lemma hash_body_range:
  assumes "stack_md S = Some md" and "EVP_get_digestbyname S (hash_digest_name (hq_hash_type req))"
    and "\<forall>d. length (EVP_Digest S md d) \<le> EVP_MD_size S md"
    and "seek_ok (length content) (hq_offset req) = Some pos"
  shows "\<exists>r. hash_body S ch req content pos = Inr r
    \<and> (cr_result r = OK \<longrightarrow> (\<exists>range. hash_range req content = Some range \<and> cr_content r = EVP_Digest S md range))
    \<and> ((\<forall>j. 0 \<le> fc_read ch j) \<and> hash_range req content \<noteq> None \<longrightarrow> cr_result r = OK)"
proof -
  let ?h = "\<lparr>hs_ctx = Some (md, []), hs_md = Some md\<rparr>"
  let ?loop = "if hq_data_len req > 0 then hash_exactly ch content (hq_data_len req) pos 0 ?h
     else hash_to_end ch content pos 0 ?h"
  have "\<exists>r. ?loop = Inr r
    \<and> (\<forall>h. r = Some h \<longrightarrow> (\<exists>range. hash_range req content = Some range \<and> h = ?h\<lparr>hs_ctx := Some (md, range)\<rparr>))
    \<and> ((\<forall>j. 0 \<le> fc_read ch j) \<and> hash_range req content \<noteq> None \<longrightarrow> r \<noteq> None)"
  proof (cases "0 < hq_data_len req")
    case True
    then obtain r where "hash_exactly ch content (hq_data_len req) pos 0 ?h = Inr r"
      and "\<forall>h. r = Some h \<longrightarrow> h = ?h\<lparr>hs_ctx := Some (md, [] @ take (nat (hq_data_len req)) (drop pos content))\<rparr>
          \<and> nat (hq_data_len req) \<le> length content - pos"
      and "(\<forall>j. 0 \<le> fc_read ch j) \<and> nat (hq_data_len req) \<le> length content - pos \<longrightarrow> r \<noteq> None"
      using hash_exactly_range [of ?h md "[]" "hq_data_len req" ch content pos 0] by auto
    moreover have "nat (hq_data_len req) \<le> length content - pos \<longleftrightarrow> pos + nat (hq_data_len req) \<le> length content"
      using True by arith
    ultimately show ?thesis using True assms(4) by (simp add: hash_range_def)
  next
    case False
    then show ?thesis
      using hash_to_end_range [of ?h md "[]" ch content pos 0] assms(4) by (auto simp: hash_range_def)
  qed
  then obtain r where loop: "?loop = Inr r"
    and h: "\<forall>h. r = Some h \<longrightarrow> (\<exists>range. hash_range req content = Some range \<and> h = ?h\<lparr>hs_ctx := Some (md, range)\<rparr>)"
    and ok: "(\<forall>j. 0 \<le> fc_read ch j) \<and> hash_range req content \<noteq> None \<longrightarrow> r \<noteq> None" by blast
  have start: "hash_body S ch req content pos = bind_result ?loop (\<lambda>r. case r of
       None \<Rightarrow> Inr failed_content
     | Some h2 \<Rightarrow>
         bind_result (hasher_digest_size S h2) (\<lambda>size.
         bind_result (hasher_finish S h2) (\<lambda>(out, h3).
         if length out > size then Inl UndefinedBehaviour
         else Inr \<lparr>cr_result = OK, cr_content = out\<rparr>)))"
    using assms(1,2) by (simp add: hash_body_def ssl_hasher_new_def hasher_start_def check_def)
  show ?thesis
  proof (cases r)
    case None
    then show ?thesis using ok unfolding start loop by (simp add: failed_content_def)
  next
    case (Some h2)
    then show ?thesis
      using h assms(3) unfolding start loop
      by (auto simp: hasher_digest_size_def hasher_finish_def not_less [symmetric])
  qed
qed

lemma hash_body_unset:
  "\<not> EVP_get_digestbyname S (hash_digest_name (hq_hash_type req)) \<Longrightarrow> hash_body S ch req content pos = Inl SSLError"
  "EVP_get_digestbyname S (hash_digest_name (hq_hash_type req)) \<Longrightarrow> stack_md S = None \<Longrightarrow>
   hash_body S ch req content pos = Inl UndefinedBehaviour"
  by (simp_all add: hash_body_def ssl_hasher_new_def hasher_start_def check_def)

text \<open>
  C14. What a hash request answers, with digests that fit a buffer of their size. The digest that is used
  is not the one that was asked for but whatever the pointer that the constructor of the hasher leaves
  uninitialised happens to hold. Following that pointer when it holds none, for an object that can be
  opened at the offset and a known algorithm, is the only way in which the request does not return. An
  OK answer is the digest, with what the pointer held, of exactly the bytes asked for, however the reads
  were split; and when the pointer held a digest, the algorithm is known, the bytes exist and no
  call fails, the answer is OK.
\<close>

theorem hash_is_of_the_range:
  assumes "\<And>md d. length (EVP_Digest S md d) \<le> EVP_MD_size S md"
    and "known = EVP_get_digestbyname S (hash_digest_name (hq_hash_type req))"
  shows "(\<forall>e. hash_handle_request S ch req fs = Inl e \<longleftrightarrow> e = UndefinedBehaviour \<and> stack_md S = None \<and> known \<and> fc_open ch
        \<and> (\<exists>content. object fs (hq_id req) = Some content \<and> seek_ok (length content) (hq_offset req) \<noteq> None))
    \<and> (\<forall>r. hash_handle_request S ch req fs = Inr r \<and> cr_result r = OK \<longrightarrow>
        (\<exists>md content range. stack_md S = Some md \<and> object fs (hq_id req) = Some content
           \<and> hash_range req content = Some range \<and> cr_content r = EVP_Digest S md range))
    \<and> (\<forall>md content range. stack_md S = Some md \<and> known \<and> fc_open ch \<and> (\<forall>j. 0 \<le> fc_read ch j)
           \<and> object fs (hq_id req) = Some content \<and> hash_range req content = Some range \<longrightarrow>
        hash_handle_request S ch req fs = Inr \<lparr>cr_result = OK, cr_content = EVP_Digest S md range\<rparr>)"
proof (cases "open_read ch (obj_path (hq_id req)) fs")
  case None
  then have "hash_handle_request S ch req fs = Inr failed_content" by (simp add: hash_handle_request_def)
  moreover have "\<not> (fc_open ch \<and> object fs (hq_id req) = Some content)" for content
    using None by (auto simp: open_read_def object_def)
  ultimately show ?thesis by (auto simp: failed_content_def)
next
  case (Some content)
  then have obj: "object fs (hq_id req) = Some content" "fc_open ch"
    by (auto simp: open_read_def object_def split: if_splits)
  show ?thesis
  proof (cases "seek_ok (length content) (hq_offset req)")
    case None
    then have "hash_handle_request S ch req fs = Inr failed_content" using Some by (simp add: hash_handle_request_def)
    then show ?thesis using None obj by (auto simp: failed_content_def hash_range_def)
  next
    case seek: (Some pos)
    consider (unknown) "\<not> known" | (unset) "known" "stack_md S = None" | (set) md where "known" "stack_md S = Some md" by blast
    then show ?thesis
    proof cases
      case unknown
      then have "hash_handle_request S ch req fs = Inr failed_content"
        using Some seek by (simp add: hash_handle_request_def hash_body_unset(1) assms(2))
      then show ?thesis using unknown by (auto simp: failed_content_def)
    next
      case unset
      then have "hash_handle_request S ch req fs = Inl UndefinedBehaviour"
        using Some seek by (simp add: hash_handle_request_def hash_body_unset(2) assms(2))
      then show ?thesis using unset obj seek by auto
    next
      case set
      obtain r where r: "hash_body S ch req content pos = Inr r"
        "cr_result r = OK \<longrightarrow> (\<exists>range. hash_range req content = Some range \<and> cr_content r = EVP_Digest S md range)"
        "(\<forall>j. 0 \<le> fc_read ch j) \<and> hash_range req content \<noteq> None \<longrightarrow> cr_result r = OK"
        using hash_body_range [OF set(2) set(1) [unfolded assms(2)] _ seek] assms(1) by blast
      then have "hash_handle_request S ch req fs = Inr r" using Some seek by (simp add: hash_handle_request_def)
      then show ?thesis using r(2,3) set obj by auto
    qed
  qed
qed

definition short_reads :: file_choices where
  "short_reads = \<lparr>fc_open = True, fc_write = 0, fc_read = (\<lambda>k. 1), fc_unlink = True\<rparr>"

theorem hash_is_of_the_range_witness:
  "hash_handle_request (toy_openssl\<lparr>stack_md := Some ''sha256'', EVP_get_digestbyname := (\<lambda>_. True),
          EVP_MD_size := (\<lambda>_. 3), EVP_Digest := (\<lambda>md d. take 3 d)\<rparr>) short_reads
       \<lparr>hq_id = ''a'', hq_hash_type = SHA256, hq_offset = -4, hq_data_len = 2\<rparr> [''data/a'' \<mapsto> ''0123456'']
     = Inr \<lparr>cr_result = OK, cr_content = ''45''\<rparr>"
  (is "hash_handle_request ?S short_reads ?req ?fs = _")
proof -
  have 1: "length (EVP_Digest ?S md d) \<le> EVP_MD_size ?S md" for md d by simp
  have "object ?fs ''a'' = Some ''0123456''" by (simp add: object_def c_str_def obj_path_def)
  moreover have "hash_range ?req ''0123456'' = Some ''45''" by (simp add: hash_range_def seek_ok_def Let_def)
  ultimately show ?thesis
    using hash_is_of_the_range [OF 1 refl, of short_reads ?req ?fs] by (simp add: short_reads_def)
qed

end
