(* ===== verification/Idx_Sort_Static.thy ===== *)
theory Idx_Sort_Static
  imports Prelude
begin

text \<open>
  The layout of a static sorted index (\<open>common/storage/idx_sort_static.cc\<close>, \<open>.h\<close>): the items of a
  sorted array are spread over stages, every \<open>d\<close>-th item of a stage going to the stage above it.
  \<open>size_t\<close> values are natural numbers with the wrap-around written out, \<open>int\<close> values are integers
  of 32 bits. An index outside an array and a division by zero are \<open>UndefinedBehaviour\<close>.
\<close>

subsection \<open>Machine arithmetic\<close>

definition size_add :: "nat \<Rightarrow> nat \<Rightarrow> nat" where
  "size_add a b = (a + b) mod 2 ^ 64"

definition size_sub :: "nat \<Rightarrow> nat \<Rightarrow> nat" where
  "size_sub a b = (a + (2 ^ 64 - b)) mod 2 ^ 64"

definition size_mul :: "nat \<Rightarrow> nat \<Rightarrow> nat" where
  "size_mul a b = (a * b) mod 2 ^ 64"

definition size_of_int :: "int \<Rightarrow> nat" where
  "size_of_int i = nat (i mod 2 ^ 64)"

definition int_of_size :: "nat \<Rightarrow> int" where
  "int_of_size n = (int n + 2 ^ 31) mod 2 ^ 32 - 2 ^ 31"

lemma size_add_small: "a + b < 2 ^ 64 \<Longrightarrow> size_add a b = a + b"
  by (simp add: size_add_def)

lemma size_sub_small: "b \<le> a \<Longrightarrow> a < 2 ^ 64 \<Longrightarrow> size_sub a b = a - b"
  unfolding size_sub_def by (simp add: le_mod_geq)

lemma size_mul_small: "a * b < 2 ^ 64 \<Longrightarrow> size_mul a b = a * b"
  by (simp add: size_mul_def)

lemma size_of_int_small: "0 \<le> i \<Longrightarrow> i < 2 ^ 64 \<Longrightarrow> size_of_int i = nat i"
  by (simp add: size_of_int_def)

lemma int_of_size_small: "n < 2 ^ 31 \<Longrightarrow> int_of_size n = int n"
  by (simp add: int_of_size_def)

definition array_at :: "'a list \<Rightarrow> nat \<Rightarrow> 'a result" where
  "array_at xs i = (if i < length xs then Inr (xs ! i) else Inl UndefinedBehaviour)"

text \<open>The divisor \<open>stage_size_steps[i] + 1\<close>.\<close>

definition step_div :: "nat list \<Rightarrow> nat \<Rightarrow> nat result" where
  "step_div steps i =
     bind_result (array_at steps i) (\<lambda>s.
     let d = size_add s 1 in if d = 0 then Inl UndefinedBehaviour else Inr d)"

subsection \<open>The functions\<close>

text \<open>The first loop of \<open>compute_stage_ends\<close>, from the given stage down to 1.\<close>

fun stage_counts :: "nat list \<Rightarrow> nat \<Rightarrow> nat \<Rightarrow> nat list \<Rightarrow> (nat \<times> nat list) result" where
  "stage_counts steps 0 n ends = Inr (n, ends)"
| "stage_counts steps (Suc stage) n ends =
     bind_result (step_div steps stage) (\<lambda>d.
     let upper_items = n div d in
     if Suc stage < length ends
     then stage_counts steps stage upper_items (ends[Suc stage := n - upper_items])
     else Inl UndefinedBehaviour)"

text \<open>The second loop, for as many stages as the first argument says.\<close>

fun prefix_sums :: "nat \<Rightarrow> nat \<Rightarrow> nat \<Rightarrow> nat list \<Rightarrow> nat list result" where
  "prefix_sums 0 stage pos ends = Inr ends"
| "prefix_sums (Suc k) stage pos ends =
     bind_result (array_at ends stage) (\<lambda>e.
     let e' = size_add e pos in prefix_sums k (Suc stage) e' (ends[stage := e']))"

definition compute_stage_ends :: "nat \<Rightarrow> nat list \<Rightarrow> nat list \<Rightarrow> int \<Rightarrow> nat list result" where
  "compute_stage_ends n stage_ends stage_size_steps nstages =
     bind_result (stage_counts stage_size_steps (nat (nstages - 1)) n stage_ends) (\<lambda>(n, ends).
     if ends = [] then Inl UndefinedBehaviour
     else prefix_sums (nat nstages) 0 0 (ends[0 := n]))"

fun idx_climb :: "nat list \<Rightarrow> nat \<Rightarrow> nat \<Rightarrow> (nat \<times> nat) result" where
  "idx_climb steps 0 n = Inr (0, n)"
| "idx_climb steps (Suc stage) n =
     bind_result (step_div steps stage) (\<lambda>d.
     if n mod d = 0 then idx_climb steps stage (n div d) else Inr (Suc stage, n))"

definition get_idx_position :: "nat \<Rightarrow> nat list \<Rightarrow> nat list \<Rightarrow> int \<Rightarrow> nat result" where
  "get_idx_position array_idx stage_ends stage_size_steps nstages =
     bind_result (idx_climb stage_size_steps (nat (nstages - 1)) (size_add array_idx 1)) (\<lambda>(stage, n).
     if 1 \<le> stage then
       bind_result (array_at stage_ends (stage - 1)) (\<lambda>e.
       bind_result (step_div stage_size_steps (stage - 1)) (\<lambda>d.
       Inr (size_sub (size_add e (n - n div d)) 1)))
     else Inr (size_sub n 1))"

definition get_stage_pos_items_count :: "nat \<Rightarrow> nat \<Rightarrow> nat list \<Rightarrow> nat result" where
  "get_stage_pos_items_count stage_pos stage stage_size_steps =
     (let stage_nitems = size_add stage_pos 1 in
      if stage = 0 then Inr stage_nitems
      else bind_result (step_div stage_size_steps (stage - 1)) (\<lambda>d.
           Inr (size_add stage_nitems (stage_nitems div d))))"

definition get_next_stage_pos :: "nat \<Rightarrow> nat \<Rightarrow> nat list \<Rightarrow> nat result" where
  "get_next_stage_pos stage_pos stage stage_size_steps =
     bind_result (get_stage_pos_items_count stage_pos stage stage_size_steps) (\<lambda>nitems.
     bind_result (array_at stage_size_steps stage) (\<lambda>s. Inr (size_mul nitems s)))"

subsection \<open>find_idx_range\<close>

text \<open>
  The positions are \<open>int\<close> because they are declared by \<open>auto\<close> from \<open>0\<close>. The two scans stop at the
  first position that the predicate does not let pass.
\<close>

definition up_cond :: "(nat \<Rightarrow> bool) \<Rightarrow> nat \<Rightarrow> nat \<Rightarrow> int \<Rightarrow> bool" where
  "up_cond less_end base bound i = (size_of_int i < bound \<and> \<not> less_end (size_add base (size_of_int i)))"

definition down_cond :: "(nat \<Rightarrow> bool) \<Rightarrow> nat \<Rightarrow> int \<Rightarrow> bool" where
  "down_cond less_start base i = (0 < i \<and> \<not> less_start (size_sub (size_add base (size_of_int i)) 1))"

function scan_up :: "(nat \<Rightarrow> bool) \<Rightarrow> nat \<Rightarrow> nat \<Rightarrow> int \<Rightarrow> int result" where
  "scan_up less_end base bound i =
     (if up_cond less_end base bound i
      then if 2 ^ 31 - 1 \<le> i then Inl UndefinedBehaviour else scan_up less_end base bound (i + 1)
      else Inr i)"
  by pat_completeness auto
termination by (relation "measure (\<lambda>(less_end, base, bound, i). nat (2 ^ 31 - i))") auto

function scan_down :: "(nat \<Rightarrow> bool) \<Rightarrow> nat \<Rightarrow> int \<Rightarrow> int" where
  "scan_down less_start base i =
     (if down_cond less_start base i then scan_down less_start base (i - 1) else i)"
  by pat_completeness auto
termination by (relation "measure (\<lambda>(less_start, base, i). nat i)") (auto simp: down_cond_def)

declare scan_up.simps [simp del] scan_down.simps [simp del]

text \<open>The arithmetic of one bound of the result when the scan of a stage did not move.\<close>

definition scaled_bound :: "int \<Rightarrow> nat list \<Rightarrow> nat \<Rightarrow> int result" where
  "scaled_bound r steps stage =
     (if r = 2 ^ 31 - 1 then Inl UndefinedBehaviour
      else bind_result (array_at steps (stage - 1)) (\<lambda>s.
           Inr (int_of_size (size_mul (size_of_int (r + 1)) (size_add s 1)))))"

definition counted_bound :: "int \<Rightarrow> nat list \<Rightarrow> nat \<Rightarrow> int result" where
  "counted_bound i steps stage =
     bind_result (get_stage_pos_items_count (size_of_int i) stage steps) (\<lambda>c.
     Inr (int_of_size (size_sub c 1)))"

text \<open>The body of the loop over the stages: positions in the layer, then the result so far.\<close>

definition find_stage ::
  "nat list \<Rightarrow> nat list \<Rightarrow> (nat \<Rightarrow> bool) \<Rightarrow> (nat \<Rightarrow> bool) \<Rightarrow> nat \<Rightarrow> int \<times> int \<times> int \<times> int \<Rightarrow> (int \<times> int \<times> int \<times> int) result" where
  "find_stage ends steps less_start less_end stage = (\<lambda>(ls, le, rs, re).
     bind_result (get_next_stage_pos (size_of_int ls) (stage - 1) steps) (\<lambda>ns. let ls = int_of_size ns in
     bind_result (get_next_stage_pos (size_of_int le) (stage - 1) steps) (\<lambda>ne. let le = int_of_size ne in
     bind_result (array_at ends (stage - 1)) (\<lambda>stage_start.
     bind_result (array_at ends stage) (\<lambda>stage_end.
     bind_result (if down_cond less_start stage_start ls then
                    (let i = scan_down less_start stage_start (ls - 1) in
                     bind_result (counted_bound i steps stage) (\<lambda>r. Inr (i, r)))
                  else bind_result (scaled_bound rs steps stage) (\<lambda>r. Inr (ls, r))) (\<lambda>(ls, rs).
     bind_result (if up_cond less_end stage_start stage_end le then
                    (if 2 ^ 31 - 1 \<le> le then Inl UndefinedBehaviour
                     else bind_result (scan_up less_end stage_start stage_end (le + 1)) (\<lambda>i.
                          bind_result (counted_bound i steps stage) (\<lambda>r. Inr (i, r))))
                  else bind_result (scaled_bound re steps stage) (\<lambda>r. Inr (le, r))) (\<lambda>(le, re).
     Inr (ls, le, rs, re))))))))"

fun find_stages ::
  "nat list \<Rightarrow> nat list \<Rightarrow> (nat \<Rightarrow> bool) \<Rightarrow> (nat \<Rightarrow> bool) \<Rightarrow> nat list \<Rightarrow> int \<times> int \<times> int \<times> int \<Rightarrow> (int \<times> int \<times> int \<times> int) result" where
  "find_stages ends steps less_start less_end [] p = Inr p"
| "find_stages ends steps less_start less_end (stage # stages) p =
     bind_result (find_stage ends steps less_start less_end stage p)
       (find_stages ends steps less_start less_end stages)"

definition find_idx_range ::
  "nat list \<Rightarrow> nat list \<Rightarrow> int \<Rightarrow> (nat \<Rightarrow> bool) \<Rightarrow> (nat \<Rightarrow> bool) \<Rightarrow> (int \<times> int) result" where
  "find_idx_range ends steps nstages less_start less_end =
     bind_result (array_at ends 0) (\<lambda>e0.
     bind_result (scan_up less_end 0 e0 0) (\<lambda>layer_idx_end.
     let layer_idx_start = scan_down less_start 0 layer_idx_end in
     bind_result (find_stages ends steps less_start less_end [1..<nat nstages]
         (layer_idx_start, layer_idx_end, layer_idx_start, layer_idx_end)) (\<lambda>(_, _, rs, re).
     Inr (rs, re))))"

subsection \<open>The layout without machine arithmetic\<close>

text \<open>Where the stages end, and the position of the \<open>m\<close>-th of \<open>n\<close> items, counting from 1.\<close>

fun layout_ends :: "nat list \<Rightarrow> nat \<Rightarrow> nat \<Rightarrow> nat list" where
  "layout_ends steps 0 n = [n]"
| "layout_ends steps (Suc k) n = layout_ends steps k (n div Suc (steps ! k)) @ [n]"

fun layout_pos :: "nat list \<Rightarrow> nat \<Rightarrow> nat \<Rightarrow> nat \<Rightarrow> nat" where
  "layout_pos steps 0 n m = m - 1"
| "layout_pos steps (Suc k) n m =
     (let d = Suc (steps ! k) in
      if m mod d = 0 then layout_pos steps k (n div d) (m div d)
      else n div d + (m - m div d) - 1)"

lemma length_layout_ends [simp]: "length (layout_ends steps k n) = Suc k"
  by (induction k arbitrary: n) simp_all

lemma last_layout_ends [simp]: "last (layout_ends steps k n) = n"
  by (cases k) simp_all

lemma layout_ends_nth [simp]: "layout_ends steps k n ! k = n"
  by (cases k) (simp_all add: nth_append)

lemma layout_ends_le: "e \<in> set (layout_ends steps k n) \<Longrightarrow> e \<le> n"
proof (induction k arbitrary: n)
  case (Suc k)
  then show ?case using div_le_dividend [of n "Suc (steps ! k)"] by (fastforce intro: le_trans)
qed simp

lemma sorted_layout_ends: "sorted (layout_ends steps k n)"
proof (induction k arbitrary: n)
  case (Suc k)
  then show ?case
    using layout_ends_le [of _ steps k "n div Suc (steps ! k)"] div_le_dividend [of n "Suc (steps ! k)"]
    by (fastforce simp: sorted_append intro: le_trans)
qed simp

text \<open>The number of items of a stage that do not go up grows by one at each of them.\<close>

lemma nonmultiples_mono:
  fixes m m' d :: nat
  assumes "m < m'" and "m' mod d \<noteq> 0" and "0 < d"
  shows "m - m div d < m' - m' div d"
proof -
  obtain k where d: "d = Suc k" using assms(3) by (cases d) auto
  have m: "m - m div d = m div d * k + m mod d" "m' - m' div d = m' div d * k + m' mod d"
    using div_mult_mod_eq [of m d] div_mult_mod_eq [of m' d] by (simp_all add: d)
  have le: "m div d \<le> m' div d" using assms(1) by (simp add: div_le_mono)
  have r: "m mod d \<le> k" using assms(3) by (simp add: d less_Suc_eq_le [symmetric] del: less_Suc_eq_le)
  show ?thesis
  proof (cases "m div d = m' div d")
    case True
    then have "m div d * d = m' div d * d" by simp
    then have "m mod d < m' mod d" using assms(1) div_mult_mod_eq [of m d] div_mult_mod_eq [of m' d] by linarith
    then show ?thesis using m True by simp
  next
    case False
    then have "Suc (m div d) * k \<le> m' div d * k" using le by (intro mult_le_mono1) simp
    then show ?thesis using m r assms(2) by simp
  qed
qed

lemma nonmultiples_le:
  fixes m n d :: nat
  assumes "m \<le> n"
  shows "m - m div d \<le> n - n div d"
proof -
  have "x - x div d \<le> Suc x - Suc x div d" for x
    by (simp add: div_Suc Suc_diff_le le_SucI)
  then show ?thesis using lift_Suc_mono_le [of "\<lambda>x. x - x div d"] assms by blast
qed

lemma multiple_div_pos: "x mod d = 0 \<Longrightarrow> 0 < x \<Longrightarrow> 0 < x div (d::nat)"
  using div_mult_mod_eq [of x d] by (metis add_0_right bot_nat_0.not_eq_extremum mult_0)

lemma nonmultiple_div_less: "x mod d \<noteq> 0 \<Longrightarrow> 0 < d \<Longrightarrow> x div d < (x::nat)"
  by (cases "d = 1") (auto intro!: div_less_dividend gr0I)

lemma layout_pos_Suc:
  "m mod Suc (steps ! k) = 0 \<Longrightarrow> layout_pos steps (Suc k) n m = layout_pos steps k (n div Suc (steps ! k)) (m div Suc (steps ! k))"
  "m mod Suc (steps ! k) \<noteq> 0 \<Longrightarrow> layout_pos steps (Suc k) n m = n div Suc (steps ! k) + (m - m div Suc (steps ! k)) - 1"
  by simp_all

declare layout_pos.simps(2) [simp del]

lemma layout_pos_range: "0 < m \<Longrightarrow> m \<le> n \<Longrightarrow> layout_pos steps k n m < n"
proof (induction k arbitrary: n m)
  case (Suc k)
  define d where "d = Suc (steps ! k)"
  show ?case
  proof (cases "m mod d = 0")
    case True
    then have "layout_pos steps k (n div d) (m div d) < n div d"
      using Suc.IH [OF multiple_div_pos] Suc.prems by (simp add: div_le_mono)
    moreover have "layout_pos steps (Suc k) n m = layout_pos steps k (n div d) (m div d)"
      using layout_pos_Suc(1) [of m steps k n] True by (simp add: d_def)
    ultimately show ?thesis using div_le_dividend [of n d] by linarith
  next
    case False
    then have "m div d < m" by (rule nonmultiple_div_less) (simp add: d_def)
    moreover have "m - m div d \<le> n - n div d" by (rule nonmultiples_le [OF Suc.prems(2)])
    moreover have "layout_pos steps (Suc k) n m = n div d + (m - m div d) - 1"
      using layout_pos_Suc(2) [of m steps k n] False by (simp add: d_def)
    ultimately show ?thesis using div_le_dividend [of n d] by linarith
  qed
qed simp

lemma layout_pos_stage:
  assumes "0 < m" and "m \<le> n"
  shows "m mod Suc (steps ! k) = 0 \<Longrightarrow> layout_pos steps (Suc k) n m < n div Suc (steps ! k)"
    and "m mod Suc (steps ! k) \<noteq> 0 \<Longrightarrow> n div Suc (steps ! k) \<le> layout_pos steps (Suc k) n m"
proof -
  show "layout_pos steps (Suc k) n m < n div Suc (steps ! k)" if "m mod Suc (steps ! k) = 0"
    unfolding layout_pos_Suc(1) [OF that]
    by (rule layout_pos_range [OF multiple_div_pos [OF that assms(1)] div_le_mono [OF assms(2)]])
  show "n div Suc (steps ! k) \<le> layout_pos steps (Suc k) n m" if "m mod Suc (steps ! k) \<noteq> 0"
    using nonmultiple_div_less [OF that] layout_pos_Suc(2) [OF that, of n] by simp
qed

lemma layout_pos_inj:
  assumes "layout_pos steps k n m = layout_pos steps k n m'" and "0 < m" "m \<le> n" and "0 < m'" "m' \<le> n"
  shows "m = m'"
  using assms
proof (induction k arbitrary: n m m')
  case (Suc k)
  define d where "d = Suc (steps ! k)"
  note range = layout_pos_stage [of _ n steps k, unfolded d_def [symmetric]]
  note eqs = layout_pos_Suc [of _ steps k, unfolded d_def [symmetric]]
  have d: "0 < d" by (simp add: d_def)
  show ?case
  proof (cases "m mod d = 0")
    case m: True
    then have m': "m' mod d = 0"
      using range(1) [of m] range(2) [of m'] Suc.prems by (metis not_le)
    then have "m div d = m' div d"
      using Suc.IH [of "n div d" "m div d" "m' div d"] eqs(1) m Suc.prems
      by (simp add: multiple_div_pos div_le_mono)
    then show ?thesis using m m' by (metis add_0_right div_mult_mod_eq)
  next
    case m: False
    then have m': "m' mod d \<noteq> 0" using range(1) [of m'] range(2) [of m] Suc.prems by (metis not_le)
    have "m - m div d = m' - m' div d"
      using Suc.prems(1) eqs(2) [OF m, of n] eqs(2) [OF m', of n] nonmultiple_div_less [OF m d] nonmultiple_div_less [OF m' d]
      by linarith
    then show ?thesis
      using nonmultiples_mono [of m m' d] nonmultiples_mono [of m' m d] m m' d by (metis less_irrefl linorder_neqE_nat)
  qed
qed simp

lemma layout_pos_bij: "bij_betw (\<lambda>i. layout_pos steps k n (i + 1)) {..<n} {..<n}"
proof -
  have "inj_on (\<lambda>i. layout_pos steps k n (i + 1)) {..<n}"
    by (rule inj_onI) (use layout_pos_inj in fastforce)
  moreover have "(\<lambda>i. layout_pos steps k n (i + 1)) ` {..<n} \<subseteq> {..<n}"
    using layout_pos_range by fastforce
  ultimately show ?thesis by (simp add: bij_betw_def endo_inj_surj)
qed

subsection \<open>The functions compute the layout\<close>

text \<open>The arrays that the functions are meant for: one step for each stage below the top.\<close>

definition steps_ok :: "nat list \<Rightarrow> nat \<Rightarrow> bool" where
  "steps_ok steps k = (k \<le> length steps \<and> (\<forall>s \<in> set steps. s < 2 ^ 64 - 1))"

lemma step_div_ok: "steps_ok steps k \<Longrightarrow> i < k \<Longrightarrow> step_div steps i = Inr (Suc (steps ! i))"
proof -
  assume a: "steps_ok steps k" "i < k"
  then have i: "i < length steps" by (simp add: steps_ok_def)
  then have "steps ! i < 2 ^ 64 - 1" using a nth_mem unfolding steps_ok_def by blast
  then show ?thesis using i by (simp add: step_div_def array_at_def size_add_small Let_def)
qed

lemma steps_ok_Suc: "steps_ok steps (Suc k) \<Longrightarrow> steps_ok steps k"
  by (simp add: steps_ok_def)

text \<open>The counts of the stages, which the second loop sums up.\<close>

fun layout_counts :: "nat list \<Rightarrow> nat \<Rightarrow> nat \<Rightarrow> nat list" where
  "layout_counts steps 0 n = [n]"
| "layout_counts steps (Suc k) n =
     (let u = n div Suc (steps ! k) in layout_counts steps k u @ [n - u])"

lemma length_layout_counts [simp]: "length (layout_counts steps k n) = Suc k"
  by (induction k arbitrary: n) (simp_all add: Let_def)

lemma stage_counts_ok:
  assumes "steps_ok steps k" and "k < length ends"
  shows "\<exists>n' ends'. stage_counts steps k n ends = Inr (n', ends') \<and> length ends' = length ends
    \<and> ends'[0 := n'] = layout_counts steps k n @ drop (Suc k) ends"
  using assms
proof (induction k arbitrary: n ends)
  case 0
  then show ?case by (cases ends) simp_all
next
  case (Suc k)
  let ?u = "n div Suc (steps ! k)"
  have step: "stage_counts steps (Suc k) n ends = stage_counts steps k ?u (ends[Suc k := n - ?u])"
    using step_div_ok [OF Suc.prems(1), of k] Suc.prems(2) by (simp add: Let_def)
  have "k < length (ends[Suc k := n - ?u])" using Suc.prems(2) by simp
  then obtain n' ends' where "stage_counts steps k ?u (ends[Suc k := n - ?u]) = Inr (n', ends')"
    "length ends' = length ends"
    "ends'[0 := n'] = layout_counts steps k ?u @ drop (Suc k) (ends[Suc k := n - ?u])"
    using Suc.IH [OF steps_ok_Suc [OF Suc.prems(1)]] by fastforce
  moreover have "drop (Suc k) (ends[Suc k := n - ?u]) = (n - ?u) # drop (Suc (Suc k)) ends"
    using Suc.prems(2) by (subst Cons_nth_drop_Suc [symmetric]) simp_all
  ultimately show ?case unfolding step by (simp add: Let_def)
qed

lemma prefix_sums_app:
  assumes "length pre = stage" and "length xs = k" and "pos + sum_list xs < 2 ^ 64"
  shows "prefix_sums k stage pos (pre @ xs @ post) = Inr (pre @ map (\<lambda>i. pos + sum_list (take (Suc i) xs)) [0..<k] @ post)"
  using assms
proof (induction k arbitrary: stage pos pre xs)
  case (Suc k)
  obtain x ys where xs: "xs = x # ys" "length ys = k" using Suc.prems(2) by (cases xs) auto
  have "x + pos < 2 ^ 64" using Suc.prems(3) xs by simp
  then have "prefix_sums (Suc k) stage pos (pre @ xs @ post) =
      prefix_sums k (Suc stage) (x + pos) ((pre @ [x + pos]) @ ys @ post)"
    using Suc.prems(1) by (simp add: xs array_at_def size_add_small Let_def nth_append list_update_append)
  also have "\<dots> = Inr ((pre @ [x + pos]) @ map (\<lambda>i. (x + pos) + sum_list (take (Suc i) ys)) [0..<k] @ post)"
    by (rule Suc.IH) (use Suc.prems xs in simp_all)
  also have "map (\<lambda>i. (x + pos) + sum_list (take (Suc i) ys)) [0..<k] = map (\<lambda>i. pos + sum_list (take (Suc i) xs)) [1..<Suc k]"
    unfolding One_nat_def map_Suc_upt [symmetric] by (simp add: xs)
  also have "(pre @ [x + pos]) @ map (\<lambda>i. pos + sum_list (take (Suc i) xs)) [1..<Suc k] @ post =
      pre @ map (\<lambda>i. pos + sum_list (take (Suc i) xs)) [0..<Suc k] @ post"
    by (subst (2) upt_conv_Cons) (simp_all add: xs)
  finally show ?case .
qed simp

lemma sum_layout_counts: "sum_list (layout_counts steps k n) = n"
  by (induction k arbitrary: n) (simp_all add: Let_def)

lemma layout_ends_sums:
  "map (\<lambda>i. sum_list (take (Suc i) (layout_counts steps k n))) [0..<Suc k] = layout_ends steps k n"
proof (induction k arbitrary: n)
  case (Suc k)
  let ?u = "n div Suc (steps ! k)"
  let ?f = "\<lambda>i. sum_list (take (Suc i) (layout_counts steps (Suc k) n))"
  have "map ?f [0..<Suc k] = map (\<lambda>i. sum_list (take (Suc i) (layout_counts steps k ?u))) [0..<Suc k]"
    by (rule map_cong) (auto simp: Let_def)
  then have front: "map ?f [0..<Suc k] = layout_ends steps k ?u" using Suc.IH by (rule trans)
  have last: "?f (Suc k) = n" using sum_layout_counts [of steps "Suc k" n] by (simp del: layout_counts.simps)
  have "[0..<Suc (Suc k)] = [0..<Suc k] @ [Suc k]" by simp
  then show ?case by (simp only: map_append list.map front last layout_ends.simps)
qed simp

lemma compute_stage_ends_layout:
  assumes "n < 2 ^ 64" and "steps_ok steps k" and "length ends = Suc k"
  shows "compute_stage_ends n ends steps (int (Suc k)) = Inr (layout_ends steps k n)"
proof -
  have k: "nat (int (Suc k) - 1) = k" "nat (int (Suc k)) = Suc k" by simp_all
  obtain n' ends' where c: "stage_counts steps k n ends = Inr (n', ends')" "length ends' = length ends"
    "ends'[0 := n'] = layout_counts steps k n"
    using stage_counts_ok [OF assms(2), of ends n] assms(3) by auto
  have "prefix_sums (Suc k) 0 0 ([] @ layout_counts steps k n @ []) =
      Inr ([] @ map (\<lambda>i. 0 + sum_list (take (Suc i) (layout_counts steps k n))) [0..<Suc k] @ [])"
    by (rule prefix_sums_app) (use assms sum_layout_counts in simp_all)
  then have "prefix_sums (Suc k) 0 0 (layout_counts steps k n) = Inr (layout_ends steps k n)"
    using layout_ends_sums [of steps k n] by (simp del: prefix_sums.simps upt_Suc)
  moreover have "ends' \<noteq> []" using c(2) assms(3) by auto
  ultimately show ?thesis
    unfolding compute_stage_ends_def k c(1) by (simp add: c(3) del: prefix_sums.simps)
qed

lemma get_idx_position_climb:
  assumes "steps_ok steps k" and "0 < m" and "m \<le> n" and "n < 2 ^ 64" and "n0 = n"
  shows "bind_result (idx_climb steps k m) (\<lambda>(stage, n).
     if 1 \<le> stage then
       bind_result (array_at (layout_ends steps k n0 @ post) (stage - 1)) (\<lambda>e.
       bind_result (step_div steps (stage - 1)) (\<lambda>d.
       Inr (size_sub (size_add e (n - n div d)) 1)))
     else Inr (size_sub n 1)) = Inr (layout_pos steps k n m)"
  using assms
proof (induction k arbitrary: m n n0 post)
  case 0
  then show ?case by (simp add: size_sub_small)
next
  case (Suc k)
  define d where "d = Suc (steps ! k)"
  have div: "step_div steps k = Inr d" using step_div_ok [OF Suc.prems(1)] by (simp add: d_def)
  have ends: "layout_ends steps (Suc k) n0 @ post = layout_ends steps k (n div d) @ (n # post)"
    using Suc.prems(5) by (simp add: d_def)
  show ?case
  proof (cases "m mod d = 0")
    case True
    have "idx_climb steps (Suc k) m = idx_climb steps k (m div d)" using True div by simp
    moreover have "layout_pos steps (Suc k) n m = layout_pos steps k (n div d) (m div d)"
      using layout_pos_Suc(1) [of m steps k n] True by (simp add: d_def)
    moreover have "n div d < 2 ^ 64" using Suc.prems(4) div_le_dividend le_less_trans by blast
    ultimately show ?thesis
      unfolding ends
      using Suc.IH [OF steps_ok_Suc [OF Suc.prems(1)] multiple_div_pos [OF True Suc.prems(2)]
          div_le_mono [OF Suc.prems(3)] _ refl] by simp
  next
    case False
    have "m div d < m" using nonmultiple_div_less [OF False] by (simp add: d_def)
    moreover have "m - m div d \<le> n - n div d" by (rule nonmultiples_le [OF Suc.prems(3)])
    moreover have "(layout_ends steps k (n div d) @ n # post) ! k = n div d"
      by (simp add: nth_append)
    moreover have "layout_pos steps (Suc k) n m = n div d + (m - m div d) - 1"
      using layout_pos_Suc(2) [of m steps k n] False by (simp add: d_def)
    moreover have "n div d \<le> n" by simp
    ultimately show ?thesis
      unfolding ends using False div Suc.prems(4)
      by (simp add: array_at_def size_add_small size_sub_small)
  qed
qed

lemma get_idx_position_layout:
  assumes "n < 2 ^ 64" and "steps_ok steps k" and "i < n"
  shows "get_idx_position i (layout_ends steps k n) steps (int (Suc k)) = Inr (layout_pos steps k n (i + 1))"
proof -
  have k: "nat (int (Suc k) - 1) = k" by simp
  have "size_add i 1 = i + 1" using assms by (simp add: size_add_small)
  then show ?thesis
    using get_idx_position_climb [OF assms(2) _ _ assms(1) refl, of "i + 1" "[]", unfolded append_Nil2] assms(3)
    unfolding get_idx_position_def k by simp
qed

text \<open>
  C32. The layout is a rearrangement of the array: \<open>compute_stage_ends\<close> returns for each valid table of
  steps the ends of the stages, ascending and ending at \<open>n\<close>, and \<open>get_idx_position\<close> sends the \<open>n\<close> indices
  one to one onto the \<open>n\<close> positions; nothing overflows and no index is out of range.
\<close>

theorem static_index_is_a_permutation:
  assumes "n < 2 ^ 64" and "steps_ok steps k" and "length buf = Suc k"
  shows "\<exists>ends pos. compute_stage_ends n buf steps (int (Suc k)) = Inr ends
    \<and> length ends = Suc k \<and> sorted ends \<and> last ends = n
    \<and> (\<forall>i < n. get_idx_position i ends steps (int (Suc k)) = Inr (pos i))
    \<and> bij_betw pos {..<n} {..<n}"
proof (intro exI conjI allI impI)
  show "compute_stage_ends n buf steps (int (Suc k)) = Inr (layout_ends steps k n)"
    by (rule compute_stage_ends_layout [OF assms])
  show "get_idx_position i (layout_ends steps k n) steps (int (Suc k)) = Inr (layout_pos steps k n (i + 1))"
    if "i < n" for i by (rule get_idx_position_layout [OF assms(1,2) that])
  show "bij_betw (\<lambda>i. layout_pos steps k n (i + 1)) {..<n} {..<n}" by (rule layout_pos_bij)
qed (simp_all add: sorted_layout_ends)

theorem static_index_is_a_permutation_witness:
  "\<exists>ends pos. compute_stage_ends 10 [0, 0, 0] [2, 1] 3 = Inr ends \<and> last ends = 10
    \<and> (\<forall>i < 10. get_idx_position i ends [2, 1] 3 = Inr (pos i)) \<and> bij_betw pos {..<10} {..<10}"
proof -
  have "steps_ok [2, 1] 2" by (simp add: steps_ok_def)
  then show ?thesis using static_index_is_a_permutation [of 10 "[2, 1]" 2 "[0, 0, 0]"] by auto
qed

subsection \<open>Counting back from a position\<close>

text \<open>
  When \<open>get_stage_pos_items_count\<close> is right: for the \<open>m\<close>-th item of a stage below the top, which
  \<open>get_idx_position\<close> puts at the place \<open>m - m / d - 1\<close> of its stage, the count returned is \<open>m\<close> exactly
  when \<open>m / d \<le> m % d\<close>; it divides the place by \<open>d\<close> where the inverse has \<open>d - 1\<close>.
\<close>

theorem items_count_right_iff:
  assumes "steps_ok steps k" and "stage < k" and "m < 2 ^ 63" and "m mod Suc (steps ! stage) \<noteq> 0"
  shows "get_stage_pos_items_count (m - m div Suc (steps ! stage) - 1) (Suc stage) steps = Inr m
    \<longleftrightarrow> m div Suc (steps ! stage) \<le> m mod Suc (steps ! stage)"
proof -
  define d where "d = Suc (steps ! stage)"
  define q where "q = m div d"
  define r where "r = m mod d"
  have m: "m = q * d + r" by (simp add: q_def r_def)
  have d: "0 < d" "r < d" "0 < r" using assms(4) by (simp_all add: d_def r_def)
  have qm: "q < m" using m d by (metis add_gr_0 assms(4) d_def gr0I mod_0 nonmultiple_div_less q_def)
  have c: "size_add (m - q - 1) 1 = m - q" using qm assms(3) by (simp add: size_add_small)
  have "get_stage_pos_items_count (m - q - 1) (Suc stage) steps = Inr (size_add (m - q) ((m - q) div d))"
    using step_div_ok [OF assms(1,2)] c by (simp add: get_stage_pos_items_count_def d_def Let_def)
  also have "size_add (m - q) ((m - q) div d) = m - q + (m - q) div d"
  proof (rule size_add_small)
    have "(m - q) div d \<le> m - q" by simp
    moreover have "(2::nat) ^ 64 = 2 * 2 ^ 63" by simp
    ultimately show "m - q + (m - q) div d < 2 ^ 64" using assms(3) by linarith
  qed
  finally have "get_stage_pos_items_count (m - q - 1) (Suc stage) steps = Inr m \<longleftrightarrow> (m - q) div d = q"
    using qm by auto
  also have "\<dots> \<longleftrightarrow> q \<le> r"
  proof
    assume "(m - q) div d = q"
    then have "q * d \<le> m - q" by (metis div_times_less_eq_dividend)
    then show "q \<le> r" using m qm by linarith
  next
    assume "q \<le> r"
    then have "m - q = q * d + (r - q)" using m by linarith
    moreover have "r - q < d" using d by linarith
    ultimately show "(m - q) div d = q" by (simp add: div_mult_self3)
  qed
  finally show ?thesis by (simp add: q_def r_def d_def)
qed

theorem items_count_right_iff_witness:
  "get_stage_pos_items_count 1 1 [1] = Inr 3 \<and> get_stage_pos_items_count 2 1 [1] \<noteq> Inr 5"
proof -
  have "steps_ok [1] 1" by (simp add: steps_ok_def)
  then show ?thesis
    using items_count_right_iff [of "[1]" 1 0 3] items_count_right_iff [of "[1]" 1 0 5] by (simp add: numeral_2_eq_2 [symmetric])
qed

subsection \<open>Searching a range\<close>

lemma scan_up_spec:
  assumes "0 \<le> i" and "bound < 2 ^ 31" and "i \<le> int bound"
  shows "\<exists>j. scan_up less_end 0 bound i = Inr j \<and> i \<le> j \<and> j \<le> int bound
    \<and> (\<forall>t. i \<le> int t \<and> int t < j \<longrightarrow> \<not> less_end t) \<and> (j < int bound \<longrightarrow> less_end (nat j))"
  using assms
proof (induction "nat (int bound - i)" arbitrary: i)
  case 0
  then have i: "i = int bound" by simp
  then have "\<not> up_cond less_end 0 bound i" using 0(3) by (simp add: up_cond_def size_of_int_small)
  then show ?case using 0 i by (intro exI [of _ i]) (auto simp: scan_up.simps)
next
  case (Suc k)
  have sz: "size_of_int i = nat i" "size_add 0 (nat i) = nat i"
    using Suc.prems by (simp_all add: size_of_int_small size_add_small nat_less_iff)
  show ?case
  proof (cases "up_cond less_end 0 bound i")
    case True
    then have i: "i < int bound" "\<not> less_end (nat i)" using Suc.prems(1) by (auto simp: up_cond_def sz nat_less_iff)
    have step: "scan_up less_end 0 bound i = scan_up less_end 0 bound (i + 1)"
      using True i Suc.prems(2) by (subst scan_up.simps) simp
    have "k = nat (int bound - (i + 1))" using Suc.hyps(2) by simp
    then obtain j where j: "scan_up less_end 0 bound (i + 1) = Inr j" "i + 1 \<le> j" "j \<le> int bound"
      "\<forall>t. i + 1 \<le> int t \<and> int t < j \<longrightarrow> \<not> less_end t" "j < int bound \<longrightarrow> less_end (nat j)"
      using Suc.hyps(1) [of "i + 1"] i Suc.prems by auto
    have "\<not> less_end t" if "i \<le> int t" "int t < j" for t
      using j(4) that i(2) by (cases "int t = i") auto
    then show ?thesis using j step by auto
  next
    case False
    then have "i < int bound \<longrightarrow> less_end (nat i)" using Suc.prems(1) by (simp add: up_cond_def sz nat_less_iff)
    then show ?thesis using False Suc.prems by (intro exI [of _ i]) (auto simp: scan_up.simps)
  qed
qed

lemma scan_down_spec:
  assumes "0 \<le> i" and "i < 2 ^ 31"
  shows "0 \<le> scan_down less_start 0 i \<and> scan_down less_start 0 i \<le> i
    \<and> (\<forall>t. scan_down less_start 0 i \<le> int t \<and> int t < i \<longrightarrow> \<not> less_start t)
    \<and> (0 < scan_down less_start 0 i \<longrightarrow> less_start (nat (scan_down less_start 0 i - 1)))"
  using assms
proof (induction "nat i" arbitrary: i)
  case 0
  then show ?case by (simp add: scan_down.simps down_cond_def)
next
  case (Suc k)
  have i: "0 < i" using Suc.hyps(2) by simp
  have sz: "size_sub (size_add 0 (size_of_int i)) 1 = nat (i - 1)"
    using i Suc.prems by (simp add: size_of_int_small size_add_small size_sub_small nat_less_iff nat_diff_distrib)
  show ?case
  proof (cases "less_start (nat (i - 1))")
    case True
    then have "scan_down less_start 0 i = i" by (subst scan_down.simps) (simp add: down_cond_def sz [simplified])
    then show ?thesis using i True by auto
  next
    case False
    then have step: "scan_down less_start 0 i = scan_down less_start 0 (i - 1)"
      using i by (subst scan_down.simps) (simp add: down_cond_def sz [simplified])
    have "k = nat (i - 1)" using Suc.hyps(2) by simp
    then have IH: "0 \<le> scan_down less_start 0 (i - 1) \<and> scan_down less_start 0 (i - 1) \<le> i - 1
      \<and> (\<forall>t. scan_down less_start 0 (i - 1) \<le> int t \<and> int t < i - 1 \<longrightarrow> \<not> less_start t)
      \<and> (0 < scan_down less_start 0 (i - 1) \<longrightarrow> less_start (nat (scan_down less_start 0 (i - 1) - 1)))"
      using Suc.hyps(1) [of "i - 1"] i Suc.prems by simp
    have "\<not> less_start t" if "scan_down less_start 0 (i - 1) \<le> int t" "int t < i" for t
    proof (cases "int t = i - 1")
      case True
      then have "t = nat (i - 1)" by simp
      then show ?thesis using False by simp
    qed (use IH that in auto)
    then show ?thesis unfolding step using IH by auto
  qed
qed

lemma between_the_scans:
  assumes down: "\<And>i j. i \<le> j \<Longrightarrow> less_start j \<Longrightarrow> less_start i" and up: "\<And>i j. i \<le> j \<Longrightarrow> less_end i \<Longrightarrow> less_end j"
    and e: "0 \<le> e" "e \<le> int n" "\<forall>t. int t < e \<longrightarrow> \<not> less_end t" "e < int n \<longrightarrow> less_end (nat e)"
    and s: "0 \<le> s" "\<forall>t. s \<le> int t \<and> int t < e \<longrightarrow> \<not> less_start t" "0 < s \<longrightarrow> less_start (nat (s - 1))"
  shows "{i. i < n \<and> \<not> less_start i \<and> \<not> less_end i} = {nat s..<nat e}"
proof -
  have "\<not> less_start i \<and> i < n \<and> \<not> less_end i \<longleftrightarrow> nat s \<le> i \<and> i < nat e" for i
  proof
    assume i: "\<not> less_start i \<and> i < n \<and> \<not> less_end i"
    have "nat s \<le> i"
    proof (rule ccontr)
      assume "\<not> nat s \<le> i"
      then have "0 < s" "i \<le> nat (s - 1)" by auto
      then show False using s(3) down i by blast
    qed
    moreover have "i < nat e"
    proof (rule ccontr)
      assume "\<not> i < nat e"
      then have "e < int n" "nat e \<le> i" using i e(1) by auto
      then show False using e(4) up i by blast
    qed
    ultimately show "nat s \<le> i \<and> i < nat e" ..
  next
    assume "nat s \<le> i \<and> i < nat e"
    then have "s \<le> int i" "int i < e" by auto
    then show "\<not> less_start i \<and> i < n \<and> \<not> less_end i" using s(2) e(2,3) by auto
  qed
  then show "{i. i < n \<and> \<not> less_start i \<and> \<not> less_end i} = {nat s..<nat e}"
    by (intro set_eqI) (simp only: mem_Collect_eq atLeastLessThan_iff conj_commute conj_left_commute)
qed

text \<open>
  C31. With one stage the search is right: if the array is sorted, so that \<open>less_start\<close> holds of a prefix
  and \<open>less_end\<close> of a suffix, the result delimits exactly the positions in the searched interval.
\<close>

theorem find_idx_range_one_stage:
  assumes "n < 2 ^ 31"
    and "\<And>i j. i \<le> j \<Longrightarrow> less_start j \<Longrightarrow> less_start i"
    and "\<And>i j. i \<le> j \<Longrightarrow> less_end i \<Longrightarrow> less_end j"
  shows "\<exists>a b. find_idx_range [n] steps 1 less_start less_end = Inr (int a, int b) \<and> a \<le> b \<and> b \<le> n
    \<and> {i. i < n \<and> \<not> less_start i \<and> \<not> less_end i} = {a..<b}"
proof -
  obtain e where e: "scan_up less_end 0 n 0 = Inr e" "0 \<le> e" "e \<le> int n"
    "\<forall>t. int t < e \<longrightarrow> \<not> less_end t" "e < int n \<longrightarrow> less_end (nat e)"
    using scan_up_spec [of 0 n less_end] assms(1) by auto
  define s where "s = scan_down less_start 0 e"
  have s: "0 \<le> s" "s \<le> e" "\<forall>t. s \<le> int t \<and> int t < e \<longrightarrow> \<not> less_start t" "0 < s \<longrightarrow> less_start (nat (s - 1))"
    using scan_down_spec [of e less_start] e assms(1) unfolding s_def by simp_all
  have res: "find_idx_range [n] steps 1 less_start less_end = Inr (s, e)"
    using e(1) by (simp add: find_idx_range_def array_at_def s_def)
  have range: "{i. i < n \<and> \<not> less_start i \<and> \<not> less_end i} = {nat s..<nat e}"
    using between_the_scans [OF assms(2,3) e(2-5) s(1,3,4)] .
  have "int (nat s) = s" "int (nat e) = e" "nat s \<le> nat e" "nat e \<le> n" using e s by auto
  moreover from this have "find_idx_range [n] steps 1 less_start less_end = Inr (int (nat s), int (nat e))"
    using res by simp
  ultimately show ?thesis using range by blast
qed

theorem find_idx_range_one_stage_witness:
  "\<exists>a b. find_idx_range [5] [] 1 (\<lambda>i. i < 2) (\<lambda>i. 3 < i) = Inr (int a, int b) \<and> a \<le> b \<and> b \<le> 5
    \<and> {i. i < 5 \<and> \<not> i < 2 \<and> \<not> 3 < i} = {a..<b}"
  by (rule find_idx_range_one_stage) simp_all

text \<open>
  With two stages it is not: for the array of three items laid out with the step 1, a search for
  the interval that holds exactly the item of index 1 returns a range that starts at 2, whatever
  \<open>less_end\<close> says of the position 3, which it is asked for although there are only three positions.
\<close>

theorem find_idx_range_misses_item:
  assumes "compute_stage_ends 3 [0, 0] [1] 2 = Inr ends"
    and "\<forall>i < 3. \<exists>p. get_idx_position i ends [1] 2 = Inr p \<and> (less_start p \<longleftrightarrow> i < 1) \<and> (less_end p \<longleftrightarrow> 1 < i)"
  shows "find_idx_range ends [1] 2 less_start less_end = Inr (2, if less_end 3 then 4 else 5)"
proof -
  have ok: "steps_ok [1] 1" by (simp add: steps_ok_def)
  have ends: "ends = [1, 3]"
    using assms(1) compute_stage_ends_layout [OF _ ok, of 3 "[0, 0]"] by (simp add: numeral_2_eq_2 [symmetric])
  have "get_idx_position i [1, 3] [1] 2 = Inr (layout_pos [1] 1 3 (i + 1))" if "i < 3" for i
    using get_idx_position_layout [OF _ ok that] by (simp add: numeral_2_eq_2 [symmetric])
  moreover have "layout_pos [1] 1 3 1 = 1" "layout_pos [1] 1 3 2 = 0" "layout_pos [1] 1 3 3 = 2"
    by (simp_all add: layout_pos.simps(2) numeral_2_eq_2 [symmetric])
  ultimately have pos: "get_idx_position 0 [1, 3] [1] 2 = Inr 1" "get_idx_position 1 [1, 3] [1] 2 = Inr 0"
    "get_idx_position 2 [1, 3] [1] 2 = Inr 2" by (simp_all add: numeral_2_eq_2 numeral_3_eq_3)
  have cmp: "less_start 1" "\<not> less_end 1" "\<not> less_start 0" "\<not> less_end 0" "\<not> less_start 2" "less_end 2"
    using assms(2) [rule_format, of 0] assms(2) [rule_format, of 1] assms(2) [rule_format, of 2] pos
    unfolding ends by simp_all
  have up: "scan_up less_end 0 1 0 = Inr 1"
    using cmp by (simp add: scan_up.simps up_cond_def size_of_int_def size_add_def)
  have down: "scan_down less_start 0 1 = 0"
    using cmp by (simp add: scan_down.simps down_cond_def size_of_int_def size_add_def size_sub_def)
  have last: "scan_up less_end 1 3 3 = Inr 3"
    by (simp add: scan_up.simps up_cond_def size_of_int_def)
  have next_pos: "get_next_stage_pos 0 0 [1] = Inr 1" "get_next_stage_pos 1 0 [1] = Inr 2"
    by (simp_all add: get_next_stage_pos_def get_stage_pos_items_count_def array_at_def size_add_def size_mul_def)
  have bounds: "scaled_bound 0 [1] 1 = Inr 2" "scaled_bound 1 [1] 1 = Inr 4"
    by (simp_all add: scaled_bound_def array_at_def size_add_def size_mul_def size_of_int_def int_of_size_def)
  have "get_stage_pos_items_count 3 1 [1] = Inr 6"
    by (simp add: get_stage_pos_items_count_def step_div_def array_at_def size_add_def Let_def numeral_2_eq_2 [symmetric])
  then have counted: "counted_bound 3 [1] 1 = Inr 5"
    by (simp add: counted_bound_def size_of_int_def size_sub_def int_of_size_def)
  have dc: "\<not> down_cond less_start 1 1"
    using cmp(1) by (simp add: down_cond_def size_of_int_def size_add_def size_sub_def)
  have uc: "up_cond less_end 1 3 2 \<longleftrightarrow> \<not> less_end 3"
    by (simp add: up_cond_def size_of_int_def size_add_def)
  have conv: "size_of_int 0 = 0" "size_of_int 1 = 1" "int_of_size 1 = 1" "int_of_size 2 = 2"
    by (simp_all add: size_of_int_def int_of_size_def)
  have arr: "array_at [1, 3::nat] 0 = Inr 1" "array_at [1, 3::nat] 1 = Inr 3" by (simp_all add: array_at_def)
  have "find_stage [1, 3] [1] less_start less_end 1 (0, 1, 0, 1) = Inr (1, if less_end 3 then 2 else 3, 2, if less_end 3 then 4 else 5)"
    unfolding find_stage_def
    by (simp add: conv conv(3) [unfolded One_nat_def] next_pos [simplified] arr [simplified] dc [simplified] uc [simplified] bounds [simplified]
        last [simplified] counted [simplified] Let_def)
  moreover have "[1..<nat 2] = [1]" by (simp add: numeral_2_eq_2)
  ultimately show ?thesis
    using up down by (simp add: ends find_idx_range_def array_at_def Let_def)
qed

theorem find_idx_range_misses_item_witness:
  "find_idx_range [1, 3] [1] 2 (\<lambda>p. p = 1) (\<lambda>p. p = 2) = Inr (2, 5)"
proof -
  have ok: "steps_ok [1] 1" by (simp add: steps_ok_def)
  have ends: "compute_stage_ends 3 [0, 0] [1] 2 = Inr [1, 3]"
    using compute_stage_ends_layout [OF _ ok, of 3 "[0, 0]"] by (simp add: numeral_2_eq_2 [symmetric])
  have "get_idx_position i [1, 3] [1] 2 = Inr (layout_pos [1] 1 3 (i + 1))" if "i < 3" for i
    using get_idx_position_layout [OF _ ok that] by (simp add: numeral_2_eq_2 [symmetric])
  moreover have "layout_pos [1] 1 3 (i + 1) = (if i = 0 then 1 else if i = 1 then 0 else 2)" if "i < 3" for i
  proof -
    have "i = 0 \<or> i = 1 \<or> i = 2" using that by auto
    then show ?thesis by (auto simp: layout_pos.simps(2) numeral_2_eq_2 [symmetric] numeral_3_eq_3 [symmetric])
  qed
  ultimately have "\<forall>i < 3. \<exists>p. get_idx_position i [1, 3] [1] 2 = Inr p \<and> (p = 1 \<longleftrightarrow> i < 1) \<and> (p = 2 \<longleftrightarrow> 1 < i)"
    by auto
  from find_idx_range_misses_item [OF ends this] show ?thesis by simp
qed

end
