(* ===== verification/Idx_Sort_Dynamic.thy ===== *)
theory Idx_Sort_Dynamic
  imports Prelude "HOL-Library.Tree"
begin

text \<open>
  The rotations of the dynamic sorted index (\<open>common/storage/idx_sort_dynamic.cc\<close>, \<open>.h\<close>). A node is
  found by its position, \<open>EMPTY\<close> is no node, and each node holds the number of nodes of its subtree,
  all of them 32-bit words. The store of the nodes is a map from positions, and \<open>stores\<close> says
  which tree of the library hangs at a position of it.
\<close>

type_synonym tpos = "32 word"

definition EMPTY :: tpos where "EMPTY = -1"

record 'a index_node =
  nd_left :: tpos
  nd_right :: tpos
  nd_elem_count :: tpos
  nd_data :: 'a

definition index_node_new :: "'a \<Rightarrow> 'a index_node" where
  "index_node_new x = \<lparr>nd_left = EMPTY, nd_right = EMPTY, nd_elem_count = 1, nd_data = x\<rparr>"

text \<open>The result is the position that is returned and the two nodes after the swaps.\<close>

definition rotate_left ::
  "'a index_node \<Rightarrow> tpos \<Rightarrow> 'a index_node \<Rightarrow> tpos \<Rightarrow> tpos \<times> 'a index_node \<times> 'a index_node" where
  "rotate_left up_node up_node_pos right_node right_node_right_count =
     (let (up_node_pos, right_node) = (nd_left right_node, right_node\<lparr>nd_left := up_node_pos\<rparr>);
          (up_node_pos, up_node) = (nd_right up_node, up_node\<lparr>nd_right := up_node_pos\<rparr>);
          all_cnt = nd_elem_count up_node;
          up_node = up_node\<lparr>nd_elem_count := all_cnt - right_node_right_count - 1\<rparr>;
          right_node = right_node\<lparr>nd_elem_count := all_cnt\<rparr>
      in (up_node_pos, up_node, right_node))"

definition rotate_right ::
  "'a index_node \<Rightarrow> tpos \<Rightarrow> 'a index_node \<Rightarrow> tpos \<Rightarrow> tpos \<times> 'a index_node \<times> 'a index_node" where
  "rotate_right up_node up_node_pos left_node left_node_left_count =
     (let (up_node_pos, left_node) = (nd_right left_node, left_node\<lparr>nd_right := up_node_pos\<rparr>);
          (up_node_pos, up_node) = (nd_left up_node, up_node\<lparr>nd_left := up_node_pos\<rparr>);
          all_cnt = nd_elem_count up_node;
          up_node = up_node\<lparr>nd_elem_count := all_cnt - left_node_left_count - 1\<rparr>;
          left_node = left_node\<lparr>nd_elem_count := all_cnt\<rparr>
      in (up_node_pos, up_node, left_node))"

subsection \<open>The tree at a position\<close>

type_synonym 'a node_store = "tpos \<rightharpoonup> 'a index_node"

fun stores :: "'a node_store \<Rightarrow> tpos \<Rightarrow> (tpos \<times> 'a) tree \<Rightarrow> bool" where
  "stores h p Leaf = (p = EMPTY)"
| "stores h p (Node l (q, x) r) =
     (p = q \<and> p \<noteq> EMPTY \<and>
      (case h p of
         None \<Rightarrow> False
       | Some nd \<Rightarrow> nd_data nd = x \<and> nd_elem_count nd = word_of_nat (Suc (size l + size r))
           \<and> stores h (nd_left nd) l \<and> stores h (nd_right nd) r))"

definition positions :: "(tpos \<times> 'a) tree \<Rightarrow> tpos list" where
  "positions t = map fst (inorder t)"

lemma stores_cong: "(\<And>p. p \<in> set (positions t) \<Longrightarrow> h' p = h p) \<Longrightarrow> stores h' p t = stores h p t"
proof (induction t arbitrary: p)
  case (Node l qx r)
  obtain q x where "qx = (q, x)" by fastforce
  then show ?case using Node by (auto simp: positions_def split: option.splits)
qed simp

lemma stores_update:
  "q \<notin> set (positions t) \<Longrightarrow> stores (h(q := nd)) p t = stores h p t"
  by (rule stores_cong) auto

text \<open>The store after a rotation.\<close>

definition rotated :: "'a node_store \<Rightarrow> tpos \<Rightarrow> tpos \<Rightarrow> 'a index_node \<times> 'a index_node \<Rightarrow> 'a node_store" where
  "rotated h up other nds = h(up \<mapsto> fst nds, other \<mapsto> snd nds)"

text \<open>
  C33. A left rotation of the stored nodes is the left rotation of the tree: the position returned
  holds the rotated tree with right subtree counts, the order of the items is kept and the other
  nodes are untouched. The caller passes the size of the right grandchild.
\<close>

theorem rotate_left_refines:
  assumes "stores h p (Node a (p, x) (Node b (q, y) c))"
    and "distinct (positions (Node a (p, x) (Node b (q, y) c)))"
    and "h p = Some up" and "h q = Some down"
    and "rotate_left up p down (word_of_nat (size c)) = (res, nds)"
  shows "res = q \<and> stores (rotated h p q nds) res (Node (Node a (p, x) b) (q, y) c)
    \<and> inorder (Node (Node a (p, x) b) (q, y) c) = inorder (Node a (p, x) (Node b (q, y) c))
    \<and> (\<forall>o'. o' \<noteq> p \<and> o' \<noteq> q \<longrightarrow> rotated h p q nds o' = h o')"
  using assms
  by (auto simp: rotate_left_def rotated_def stores_update positions_def Let_def)

theorem rotate_left_refines_witness:
  "\<exists>res nds. rotate_left ((index_node_new CHR ''a'')\<lparr>nd_right := 2, nd_elem_count := 2\<rparr>) 1 (index_node_new CHR ''b'') 0 = (res, nds)
   \<and> stores (rotated [1 \<mapsto> (index_node_new CHR ''a'')\<lparr>nd_right := 2, nd_elem_count := 2\<rparr>, 2 \<mapsto> index_node_new CHR ''b''] 1 2 nds)
       res (Node (Node Leaf (1, CHR ''a'') Leaf) (2, CHR ''b'') Leaf)"
proof -
  let ?up = "(index_node_new CHR ''a'')\<lparr>nd_right := 2, nd_elem_count := 2\<rparr>"
  let ?down = "index_node_new CHR ''b''"
  obtain res nds where r: "rotate_left ?up 1 ?down (word_of_nat (size (Leaf :: (tpos \<times> char) tree))) = (res, nds)" by (rule prod.exhaust)
  have st: "stores [1 \<mapsto> ?up, 2 \<mapsto> ?down] 1 (Node Leaf (1, CHR ''a'') (Node Leaf (2, CHR ''b'') Leaf))"
    by (simp add: index_node_new_def EMPTY_def)
  have "stores (rotated [1 \<mapsto> ?up, 2 \<mapsto> ?down] 1 2 nds) res (Node (Node Leaf (1, CHR ''a'') Leaf) (2, CHR ''b'') Leaf)"
    using rotate_left_refines [OF st _ _ _ r] by (auto simp: positions_def simp del: stores.simps)
  then show ?thesis using r by auto
qed

text \<open>The right rotation is the mirror image.\<close>

lemma rotate_right_refines:
  assumes "stores h p (Node (Node a (q, y) b) (p, x) c)"
    and "distinct (positions (Node (Node a (q, y) b) (p, x) c))"
    and "h p = Some up" and "h q = Some down"
    and "rotate_right up p down (word_of_nat (size a)) = (res, nds)"
  shows "res = q \<and> stores (rotated h p q nds) res (Node a (q, y) (Node b (p, x) c))
    \<and> inorder (Node a (q, y) (Node b (p, x) c)) = inorder (Node (Node a (q, y) b) (p, x) c)
    \<and> (\<forall>o'. o' \<noteq> p \<and> o' \<noteq> q \<longrightarrow> rotated h p q nds o' = h o')"
  using assms
  by (auto simp: rotate_right_def rotated_def stores_update positions_def Let_def)

text \<open>
  The rotations undo each other: rotating right what a left rotation returned, with the size of the
  left grandchild, gives back the position and both nodes, counts included.
\<close>

theorem rotations_inverse:
  assumes "nd_right up = q" and "nd_elem_count up = na + nd_elem_count down + 1"
    and "nd_elem_count down = nb + nc + 1"
    and "rotate_left up p down nc = (res, up', down')"
  shows "res = q \<and> rotate_right down' q up' na = (p, down, up)"
  using assms by (auto simp: rotate_left_def rotate_right_def Let_def)

theorem rotations_inverse_witness:
  "rotate_right \<lparr>nd_left = 1, nd_right = 9, nd_elem_count = 7, nd_data = CHR ''b''\<rparr> 2
     \<lparr>nd_left = 8, nd_right = EMPTY, nd_elem_count = 4, nd_data = CHR ''a''\<rparr> 3 =
   (1, \<lparr>nd_left = EMPTY, nd_right = 9, nd_elem_count = 3, nd_data = CHR ''b''\<rparr>,
       \<lparr>nd_left = 8, nd_right = 2, nd_elem_count = 7, nd_data = CHR ''a''\<rparr>)"
proof -
  let ?up = "\<lparr>nd_left = 8, nd_right = 2, nd_elem_count = 7, nd_data = CHR ''a''\<rparr>"
  let ?down = "\<lparr>nd_left = EMPTY, nd_right = 9, nd_elem_count = 3, nd_data = CHR ''b''\<rparr>"
  have "rotate_left ?up 1 ?down 2 =
    (2, \<lparr>nd_left = 8, nd_right = EMPTY, nd_elem_count = 4, nd_data = CHR ''a''\<rparr>,
        \<lparr>nd_left = 1, nd_right = 9, nd_elem_count = 7, nd_data = CHR ''b''\<rparr>)"
    by (simp add: rotate_left_def)
  from rotations_inverse [OF _ _ _ this, of 2 3 0] show ?thesis by simp
qed

end
