(* ===== verification/Idx_Hash.thy ===== *)
theory Idx_Hash
  imports Prelude "HOL-Library.Multiset"
begin

text \<open>
  The hash functions of the hash index (\<open>common/storage/idx_hash_dynamic.cc\<close>, \<open>.h\<close>): values are
  computed in 64 bits and returned in 32. A division by a modulus of 0 is \<open>UndefinedBehaviour\<close>, and so
  is the overflow of the \<open>int\<close> counter for arrays of more than \<open>2 ^ 31\<close> items. The last function of the
  file, \<open>hash_table_append\<close>, does not parse and is not modelled.
\<close>

type_synonym hash_t = "32 word"
type_synonym hash_compute_t = "64 word"

definition to_hash :: "hash_compute_t \<Rightarrow> hash_t" where
  "to_hash w = ucast w"

text \<open>The loops; the third argument of the second one is the counter.\<close>

definition hash_fast_value :: "hash_t \<Rightarrow> hash_compute_t \<Rightarrow> hash_t result" where
  "hash_fast_value m v = (if m = 0 then Inl UndefinedBehaviour else Inr (to_hash (v mod ucast m)))"

fun hash_bytes_loop :: "hash_compute_t \<Rightarrow> bytes \<Rightarrow> hash_compute_t \<Rightarrow> hash_compute_t" where
  "hash_bytes_loop m [] res = res"
| "hash_bytes_loop m (b # bs) res = hash_bytes_loop m bs ((res * 13 + ucast b + 7) mod m)"

fun hash_hashes_loop :: "hash_compute_t \<Rightarrow> hash_t list \<Rightarrow> nat \<Rightarrow> hash_compute_t \<Rightarrow> hash_compute_t" where
  "hash_hashes_loop m [] it res = res"
| "hash_hashes_loop m (h # hs) it res =
     hash_hashes_loop m hs (Suc it) ((((res * 127) mod m) + ucast h + word_of_nat it + 7) mod m)"

fun hash_set_loop :: "hash_compute_t \<Rightarrow> hash_t list \<Rightarrow> hash_compute_t \<Rightarrow> hash_compute_t" where
  "hash_set_loop m [] res = res"
| "hash_set_loop m (h # hs) res = hash_set_loop m hs ((res * ucast h) mod m)"

definition loop_ok :: "hash_t \<Rightarrow> 'a list \<Rightarrow> bool" where
  "loop_ok m xs = ((m \<noteq> 0 \<or> xs = []) \<and> length xs < 2 ^ 31)"

definition hash_fast_bytes :: "hash_t \<Rightarrow> bytes \<Rightarrow> hash_t result" where
  "hash_fast_bytes m bs =
     (if loop_ok m bs then Inr (to_hash (hash_bytes_loop (ucast m) bs 127)) else Inl UndefinedBehaviour)"

definition hash_fast_hashes :: "hash_t \<Rightarrow> hash_t list \<Rightarrow> hash_t result" where
  "hash_fast_hashes m hs =
     (if loop_ok m hs then Inr (to_hash (hash_hashes_loop (ucast m) hs 0 191)) else Inl UndefinedBehaviour)"

definition hash_fast_set :: "hash_t \<Rightarrow> hash_t list \<Rightarrow> hash_t result" where
  "hash_fast_set m hs =
     (if loop_ok m hs then Inr (to_hash (hash_set_loop (ucast m) hs 1)) else Inl UndefinedBehaviour)"

text \<open>The values of the loops as natural numbers: nothing wraps in 64 bits.\<close>

lemma unat_lt_32: "unat (h :: 32 word) < 2 ^ 32"
  using unsigned_less [of h] by simp

lemma unat_lt_8: "unat (b :: 8 word) < 2 ^ 8"
  using unsigned_less [of b] by simp

lemma unat_ucast_32 [simp]: "unat (ucast (h :: 32 word) :: 64 word) = unat h"
  using unat_lt_32 [of h] by (simp add: unsigned_ucast_eq take_bit_nat_eq_self)

lemma unat_ucast_8 [simp]: "unat (ucast (b :: 8 word) :: 64 word) = unat b"
  using unat_lt_8 [of b] by (simp add: unsigned_ucast_eq take_bit_nat_eq_self)

lemma unat_add_small: "unat (a :: 64 word) + unat b < 2 ^ 64 \<Longrightarrow> unat (a + b) = unat a + unat b"
  by (simp add: unat_word_ariths)

lemma unat_mul_small: "unat (a :: 64 word) * unat b < 2 ^ 64 \<Longrightarrow> unat (a * b) = unat a * unat b"
  by (simp add: unat_word_ariths)

lemma hash_set_step:
  assumes "unat res < 2 ^ 32"
  shows "unat ((res * ucast (h :: hash_t)) mod (ucast (m :: hash_t) :: hash_compute_t)) = (unat res * unat h) mod unat m"
proof -
  have "unat res * unat h < 2 ^ 32 * 2 ^ 32"
    by (rule mult_strict_mono') (use assms unat_lt_32 [of h] in simp_all)
  then show ?thesis by (simp add: unat_mod unat_mul_small)
qed

lemma hash_set_loop_val:
  fixes m :: hash_t
  assumes "unat res < 2 ^ 32" and "m \<noteq> 0"
  shows "unat (hash_set_loop (ucast m) hs res) mod unat m = (unat res * prod_list (map unat hs)) mod unat m
    \<and> unat (hash_set_loop (ucast m) hs res) < 2 ^ 32
    \<and> (hs \<noteq> [] \<longrightarrow> unat (hash_set_loop (ucast m) hs res) < unat m)"
  using assms(1)
proof (induction hs arbitrary: res)
  case (Cons h hs)
  let ?r = "(res * ucast h) mod (ucast m :: hash_compute_t)"
  have m: "0 < unat m" using assms(2) by (simp add: unat_gt_0)
  have r: "unat ?r = (unat res * unat h) mod unat m" by (rule hash_set_step [OF Cons.prems])
  have lt: "unat ?r < unat m" using m r by simp
  then have "unat ?r < 2 ^ 32" using unat_lt_32 [of m] by linarith
  from Cons.IH [OF this] show ?case
    using lt r by (cases "hs = []") (simp_all add: mod_mult_left_eq mod_mult_eq mult.assoc)
qed simp

lemma unat_mod_ucast: "unat (a mod (ucast (m :: hash_t) :: hash_compute_t)) = unat a mod unat m"
  by (simp add: unat_mod)

lemma hash_bytes_bound:
  fixes m :: hash_t
  assumes "m \<noteq> 0" and "bs \<noteq> []"
  shows "unat (hash_bytes_loop (ucast m) bs res) < unat m"
  using assms(2)
proof (induction bs arbitrary: res)
  case (Cons b bs)
  then show ?case using assms(1) by (cases "bs = []") (simp_all add: unat_mod_ucast unat_gt_0)
qed simp

lemma hash_hashes_bound:
  fixes m :: hash_t
  assumes "m \<noteq> 0" and "hs \<noteq> []"
  shows "unat (hash_hashes_loop (ucast m) hs it res) < unat m"
  using assms(2)
proof (induction hs arbitrary: it res)
  case (Cons h hs)
  then show ?case using assms(1) by (cases "hs = []") (simp_all add: unat_mod_ucast unat_gt_0)
qed simp

lemma unat_to_hash: "unat w < 2 ^ 32 \<Longrightarrow> unat (to_hash w) = unat w"
  by (simp add: to_hash_def unsigned_ucast_eq take_bit_nat_eq_self)

lemma to_hash_less:
  assumes "unat w < unat (m :: hash_t)"
  shows "to_hash w < m"
  using assms unat_lt_32 [of m] unat_to_hash [of w] by (simp add: word_less_nat_alt)

lemma hash_set_loop_eq:
  fixes m :: hash_t
  assumes "m \<noteq> 0" and "hs \<noteq> []"
  shows "unat (hash_set_loop (ucast m) hs 1) = prod_list (map unat hs) mod unat m"
  using hash_set_loop_val [of 1 m hs] assms mod_less [of "unat (hash_set_loop (ucast m) hs 1)" "unat m"] by simp

text \<open>
  The hash of a set does not depend on the order in which its elements are listed: it is their
  product modulo \<open>m\<close>, and for no element it is 1.
\<close>

theorem hash_fast_set_order_independent:
  assumes "m \<noteq> 0" and "length hs < 2 ^ 31" and "mset hs = mset hs'"
  shows "hash_fast_set m hs' = hash_fast_set m hs
    \<and> (\<exists>h. hash_fast_set m hs = Inr h \<and> unat h mod unat m = prod_list (map unat hs) mod unat m
          \<and> (hs = [] \<longrightarrow> h = 1) \<and> (hs \<noteq> [] \<longrightarrow> h < m))"
proof
  have len: "length hs' = length hs" using assms(3) mset_eq_length by metis
  have prod: "prod_list (map unat hs') = prod_list (map unat hs)"
    by (metis assms(3) mset_map prod_mset_prod_list)
  have ok: "loop_ok m hs" "loop_ok m hs'" using assms len by (simp_all add: loop_ok_def)
  have "hash_set_loop (ucast m) hs' 1 = hash_set_loop (ucast m) hs 1"
  proof (cases "hs = []")
    case False
    then have "hs' \<noteq> []" using len by auto
    then have "unat (hash_set_loop (ucast m) hs' 1) = unat (hash_set_loop (ucast m) hs 1)"
      using hash_set_loop_eq assms(1) False prod by metis
    then show ?thesis by (simp add: word_unat_eq_iff)
  qed (use len in simp)
  then show "hash_fast_set m hs' = hash_fast_set m hs" by (simp add: hash_fast_set_def ok)
  note val = hash_set_loop_val [of 1 m hs]
  have "unat (to_hash (hash_set_loop (ucast m) hs 1)) = unat (hash_set_loop (ucast m) hs 1)"
    using val assms(1) by (intro unat_to_hash) simp
  moreover have "hs = [] \<longrightarrow> to_hash (hash_set_loop (ucast m) hs 1) = 1" by (auto simp: to_hash_def)
  ultimately show "\<exists>h. hash_fast_set m hs = Inr h \<and> unat h mod unat m = prod_list (map unat hs) mod unat m
          \<and> (hs = [] \<longrightarrow> h = 1) \<and> (hs \<noteq> [] \<longrightarrow> h < m)"
    using val assms(1) ok to_hash_less by (simp add: hash_fast_set_def)
qed

theorem hash_fast_set_order_independent_witness:
  "hash_fast_set 7 [3, 5] = hash_fast_set 7 [5, 3] \<and> hash_fast_set 7 [5, 3] = Inr 1"
proof -
  have "hash_fast_set 7 [3, 5] = hash_fast_set 7 [5, 3]"
    using hash_fast_set_order_independent [of 7 "[5, 3]" "[3, 5]"] by (simp add: add_mset_commute)
  then show ?thesis by (simp add: hash_fast_set_def loop_ok_def to_hash_def)
qed

text \<open>
  When a hash is a valid index: the hash of an array is below the modulus exactly when the array
  is not empty or the modulus exceeds the start value (127, 191 and 1), which is never reduced.
\<close>

theorem hash_below_modulus_iff:
  assumes "m \<noteq> 0"
  shows "(hash_fast_value m v = Inr h1 \<longrightarrow> h1 < m)
    \<and> (hash_fast_bytes m bs = Inr h2 \<longrightarrow> (h2 < m \<longleftrightarrow> bs \<noteq> [] \<or> 127 < m))
    \<and> (hash_fast_hashes m hs = Inr h3 \<longrightarrow> (h3 < m \<longleftrightarrow> hs \<noteq> [] \<or> 191 < m))
    \<and> (hash_fast_set m xs = Inr h4 \<longrightarrow> (h4 < m \<longleftrightarrow> xs \<noteq> [] \<or> 1 < m))"
proof (intro conjI impI)
  show "h1 < m" if "hash_fast_value m v = Inr h1"
    using that assms to_hash_less [of "v mod ucast m" m]
    by (auto simp: hash_fast_value_def unat_mod_ucast unat_gt_0)
  show "h2 < m \<longleftrightarrow> bs \<noteq> [] \<or> 127 < m" if "hash_fast_bytes m bs = Inr h2"
    using that to_hash_less [OF hash_bytes_bound [OF assms, of bs 127]]
    by (cases "bs = []") (auto simp: hash_fast_bytes_def to_hash_def split: if_splits)
  show "h3 < m \<longleftrightarrow> hs \<noteq> [] \<or> 191 < m" if "hash_fast_hashes m hs = Inr h3"
    using that to_hash_less [OF hash_hashes_bound [OF assms, of hs 0 191]]
    by (cases "hs = []") (auto simp: hash_fast_hashes_def to_hash_def split: if_splits)
  show "h4 < m \<longleftrightarrow> xs \<noteq> [] \<or> 1 < m" if "hash_fast_set m xs = Inr h4"
    using that to_hash_less [of "hash_set_loop (ucast m) xs 1" m] hash_set_loop_val [of 1 m xs] assms
    by (cases "xs = []") (auto simp: hash_fast_set_def to_hash_def split: if_splits)
qed

theorem hash_below_modulus_iff_witness:
  "hash_fast_bytes 100 [] = Inr 127 \<and> \<not> (127::hash_t) < 100 \<and> hash_fast_bytes 100 [1] = Inr 59 \<and> (59::hash_t) < 100"
proof -
  have e: "hash_fast_bytes 100 [] = Inr 127" and f: "hash_fast_bytes 100 [1] = Inr 59"
    by (simp_all add: hash_fast_bytes_def loop_ok_def to_hash_def)
  have "\<not> (127::hash_t) < 100" using hash_below_modulus_iff [of 100 0 0 "[]" 127 "[]" 0 "[]" 0] e by simp
  moreover have "(59::hash_t) < 100" using hash_below_modulus_iff [of 100 0 0 "[1]" 59 "[]" 0 "[]" 0] f by simp
  ultimately show ?thesis using e f by simp
qed

end
