(* ===== verification/Ieee_Float.thy ===== *)
theory Ieee_Float
  imports Prelude Complex_Main "HOL-Library.Word" "HOL-Library.Log_Nat"
begin

unbundle bit_operations_syntax

text \<open>
  The floating-point numbers of the language: \<open>float\<close> and \<open>double\<close> are the binary formats of IEEE 754, with
  every operation rounded to the nearest value, ties to even. A finite number is a sign, a significand and
  an exponent of two; operations compute the exact result on integers and round it once. The significand
  of a rounded result is at most \<open>2 ^ prec\<close>.
\<close>

subsection \<open>Formats and values\<close>

datatype ieee = NaN | Infinite bool | Finite bool nat int

record float_format =
  ff_prec :: nat
  ff_emin :: int
  ff_emax :: int

definition binary32 :: float_format where
  "binary32 = \<lparr>ff_prec = 24, ff_emin = -149, ff_emax = 104\<rparr>"

definition binary64 :: float_format where
  "binary64 = \<lparr>ff_prec = 53, ff_emin = -1074, ff_emax = 971\<rparr>"

fun ieee_val :: "ieee \<Rightarrow> real" where
  "ieee_val (Finite s m e) = (if s then - 1 else 1) * (real m * 2 powi e)"
| "ieee_val x = 0"

definition float_of_bits :: "32 word \<Rightarrow> ieee" where
  "float_of_bits w =
     (let s = bit w 31; ex = unat (drop_bit 23 w AND 0xFF); fr = unat (w AND 0x7FFFFF) in
      if ex = 255 then (if fr = 0 then Infinite s else NaN)
      else if ex = 0 then Finite s fr (-149)
      else Finite s (2 ^ 23 + fr) (int ex - 150))"

subsection \<open>Rounding\<close>

definition round_shift :: "nat \<Rightarrow> nat \<Rightarrow> nat" where
  "round_shift m k =
     (let q = m div 2 ^ k; r = m mod 2 ^ k in
      if 2 * r < 2 ^ k then q else if 2 * r > 2 ^ k then q + 1 else q + q mod 2)"

definition ieee_round :: "float_format \<Rightarrow> bool \<Rightarrow> nat \<Rightarrow> int \<Rightarrow> ieee" where
  "ieee_round F s m e =
     (let k = nat (max (int (floorlog 2 m) - int (ff_prec F)) (ff_emin F - e));
          m' = round_shift m k; e' = e + int k
      in if m' \<noteq> 0 \<and> int (floorlog 2 m') + e' > int (ff_prec F) + ff_emax F then Infinite s else Finite s m' e')"

subsection \<open>Operations\<close>

definition with_sign :: "bool \<Rightarrow> nat \<Rightarrow> int" where
  "with_sign s m = (if s then - int m else int m)"

fun fneg :: "ieee \<Rightarrow> ieee" where
  "fneg NaN = NaN"
| "fneg (Infinite s) = Infinite (\<not> s)"
| "fneg (Finite s m e) = Finite (\<not> s) m e"

definition fadd :: "float_format \<Rightarrow> ieee \<Rightarrow> ieee \<Rightarrow> ieee" where
  "fadd F x y = (case x of
      NaN \<Rightarrow> NaN
    | Infinite s \<Rightarrow> (case y of NaN \<Rightarrow> NaN | Infinite t \<Rightarrow> if s = t then Infinite s else NaN | Finite t n f \<Rightarrow> Infinite s)
    | Finite s m e \<Rightarrow> (case y of
          NaN \<Rightarrow> NaN
        | Infinite t \<Rightarrow> Infinite t
        | Finite t n f \<Rightarrow>
            let g = min e f; z = with_sign s m * 2 ^ nat (e - g) + with_sign t n * 2 ^ nat (f - g) in
            ieee_round F (if z = 0 then s \<and> t else z < 0) (nat \<bar>z\<bar>) g))"

definition fsub :: "float_format \<Rightarrow> ieee \<Rightarrow> ieee \<Rightarrow> ieee" where
  "fsub F x y = fadd F x (fneg y)"

definition fmul :: "float_format \<Rightarrow> ieee \<Rightarrow> ieee \<Rightarrow> ieee" where
  "fmul F x y = (case x of
      NaN \<Rightarrow> NaN
    | Infinite s \<Rightarrow> (case y of
          NaN \<Rightarrow> NaN
        | Infinite t \<Rightarrow> Infinite (s \<noteq> t)
        | Finite t n f \<Rightarrow> if n = 0 then NaN else Infinite (s \<noteq> t))
    | Finite s m e \<Rightarrow> (case y of
          NaN \<Rightarrow> NaN
        | Infinite t \<Rightarrow> if m = 0 then NaN else Infinite (s \<noteq> t)
        | Finite t n f \<Rightarrow> ieee_round F (s \<noteq> t) (m * n) (e + f)))"

text \<open>No comparison with a NaN holds.\<close>

definition fless :: "ieee \<Rightarrow> ieee \<Rightarrow> bool" where
  "fless x y = (case x of
      NaN \<Rightarrow> False
    | Infinite s \<Rightarrow> (case y of NaN \<Rightarrow> False | Infinite t \<Rightarrow> s \<and> \<not> t | Finite t n f \<Rightarrow> s)
    | Finite s m e \<Rightarrow> (case y of
          NaN \<Rightarrow> False
        | Infinite t \<Rightarrow> \<not> t
        | Finite t n f \<Rightarrow>
            let g = min e f in with_sign s m * 2 ^ nat (e - g) < with_sign t n * 2 ^ nat (f - g)))"

definition fleq :: "ieee \<Rightarrow> ieee \<Rightarrow> bool" where
  "fleq x y = (x \<noteq> NaN \<and> y \<noteq> NaN \<and> \<not> fless y x)"

definition ieee_of_int :: "float_format \<Rightarrow> int \<Rightarrow> ieee" where
  "ieee_of_int F z = ieee_round F (z < 0) (nat \<bar>z\<bar>) 0"

text \<open>From one format to the other; a \<open>float\<close> is a \<open>double\<close> as it is.\<close>

fun ieee_convert :: "float_format \<Rightarrow> ieee \<Rightarrow> ieee" where
  "ieee_convert F (Finite s m e) = ieee_round F s m e"
| "ieee_convert F x = x"

text \<open>The conversion to a signed integer of \<open>w\<close> bits cuts off the fraction; out of range it is undefined.\<close>

definition trunc_nat :: "nat \<Rightarrow> int \<Rightarrow> nat" where
  "trunc_nat m e = (if 0 \<le> e then m * 2 ^ nat e else m div 2 ^ nat (- e))"

fun ieee_to_int :: "nat \<Rightarrow> ieee \<Rightarrow> int option" where
  "ieee_to_int w (Finite s m e) =
     (let z = with_sign s (trunc_nat m e) in if - (2 ^ (w - 1)) \<le> z \<and> z < 2 ^ (w - 1) then Some z else None)"
| "ieee_to_int w x = None"

subsection \<open>Rounding is exact, or off by half a unit\<close>

lemma round_shift_0 [simp]: "round_shift m 0 = m"
  by (simp add: round_shift_def)

lemma round_shift_exact: "2 ^ k dvd m \<Longrightarrow> round_shift m k = m div 2 ^ k"
  by (simp add: round_shift_def Let_def)

lemma round_shift_error: "\<bar>2 * (2 ^ k * int (round_shift m k)) - 2 * int m\<bar> \<le> 2 ^ k"
proof -
  define q r where "q = m div 2 ^ k" and "r = m mod 2 ^ k"
  have "m = 2 ^ k * q + r" by (simp add: q_def r_def)
  then have m: "int m = 2 ^ k * int q + int r" by simp
  have "r < 2 ^ k" by (simp add: r_def)
  then have r: "int r < 2 ^ k" by simp
  have less: "2 * r < 2 ^ k \<longleftrightarrow> 2 * int r < 2 ^ k" "2 * r > 2 ^ k \<longleftrightarrow> 2 * int r > 2 ^ k"
    by (metis of_nat_less_numeral_power_cancel_iff of_nat_mult of_nat_numeral)
      (metis of_nat_mult of_nat_numeral numeral_power_less_of_nat_cancel_iff)
  have "q mod 2 = 0 \<or> q mod 2 = 1" by presburger
  then have "(round_shift m k = q \<and> 2 * int r \<le> 2 ^ k) \<or> (round_shift m k = q + 1 \<and> 2 * int r \<ge> 2 ^ k)"
    unfolding round_shift_def Let_def q_def [symmetric] r_def [symmetric] less by auto
  then consider "round_shift m k = q" "2 * int r \<le> 2 ^ k" | "round_shift m k = q + 1" "2 * int r \<ge> 2 ^ k" by blast
  then show ?thesis
  proof cases
    case 1
    have "2 * (2 ^ k * int (round_shift m k)) - 2 * int m = - (2 * int r)" unfolding 1(1) m by (simp add: algebra_simps)
    then show ?thesis using 1(2) r by simp
  next
    case 2
    have "2 * (2 ^ k * int (round_shift m k)) - 2 * int m = 2 * 2 ^ k - 2 * int r" unfolding 2(1) m by (simp add: algebra_simps)
    then show ?thesis using 2(2) r by simp
  qed
qed

lemma ieee_round_small:
  assumes "m < 2 ^ ff_prec F" and "ff_emin F \<le> e" and "e \<le> ff_emax F"
  shows "ieee_round F s m e = Finite s m e"
proof -
  have "floorlog 2 m \<le> ff_prec F" using assms(1) by (simp add: floorlog_leI)
  then show ?thesis using assms(2,3) by (simp add: ieee_round_def Let_def)
qed

lemma ieee_round_zero [simp]: "\<exists>e'. ieee_round F s 0 e = Finite s 0 e'"
  by (simp add: ieee_round_def Let_def round_shift_def)

lemma powi_split: "(2 :: real) powi (e + int k) = 2 ^ k * 2 powi e"
  by (simp add: power_int_add)

lemma ieee_round_exact:
  assumes "a < 2 ^ ff_prec F" and "0 < a" and "ff_emin F \<le> e + int j" and "e + int j \<le> ff_emax F"
  shows "\<exists>i\<le>j. ieee_round F s (a * 2 ^ j) e = Finite s (a * 2 ^ i) (e + int (j - i))"
proof -
  define m where "m = a * 2 ^ j"
  define k where "k = nat (max (int (floorlog 2 m) - int (ff_prec F)) (ff_emin F - e))"
  have la: "floorlog 2 a \<le> ff_prec F" using assms(1) by (simp add: floorlog_leI)
  have lm: "floorlog 2 m = floorlog 2 a + j" using assms(2) by (simp add: m_def floorlog_power)
  have kj: "k \<le> j" using la lm assms(3) by (simp add: k_def)
  define m' where "m' = a * 2 ^ (j - k)"
  have mk: "m = m' * 2 ^ k" using kj by (simp add: m_def m'_def flip: power_add)
  then have shift: "round_shift m k = m'" by (simp add: round_shift_exact)
  have "floorlog 2 m' = floorlog 2 a + (j - k)" using assms(2) by (simp add: m'_def floorlog_power)
  then have "\<not> (int (floorlog 2 m') + (e + int k) > int (ff_prec F) + ff_emax F)" using la kj assms(4) by simp
  then have "ieee_round F s m e = Finite s m' (e + int k)"
    unfolding ieee_round_def k_def [symmetric] Let_def shift by simp
  then show ?thesis using kj by (intro exI [of _ "j - k"]) (simp add: m_def m'_def)
qed

lemma ieee_round_exact_value:
  assumes "a < 2 ^ ff_prec F" and "0 < a" and "ff_emin F \<le> e + int j" and "e + int j \<le> ff_emax F"
  shows "\<exists>m' e'. ieee_round F s (a * 2 ^ j) e = Finite s m' e' \<and> real m' * 2 powi e' = real (a * 2 ^ j) * 2 powi e"
proof -
  obtain i where i: "i \<le> j" "ieee_round F s (a * 2 ^ j) e = Finite s (a * 2 ^ i) (e + int (j - i))"
    using ieee_round_exact [OF assms] by blast
  have "(2 :: real) ^ j = 2 ^ i * 2 ^ (j - i)" using i(1) by (simp flip: power_add)
  then have "real (a * 2 ^ i) * 2 powi (e + int (j - i)) = real (a * 2 ^ j) * 2 powi e" by (simp add: powi_split)
  then show ?thesis using i by blast
qed

lemma ieee_round_error:
  assumes "ieee_round F s m e = Finite t m' e'"
  shows "t = s \<and> \<bar>real m' * 2 powi e' - real m * 2 powi e\<bar> \<le> max (real m * 2 powi e / 2 ^ ff_prec F) (2 powi (ff_emin F - 1))"
proof -
  define k where "k = nat (max (int (floorlog 2 m) - int (ff_prec F)) (ff_emin F - e))"
  have res: "t = s" "m' = round_shift m k" "e' = e + int k"
    using assms unfolding ieee_round_def k_def [symmetric] Let_def by (auto split: if_splits)
  have diff: "real m' * 2 powi e' - real m * 2 powi e = (2 ^ k * real m' - real m) * 2 powi e"
    by (simp add: res powi_split algebra_simps)
  have "real_of_int \<bar>2 * (2 ^ k * int m') - 2 * int m\<bar> \<le> real_of_int (2 ^ k)"
    using round_shift_error [of k m] unfolding res(2) of_int_le_iff .
  then have "\<bar>2 * (2 ^ k * real m' - real m)\<bar> \<le> 2 ^ k" by (simp add: right_diff_distrib)
  then have half: "2 * \<bar>2 ^ k * real m' - real m\<bar> \<le> 2 ^ k" unfolding abs_mult by simp
  have bound: "\<bar>real m' * 2 powi e' - real m * 2 powi e\<bar> \<le> 2 ^ k / 2 * 2 powi e"
    unfolding diff abs_mult using half by (intro mult_mono) simp_all
  show ?thesis
  proof (cases k)
    case 0
    then show ?thesis using res by (simp add: le_max_iff_disj)
  next
    case (Suc i)
    have unit: "2 ^ k / 2 * 2 powi e = (2 :: real) powi (e + int i)" by (simp add: Suc powi_split)
    show ?thesis
    proof (cases "int (floorlog 2 m) - int (ff_prec F) \<le> ff_emin F - e")
      case True
      then have "e + int i = ff_emin F - 1" using Suc by (simp add: k_def)
      then show ?thesis using bound res(1) unfolding unit by simp
    next
      case False
      then have fl: "floorlog 2 m = ff_prec F + Suc i" using Suc by (simp add: k_def)
      then have "m \<noteq> 0" by (auto simp: floorlog_def split: if_splits)
      then have "2 ^ (ff_prec F + i) \<le> m" using floorlog_bounds [of m 2] fl by simp
      then have "real (2 ^ (ff_prec F + i)) \<le> real m" by (simp only: of_nat_le_iff)
      then have "2 ^ ff_prec F * 2 ^ i \<le> real m" by (simp add: power_add)
      then have "(2 :: real) ^ i \<le> real m / 2 ^ ff_prec F" by (simp add: field_simps)
      then have "(2 :: real) ^ i * 2 powi e \<le> real m / 2 ^ ff_prec F * 2 powi e" by (rule mult_right_mono) simp
      then have "(2 :: real) powi (e + int i) \<le> real m * 2 powi e / 2 ^ ff_prec F" by (simp add: powi_split)
      then show ?thesis using bound res(1) unfolding unit by simp
    qed
  qed
qed

lemma ieee_round_exponent: "ieee_round F s m e = Finite t m' e' \<Longrightarrow> e \<le> e' \<and> ff_emin F \<le> e'"
  by (auto simp: ieee_round_def Let_def split: if_splits)

lemma trunc_nat_floor: "int (trunc_nat m e) = \<lfloor>real m * 2 powi e\<rfloor>"
proof (cases "0 \<le> e")
  case True
  then have "real m * 2 powi e = real_of_int (int (m * 2 ^ nat e))" by (simp add: power_int_def)
  then show ?thesis using True by (simp only: floor_of_int trunc_nat_def if_True)
next
  case False
  then have "(2 :: real) powi e = inverse 2 ^ nat (- e)" by (simp only: power_int_def if_False)
  then have "real m * 2 powi e = real m / real (2 ^ nat (- e))"
    by (simp only: power_inverse divide_inverse of_nat_power of_nat_numeral)
  then show ?thesis using False by (simp only: floor_divide_of_nat_eq trunc_nat_def if_False)
qed

text \<open>The conversion to an integer depends on the value and the sign only.\<close>

lemma ieee_to_int_cong:
  "real m * 2 powi e = real n * 2 powi f \<Longrightarrow> ieee_to_int w (Finite s m e) = ieee_to_int w (Finite s n f)"
proof -
  assume "real m * 2 powi e = real n * 2 powi f"
  then have "int (trunc_nat m e) = int (trunc_nat n f)" unfolding trunc_nat_floor by simp
  then show ?thesis by simp
qed

lemma ieee_to_int_value:
  assumes "\<lfloor>real m * 2 powi e\<rfloor> < 2 ^ (w - 1)"
  shows "ieee_to_int w (Finite s m e) = Some (if s then - \<lfloor>real m * 2 powi e\<rfloor> else \<lfloor>real m * 2 powi e\<rfloor>)"
proof -
  define z where "z = int (trunc_nat m e)"
  have "0 \<le> z" "z < 2 ^ (w - 1)" "(0 :: int) < 2 ^ (w - 1)" using assms by (simp_all add: z_def flip: trunc_nat_floor)
  then have "- (2 ^ (w - 1)) \<le> z" "- z < 2 ^ (w - 1)" by linarith+
  then show ?thesis
    using \<open>z < 2 ^ (w - 1)\<close> unfolding trunc_nat_floor [symmetric] ieee_to_int.simps with_sign_def Let_def z_def [symmetric] by simp
qed

lemma fraction_below_one:
  assumes "real m * 2 powi e < 1" and "m < 2 ^ 24" and "0 < m"
  shows "e < 0" and "real m * 2 powi e \<le> 1 - 1 / 2 ^ 24"
proof -
  show neg: "e < 0"
  proof (rule ccontr)
    assume "\<not> e < 0"
    then have "(1 :: real) \<le> 2 powi e" by (simp add: power_int_def)
    then have "1 * 1 \<le> real m * 2 powi e" using assms(3) by (intro mult_mono) auto
    then show False using assms(1) by simp
  qed
  define n where "n = nat (- e)"
  have e: "e = - int n" using neg by (simp add: n_def)
  have inv: "2 ^ n * (2 :: real) powi e = 1" using powi_split [of e n] e by simp
  then have powi: "(2 :: real) powi e = 1 / 2 ^ n" by (simp add: field_simps)
  show "real m * 2 powi e \<le> 1 - 1 / 2 ^ 24"
  proof (cases "n \<le> 24")
    case True
    have "real m < 2 ^ n" using assms(1) by (simp add: powi field_simps)
    then have "m < 2 ^ n" by (metis of_nat_less_numeral_power_cancel_iff)
    then have "m + 1 \<le> 2 ^ n" by simp
    then have "real (m + 1) \<le> real (2 ^ n)" by (simp only: of_nat_le_iff)
    then have "real m * 2 powi e \<le> 1 - 1 / 2 ^ n" by (simp add: powi field_simps)
    moreover have "1 / (2 :: real) ^ 24 \<le> 1 / 2 ^ n" using True by (intro divide_left_mono power_increasing) simp_all
    ultimately show ?thesis by linarith
  next
    case False
    then have "(2 :: real) ^ 25 \<le> 2 ^ n" by (intro power_increasing) simp_all
    moreover have "real m \<le> 2 ^ 24" using assms(2) by simp
    ultimately have "real m * 2 powi e \<le> 2 ^ 24 / 2 ^ 25" unfolding powi by (simp add: frac_le)
    then show ?thesis by simp
  qed
qed

lemma round_shift_le: "round_shift m k \<le> m div 2 ^ k + 1"
  by (auto simp: round_shift_def Let_def)

lemma ieee_round_finite:
  assumes "m < 2 ^ b" and "ff_emin F \<le> e" and "2 * int b + 1 + e \<le> int (ff_prec F) + ff_emax F"
  shows "\<exists>m' e'. ieee_round F s m e = Finite s m' e'"
proof -
  define k where "k = nat (max (int (floorlog 2 m) - int (ff_prec F)) (ff_emin F - e))"
  have "floorlog 2 m \<le> b" using assms(1) by (simp add: floorlog_leI)
  then have k: "k \<le> b" using assms(2) by (simp add: k_def)
  have "round_shift m k \<le> m + 1" by (rule order_trans [OF round_shift_le]) simp
  then have "round_shift m k < 2 ^ Suc b" using assms(1) by simp
  then have "floorlog 2 (round_shift m k) \<le> Suc b" by (intro floorlog_leI) simp_all
  then have "\<not> int (floorlog 2 (round_shift m k)) + (e + int k) > int (ff_prec F) + ff_emax F" using k assms(3) by linarith
  then show ?thesis unfolding ieee_round_def k_def [symmetric] Let_def by simp
qed

lemma with_sign_scale: "with_sign s m * 2 ^ k = with_sign s (m * 2 ^ k)"
  by (simp add: with_sign_def)

text \<open>Comparing is comparing values.\<close>

lemma ieee_val_scale:
  "g \<le> e \<Longrightarrow> ieee_val (Finite s m e) = real_of_int (with_sign s m * 2 ^ nat (e - g)) * 2 powi g"
  using powi_split [of g "nat (e - g)"] by (simp add: with_sign_def)

lemma fless_val: "fless (Finite s m e) (Finite t n f) \<longleftrightarrow> ieee_val (Finite s m e) < ieee_val (Finite t n f)"
proof -
  define g where "g = min e f"
  have "ieee_val (Finite s m e) < ieee_val (Finite t n f)
      \<longleftrightarrow> real_of_int (with_sign s m * 2 ^ nat (e - g)) < real_of_int (with_sign t n * 2 ^ nat (f - g))"
    using ieee_val_scale [of g e s m] ieee_val_scale [of g f t n] by (simp add: g_def del: ieee_val.simps of_int_mult of_int_power)
  then show ?thesis by (simp only: of_int_less_iff fless_def ieee.case Let_def g_def)
qed

lemma fless_irrefl [simp]: "\<not> fless x x"
  by (cases x) (simp_all add: fless_def Let_def)

text \<open>A single-precision number as its bits give it.\<close>

lemma float_of_bits_bounds:
  assumes "float_of_bits w = Finite s m e"
  shows "m < 2 ^ 24" and "-149 \<le> e" and "e \<le> 104"
proof -
  define ex fr where "ex = unat (drop_bit 23 w AND 0xFF)" and "fr = unat (w AND 0x7FFFFF)"
  have "w AND 0x7FFFFF = take_bit 23 w" "drop_bit 23 w AND 0xFF = take_bit 8 (drop_bit 23 w)"
    by (simp_all add: take_bit_eq_mask mask_numeral)
  then have "fr < 2 ^ 23" "ex < 2 ^ 8"
    using take_bit_nat_less_exp [of 23 "unat w"] take_bit_nat_less_exp [of 8 "unat (drop_bit 23 w)"]
    by (simp_all add: unsigned_take_bit_eq ex_def fr_def)
  then show "m < 2 ^ 24" "-149 \<le> e" "e \<le> 104"
    using assms unfolding float_of_bits_def Let_def ex_def [symmetric] fr_def [symmetric] by (auto split: if_splits)
qed

end
