(* ===== verification/Sys_Time.thy ===== *)
theory Sys_Time
  imports Ieee_Float
begin

text \<open>
  Seconds as floating-point numbers (\<open>common/utils/sys/time.cc\<close>, \<open>set_socket_timeout\<close> of
  \<open>common/utils/sys/socket.cc\<close>, \<open>tcpv4_set_timeout\<close> of \<open>common/net/tcpv4.cc\<close>): how a \<open>float\<close> is split into
  seconds and a fraction in smaller units, in the types in which the code computes. A conversion that C++
  leaves undefined is \<open>None\<close>.
\<close>

subsection \<open>Splitting a number of seconds\<close>

text \<open>The whole seconds are converted back to a \<open>float\<close> and subtracted.\<close>

definition float_fraction :: "ieee \<Rightarrow> int \<Rightarrow> ieee" where
  "float_fraction sec z = fsub binary32 sec (ieee_of_int binary32 z)"

text \<open>
  \<open>tv_sec\<close> and \<open>tv_usec\<close>: \<open>set_socket_timeout\<close> multiplies the fraction as a \<open>double\<close>, \<open>tcpv4_set_timeout\<close> as a
  \<open>float\<close> and through \<open>int\<close>.
\<close>

definition socket_timeval :: "ieee \<Rightarrow> (int \<times> int) option" where
  "socket_timeval timeout_sec =
     (case ieee_to_int 64 timeout_sec of
        None \<Rightarrow> None
      | Some sec \<Rightarrow> map_option (Pair sec)
          (ieee_to_int 64 (fmul binary64 (float_fraction timeout_sec sec) (ieee_of_int binary64 1000000))))"

definition tcpv4_timeval :: "ieee \<Rightarrow> (int \<times> int) option" where
  "tcpv4_timeval timeout_sec =
     (case ieee_to_int 32 timeout_sec of
        None \<Rightarrow> None
      | Some sec \<Rightarrow> map_option (Pair sec)
          (ieee_to_int 32 (fmul binary32 (float_fraction timeout_sec sec) (ieee_of_int binary32 1000000))))"

text \<open>\<open>sleep_sec\<close>, with the list of the arguments of \<open>nanosleep\<close>; what it returns is not looked at.\<close>

definition sleep_timespec :: "ieee \<Rightarrow> (int \<times> int) option" where
  "sleep_timespec sec =
     (case ieee_to_int 64 sec of
        None \<Rightarrow> None
      | Some s \<Rightarrow> map_option (Pair s)
          (ieee_to_int 64 (fmul binary64 (float_fraction sec s) (ieee_of_int binary64 1000000000))))"

definition sleep_sec :: "ieee \<Rightarrow> (int \<times> int) list \<Rightarrow> (int \<times> int) list result" where
  "sleep_sec sec sleeps =
     (if fleq sec (Finite False 0 0) then Inr sleeps
      else case sleep_timespec sec of None \<Rightarrow> Inl UndefinedBehaviour | Some ts \<Rightarrow> Inr (sleeps @ [ts]))"

text \<open>The literal \<open>1e-9\<close>, and the difference of two times; its type is \<open>float\<close>, it is computed as a \<open>double\<close>.\<close>

definition nano :: ieee where
  "nano = Finite False 0x112E0BE826D695 (-82)"

definition fits_long :: "int \<Rightarrow> bool" where
  "fits_long z = (- (2 ^ 63) \<le> z \<and> z < 2 ^ 63)"

definition timespec_diff_sec :: "int \<times> int \<Rightarrow> int \<times> int \<Rightarrow> ieee result" where
  "timespec_diff_sec start until =
     (let sec = fst until - fst start; nsec = snd until - snd start in
      if fits_long sec \<and> fits_long nsec
      then Inr (ieee_convert binary32 (fadd binary64 (ieee_of_int binary64 sec) (fmul binary64 (ieee_of_int binary64 nsec) nano)))
      else Inl UndefinedBehaviour)"

text \<open>Whether the clock could be read is not looked at: the variable keeps what the stack held.\<close>

definition timespec_timestamp :: "int \<times> int \<Rightarrow> (int \<times> int) option \<Rightarrow> int \<times> int" where
  "timespec_timestamp stack clock = (case clock of None \<Rightarrow> stack | Some now \<Rightarrow> now)"

subsection \<open>The fraction is exact\<close>

lemma float_fraction_of_whole:
  assumes "m < 2 ^ 24" and "e \<le> 104" and z: "z = with_sign s (trunc_nat m e)" and True: "0 \<le> e"
  shows "\<exists>s' m' e'. float_fraction (Finite s m e) z = Finite s' m' e' \<and> real m' * 2 powi e' = frac (real m * 2 powi e)
    \<and> m' < 2 ^ 24 \<and> -149 \<le> e' \<and> e' \<le> 104 \<and> (m' \<noteq> 0 \<longrightarrow> s' = s)"
proof -
  have z: "z = with_sign s (m * 2 ^ nat e)" using z True by (simp add: trunc_nat_def)
  have whole: "real m * 2 powi e = real_of_int (int (m * 2 ^ nat e))" using True by (simp add: power_int_def)
  obtain n f where conv: "ieee_of_int binary32 z = Finite (z < 0) n f" and val: "real n * 2 powi f = real m * 2 powi e" and "0 \<le> f"
  proof (cases "m = 0")
    case True
    then have "ieee_of_int binary32 z = Finite (z < 0) 0 0" by (simp add: z with_sign_def ieee_of_int_def ieee_round_def binary32_def floorlog_def)
    then show ?thesis using that True by simp
  next
    case False
    have abs: "nat \<bar>z\<bar> = m * 2 ^ nat e" by (simp add: z with_sign_def nat_mult_distrib nat_power_eq)
    have "\<exists>n f. ieee_round binary32 (z < 0) (m * 2 ^ nat e) 0 = Finite (z < 0) n f
        \<and> real n * 2 powi f = real (m * 2 ^ nat e) * 2 powi 0"
      by (rule ieee_round_exact_value) (use False assms True in \<open>simp_all add: binary32_def\<close>)
    then obtain n f where r: "ieee_round binary32 (z < 0) (m * 2 ^ nat e) 0 = Finite (z < 0) n f"
      "real n * 2 powi f = real (m * 2 ^ nat e) * 2 powi 0" by blast
    then show ?thesis using that ieee_round_exponent [OF r(1)] whole by (simp add: ieee_of_int_def abs)
  qed
  define g where "g = min e f"
  have g: "0 \<le> g" "g \<le> 104" using True \<open>0 \<le> f\<close> assms(2) by (auto simp: g_def)
  have scale: "real k * 2 powi h = real (k * 2 ^ nat (h - g)) * 2 powi g" if "g \<le> h" for k h
    using powi_split [of g "nat (h - g)"] that by simp
  have "real (m * 2 ^ nat (e - g)) = real (n * 2 ^ nat (f - g))"
    using val scale [of e m] scale [of f n] by (simp add: g_def)
  then have eq: "n * 2 ^ nat (f - g) = m * 2 ^ nat (e - g)" by (simp only: of_nat_eq_iff)
  have "with_sign s m * 2 ^ nat (e - g) + with_sign (\<not> z < 0) n * 2 ^ nat (f - g) = 0"
    unfolding with_sign_scale eq by (auto simp: with_sign_def z mult_less_0_iff zero_less_mult_iff)
  then have "float_fraction (Finite s m e) z = ieee_round binary32 (s \<and> \<not> z < 0) 0 g"
    by (simp add: float_fraction_def fsub_def conv fadd_def Let_def flip: g_def)
  then have "float_fraction (Finite s m e) z = Finite (s \<and> \<not> z < 0) 0 g"
    using g by (simp add: ieee_round_def binary32_def floorlog_def)
  moreover have "frac (real m * 2 powi e) = 0" unfolding whole by simp
  ultimately show ?thesis using g by auto
qed

lemma float_fraction_of_fraction:
  assumes "m < 2 ^ 24" and "-149 \<le> e" and "e \<le> 104" and z: "z = with_sign s (trunc_nat m e)" and False: "\<not> 0 \<le> e"
  shows "\<exists>s' m' e'. float_fraction (Finite s m e) z = Finite s' m' e' \<and> real m' * 2 powi e' = frac (real m * 2 powi e)
    \<and> m' < 2 ^ 24 \<and> -149 \<le> e' \<and> e' \<le> 104 \<and> (m' \<noteq> 0 \<longrightarrow> s' = s)"
proof -
  define n where "n = nat (- e)"
  have e: "e = - int n" and "0 < n" using False by (simp_all add: n_def)
  have t: "trunc_nat m e = m div 2 ^ n" using False by (simp add: trunc_nat_def n_def)
  have "m div 2 ^ n < 2 ^ 24" using assms(1) by (meson div_le_dividend le_less_trans)
  then have conv: "ieee_of_int binary32 z = Finite (z < 0) (m div 2 ^ n) 0"
    using ieee_round_small [of "m div 2 ^ n" binary32 0] z by (simp add: ieee_of_int_def t with_sign_def binary32_def)
  have neg: "with_sign (\<not> z < 0) (m div 2 ^ n) = - z" using z by (simp add: t with_sign_def)
  define q r where "q = m div 2 ^ n" and "r = m mod 2 ^ n"
  have "m = q * 2 ^ n + r" unfolding q_def r_def by (rule div_mult_mod_eq [symmetric])
  then have m: "int m = int q * 2 ^ n + int r" by simp
  have diff: "with_sign s m + (- z) * 2 ^ n = with_sign s (m mod 2 ^ n)"
    unfolding z t with_sign_def m q_def [symmetric] r_def [symmetric] by (simp add: algebra_simps)
  have small: "m mod 2 ^ n < 2 ^ 24" using assms(1) by (meson mod_less_eq_dividend le_less_trans)
  have min: "min e 0 = e" "nat (e - e) = 0" "nat (0 - e) = n" using False by (simp_all add: n_def)
  have "float_fraction (Finite s m e) z
      = ieee_round binary32 (if with_sign s (m mod 2 ^ n) = 0 then s \<and> \<not> z < 0 else with_sign s (m mod 2 ^ n) < 0) (m mod 2 ^ n) e"
  proof -
    have "nat \<bar>with_sign s (m mod 2 ^ n)\<bar> = m mod 2 ^ n" by (simp add: with_sign_def)
    then show ?thesis
      by (simp only: float_fraction_def fsub_def conv fneg.simps fadd_def ieee.case Let_def min power_0 mult_1_right neg diff)
  qed
  also have "\<dots> = Finite (if with_sign s (m mod 2 ^ n) = 0 then s \<and> \<not> z < 0 else with_sign s (m mod 2 ^ n) < 0) (m mod 2 ^ n) e"
    by (rule ieee_round_small) (use small assms in \<open>simp_all add: binary32_def\<close>)
  finally have "float_fraction (Finite s m e) z = Finite (if m mod 2 ^ n = 0 then s \<and> \<not> z < 0 else s) (m mod 2 ^ n) e"
    by (auto simp: with_sign_def)
  moreover have "real (m mod 2 ^ n) * 2 powi e = frac (real m * 2 powi e)"
  proof -
    have inv: "2 ^ n * (2 :: real) powi e = 1" using powi_split [of e n] e by simp
    have "real m = real (m div 2 ^ n * 2 ^ n + m mod 2 ^ n)" by (rule arg_cong [OF div_mult_mod_eq [symmetric]])
    then have "real m * 2 powi e = real (m div 2 ^ n) * (2 ^ n * 2 powi e) + real (m mod 2 ^ n) * 2 powi e"
      by (simp only: of_nat_add of_nat_mult of_nat_power of_nat_numeral distrib_right mult.assoc)
    moreover have "real_of_int \<lfloor>real m * 2 powi e\<rfloor> = real (m div 2 ^ n)"
      unfolding trunc_nat_floor [symmetric] t by simp
    ultimately show ?thesis by (simp add: frac_def inv)
  qed
  ultimately show ?thesis using small assms by (intro exI conjI) auto
qed

lemma float_fraction:
  assumes "m < 2 ^ 24" and "-149 \<le> e" and "e \<le> 104" and "ieee_to_int w (Finite s m e) = Some z"
  shows "\<exists>s' m' e'. float_fraction (Finite s m e) z = Finite s' m' e' \<and> real m' * 2 powi e' = frac (real m * 2 powi e)
    \<and> m' < 2 ^ 24 \<and> -149 \<le> e' \<and> e' \<le> 104 \<and> (m' \<noteq> 0 \<longrightarrow> s' = s)"
proof -
  have z: "z = with_sign s (trunc_nat m e)" using assms(4) by (simp add: Let_def split: if_splits)
  show ?thesis
    using float_fraction_of_whole [OF assms(1,3) z] float_fraction_of_fraction [OF assms(1-3) z] by blast
qed

lemma million [simp]:
  "ieee_of_int binary64 1000000 = Finite False 1000000 0" "ieee_of_int binary32 1000000 = Finite False 1000000 0"
  "ieee_of_int binary64 1000000000 = Finite False 1000000000 0"
  using ieee_round_small [of 1000000 binary64 0] ieee_round_small [of 1000000 binary32 0] ieee_round_small [of 1000000000 binary64 0]
  by (simp_all add: ieee_of_int_def binary32_def binary64_def)

lemma floors_near: "\<bar>p - x\<bar> < 1 \<Longrightarrow> \<bar>\<lfloor>p\<rfloor> - \<lfloor>x\<rfloor>\<bar> \<le> 1" for p x :: real
  by linarith

lemma rounded_below:
  fixes p x :: real
  assumes "\<bar>p - x * 10 ^ 6\<bar> \<le> x * 10 ^ 6 / 2 ^ 24 \<or> \<bar>p - x * 10 ^ 6\<bar> \<le> 1 / 2 ^ 24" and "0 \<le> x" and "x \<le> 1 - 1 / 2 ^ 24"
  shows "\<bar>p - x * 10 ^ 6\<bar> < 1" and "p < 10 ^ 6"
proof -
  have "x * 10 ^ 6 / 2 ^ 24 \<le> 1 / 2" using assms(3) by simp
  then show "\<bar>p - x * 10 ^ 6\<bar> < 1" using assms(1) by fastforce
  have "p - x * 10 ^ 6 \<le> x * 10 ^ 6 / 2 ^ 24 \<or> p - x * 10 ^ 6 \<le> 1 / 2 ^ 24" using assms(1) abs_ge_self order_trans by blast
  then show "p < 10 ^ 6" using assms(3) by (elim disjE) (simp_all add: field_simps)
qed

lemma signed_floor:
  assumes "real m * 2 powi e = x" and "m \<noteq> 0 \<Longrightarrow> s' = s"
  shows "(if s' then - \<lfloor>x * c\<rfloor> else \<lfloor>x * c\<rfloor>) = (if s then - \<lfloor>x * c\<rfloor> else \<lfloor>x * c\<rfloor>)"
proof (cases "m = 0")
  case True
  then have "x = 0" using assms(1) by simp
  then show ?thesis by (simp only: mult_zero_left floor_zero) simp
qed (use assms(2) in simp)

lemma socket_timeval_value:
  assumes sec: "ieee_to_int 64 (Finite s m e) = Some sec" and f: "float_fraction (Finite s m e) sec = Finite s' m' e'"
    and val: "real m' * 2 powi e' = frac v" and m': "m' < 2 ^ 24" and e': "-149 \<le> e'" "e' \<le> 104" and sgn: "m' \<noteq> 0 \<Longrightarrow> s' = s"
  shows "socket_timeval (Finite s m e) = Some (sec, if s then - \<lfloor>frac v * 10 ^ 6\<rfloor> else \<lfloor>frac v * 10 ^ 6\<rfloor>)"
proof -
  have prod: "real (m' * 1000000) * 2 powi e' = frac v * 10 ^ 6" by (simp flip: val)
  have below: "frac v * 10 ^ 6 < 10 ^ 6" using frac_lt_1 [of v] by simp
  have exact: "fmul binary64 (Finite s' m' e') (Finite False 1000000 0) = Finite s' (m' * 1000000) e'"
    using ieee_round_small [of "m' * 1000000" binary64 e' s'] m' e' by (simp add: fmul_def binary64_def)
  have "\<lfloor>frac v * 10 ^ 6\<rfloor> < 2 ^ 63" using below by (simp add: floor_less_iff)
  then have "ieee_to_int 64 (Finite s' (m' * 1000000) e') = Some (if s' then - \<lfloor>frac v * 10 ^ 6\<rfloor> else \<lfloor>frac v * 10 ^ 6\<rfloor>)"
    using ieee_to_int_value [of "m' * 1000000" e' 64 s'] unfolding prod by simp
  moreover have "(if s' then - \<lfloor>frac v * 10 ^ 6\<rfloor> else \<lfloor>frac v * 10 ^ 6\<rfloor>) = (if s then - \<lfloor>frac v * 10 ^ 6\<rfloor> else \<lfloor>frac v * 10 ^ 6\<rfloor>)"
    using sgn by (rule signed_floor [OF val])
  ultimately show "socket_timeval (Finite s m e) = Some (sec, if s then - \<lfloor>frac v * 10 ^ 6\<rfloor> else \<lfloor>frac v * 10 ^ 6\<rfloor>)"
    by (simp only: socket_timeval_def sec f million exact option.case option.map)
qed

lemma tcpv4_timeval_value:
  assumes sec: "ieee_to_int 32 (Finite s m e) = Some sec" and f: "float_fraction (Finite s m e) sec = Finite s' m' e'"
    and val: "real m' * 2 powi e' = frac v" and m': "m' < 2 ^ 24" and e': "-149 \<le> e'" "e' \<le> 104" and sgn: "m' \<noteq> 0 \<Longrightarrow> s' = s"
  obtains us where "tcpv4_timeval (Finite s m e) = Some (sec, if s then - us else us)"
    and "0 \<le> us" and "us < 10 ^ 6" and "\<bar>us - \<lfloor>frac v * 10 ^ 6\<rfloor>\<bar> \<le> 1"
proof (cases "m' = 0")
  case True
  then have "fmul binary32 (Finite s' m' e') (Finite False 1000000 0) = Finite s' 0 e'"
    using ieee_round_small [of 0 binary32 e' s'] e' by (simp add: fmul_def binary32_def)
  then have "tcpv4_timeval (Finite s m e) = Some (sec, if s then - 0 else 0)"
    by (simp add: tcpv4_timeval_def sec f with_sign_def trunc_nat_def del: ieee_to_int.simps) (simp add: with_sign_def trunc_nat_def)
  moreover have "frac v = 0" using val True by simp
  then have "\<lfloor>frac v * 10 ^ 6\<rfloor> = 0" by (simp only: mult_zero_left floor_zero)
  ultimately show ?thesis by (intro that [of 0]) (unfold \<open>\<lfloor>frac v * 10 ^ 6\<rfloor> = 0\<close>, simp_all)
  next
  case False
  have fv: "e' < 0" "frac v \<le> 1 - 1 / 2 ^ 24"
    using fraction_below_one [of m' e'] m' False frac_lt_1 [of v] unfolding val by auto
  obtain m2 e2 where r: "ieee_round binary32 s (m' * 1000000) e' = Finite s m2 e2"
    using ieee_round_finite [of "m' * 1000000" 44 binary32 e' s] m' e' fv(1) by (auto simp: binary32_def)
  define p where "p = real m2 * 2 powi e2"
  have prod: "real (m' * 1000000) * 2 powi e' = frac v * 10 ^ 6" by (simp flip: val)
  have err: "\<bar>p - frac v * 10 ^ 6\<bar> \<le> max (frac v * 10 ^ 6 / 2 ^ 24) (2 powi (-150))"
    using ieee_round_error [OF r] prod by (simp add: p_def binary32_def)
  have "(2 :: real) powi (-150) \<le> 2 powi (-24)" by (rule power_int_increasing) simp_all
  then have tiny: "(2 :: real) powi (-150) \<le> 1 / 2 ^ 24" by (simp add: power_int_def power_divide)
  have near: "\<bar>p - frac v * 10 ^ 6\<bar> \<le> frac v * 10 ^ 6 / 2 ^ 24 \<or> \<bar>p - frac v * 10 ^ 6\<bar> \<le> 1 / 2 ^ 24"
    using err order_trans [OF _ tiny] unfolding le_max_iff_disj by blast
  have pos: "0 \<le> p" by (simp add: p_def)
  note p = pos rounded_below [OF near frac_ge_0 fv(2)]
  have "\<lfloor>p\<rfloor> < 2 ^ 31" using p(3) by (simp add: floor_less_iff)
  then have "ieee_to_int 32 (Finite s m2 e2) = Some (if s then - \<lfloor>p\<rfloor> else \<lfloor>p\<rfloor>)"
    unfolding p_def by (intro ieee_to_int_value) simp
  moreover have "fmul binary32 (Finite s' m' e') (Finite False 1000000 0) = Finite s m2 e2"
    using r sgn [OF False] by (simp add: fmul_def)
  ultimately have "tcpv4_timeval (Finite s m e) = Some (sec, if s then - \<lfloor>p\<rfloor> else \<lfloor>p\<rfloor>)"
    by (simp only: tcpv4_timeval_def sec f million option.case option.map)
  moreover have "\<lfloor>p\<rfloor> < 10 ^ 6" "\<bar>\<lfloor>p\<rfloor> - \<lfloor>frac v * 10 ^ 6\<rfloor>\<bar> \<le> 1"
    using p(3) floors_near [OF p(2)] by (simp_all add: floor_less_iff)
  ultimately show ?thesis using that [of "\<lfloor>p\<rfloor>"] p(1) by simp
qed

lemma timeout_splits:
  assumes "float_of_bits w = Finite s m e" and "real m * 2 powi e < 2 ^ 31"
  shows "\<exists>us. socket_timeval (float_of_bits w) = Some (if s then - \<lfloor>real m * 2 powi e\<rfloor> else \<lfloor>real m * 2 powi e\<rfloor>,
        let exact = \<lfloor>frac (real m * 2 powi e) * 10 ^ 6\<rfloor> in if s then - exact else exact)
    \<and> tcpv4_timeval (float_of_bits w) = Some (if s then - \<lfloor>real m * 2 powi e\<rfloor> else \<lfloor>real m * 2 powi e\<rfloor>, if s then - us else us)
    \<and> 0 \<le> us \<and> us < 10 ^ 6 \<and> \<bar>us - \<lfloor>frac (real m * 2 powi e) * 10 ^ 6\<rfloor>\<bar> \<le> 1"
proof -
  define v where "v = real m * 2 powi e"
  define sec where "sec = (if s then - \<lfloor>v\<rfloor> else \<lfloor>v\<rfloor>)"
  have "\<lfloor>v\<rfloor> < 2 ^ 31" using assms(2) by (simp add: v_def floor_less_iff)
  then have sec: "ieee_to_int 64 (Finite s m e) = Some sec" "ieee_to_int 32 (Finite s m e) = Some sec"
    unfolding sec_def v_def by (intro ieee_to_int_value; simp)+
  obtain s' m' e' where f: "float_fraction (Finite s m e) sec = Finite s' m' e'"
    and val: "real m' * 2 powi e' = frac v" and m': "m' < 2 ^ 24" and e': "-149 \<le> e'" "e' \<le> 104" and sgn: "m' \<noteq> 0 \<Longrightarrow> s' = s"
    using float_fraction [OF float_of_bits_bounds [OF assms(1)] sec(1)] unfolding v_def by blast
  show ?thesis
    unfolding assms(1) v_def [symmetric] sec_def [symmetric] Let_def
    using socket_timeval_value [OF sec(1) f val m' e' sgn] tcpv4_timeval_value [OF sec(2) f val m' e' sgn] by metis
qed

text \<open>
  C27. Both conversions of a timeout in seconds: where the number of seconds fits an \<open>int\<close>, they agree in the
  seconds, the microseconds of \<open>set_socket_timeout\<close> are exact, cut off below, those of
  \<open>tcpv4_set_timeout\<close> are off by at most one, and both are below a million, so that the call takes them when the timeout is not
  negative.
\<close>

theorem timeouts_converted_alike:
  assumes "float_of_bits w = Finite s m e" and "real m * 2 powi e < 2 ^ 31"
  shows "\<exists>us. socket_timeval (float_of_bits w) = Some (if s then - \<lfloor>real m * 2 powi e\<rfloor> else \<lfloor>real m * 2 powi e\<rfloor>,
        let exact = \<lfloor>frac (real m * 2 powi e) * 10 ^ 6\<rfloor> in if s then - exact else exact)
    \<and> tcpv4_timeval (float_of_bits w) = Some (if s then - \<lfloor>real m * 2 powi e\<rfloor> else \<lfloor>real m * 2 powi e\<rfloor>, if s then - us else us)
    \<and> 0 \<le> us \<and> us < 10 ^ 6 \<and> \<bar>us - \<lfloor>frac (real m * 2 powi e) * 10 ^ 6\<rfloor>\<bar> \<le> 1"
  by (rule timeout_splits [OF assms])

theorem timeouts_converted_alike_witness:
  "\<exists>us. socket_timeval (float_of_bits 0x40200000) = Some (2, 500000)
     \<and> tcpv4_timeval (float_of_bits 0x40200000) = Some (2, us) \<and> \<bar>us - 500000\<bar> \<le> 1"
proof -
  have w: "float_of_bits 0x40200000 = Finite False 10485760 (-22)"
    by (simp add: float_of_bits_def Let_def)
  have v: "real 10485760 * 2 powi (-22) = 5 / 2" by (simp add: power_int_def power_divide)
  have "\<lfloor>5 / 2 :: real\<rfloor> = 2" "\<lfloor>frac (5 / 2 :: real) * 10 ^ 6\<rfloor> = 500000" by (simp_all add: frac_def)
  then show ?thesis using timeouts_converted_alike [OF w] unfolding v by (fastforce simp: Let_def)
qed

subsection \<open>Sleeping\<close>

lemma fmul_billion:
  assumes "m < 2 ^ 24" and "-149 \<le> e" "e \<le> 104"
  shows "\<exists>m2 e2. fmul binary64 (Finite s m e) (Finite False 1000000000 0) = Finite s m2 e2
    \<and> real m2 * 2 powi e2 = real m * 2 powi e * 10 ^ 9"
proof (cases "m = 0")
  case True
  then show ?thesis using ieee_round_small [of 0 binary64 e s] assms by (auto simp: fmul_def binary64_def)
next
  case False
  have split: "m * 1000000000 = m * 1953125 * 2 ^ 9" by simp
  have "\<exists>m2 e2. ieee_round binary64 s (m * 1000000000) e = Finite s m2 e2
      \<and> real m2 * 2 powi e2 = real (m * 1000000000) * 2 powi e"
    unfolding split by (rule ieee_round_exact_value) (use assms False in \<open>simp_all add: binary64_def\<close>)
  moreover have "real (m * 1000000000) * 2 powi e = real m * 2 powi e * 10 ^ 9" by simp
  ultimately show ?thesis by (auto simp: fmul_def)
qed

lemma sleep_timespec_value:
  assumes "float_of_bits w = Finite s m e" and "real m * 2 powi e < 2 ^ 63" and "\<not> s"
  shows "sleep_timespec (Finite s m e) = Some (\<lfloor>real m * 2 powi e\<rfloor>, \<lfloor>frac (real m * 2 powi e) * 10 ^ 9\<rfloor>)"
proof -
  define v where "v = real m * 2 powi e"
  have "\<lfloor>v\<rfloor> < 2 ^ 63" using assms(2) by (simp add: v_def floor_less_iff)
  then have sec: "ieee_to_int 64 (Finite s m e) = Some \<lfloor>v\<rfloor>" using ieee_to_int_value [of m e 64 s] assms(3) by (simp add: v_def)
  obtain s' m' e' where f: "float_fraction (Finite s m e) \<lfloor>v\<rfloor> = Finite s' m' e'"
    and val: "real m' * 2 powi e' = frac v" and m': "m' < 2 ^ 24" and e': "-149 \<le> e'" "e' \<le> 104" and sgn: "m' \<noteq> 0 \<Longrightarrow> s' = s"
    using float_fraction [OF float_of_bits_bounds [OF assms(1)] sec] unfolding v_def by blast
  obtain m2 e2 where prod: "fmul binary64 (Finite s' m' e') (Finite False 1000000000 0) = Finite s' m2 e2"
    and val2: "real m2 * 2 powi e2 = frac v * 10 ^ 9"
    using fmul_billion [OF m' e'] val by metis
  have "frac v * 10 ^ 9 < 10 ^ 9" using frac_lt_1 [of v] by simp
  then have "\<lfloor>frac v * 10 ^ 9\<rfloor> < 2 ^ (64 - 1)" by (simp add: floor_less_iff)
  then have "ieee_to_int 64 (Finite s' m2 e2) = Some (if s' then - \<lfloor>frac v * 10 ^ 9\<rfloor> else \<lfloor>frac v * 10 ^ 9\<rfloor>)"
    unfolding val2 [symmetric] by (rule ieee_to_int_value)
  moreover have "(if s' then - \<lfloor>frac v * 10 ^ 9\<rfloor> else \<lfloor>frac v * 10 ^ 9\<rfloor>) = \<lfloor>frac v * 10 ^ 9\<rfloor>"
    using signed_floor [OF val sgn, of "10 ^ 9"] assms(3) by simp
  ultimately show ?thesis
    unfolding v_def [symmetric] by (simp only: sleep_timespec_def sec f million prod option.case option.map)
qed

text \<open>
  \<open>sleep_sec\<close> asks for exactly the time it is given, cut off to nanoseconds, and for no time that is not
  positive; the request is one that \<open>nanosleep\<close> accepts. A NaN or an infinity is undefined.
\<close>

theorem sleep_is_exact:
  assumes "float_of_bits w = x"
    and "case x of Finite s m e \<Rightarrow> real m * 2 powi e < 2 ^ 63 | _ \<Rightarrow> True"
  shows "case x of
      Finite s m e \<Rightarrow>
        let v = real m * 2 powi e in
        sleep_sec x sleeps = Inr (if s \<or> m = 0 then sleeps else sleeps @ [(\<lfloor>v\<rfloor>, \<lfloor>frac v * 10 ^ 9\<rfloor>)])
          \<and> 0 \<le> \<lfloor>frac v * 10 ^ 9\<rfloor> \<and> \<lfloor>frac v * 10 ^ 9\<rfloor> < 10 ^ 9
    | Infinite s \<Rightarrow> sleep_sec x sleeps = (if s then Inr sleeps else Inl UndefinedBehaviour)
    | NaN \<Rightarrow> sleep_sec x sleeps = Inl UndefinedBehaviour"
proof (cases x)
  case (Finite s m e)
  define v where "v = real m * 2 powi e"
  have bound: "v < 2 ^ 63" using assms(2) by (simp add: Finite v_def)
  have below: "frac v * 10 ^ 9 < 10 ^ 9" using frac_lt_1 [of v] by simp
  have range: "0 \<le> \<lfloor>frac v * 10 ^ 9\<rfloor> \<and> \<lfloor>frac v * 10 ^ 9\<rfloor> < 10 ^ 9"
    using below frac_ge_0 [of v] by (simp add: floor_less_iff)
  have le: "fleq x (Finite False 0 0) \<longleftrightarrow> s \<or> m = 0"
    by (auto simp: Finite fleq_def fless_def with_sign_def Let_def zero_less_mult_iff mult_less_0_iff)
  have "sleep_sec x sleeps = Inr (sleeps @ [(\<lfloor>v\<rfloor>, \<lfloor>frac v * 10 ^ 9\<rfloor>)])" if "\<not> s" "m \<noteq> 0"
    using sleep_timespec_value [of w s m e] assms(1) bound le that by (simp add: Finite sleep_sec_def v_def)
  then show ?thesis using range le unfolding Finite ieee.case Let_def v_def [symmetric] by (auto simp: sleep_sec_def)
next
  case (Infinite s)
  then show ?thesis by (simp add: sleep_sec_def fleq_def fless_def sleep_timespec_def)
next
  case NaN
  then show ?thesis by (simp add: sleep_sec_def fleq_def fless_def sleep_timespec_def)
qed

theorem sleep_is_exact_witness:
  "sleep_sec (float_of_bits 0x40200000) [] = Inr [(2, 500000000)]"
proof -
  have w: "float_of_bits 0x40200000 = Finite False 10485760 (-22)"
    by (simp add: float_of_bits_def Let_def)
  have v: "real 10485760 * 2 powi (-22) = 5 / 2" by (simp add: power_int_def power_divide)
  have "\<lfloor>5 / 2 :: real\<rfloor> = 2" "\<lfloor>frac (5 / 2 :: real) * 10 ^ 9\<rfloor> = 500000000" by (simp_all add: frac_def)
  then show ?thesis using sleep_is_exact [OF w, of "[]"] v unfolding w by (simp add: Let_def)
qed

text \<open>Less than a microsecond is the timeout of zero, which the system takes for none.\<close>

lemma short_timeout_is_none:
  assumes "float_of_bits w = Finite s m e" and "real m * 2 powi e * 10 ^ 6 < 1"
  shows "socket_timeval (float_of_bits w) = Some (0, 0)"
proof -
  define v where "v = real m * 2 powi e"
  have "0 \<le> v" "v * 10 ^ 6 < 1" using assms(2) by (simp_all add: v_def)
  then have "\<lfloor>v\<rfloor> = 0" "frac v = v" "\<lfloor>v * 10 ^ 6\<rfloor> = 0" "v < 2 ^ 31" by (simp_all add: frac_eq floor_eq_iff)
  then show ?thesis using timeout_splits [OF assms(1)] unfolding v_def [symmetric] by (auto simp: Let_def)
qed

text \<open>Between times with the same nanoseconds the difference is exact up to half a year.\<close>

lemma timespec_diff_whole:
  assumes "\<bar>d\<bar> < 2 ^ 24"
  shows "\<exists>x. timespec_diff_sec (s, n) (s + d, n) = Inr x \<and> ieee_val x = real_of_int d"
proof -
  define a where "a = nat \<bar>d\<bar>"
  have a: "a < 2 ^ 24" "int a = \<bar>d\<bar>" using assms by (simp_all add: a_def nat_less_iff)
  have sec: "ieee_of_int binary64 d = Finite (d < 0) a 0"
    using ieee_round_small [of a binary64 0 "d < 0"] a by (simp add: ieee_of_int_def a_def binary64_def)
  have nsec: "fmul binary64 (ieee_of_int binary64 0) nano = Finite False 0 (-82)"
    using ieee_round_small [of 0 binary64 0 False] ieee_round_small [of 0 binary64 "-82" False]
    by (simp add: ieee_of_int_def fmul_def nano_def binary64_def)
  have z: "with_sign (d < 0) a * 2 ^ 82 + with_sign False 0 * 2 ^ 0 = d * 2 ^ 82" "nat \<bar>d * 2 ^ 82\<bar> = a * 2 ^ 82"
    using a by (auto simp: with_sign_def abs_mult nat_mult_distrib a_def)
  have "fadd binary64 (Finite (d < 0) a 0) (Finite False 0 (-82)) = ieee_round binary64 (d < 0) (a * 2 ^ 82) (-82)"
    unfolding fadd_def Let_def ieee.case using z by (simp add: mult_less_0_iff del: power_numeral)
  moreover have fits: "fits_long d" "fits_long 0" using assms by (auto simp: fits_long_def abs_less_iff)
  ultimately have diff: "timespec_diff_sec (s, n) (s + d, n) = Inr (ieee_convert binary32 (ieee_round binary64 (d < 0) (a * 2 ^ 82) (-82)))"
    using fits by (simp add: timespec_diff_sec_def sec nsec Let_def)
  show ?thesis
  proof (cases "a = 0")
    case True
    then have "ieee_round binary64 (d < 0) (a * 2 ^ 82) (-82) = Finite (d < 0) 0 (-82)"
      using ieee_round_small [of 0 binary64 "-82" "d < 0"] by (simp add: binary64_def)
    then show ?thesis using diff True a ieee_round_small [of 0 binary32 "-82" "d < 0"] by (simp add: binary32_def)
  next
    case False
    obtain i where i: "i \<le> 82" "ieee_round binary64 (d < 0) (a * 2 ^ 82) (-82) = Finite (d < 0) (a * 2 ^ i) (- 82 + int (82 - i))"
      using ieee_round_exact [of a binary64 "-82" 82 "d < 0"] a False by (auto simp: binary64_def)
    have e: "- 82 + int (82 - i) = - int i" using i(1) by simp
    obtain m' e' where r: "ieee_round binary32 (d < 0) (a * 2 ^ i) (- int i) = Finite (d < 0) m' e'"
      "real m' * 2 powi e' = real (a * 2 ^ i) * 2 powi (- int i)"
      using ieee_round_exact_value [of a binary32 "- int i" i "d < 0"] a False by (auto simp: binary32_def)
    have "2 ^ i * (2 :: real) powi (- int i) = 1" using powi_split [of "- int i" i] by simp
    then have "real m' * 2 powi e' = real a" using r(2) by (simp add: mult.assoc)
    moreover have "real a = real_of_int \<bar>d\<bar>" using a(2) by (metis of_int_of_nat_eq)
    ultimately have "ieee_val (Finite (d < 0) m' e') = real_of_int d" by (cases "d < 0") simp_all
    then show ?thesis using diff unfolding i(2) e ieee_convert.simps r(1) by blast
  qed
qed

end
