(* ===== verification/Os_Calls.thy ===== *)
theory Os_Calls
  imports Sys_Time
begin

text \<open>
  The system calls of the networking code and \<open>unique_fd\<close> (\<open>common/utils/unique_fd.h\<close>,
  \<open>common/net/call_check.h\<close>, \<open>common/net/call_check.cc\<close>, \<open>common/utils/sys/call_check.h\<close>) as a
  monad of state and exceptions. The state holds the open descriptors, POSIX's lowest free number
  being the next; what else a call may do is chosen by \<open>net_env\<close>, indexed by the number of the call.
  A call on a descriptor that is not open fails.
\<close>

subsection \<open>The state and the choices\<close>

text \<open>
  \<open>fd_listen\<close> and \<open>fd_connect\<close> are the \<open>unique_fd\<close> variables of the function that runs, \<open>-1\<close> when
  they own nothing; \<open>os_polls\<close> are the timeouts of \<open>poll\<close>. What a conversion from \<open>float\<close> to \<open>int\<close> gives that C++
  leaves undefined is a choice too.
\<close>

record net_os =
  os_fds :: "nat list"
  os_calls :: nat
  os_nonblock :: "nat set"
  os_bound :: "nat \<rightharpoonup> string \<times> 16 word"
  os_target :: "nat \<rightharpoonup> string \<times> 16 word"
  os_polls :: "int list"
  fd_listen :: int
  fd_connect :: int

datatype connect_outcome = CONN_OK | EINPROGRESS | EALREADY | EISCONN | CONN_ERROR

text \<open>\<open>Poll_events\<close> says whether the first descriptor is readable and whether the second has an event.\<close>

datatype poll_outcome = Poll_error bool | Poll_events bool bool

record net_env =
  ne_socket :: "nat \<Rightarrow> bool"
  ne_fcntl :: "nat \<Rightarrow> bool"
  ne_setsockopt :: "nat \<Rightarrow> bool"
  ne_bind :: "nat \<Rightarrow> bool"
  ne_listen :: "nat \<Rightarrow> bool"
  ne_connect :: "nat \<Rightarrow> connect_outcome"
  ne_accept :: "nat \<Rightarrow> (string \<times> 16 word) option"
  ne_getsockname :: "nat \<Rightarrow> (string \<times> 16 word) option"
  ne_poll :: "nat \<Rightarrow> poll_outcome"
  ne_so_error :: "nat \<Rightarrow> int"
  ne_close :: "nat \<Rightarrow> bool"
  ne_random :: "nat \<Rightarrow> nat"
  ne_stack_len :: "nat \<Rightarrow> nat"
  ne_cast :: "ieee \<Rightarrow> int"

type_synonym 'a net = "net_os \<Rightarrow> 'a result \<times> net_os"

definition ret :: "'a \<Rightarrow> 'a net" where
  "ret x = (\<lambda>os. (Inr x, os))"

definition throw :: "exn \<Rightarrow> 'a net" where
  "throw e = (\<lambda>os. (Inl e, os))"

definition bind_net :: "'a net \<Rightarrow> ('a \<Rightarrow> 'b net) \<Rightarrow> 'b net" where
  "bind_net m f = (\<lambda>os. case m os of (Inl e, os') \<Rightarrow> (Inl e, os') | (Inr x, os') \<Rightarrow> f x os')"

definition lift_result :: "'a result \<Rightarrow> 'a net" where
  "lift_result r = (\<lambda>os. (r, os))"

text \<open>\<open>ccall\<close> throws for a negative result, \<open>sys_call\<close> for \<open>-1\<close>.\<close>

definition ccall :: "string \<Rightarrow> int net \<Rightarrow> int net" where
  "ccall descr m = bind_net m (\<lambda>r. if r < 0 then throw (ConnectionError descr) else ret r)"

subsection \<open>The calls\<close>

definition fd_open :: "net_os \<Rightarrow> int \<Rightarrow> bool" where
  "fd_open os fd = (0 \<le> fd \<and> nat fd \<in> set (os_fds os))"

definition lowest_free :: "nat list \<Rightarrow> nat" where
  "lowest_free fds = hd (filter (\<lambda>n. n \<notin> set fds) [0..<Suc (length fds)])"

definition counted :: "net_os \<Rightarrow> net_os" where
  "counted os = os\<lparr>os_calls := Suc (os_calls os)\<rparr>"

definition new_fd :: "bool \<Rightarrow> net_os \<Rightarrow> int result \<times> net_os" where
  "new_fd nonblock os =
     (let n = lowest_free (os_fds os) in
      (Inr (int n), os\<lparr>os_fds := n # os_fds os,
         os_nonblock := (if nonblock then insert n (os_nonblock os) else os_nonblock os - {n}),
         os_bound := (os_bound os)(n := None), os_target := (os_target os)(n := None)\<rparr>))"

definition sys_socket :: "net_env \<Rightarrow> bool \<Rightarrow> int net" where
  "sys_socket E nonblock = (\<lambda>os.
     if ne_socket E (os_calls os) then new_fd nonblock (counted os) else (Inr (-1), counted os))"

text \<open>A call that changes nothing that is modelled: 0 or \<open>-1\<close>.\<close>

definition sys_plain :: "(nat \<Rightarrow> bool) \<Rightarrow> int \<Rightarrow> int net" where
  "sys_plain choice fd = (\<lambda>os.
     (Inr (if fd_open os fd \<and> choice (os_calls os) then 0 else -1), counted os))"

definition sys_set_nonblock :: "net_env \<Rightarrow> int \<Rightarrow> bool \<Rightarrow> int net" where
  "sys_set_nonblock E fd nonblock = (\<lambda>os.
     if fd_open os fd \<and> ne_fcntl E (os_calls os)
     then (Inr 0, (counted os)\<lparr>os_nonblock :=
        (if nonblock then insert (nat fd) (os_nonblock os) else os_nonblock os - {nat fd})\<rparr>)
     else (Inr (-1), counted os))"

definition sys_close :: "net_env \<Rightarrow> int \<Rightarrow> int net" where
  "sys_close E fd = (\<lambda>os.
     if fd_open os fd
     then (Inr (if ne_close E (os_calls os) then 0 else -1), (counted os)\<lparr>os_fds := remove1 (nat fd) (os_fds os)\<rparr>)
     else (Inr (-1), counted os))"

definition sys_bind :: "net_env \<Rightarrow> int \<Rightarrow> string \<times> 16 word \<Rightarrow> int net" where
  "sys_bind E fd addr = (\<lambda>os.
     if fd_open os fd \<and> ne_bind E (os_calls os)
     then (Inr 0, (counted os)\<lparr>os_bound := (os_bound os)(nat fd \<mapsto> addr)\<rparr>)
     else (Inr (-1), counted os))"

definition sys_connect :: "net_env \<Rightarrow> int \<Rightarrow> string \<times> 16 word \<Rightarrow> connect_outcome net" where
  "sys_connect E fd dst = (\<lambda>os.
     if fd_open os fd
     then (Inr (ne_connect E (os_calls os)), (counted os)\<lparr>os_target := (os_target os)(nat fd \<mapsto> dst)\<rparr>)
     else (Inr CONN_ERROR, counted os))"

text \<open>The address of the peer is the contents of its \<open>sockaddr_in\<close>: address bytes and port as stored.\<close>

definition sys_accept :: "net_env \<Rightarrow> int \<Rightarrow> bool \<Rightarrow> (int \<times> string \<times> 16 word) net" where
  "sys_accept E fd nonblock = (\<lambda>os.
     case (if fd_open os fd then ne_accept E (os_calls os) else None) of
       None \<Rightarrow> (Inr (-1, [], 0), counted os)
     | Some peer \<Rightarrow>
         (case new_fd nonblock (counted os) of
            (Inr n, os') \<Rightarrow> (Inr (n, peer), os')
          | (Inl e, os') \<Rightarrow> (Inl e, os')))"

definition sys_poll :: "net_env \<Rightarrow> int \<Rightarrow> poll_outcome net" where
  "sys_poll E timeout_ms = (\<lambda>os.
     (Inr (ne_poll E (os_calls os)), (counted os)\<lparr>os_polls := os_polls os @ [timeout_ms]\<rparr>))"

definition sys_so_error :: "net_env \<Rightarrow> int \<Rightarrow> int net" where
  "sys_so_error E fd = (\<lambda>os. (Inr (if fd_open os fd then ne_so_error E (os_calls os) else 0), counted os))"

definition sys_getsockname :: "net_env \<Rightarrow> int \<Rightarrow> (string \<times> 16 word) option net" where
  "sys_getsockname E fd = (\<lambda>os.
     (Inr (if fd_open os fd then ne_getsockname E (os_calls os) else None), counted os))"

definition sys_random :: "net_env \<Rightarrow> nat net" where
  "sys_random E = (\<lambda>os. (Inr (ne_random E (os_calls os)), counted os))"

subsection \<open>unique_fd\<close>

definition unique_fd_valid :: "int \<Rightarrow> bool" where
  "unique_fd_valid fd = (fd \<noteq> -1)"

text \<open>\<open>reset\<close> closes what is owned; an error of \<open>close\<close> is only shown.\<close>

definition unique_fd_reset :: "net_env \<Rightarrow> int \<Rightarrow> net_os \<Rightarrow> net_os" where
  "unique_fd_reset E fd os = (if fd \<noteq> -1 then snd (sys_close E fd os) else os)"

text \<open>The operations on the variable \<open>connect_fd\<close>: move assignment and \<open>handle\<close>.\<close>

definition unique_fd_assign :: "net_env \<Rightarrow> int \<Rightarrow> unit net" where
  "unique_fd_assign E fd = (\<lambda>os. (Inr (), (unique_fd_reset E (fd_connect os) os)\<lparr>fd_connect := fd\<rparr>))"

definition unique_fd_handle :: "int net" where
  "unique_fd_handle = (\<lambda>os. (Inr (fd_connect os), os\<lparr>fd_connect := -1\<rparr>))"

definition get_connect :: "int net" where
  "get_connect = (\<lambda>os. (Inr (fd_connect os), os))"

text \<open>Both variables at the start of a function, and their destructors at its end.\<close>

definition with_fds :: "net_env \<Rightarrow> int \<Rightarrow> int \<Rightarrow> 'a net \<Rightarrow> 'a net" where
  "with_fds E l c body = (\<lambda>os.
     case body (os\<lparr>fd_listen := l, fd_connect := c\<rparr>) of (r, os1) \<Rightarrow>
       let os2 = unique_fd_reset E (fd_connect os1) os1;
           os3 = unique_fd_reset E (fd_listen os2) os2
       in (r, os3\<lparr>fd_listen := fd_listen os, fd_connect := fd_connect os\<rparr>))"

subsection \<open>Triples\<close>

text \<open>
  \<open>valid P m Q X\<close>: from a state with \<open>P\<close> the computation ends with a result and a state in \<open>Q\<close>, or with
  an exception in a state with \<open>X\<close>.
\<close>

definition valid :: "(net_os \<Rightarrow> bool) \<Rightarrow> 'a net \<Rightarrow> ('a \<Rightarrow> net_os \<Rightarrow> bool) \<Rightarrow> (net_os \<Rightarrow> bool) \<Rightarrow> bool" where
  "valid P m Q X = (\<forall>os. P os \<longrightarrow> (case m os of (Inr x, os') \<Rightarrow> Q x os' | (Inl e, os') \<Rightarrow> X os'))"

named_theorems valid_rules \<open>one rule for each call and each combinator\<close>

lemma valid_ret [valid_rules]: "(\<And>os. P os \<Longrightarrow> Q x os) \<Longrightarrow> valid P (ret x) Q X"
  by (simp add: valid_def ret_def)

lemma valid_throw [valid_rules]: "(\<And>os. P os \<Longrightarrow> X os) \<Longrightarrow> valid P (throw e) Q X"
  by (simp add: valid_def throw_def)

lemma valid_bind:
  assumes "valid P m R X" and "\<And>x. valid (R x) (f x) Q X"
  shows "valid P (bind_net m f) Q X"
  unfolding valid_def
proof (intro allI impI)
  fix os assume os: "P os"
  obtain r os' where m: "m os = (r, os')" by fastforce
  show "case bind_net m f os of (Inr x, os') \<Rightarrow> Q x os' | (Inl e, os') \<Rightarrow> X os'"
  proof (cases r)
    case (Inl e)
    then show ?thesis using assms(1) os m by (auto simp: valid_def bind_net_def)
  next
    case (Inr x)
    then have "R x os'" using assms(1) os m by (auto simp: valid_def)
    then show ?thesis using assms(2) m Inr by (auto simp: valid_def bind_net_def)
  qed
qed

lemma valid_weaken: "valid P m Q X \<Longrightarrow> (\<And>os. P' os \<Longrightarrow> P os) \<Longrightarrow> (\<And>x os. Q x os \<Longrightarrow> Q' x os) \<Longrightarrow>
    (\<And>os. X os \<Longrightarrow> X' os) \<Longrightarrow> valid P' m Q' X'"
  unfolding valid_def by (fastforce split: prod.splits sum.splits)

lemma valid_if: "(b \<Longrightarrow> valid P m Q X) \<Longrightarrow> (\<not> b \<Longrightarrow> valid P m' Q X) \<Longrightarrow> valid P (if b then m else m') Q X"
  by simp

lemma valid_pure: "(b \<Longrightarrow> valid P m Q X) \<Longrightarrow> valid (\<lambda>os. b \<and> P os) m Q X"
  by (auto simp: valid_def)

lemma valid_ccall:
  assumes "valid P m (\<lambda>r os. if r < 0 then X os else Q r os) X"
  shows "valid P (ccall d m) Q X"
  unfolding ccall_def
  by (rule valid_bind [OF assms]) (auto simp: valid_def ret_def throw_def)

subsection \<open>Ownership of descriptors\<close>

text \<open>
  \<open>owns B os\<close>: the open descriptors are those of \<open>B\<close> and those of the two variables, each once.
\<close>

definition var_fd :: "int \<Rightarrow> nat multiset" where
  "var_fd i = (if i = -1 then {#} else {#nat i#})"

definition owns :: "nat multiset \<Rightarrow> net_os \<Rightarrow> bool" where
  "owns B os = (distinct (os_fds os) \<and> mset (os_fds os) = B + var_fd (fd_listen os) + var_fd (fd_connect os)
     \<and> -1 \<le> fd_listen os \<and> -1 \<le> fd_connect os)"

lemma lowest_free_fresh: "lowest_free fds \<notin> set fds"
proof -
  have "\<not> {0..<Suc (length fds)} \<subseteq> set fds"
  proof
    assume "{0..<Suc (length fds)} \<subseteq> set fds"
    then have "Suc (length fds) \<le> card (set fds)" using card_mono [of "set fds" "{0..<Suc (length fds)}"] by simp
    then show False using card_length [of fds] by simp
  qed
  then have "filter (\<lambda>n. n \<notin> set fds) [0..<Suc (length fds)] \<noteq> []"
    by (auto simp: filter_empty_conv simp del: upt_Suc)
  then have "lowest_free fds \<in> set (filter (\<lambda>n. n \<notin> set fds) [0..<Suc (length fds)])"
    unfolding lowest_free_def by (rule hd_in_set)
  then show ?thesis unfolding set_filter by blast
qed

lemma owns_counted [simp]: "owns B (counted os) = owns B os"
  by (simp add: owns_def counted_def)

lemma owns_updates [simp]:
  "owns B (os\<lparr>os_nonblock := s\<rparr>) = owns B os" "owns B (os\<lparr>os_polls := p\<rparr>) = owns B os"
  "owns B (os\<lparr>os_bound := b\<rparr>) = owns B os" "owns B (os\<lparr>os_target := b\<rparr>) = owns B os"
  by (simp_all add: owns_def)

lemma owns_new_fd:
  assumes "owns B os" and "new_fd nb os = (r, os')"
  shows "\<exists>n. r = Inr (int n) \<and> owns (add_mset n B) os'"
  using assms lowest_free_fresh [of "os_fds os"] by (auto simp: new_fd_def owns_def Let_def)

lemma remove1_owns:
  assumes "distinct fds" and "mset fds = add_mset n B"
  shows "distinct (remove1 n fds) \<and> mset (remove1 n fds) = B"
  using assms by (simp add: distinct_remove1)

lemma owns_close:
  assumes "owns (add_mset (nat fd) B) os" and "0 \<le> fd"
  shows "owns B (snd (sys_close E fd os))"
proof -
  have "nat fd \<in> set (os_fds os)"
    using assms(1) unfolding owns_def by (metis set_mset_mset union_iff add_mset_add_single union_single_eq_member)
  then show ?thesis
    using assms remove1_owns [of "os_fds os" "nat fd" "B + var_fd (fd_listen os) + var_fd (fd_connect os)"]
    by (auto simp: sys_close_def fd_open_def owns_def counted_def)
qed

lemma valid_plain [valid_rules]: "valid (owns B) (sys_plain c fd) (\<lambda>r. owns B) X"
  by (simp add: valid_def sys_plain_def)

lemma valid_nonblock [valid_rules]: "valid (owns B) (sys_set_nonblock E fd nb) (\<lambda>r. owns B) X"
  by (simp add: valid_def sys_set_nonblock_def)

lemma valid_bind_call [valid_rules]: "valid (owns B) (sys_bind E fd a) (\<lambda>r. owns B) X"
  by (simp add: valid_def sys_bind_def)

lemma valid_connect [valid_rules]: "valid (owns B) (sys_connect E fd a) (\<lambda>r. owns B) X"
  by (simp add: valid_def sys_connect_def)

lemma valid_poll [valid_rules]: "valid (owns B) (sys_poll E s) (\<lambda>r. owns B) X"
  by (simp add: valid_def sys_poll_def)

lemma valid_so_error [valid_rules]: "valid (owns B) (sys_so_error E fd) (\<lambda>r. owns B) X"
  by (simp add: valid_def sys_so_error_def)

lemma valid_getsockname [valid_rules]: "valid (owns B) (sys_getsockname E fd) (\<lambda>r. owns B) X"
  by (simp add: valid_def sys_getsockname_def)

lemma valid_random [valid_rules]: "valid (owns B) (sys_random E) (\<lambda>r. owns B) X"
  by (simp add: valid_def sys_random_def)

lemma valid_get_connect [valid_rules]: "valid (owns B) get_connect (\<lambda>r. owns B) X"
  by (simp add: valid_def get_connect_def)

text \<open>A new descriptor is the caller's to close or to give to a variable.\<close>

definition owns_result :: "nat multiset \<Rightarrow> int \<Rightarrow> net_os \<Rightarrow> bool" where
  "owns_result B r os = (if r < 0 then owns B os else owns (add_mset (nat r) B) os)"

lemma valid_socket [valid_rules]: "valid (owns B) (sys_socket E nb) (owns_result B) X"
  using owns_new_fd [of B "counted _" nb]
  by (fastforce simp: valid_def sys_socket_def owns_result_def split: prod.splits sum.splits)

lemma valid_accept [valid_rules]: "valid (owns B) (sys_accept E fd nb) (\<lambda>r. owns_result B (fst r)) X"
  using owns_new_fd [of B "counted _" nb]
  by (fastforce simp: valid_def sys_accept_def owns_result_def split: prod.splits sum.splits option.splits)

lemma valid_close [valid_rules]:
  "0 \<le> fd \<Longrightarrow> valid (owns (add_mset (nat fd) B)) (sys_close E fd) (\<lambda>r. owns B) X"
  unfolding valid_def
proof (intro allI impI)
  fix os assume "0 \<le> fd" "owns (add_mset (nat fd) B) os"
  then have "owns B (snd (sys_close E fd os))" using owns_close by blast
  then show "case sys_close E fd os of (Inr x, os') \<Rightarrow> owns B os' | (Inl e, os') \<Rightarrow> X os'"
    by (cases "fd_open os fd") (simp_all add: sys_close_def)
qed

lemma valid_handle [valid_rules]:
  "valid (owns B) unique_fd_handle (\<lambda>r os. fd_connect os = -1 \<and> -1 \<le> r \<and> owns (B + var_fd r) os) X"
  by (auto simp: valid_def unique_fd_handle_def owns_def var_fd_def)

lemma owns_reset_connect:
  assumes "owns B os"
  shows "owns B ((unique_fd_reset E (fd_connect os) os)\<lparr>fd_connect := -1\<rparr>)"
proof (cases "fd_connect os = -1")
  case True
  then show ?thesis using assms by (simp add: unique_fd_reset_def owns_def)
next
  case False
  then have "owns (add_mset (nat (fd_connect os)) B) (os\<lparr>fd_connect := -1\<rparr>)" "0 \<le> fd_connect os"
    using assms by (auto simp: owns_def var_fd_def)
  from owns_close [OF this, of E] show ?thesis
    using False by (auto simp: unique_fd_reset_def sys_close_def fd_open_def counted_def owns_def)
qed

lemma owns_reset_listen:
  assumes "owns B os"
  shows "owns B ((unique_fd_reset E (fd_listen os) os)\<lparr>fd_listen := -1\<rparr>)"
proof (cases "fd_listen os = -1")
  case True
  then show ?thesis using assms by (simp add: unique_fd_reset_def owns_def)
next
  case False
  then have "owns (add_mset (nat (fd_listen os)) B) (os\<lparr>fd_listen := -1\<rparr>)" "0 \<le> fd_listen os"
    using assms by (auto simp: owns_def var_fd_def)
  from owns_close [OF this, of E] show ?thesis
    using False by (auto simp: unique_fd_reset_def sys_close_def fd_open_def counted_def owns_def)
qed

lemma valid_assign [valid_rules]:
  assumes "0 \<le> fd"
  shows "valid (owns (add_mset (nat fd) B)) (unique_fd_assign E fd) (\<lambda>r. owns B) X"
  unfolding valid_def
proof (intro allI impI)
  fix os assume "owns (add_mset (nat fd) B) os"
  from owns_reset_connect [OF this, of E]
  have "owns B ((unique_fd_reset E (fd_connect os) os)\<lparr>fd_connect := fd\<rparr>)"
    using assms by (auto simp: owns_def var_fd_def)
  then show "case unique_fd_assign E fd os of (Inr x, os') \<Rightarrow> owns B os' | (Inl e, os') \<Rightarrow> X os'"
    by (simp add: unique_fd_assign_def)
qed

text \<open>What a function that owns two descriptors leaves open, however it ends.\<close>

lemma with_fds_leaves:
  assumes "valid (owns B) body (\<lambda>x. owns (B + R x)) (owns B)"
    and "owns B (os\<lparr>fd_listen := l, fd_connect := c\<rparr>)"
  shows "case with_fds E l c body os of
      (Inr x, os') \<Rightarrow> distinct (os_fds os') \<and> mset (os_fds os') = B + R x
    | (Inl e, os') \<Rightarrow> distinct (os_fds os') \<and> mset (os_fds os') = B"
proof -
  obtain r os1 where b: "body (os\<lparr>fd_listen := l, fd_connect := c\<rparr>) = (r, os1)" by fastforce
  define B' where "B' = (case r of Inl e \<Rightarrow> B | Inr x \<Rightarrow> B + R x)"
  have "owns B' os1" using assms b by (auto simp: valid_def B'_def split: sum.splits prod.splits)
  define os2 where "os2 = unique_fd_reset E (fd_connect os1) os1"
  define os3 where "os3 = unique_fd_reset E (fd_listen os2) os2"
  have "owns B' (os2\<lparr>fd_connect := -1\<rparr>)"
    unfolding os2_def by (rule owns_reset_connect) fact
  from owns_reset_listen [OF this, of E] have "owns B' (os3\<lparr>fd_listen := -1, fd_connect := -1\<rparr>)"
    by (auto simp: os3_def unique_fd_reset_def sys_close_def fd_open_def counted_def owns_def)
  then have "distinct (os_fds os3) \<and> mset (os_fds os3) = B'" by (simp add: owns_def var_fd_def)
  moreover have "with_fds E l c body os = (r, os3\<lparr>fd_listen := fd_listen os, fd_connect := fd_connect os\<rparr>)"
    by (simp add: with_fds_def b os2_def os3_def Let_def)
  ultimately show ?thesis by (cases r) (simp_all add: B'_def)
qed

subsection \<open>What a call does not touch\<close>

definition frame :: "(net_os \<Rightarrow> 'b) \<Rightarrow> 'a net \<Rightarrow> bool" where
  "frame f m = (\<forall>os. f (snd (m os)) = f os)"

named_theorems frame_rules \<open>calls and combinators under which a part of the state is kept\<close>

lemma frameD: "frame f m \<Longrightarrow> m os = (r, os') \<Longrightarrow> f os' = f os"
  unfolding frame_def by (metis snd_conv)

lemma frame_bind [frame_rules]: "frame f m \<Longrightarrow> (\<And>x. frame f (g x)) \<Longrightarrow> frame f (bind_net m g)"
  unfolding frame_def bind_net_def by (auto split: prod.split sum.split) (metis snd_conv)+

lemma frame_basic [frame_rules]: "frame f (ret x)" "frame f (throw e)" "frame f (lift_result r)" "frame f get_connect"
  by (simp_all add: frame_def ret_def throw_def lift_result_def get_connect_def)

lemma frame_ccall [frame_rules]: "frame f m \<Longrightarrow> frame f (ccall d m)"
  unfolding ccall_def by (intro frame_rules) (simp_all add: frame_basic)

lemma frame_if [frame_rules]: "frame f m \<Longrightarrow> frame f m' \<Longrightarrow> frame f (if b then m else m')"
  by simp

lemma frame_polls [frame_rules]:
  "frame os_polls (sys_socket E nb)" "frame os_polls (sys_plain c fd)" "frame os_polls (sys_close E fd)"
  "frame os_polls (sys_bind E fd a)" "frame os_polls (sys_connect E fd a)" "frame os_polls (sys_accept E fd nb)"
  "frame os_polls (sys_so_error E fd)" "frame os_polls (unique_fd_assign E fd)" "frame os_polls unique_fd_handle"
  by (simp_all add: frame_def sys_socket_def new_fd_def sys_plain_def sys_close_def sys_bind_def sys_connect_def sys_accept_def
      sys_so_error_def unique_fd_assign_def unique_fd_reset_def unique_fd_handle_def counted_def Let_def split: option.splits)

end
