(* ===== verification/Tcpv4.thy ===== *)
theory Tcpv4
  imports Os_Calls Messages
begin

unbundle bit_operations_syntax

text \<open>
  TCP over IPv4 (\<open>common/net/tcpv4.cc\<close>, \<open>.h\<close>): conversions of addresses, the wrappers of the socket
  calls, the reservation of a random port and hole punching. A message of an exception is given
  without the numbers that are printed into it.
\<close>

subsection \<open>Addresses and ports\<close>

text \<open>An \<open>in_addr\<close> is the string of its four bytes; the host is little endian.\<close>

definition ipv4_convert_addr :: "string \<Rightarrow> string result" where
  "ipv4_convert_addr addr =
     (if length addr = 0 then Inr (replicate 4 (CHR 0x00))
      else if length addr \<noteq> 4 then Inl (InvalidArgument ''Invalid IPv4 address string length'')
      else Inr addr)"

definition ipv4_addr_string :: "string \<Rightarrow> string" where
  "ipv4_addr_string bin = take 4 bin"

definition htons :: "16 word \<Rightarrow> 16 word" where
  "htons w = push_bit 8 w OR drop_bit 8 w"

definition ipv4_convert_port :: "32 word \<Rightarrow> 16 word" where
  "ipv4_convert_port port = htons (ucast port)"

definition ipv4_port_number :: "16 word \<Rightarrow> 32 word" where
  "ipv4_port_number port = ucast (htons port)"

subsection \<open>The wrappers\<close>

datatype connect_status = CS_SUCCESS | CS_IN_PROGRESS | CS_FAILED

record tcpv4_accept_result =
  ar_new_fd :: int
  ar_addr :: ipv4_addr

definition tcpv4_new_socket :: "net_env \<Rightarrow> bool \<Rightarrow> int net" where
  "tcpv4_new_socket E blocking = ccall ''creating socket'' (sys_socket E (\<not> blocking))"

definition tcpv4_set_blocking :: "net_env \<Rightarrow> int \<Rightarrow> bool \<Rightarrow> unit net" where
  "tcpv4_set_blocking E fd blocking =
     bind_net (ccall ''getting socket flags'' (sys_plain (ne_fcntl E) fd)) (\<lambda>_.
     bind_net (ccall ''setting socket blocking'' (sys_set_nonblock E fd (\<not> blocking))) (\<lambda>_. ret ()))"

text \<open>A timeout with microseconds out of range is refused.\<close>

definition sys_timeout :: "net_env \<Rightarrow> int \<Rightarrow> int \<times> int \<Rightarrow> int net" where
  "sys_timeout E fd tv = sys_plain (\<lambda>k. ne_setsockopt E k \<and> 0 \<le> snd tv \<and> snd tv < 10 ^ 6) fd"

definition tcpv4_set_timeout :: "net_env \<Rightarrow> int \<Rightarrow> ieee \<Rightarrow> unit net" where
  "tcpv4_set_timeout E fd timeout_sec =
     (case tcpv4_timeval timeout_sec of
        None \<Rightarrow> throw UndefinedBehaviour
      | Some tv \<Rightarrow>
          bind_net (ccall ''setting socket recv timeout'' (sys_timeout E fd tv)) (\<lambda>_.
          bind_net (ccall ''setting socket send timeout'' (sys_timeout E fd tv)) (\<lambda>_. ret ())))"

definition tcpv4_close_socket :: "net_env \<Rightarrow> int \<Rightarrow> unit net" where
  "tcpv4_close_socket E fd = bind_net (ccall ''closing socket'' (sys_close E fd)) (\<lambda>_. ret ())"

definition tcpv4_port_reuse :: "net_env \<Rightarrow> int \<Rightarrow> unit net" where
  "tcpv4_port_reuse E fd =
     bind_net (ccall ''Allow multiple sockets to bind to the same local address/port pair''
       (sys_plain (ne_setsockopt E) fd)) (\<lambda>_.
     bind_net (ccall ''Specifically allow multiple sockets to SHARE the exact same port''
       (sys_plain (ne_setsockopt E) fd)) (\<lambda>_. ret ()))"

definition tcpv4_bind_port :: "net_env \<Rightarrow> int \<Rightarrow> ipv4_addr \<Rightarrow> unit net" where
  "tcpv4_bind_port E fd bind_addr =
     bind_net (lift_result (ipv4_convert_addr (v4_addr bind_addr))) (\<lambda>bin.
     bind_net (ccall ''binding port'' (sys_bind E fd (bin, ipv4_convert_port (v4_port bind_addr)))) (\<lambda>_. ret ()))"

text \<open>
  A \<open>connect\<close> that reports no success is \<open>-1\<close>, whatever the error. \<open>tcpv4_connect_abort\<close> passes
  an address of the family \<open>AF_UNSPEC\<close>, here the empty one.
\<close>

definition tcpv4_connect :: "net_env \<Rightarrow> int \<Rightarrow> ipv4_addr \<Rightarrow> unit net" where
  "tcpv4_connect E fd dst_addr =
     bind_net (lift_result (ipv4_convert_addr (v4_addr dst_addr))) (\<lambda>bin.
     bind_net (ccall ''connecting'' (bind_net (sys_connect E fd (bin, ipv4_convert_port (v4_port dst_addr))) (\<lambda>r. ret (if r = CONN_OK then 0 else -1)))) (\<lambda>_. ret ()))"

definition tcpv4_connect_unsafe :: "net_env \<Rightarrow> int \<Rightarrow> ipv4_addr \<Rightarrow> connect_status net" where
  "tcpv4_connect_unsafe E fd dst_addr =
     bind_net (lift_result (ipv4_convert_addr (v4_addr dst_addr))) (\<lambda>bin.
     bind_net (sys_connect E fd (bin, ipv4_convert_port (v4_port dst_addr))) (\<lambda>r.
     if r = CONN_OK then ret CS_SUCCESS
     else if r = EINPROGRESS \<or> r = EALREADY then ret CS_IN_PROGRESS
     else if r = EISCONN then ret CS_SUCCESS
     else ret CS_FAILED))"

definition tcpv4_connect_abort :: "net_env \<Rightarrow> int \<Rightarrow> unit net" where
  "tcpv4_connect_abort E fd =
     bind_net (ccall ''aborting connection'' (bind_net (sys_connect E fd ([], 0)) (\<lambda>r. ret (if r = CONN_OK then 0 else -1)))) (\<lambda>_. ret ())"

definition tcpv4_listen :: "net_env \<Rightarrow> int \<Rightarrow> unit net" where
  "tcpv4_listen E fd = bind_net (ccall ''listening'' (sys_plain (ne_listen E) fd)) (\<lambda>_. ret ())"

definition peer_addr :: "string \<times> 16 word \<Rightarrow> ipv4_addr" where
  "peer_addr p = \<lparr>v4_addr = ipv4_addr_string (fst p), v4_port = ipv4_port_number (snd p)\<rparr>"

text \<open>
  \<open>addr_len\<close> is not initialised: \<open>accept4\<close> stores as much of the address as it says (\<open>ne_stack_len\<close>), and
  what is not stored is what the stack held (the argument \<open>stack\<close>).
\<close>

definition tcpv4_accept :: "net_env \<Rightarrow> string \<times> 16 word \<Rightarrow> int \<Rightarrow> bool \<Rightarrow> tcpv4_accept_result net" where
  "tcpv4_accept E stack fd create_blocking = (\<lambda>os.
     let len = ne_stack_len E (os_calls os) in
     bind_net (sys_accept E fd (\<not> create_blocking)) (\<lambda>(n, bin, port).
     bind_net (ccall ''accepting'' (ret n)) (\<lambda>_.
     let port' = (if 4 \<le> len then port else snd stack);
         bin' = take (len - 4) bin @ drop (len - 4) (fst stack)
     in ret \<lparr>ar_new_fd = n, ar_addr = peer_addr (bin', port')\<rparr>)) os)"

definition no_addr :: ipv4_addr where
  "no_addr = \<lparr>v4_addr = [], v4_port = 0\<rparr>"

definition tcpv4_accept_unsafe :: "net_env \<Rightarrow> int \<Rightarrow> bool \<Rightarrow> tcpv4_accept_result net" where
  "tcpv4_accept_unsafe E fd create_blocking =
     bind_net (sys_accept E fd (\<not> create_blocking)) (\<lambda>(n, p).
     if n < 0 then ret \<lparr>ar_new_fd = n, ar_addr = no_addr\<rparr>
     else ret \<lparr>ar_new_fd = n, ar_addr = peer_addr p\<rparr>)"

definition tcpv4_addr_from_socket :: "net_env \<Rightarrow> int \<Rightarrow> ipv4_addr net" where
  "tcpv4_addr_from_socket E fd =
     bind_net (sys_getsockname E fd) (\<lambda>r.
     case r of
       None \<Rightarrow> throw (ConnectionError ''getting socket name'')
     | Some p \<Rightarrow> ret (peer_addr p))"

subsection \<open>Hole punching\<close>

definition get_hole_punch_ipv4_src :: "hole_punch_parameters \<Rightarrow> ipv4_addr result" where
  "get_hole_punch_ipv4_src settings =
     (case hp_src settings of
        Some (Ipv4 a) \<Rightarrow> Inr a
      | _ \<Rightarrow> Inl (ConnectionError ''hole punch parameters require IPv4 src''))"

definition get_hole_punch_ipv4_dst :: "hole_punch_parameters \<Rightarrow> ipv4_addr result" where
  "get_hole_punch_ipv4_dst settings =
     (case hp_dst settings of
        Some (Ipv4 a) \<Rightarrow> Inr a
      | _ \<Rightarrow> Inl (ConnectionError ''hole punch parameters require IPv4 dst''))"

text \<open>
  One pass through the loop: \<open>Inl fd\<close> is the return of \<open>fd\<close>, \<open>Inr\<close> the values of \<open>connect_sec\<close> and
  \<open>fire_new_syn\<close> with which the condition of the loop is reached.
\<close>

definition punch_outbound :: "net_env \<Rightarrow> ipv4_addr \<Rightarrow> bool \<Rightarrow> int option net" where
  "punch_outbound E dst fire =
     (if fire then
        bind_net get_connect (\<lambda>fd.
        bind_net (tcpv4_connect_unsafe E fd dst) (\<lambda>status.
        if status = CS_SUCCESS then bind_net unique_fd_handle (\<lambda>fd. ret (Some fd)) else ret None))
      else ret None)"

definition punch_inbound :: "net_env \<Rightarrow> ipv4_addr \<Rightarrow> int option net" where
  "punch_inbound E dst =
     bind_net (\<lambda>os. (Inr (fd_listen os), os)) (\<lambda>listen_fd.
     bind_net (tcpv4_accept_unsafe E listen_fd True) (\<lambda>res.
     if ar_new_fd res \<ge> 0 then
       (if v4_addr (ar_addr res) = v4_addr dst \<and> v4_port (ar_addr res) = v4_port dst
        then ret (Some (ar_new_fd res))
        else bind_net (sys_close E (ar_new_fd res)) (\<lambda>_. ret None))
     else ret None))"

definition punch_finished :: "net_env \<Rightarrow> ipv4_addr \<Rightarrow> (int + bool) net" where
  "punch_finished E src =
     bind_net get_connect (\<lambda>fd.
     bind_net (sys_so_error E fd) (\<lambda>err.
     if err = 0 then bind_net unique_fd_handle (\<lambda>fd. ret (Inl fd))
     else
       bind_net (tcpv4_new_socket E False) (\<lambda>new_fd.
       bind_net (unique_fd_assign E new_fd) (\<lambda>_.
       bind_net (tcpv4_port_reuse E new_fd) (\<lambda>_.
       bind_net (tcpv4_bind_port E new_fd src) (\<lambda>_. ret (Inr True)))))))"

definition punch_backoff :: "hole_punch_parameters \<Rightarrow> ieee \<Rightarrow> ieee" where
  "punch_backoff settings connect_sec =
     (let sec = fmul binary32 connect_sec (float_of_bits (hp_connect_sec_scale settings));
          most = float_of_bits (hp_connect_sec_max settings)
      in if fless most sec then most else sec)"

text \<open>\<open>static_cast<int>(connect_sec * 1000.0f)\<close>; a negative timeout waits without end.\<close>

definition poll_timeout :: "net_env \<Rightarrow> ieee \<Rightarrow> int" where
  "poll_timeout E connect_sec =
     (let ms = fmul binary32 connect_sec (Finite False 1000 0) in
      case ieee_to_int 32 ms of None \<Rightarrow> ne_cast E ms | Some z \<Rightarrow> z)"

definition punch_body ::
  "net_env \<Rightarrow> hole_punch_parameters \<Rightarrow> ipv4_addr \<Rightarrow> ipv4_addr \<Rightarrow> ieee \<Rightarrow> bool \<Rightarrow> (int + ieee \<times> bool) net" where
  "punch_body E settings src dst connect_sec fire =
     bind_net (punch_outbound E dst fire) (\<lambda>r.
     case r of
       Some fd \<Rightarrow> ret (Inl fd)
     | None \<Rightarrow>
         bind_net (sys_poll E (poll_timeout E connect_sec)) (\<lambda>p.
         case p of
           Poll_error interrupted \<Rightarrow>
             if interrupted then ret (Inr (connect_sec, False))
             else throw (ConnectionError ''Poll failed during hole punch'')
         | Poll_events readable finished \<Rightarrow>
             bind_net (if readable then punch_inbound E dst else ret None) (\<lambda>r.
             case r of
               Some fd \<Rightarrow> ret (Inl fd)
             | None \<Rightarrow>
                 bind_net (if finished then punch_finished E src else ret (Inr False)) (\<lambda>r.
                 case r of
                   Inl fd \<Rightarrow> ret (Inl fd)
                 | Inr fire' \<Rightarrow> ret (Inr (punch_backoff settings connect_sec, fire'))))))"

text \<open>\<open>do \<dots> while (--connect_tries)\<close> on a \<open>uint32_t\<close>: zero tries are \<open>2 ^ 32\<close>.\<close>

fun punch_loop ::
  "net_env \<Rightarrow> hole_punch_parameters \<Rightarrow> ipv4_addr \<Rightarrow> ipv4_addr \<Rightarrow> nat \<Rightarrow> ieee \<Rightarrow> bool \<Rightarrow> int net" where
  "punch_loop E settings src dst 0 connect_sec fire = throw (ConnectionError ''TCPv4 hole punching failed'')"
| "punch_loop E settings src dst (Suc tries) connect_sec fire =
     bind_net (punch_body E settings src dst connect_sec fire) (\<lambda>r.
     case r of
       Inl fd \<Rightarrow> ret fd
     | Inr (sec, fire') \<Rightarrow> punch_loop E settings src dst tries sec fire')"

definition punch_tries :: "32 word \<Rightarrow> nat" where
  "punch_tries connect_count = (if connect_count = 0 then 2 ^ 32 else unat connect_count)"

definition punch_run :: "net_env \<Rightarrow> hole_punch_parameters \<Rightarrow> ipv4_addr \<Rightarrow> ipv4_addr \<Rightarrow> int net" where
  "punch_run E settings src dst =
     punch_loop E settings src dst (punch_tries (hp_connect_count settings)) (float_of_bits (hp_connect_sec_start settings)) True"

text \<open>
  The whole function: \<open>tcpv4_port_reuse\<close> is passed \<open>connect_fd.handle()\<close>, which leaves nothing in the
  variable that is bound next.
\<close>

definition punch_setup :: "net_env \<Rightarrow> ipv4_addr \<Rightarrow> unit net" where
  "punch_setup E src =
     bind_net (\<lambda>os. (Inr (fd_listen os), os)) (\<lambda>listen_fd.
     bind_net (tcpv4_listen E listen_fd) (\<lambda>_.
     bind_net (tcpv4_new_socket E False) (\<lambda>fd.
     bind_net (unique_fd_assign E fd) (\<lambda>_.
     bind_net unique_fd_handle (\<lambda>fd.
     bind_net (tcpv4_port_reuse E fd) (\<lambda>_.
     bind_net get_connect (\<lambda>fd. tcpv4_bind_port E fd src)))))))"

definition tcpv4_hole_punch :: "net_env \<Rightarrow> int \<Rightarrow> hole_punch_parameters \<Rightarrow> int net" where
  "tcpv4_hole_punch E listen_fd settings =
     with_fds E listen_fd (-1)
      (bind_net (lift_result (get_hole_punch_ipv4_src settings)) (\<lambda>src.
       bind_net (lift_result (get_hole_punch_ipv4_dst settings)) (\<lambda>dst.
       bind_net (punch_setup E src) (\<lambda>_. punch_run E settings src dst))))"

subsection \<open>Reserving a port\<close>

record reserved_socket =
  rs_fd :: int
  rs_port :: "16 word"

definition no_reservation :: reserved_socket where
  "no_reservation = \<lparr>rs_fd = -1, rs_port = 0\<rparr>"

text \<open>One try: the local \<open>fd\<close> is given away by \<open>handle\<close> or closed.\<close>

definition reserve_try :: "net_env \<Rightarrow> string \<Rightarrow> 16 word \<Rightarrow> reserved_socket option net" where
  "reserve_try E local_ip target_port =
     with_fds E (-1) (-1)
      (bind_net (tcpv4_new_socket E False) (\<lambda>fd.
       bind_net (unique_fd_assign E fd) (\<lambda>_.
       bind_net (tcpv4_port_reuse E fd) (\<lambda>_.
       bind_net (sys_bind E fd (local_ip, htons target_port)) (\<lambda>r.
       if r = 0 then bind_net unique_fd_handle (\<lambda>fd. ret (Some \<lparr>rs_fd = fd, rs_port = target_port\<rparr>))
       else ret None)))))"

fun reserve_loop :: "net_env \<Rightarrow> string \<Rightarrow> 16 word \<Rightarrow> 16 word \<Rightarrow> nat \<Rightarrow> reserved_socket net" where
  "reserve_loop E local_ip min_port max_port 0 = ret no_reservation"
| "reserve_loop E local_ip min_port max_port (Suc tries) =
     bind_net (sys_random E) (\<lambda>x.
     let target_port = min_port + word_of_nat (x mod Suc (unat max_port - unat min_port)) in
     bind_net (reserve_try E local_ip target_port) (\<lambda>r.
     case r of Some res \<Rightarrow> ret res | None \<Rightarrow> reserve_loop E local_ip min_port max_port tries))"

definition tcpv4_bind_random_port :: "net_env \<Rightarrow> 16 word \<Rightarrow> 16 word \<Rightarrow> string \<Rightarrow> int \<Rightarrow> reserved_socket net" where
  "tcpv4_bind_random_port E min_port max_port local_ip tries =
     (if min_port > max_port then ret no_reservation else reserve_loop E local_ip min_port max_port (nat tries))"

lemmas tcpv4_defs = tcpv4_new_socket_def tcpv4_port_reuse_def tcpv4_bind_port_def tcpv4_listen_def
  tcpv4_connect_unsafe_def tcpv4_accept_unsafe_def

lemmas net_defs = bind_net_def ret_def throw_def ccall_def lift_result_def

subsection \<open>Conversions\<close>

lemma htons_htons: "htons (htons w) = w"
  by (rule bit_word_eqI) (auto simp: htons_def bit_or_iff bit_push_bit_iff bit_drop_bit_eq)

text \<open>
  Addresses and ports survive the conversion to the structures of the system and back exactly when
  they are four bytes and at most 65535: a shorter or longer address is refused, the empty one becomes
  the wildcard, and of a larger port only the low 16 bits are used.
\<close>

theorem sockaddr_roundtrip:
  "(map_sum id ipv4_addr_string (ipv4_convert_addr a) = Inr a \<longleftrightarrow> length a = 4)
    \<and> ((\<exists>bin. ipv4_convert_addr a = Inr bin) \<longleftrightarrow> length a = 4 \<or> a = [])
    \<and> ipv4_port_number (ipv4_convert_port p) = take_bit 16 p
    \<and> (ipv4_port_number (ipv4_convert_port p) = p \<longleftrightarrow> p < 65536)"
proof (intro conjI)
  show 1: "ipv4_port_number (ipv4_convert_port p) = take_bit 16 p" for p
    unfolding ipv4_port_number_def ipv4_convert_port_def htons_htons
    by (rule bit_word_eqI) (auto simp: bit_ucast_iff bit_take_bit_iff)
  show "ipv4_port_number (ipv4_convert_port p) = p \<longleftrightarrow> p < 65536"
    unfolding 1 by (simp add: word_unat_eq_iff unsigned_take_bit_eq take_bit_nat_eq_self_iff word_less_nat_alt)
  show "map_sum id ipv4_addr_string (ipv4_convert_addr a) = Inr a \<longleftrightarrow> length a = 4"
    by (auto simp: ipv4_convert_addr_def ipv4_addr_string_def)
  show "(\<exists>bin. ipv4_convert_addr a = Inr bin) \<longleftrightarrow> length a = 4 \<or> a = []"
    by (auto simp: ipv4_convert_addr_def)
qed

subsection \<open>The set-up of hole punching\<close>

lemma port_reuse_keeps:
  "tcpv4_port_reuse E fd os = (r, os') \<Longrightarrow>
    os_fds os' = os_fds os \<and> fd_listen os' = fd_listen os \<and> fd_connect os' = fd_connect os"
  by (auto simp: tcpv4_defs net_defs sys_plain_def counted_def split: if_splits)

lemma bind_port_nothing:
  "tcpv4_bind_port E (-1) a os = (r, os') \<Longrightarrow>
    (\<exists>e. r = Inl e) \<and> os_fds os' = os_fds os \<and> fd_listen os' = fd_listen os \<and> fd_connect os' = fd_connect os"
  by (auto simp: tcpv4_defs net_defs sys_bind_def fd_open_def counted_def split: if_splits sum.splits)

text \<open>Everything after \<open>connect_fd.handle()\<close>.\<close>

lemma setup_rest_throws:
  assumes "fd_connect os = -1"
    and "bind_net (tcpv4_port_reuse E fd) (\<lambda>_. bind_net get_connect (\<lambda>fd. tcpv4_bind_port E fd src)) os = (r, os')"
  shows "(\<exists>e. r = Inl e) \<and> os_fds os' = os_fds os \<and> fd_listen os' = fd_listen os \<and> fd_connect os' = -1"
proof -
  obtain r1 os1 where p: "tcpv4_port_reuse E fd os = (r1, os1)" by fastforce
  note keeps = port_reuse_keeps [OF p]
  show ?thesis
  proof (cases r1)
    case (Inl e)
    then show ?thesis using assms p keeps by (auto simp: bind_net_def)
  next
    case (Inr x)
    then have "tcpv4_bind_port E (-1) src os1 = (r, os')"
      using assms p keeps by (simp add: bind_net_def get_connect_def)
    from bind_port_nothing [OF this] show ?thesis using keeps assms(1) by simp
  qed
qed

lemma listen_result:
  "tcpv4_listen E fd os = (if fd_open os fd \<and> ne_listen E (os_calls os) then Inr () else Inl (ConnectionError ''listening''), counted os)"
  by (simp add: tcpv4_defs net_defs sys_plain_def)

lemma new_socket_result:
  "tcpv4_new_socket E blocking os =
     (if ne_socket E (os_calls os) then new_fd (\<not> blocking) (counted os) else (Inl (ConnectionError ''creating socket''), counted os))"
  by (simp add: tcpv4_defs net_defs sys_socket_def new_fd_def Let_def)

lemma setup_throws:
  assumes "fd_connect os = -1" and "punch_setup E src os = (r, os')"
  shows "(\<exists>e. r = Inl e) \<and> fd_listen os' = fd_listen os \<and> fd_connect os' = -1
    \<and> os_fds os' = (if fd_open os (fd_listen os) \<and> ne_listen E (os_calls os) \<and> ne_socket E (Suc (os_calls os))
         then lowest_free (os_fds os) # os_fds os else os_fds os)"
proof -
  consider "\<not> (fd_open os (fd_listen os) \<and> ne_listen E (os_calls os))"
    | "fd_open os (fd_listen os) \<and> ne_listen E (os_calls os)" "\<not> ne_socket E (Suc (os_calls os))"
    | "fd_open os (fd_listen os) \<and> ne_listen E (os_calls os)" "ne_socket E (Suc (os_calls os))" by blast
  then show ?thesis
  proof cases
    case 1
    then show ?thesis using assms by (auto simp: punch_setup_def bind_net_def listen_result counted_def)
  next
    case 2
    then show ?thesis using assms by (auto simp: punch_setup_def bind_net_def listen_result new_socket_result counted_def)
  next
    case 3
    let ?n = "lowest_free (os_fds os)"
    define os1 where "os1 = snd (new_fd True (counted (counted os)))"
    have os1: "os_fds os1 = ?n # os_fds os" "fd_listen os1 = fd_listen os" "fd_connect os1 = -1"
      "new_fd True (counted (counted os)) = (Inr (int ?n), os1)"
      using assms(1) by (simp_all add: os1_def new_fd_def counted_def Let_def)
    have listen: "tcpv4_listen E (fd_listen os) os = (Inr (), counted os)" using 3 by (simp add: listen_result)
    have sock: "tcpv4_new_socket E False (counted os) = (Inr (int ?n), os1)"
      using 3 os1(4) by (simp add: new_socket_result) (simp add: counted_def)
    have same: "os1\<lparr>fd_connect := -1\<rparr> = os1" using os1(3) by (cases os1) simp
    have "bind_net (tcpv4_port_reuse E (int ?n)) (\<lambda>_. bind_net get_connect (\<lambda>fd. tcpv4_bind_port E fd src)) os1 = (r, os')"
      using assms(2) listen sock os1(3) same
      by (simp add: punch_setup_def bind_net_def unique_fd_assign_def unique_fd_handle_def unique_fd_reset_def)
    from setup_rest_throws [OF os1(3) this] show ?thesis using 3 os1 by simp
  qed
qed

lemma hole_punch_throws:
  assumes "tcpv4_hole_punch E listen_fd settings os = (r, os')" and "distinct (os_fds os)"
  shows "(\<exists>e. r = Inl e)
    \<and> (\<forall>src dst. fd_open os listen_fd \<and> hp_src settings = Some (Ipv4 src) \<and> hp_dst settings = Some (Ipv4 dst)
         \<and> ne_listen E (os_calls os) \<and> ne_socket E (Suc (os_calls os)) \<longrightarrow>
       set (os_fds os') = insert (lowest_free (os_fds os)) (set (os_fds os) - {nat listen_fd}))"
proof -
  let ?os = "os\<lparr>fd_listen := listen_fd, fd_connect := -1\<rparr>"
  let ?body = "bind_net (lift_result (get_hole_punch_ipv4_src settings)) (\<lambda>src.
       bind_net (lift_result (get_hole_punch_ipv4_dst settings)) (\<lambda>dst.
       bind_net (punch_setup E src) (\<lambda>_. punch_run E settings src dst)))"
  obtain r1 os1 where b: "?body ?os = (r1, os1)" by fastforce
  have r: "r = r1" and fin: "os_fds os' = os_fds (unique_fd_reset E (fd_listen (unique_fd_reset E (fd_connect os1) os1)) (unique_fd_reset E (fd_connect os1) os1))"
    using assms(1) b by (auto simp: tcpv4_hole_punch_def with_fds_def Let_def)
  have nope: "\<exists>e. fst (punch_setup E src ?os) = Inl e" for src
    using setup_throws [of ?os E src] by (cases "punch_setup E src ?os") auto
  have "\<exists>e. r1 = Inl e"
  proof (cases "get_hole_punch_ipv4_src settings")
    case (Inr src)
    show ?thesis
    proof (cases "get_hole_punch_ipv4_dst settings")
      case (Inr dst)
      then show ?thesis
        using b \<open>get_hole_punch_ipv4_src settings = _\<close> nope [of src]
        by (auto simp: bind_net_def lift_result_def split: prod.splits sum.splits)
    qed (use b Inr in \<open>auto simp: bind_net_def lift_result_def\<close>)
  qed (use b in \<open>auto simp: bind_net_def lift_result_def\<close>)
  moreover have "set (os_fds os') = insert (lowest_free (os_fds os)) (set (os_fds os) - {nat listen_fd})"
    if a: "fd_open os listen_fd" "hp_src settings = Some (Ipv4 src)" "hp_dst settings = Some (Ipv4 dst)"
      "ne_listen E (os_calls os)" "ne_socket E (Suc (os_calls os))" for src dst
  proof -
    obtain r2 os2 where p: "punch_setup E src ?os = (r2, os2)" by fastforce
    have opened: "fd_open ?os listen_fd" using a(1) by (simp add: fd_open_def)
    have s: "\<exists>e. r2 = Inl e" "fd_listen os2 = listen_fd" "fd_connect os2 = -1"
      "os_fds os2 = lowest_free (os_fds os) # os_fds os"
      using setup_throws [of ?os E src r2 os2] p opened a by simp_all
    have "os1 = os2"
      using b p s(1) a by (auto simp: bind_net_def lift_result_def get_hole_punch_ipv4_src_def get_hole_punch_ipv4_dst_def)
    then have "os_fds os' = remove1 (nat listen_fd) (lowest_free (os_fds os) # os_fds os)"
      using fin s a(1) by (auto simp: unique_fd_reset_def sys_close_def fd_open_def counted_def)
    moreover have "lowest_free (os_fds os) \<noteq> nat listen_fd"
      using a(1) lowest_free_fresh [of "os_fds os"] by (auto simp: fd_open_def)
    ultimately show ?thesis using assms(2) by (simp add: set_remove1_eq)
  qed
  ultimately show ?thesis using r by blast
qed

text \<open>
  C30. Hole punching never succeeds: whatever the system does, \<open>tcpv4_hole_punch\<close> throws. The new socket
  leaves its variable before it is bound, so the bind is on no descriptor; once the socket has been
  made it stays open for ever, and the listening socket is closed.
\<close>

theorem hole_punch_never_succeeds:
  assumes "tcpv4_hole_punch E listen_fd settings os = (r, os')" and "distinct (os_fds os)"
  shows "(\<exists>e. r = Inl e)
    \<and> (\<forall>src dst. fd_open os listen_fd \<and> hp_src settings = Some (Ipv4 src) \<and> hp_dst settings = Some (Ipv4 dst)
         \<and> ne_listen E (os_calls os) \<and> ne_socket E (Suc (os_calls os)) \<longrightarrow>
       set (os_fds os') = insert (lowest_free (os_fds os)) (set (os_fds os) - {nat listen_fd}))"
  by (rule hole_punch_throws [OF assms])

definition calm_env :: net_env where
  "calm_env = \<lparr>ne_socket = (\<lambda>k. True), ne_fcntl = (\<lambda>k. True), ne_setsockopt = (\<lambda>k. True), ne_bind = (\<lambda>k. True),
     ne_listen = (\<lambda>k. True), ne_connect = (\<lambda>k. CONN_OK), ne_accept = (\<lambda>k. None), ne_getsockname = (\<lambda>k. None),
     ne_poll = (\<lambda>k. Poll_events False False), ne_so_error = (\<lambda>k. 0), ne_close = (\<lambda>k. True), ne_random = (\<lambda>k. 0),
     ne_stack_len = (\<lambda>k. 16), ne_cast = (\<lambda>x. - (2 ^ 31))\<rparr>"

definition os_with :: "nat list \<Rightarrow> net_os" where
  "os_with fds = \<lparr>os_fds = fds, os_calls = 0, os_nonblock = {}, os_bound = Map.empty, os_target = Map.empty, os_polls = [],
     fd_listen = -1, fd_connect = -1\<rparr>"

definition some_punch :: hole_punch_parameters where
  "some_punch = \<lparr>hp_src = Some (Ipv4 \<lparr>v4_addr = ''abcd'', v4_port = 80\<rparr>), hp_dst = Some (Ipv4 \<lparr>v4_addr = ''efgh'', v4_port = 81\<rparr>),
     hp_start_time_ms = 0, hp_connect_sec_start = 0x40A00000, hp_connect_sec_max = 0x40C00000, hp_connect_sec_scale = 0x40200000, hp_connect_count = 4\<rparr>"

theorem hole_punch_never_succeeds_witness:
  "\<exists>e os'. tcpv4_hole_punch calm_env 3 some_punch (os_with [3]) = (Inl e, os') \<and> set (os_fds os') = {0}"
proof -
  obtain r os' where run: "tcpv4_hole_punch calm_env 3 some_punch (os_with [3]) = (r, os')" by fastforce
  have "lowest_free [3] = 0" by (simp add: lowest_free_def)
  then show ?thesis
    using hole_punch_never_succeeds [OF run] run
    by (auto simp: os_with_def some_punch_def calm_env_def fd_open_def)
qed

subsection \<open>The loop of hole punching\<close>

lemma valid_new_socket:
  "valid (owns B) (tcpv4_new_socket E blocking) (\<lambda>r os. 0 \<le> r \<and> owns (add_mset (nat r) B) os) (owns B)"
  unfolding tcpv4_new_socket_def
  by (rule valid_ccall, rule valid_weaken [OF valid_socket]) (auto simp: owns_result_def)

lemma valid_checked:
  "valid (owns B) m (\<lambda>r. owns B) (owns B) \<Longrightarrow> valid (owns B) (ccall d m) (\<lambda>r. owns B) (owns B)"
  by (rule valid_ccall, erule valid_weaken) auto

lemma valid_lift: "valid (owns B) (lift_result r) (\<lambda>r. owns B) (owns B)"
  by (simp add: valid_def lift_result_def split: sum.split)

lemma valid_then:
  "valid P m (\<lambda>r. R) X \<Longrightarrow> (\<And>x. valid R (f x) Q X) \<Longrightarrow> valid P (bind_net m f) Q X"
  by (rule valid_bind)

lemma valid_port_reuse: "valid (owns B) (tcpv4_port_reuse E fd) (\<lambda>r. owns B) (owns B)"
  unfolding tcpv4_port_reuse_def by (intro valid_then [where R = "owns B"] valid_checked valid_plain valid_ret)

lemma valid_bind_port: "valid (owns B) (tcpv4_bind_port E fd a) (\<lambda>r. owns B) (owns B)"
  unfolding tcpv4_bind_port_def by (intro valid_then [where R = "owns B"] valid_checked valid_lift valid_bind_call valid_ret)

lemma valid_connect_unsafe: "valid (owns B) (tcpv4_connect_unsafe E fd a) (\<lambda>r. owns B) (owns B)"
  unfolding tcpv4_connect_unsafe_def
  by (intro valid_then [where R = "owns B"] valid_lift valid_connect valid_ret valid_if)

text \<open>\<open>gives B fd\<close>: the descriptor \<open>fd\<close> has left the variables for the caller.\<close>

definition gives :: "nat multiset \<Rightarrow> int \<Rightarrow> net_os \<Rightarrow> bool" where
  "gives B fd os = owns (B + var_fd fd) os"

lemma valid_give: "valid (owns B) unique_fd_handle (gives B) X"
  by (rule valid_weaken [OF valid_handle]) (auto simp: gives_def)

lemma valid_outbound:
  "valid (owns B) (punch_outbound E dst fire) (\<lambda>r. case r of None \<Rightarrow> owns B | Some fd \<Rightarrow> gives B fd) (owns B)"
  unfolding punch_outbound_def
  by (intro valid_if valid_then [where R = "owns B"] valid_get_connect valid_connect_unsafe
      valid_bind [where R = "gives B"] valid_give valid_ret) simp_all

lemma valid_accept_unsafe:
  "valid (owns B) (tcpv4_accept_unsafe E fd bl) (\<lambda>res. owns_result B (ar_new_fd res)) (owns B)"
  unfolding tcpv4_accept_unsafe_def
  by (rule valid_bind [OF valid_accept]) (auto intro: valid_ret split: prod.split)

lemma valid_inbound:
  "valid (owns B) (punch_inbound E dst) (\<lambda>r. case r of None \<Rightarrow> owns B | Some fd \<Rightarrow> gives B fd) (owns B)"
  unfolding punch_inbound_def
proof (rule valid_then [where R = "owns B"])
  show "valid (owns B) (\<lambda>os. (Inr (fd_listen os), os)) (\<lambda>r. owns B) (owns B)" by (simp add: valid_def)
next
  fix l
  show "valid (owns B)
     (bind_net (tcpv4_accept_unsafe E l True) (\<lambda>res.
      if ar_new_fd res \<ge> 0 then
       (if v4_addr (ar_addr res) = v4_addr dst \<and> v4_port (ar_addr res) = v4_port dst
        then ret (Some (ar_new_fd res))
        else bind_net (sys_close E (ar_new_fd res)) (\<lambda>_. ret None))
      else ret None)) (\<lambda>r. case r of None \<Rightarrow> owns B | Some fd \<Rightarrow> gives B fd) (owns B)"
  proof (rule valid_bind [OF valid_accept_unsafe], intro valid_if)
    fix res
    assume fd: "ar_new_fd res \<ge> 0"
    have pre: "owns_result B (ar_new_fd res) = owns (add_mset (nat (ar_new_fd res)) B)"
      using fd by (intro ext) (simp add: owns_result_def)
    show "valid (owns_result B (ar_new_fd res)) (ret (Some (ar_new_fd res)))
        (\<lambda>r. case r of None \<Rightarrow> owns B | Some fd \<Rightarrow> gives B fd) (owns B)"
      unfolding pre by (rule valid_ret) (use fd in \<open>simp add: gives_def var_fd_def\<close>)
    show "valid (owns_result B (ar_new_fd res)) (bind_net (sys_close E (ar_new_fd res)) (\<lambda>_. ret None))
        (\<lambda>r. case r of None \<Rightarrow> owns B | Some fd \<Rightarrow> gives B fd) (owns B)"
      unfolding pre by (rule valid_then [OF valid_close [OF fd]], rule valid_ret) simp
  next
    fix res
    assume "\<not> ar_new_fd res \<ge> 0"
    then show "valid (owns_result B (ar_new_fd res)) (ret None)
        (\<lambda>r. case r of None \<Rightarrow> owns B | Some fd \<Rightarrow> gives B fd) (owns B)"
      by (intro valid_ret) (simp add: owns_result_def)
  qed
qed

lemma valid_finished:
  "valid (owns B) (punch_finished E src) (\<lambda>r. case r of Inl fd \<Rightarrow> gives B fd | Inr _ \<Rightarrow> owns B) (owns B)"
  unfolding punch_finished_def
proof (rule valid_then [OF valid_get_connect], rule valid_then [OF valid_so_error], rule valid_if)
  show "valid (owns B) (bind_net unique_fd_handle (\<lambda>fd. ret (Inl fd)))
      (\<lambda>r. case r of Inl fd \<Rightarrow> gives B fd | Inr _ \<Rightarrow> owns B) (owns B)"
    by (rule valid_bind [OF valid_give], rule valid_ret) simp
  show "valid (owns B) (bind_net (tcpv4_new_socket E False) (\<lambda>new_fd.
       bind_net (unique_fd_assign E new_fd) (\<lambda>_.
       bind_net (tcpv4_port_reuse E new_fd) (\<lambda>_.
       bind_net (tcpv4_bind_port E new_fd src) (\<lambda>_. ret (Inr True))))))
      (\<lambda>r. case r of Inl fd \<Rightarrow> gives B fd | Inr _ \<Rightarrow> owns B) (owns B)"
  proof (rule valid_bind [OF valid_new_socket], rule valid_pure)
    fix new_fd :: int
    assume "0 \<le> new_fd"
    then show "valid (owns (add_mset (nat new_fd) B)) (bind_net (unique_fd_assign E new_fd) (\<lambda>_.
       bind_net (tcpv4_port_reuse E new_fd) (\<lambda>_.
       bind_net (tcpv4_bind_port E new_fd src) (\<lambda>_. ret (Inr True)))))
      (\<lambda>r. case r of Inl fd \<Rightarrow> gives B fd | Inr _ \<Rightarrow> owns B) (owns B)"
      by (intro valid_then [where R = "owns B"] valid_assign valid_port_reuse valid_bind_port valid_ret) simp_all
  qed
qed

lemma valid_body:
  "valid (owns B) (punch_body E settings src dst sec fire)
     (\<lambda>r. case r of Inl fd \<Rightarrow> gives B fd | Inr _ \<Rightarrow> owns B) (owns B)"
  unfolding punch_body_def
proof (rule valid_bind [OF valid_outbound], goal_cases)
  case (1 r)
  show ?case
  proof (cases r)
    case (Some fd)
    then show ?thesis by (auto intro: valid_ret)
  next
    case None
    show ?thesis unfolding None option.case
    proof (rule valid_then [OF valid_poll], goal_cases)
      case (1 p)
      show ?case
      proof (cases p)
        case (Poll_error i)
        then show ?thesis by (auto intro: valid_ret valid_throw)
      next
        case (Poll_events readable finished)
        show ?thesis unfolding Poll_events poll_outcome.case
        proof (rule valid_bind [where R = "\<lambda>r. case r of None \<Rightarrow> owns B | Some fd \<Rightarrow> gives B fd"], goal_cases)
          case 1
          show ?case by (intro valid_if valid_inbound valid_ret) simp
        next
          case (2 r)
          show ?case
          proof (cases r)
            case (Some fd)
            then show ?thesis by (auto intro: valid_ret)
          next
            case None
            show ?thesis unfolding None option.case
            proof (rule valid_bind [where R = "\<lambda>r. case r of Inl fd \<Rightarrow> gives B fd | Inr _ \<Rightarrow> owns B"], goal_cases)
              case 1
              show ?case by (intro valid_if valid_finished valid_ret) simp
            next
              case (2 r)
              show ?case by (cases r) (auto intro: valid_ret)
            qed
          qed
        qed
      qed
    qed
  qed
qed

lemma valid_loop: "valid (owns B) (punch_loop E settings src dst tries sec fire) (gives B) (owns B)"
proof (induction tries arbitrary: sec fire)
  case 0
  show ?case by (simp add: valid_throw)
next
  case (Suc tries)
  show ?case unfolding punch_loop.simps
  proof (rule valid_bind [OF valid_body], goal_cases)
    case (1 r)
    show ?case using Suc by (cases r) (auto intro: valid_ret split: prod.split)
  qed
qed

text \<open>The polls of a pass, and the value of \<open>connect_sec\<close> for the next.\<close>

lemma frame_outbound: "frame os_polls (punch_outbound E dst fire)"
  unfolding punch_outbound_def tcpv4_connect_unsafe_def by (intro frame_rules)

lemma frame_inbound: "frame os_polls (punch_inbound E dst)"
  unfolding punch_inbound_def tcpv4_accept_unsafe_def
  by (intro frame_rules) (auto simp: frame_def ret_def split: prod.split)

lemma frame_finished: "frame os_polls (punch_finished E src)"
  unfolding punch_finished_def tcpv4_defs by (intro frame_rules)

lemma body_polls:
  assumes "punch_body E settings src dst sec fire os = (r, os')"
  shows "(os_polls os' = os_polls os \<and> (\<forall>next. r \<noteq> Inr (Inr next)) \<or> os_polls os' = os_polls os @ [poll_timeout E sec])
    \<and> (\<forall>sec' f. r = Inr (Inr (sec', f)) \<longrightarrow> sec' = sec \<or> sec' = punch_backoff settings sec)"
proof -
  define step where "step = (\<lambda>readable finished.
    bind_net (if readable then punch_inbound E dst else ret None) (\<lambda>r.
             case r of
               Some fd \<Rightarrow> ret (Inl fd)
             | None \<Rightarrow>
                 bind_net (if finished then punch_finished E src else ret (Inr False)) (\<lambda>r.
                 case r of
                   Inl fd \<Rightarrow> ret (Inl fd)
                 | Inr fire' \<Rightarrow> ret (Inr (punch_backoff settings sec, fire')))))"
  have step_frame: "frame os_polls (step readable finished)" for readable finished
    unfolding step_def
    by (intro frame_bind frame_if frame_inbound frame_finished) (auto split: option.split sum.split intro!: frame_rules frame_finished)
  have step_next: "sec' = punch_backoff settings sec"
    if "step readable finished os1 = (Inr (Inr (sec', f)), os2)" for readable finished os1 sec' f os2
    using that unfolding step_def bind_net_def ret_def by (auto split: prod.splits sum.splits option.splits)
  have body: "punch_body E settings src dst sec fire =
     bind_net (punch_outbound E dst fire) (\<lambda>r. case r of
       Some fd \<Rightarrow> ret (Inl fd)
     | None \<Rightarrow> bind_net (sys_poll E (poll_timeout E sec)) (\<lambda>p. case p of
           Poll_error interrupted \<Rightarrow>
             if interrupted then ret (Inr (sec, False))
             else throw (ConnectionError ''Poll failed during hole punch'')
         | Poll_events readable finished \<Rightarrow> step readable finished))"
    unfolding punch_body_def step_def by (rule refl)
  obtain r1 os1 where out: "punch_outbound E dst fire os = (r1, os1)" by fastforce
  have polls1: "os_polls os1 = os_polls os" using frameD [OF frame_outbound out] .
  define os2 where "os2 = (counted os1)\<lparr>os_polls := os_polls os1 @ [poll_timeout E sec]\<rparr>"
  have polls2: "os_polls os2 = os_polls os @ [poll_timeout E sec]" by (simp add: os2_def polls1)
  consider (exn) e where "r1 = Inl e" | (given) fd where "r1 = Inr (Some fd)" | (poll) "r1 = Inr None"
    by (metis option.exhaust sum.exhaust)
  then show ?thesis
  proof cases
    case exn
    then show ?thesis using assms out polls1 by (auto simp: punch_body_def bind_net_def)
  next
    case given
    then show ?thesis using assms out polls1 by (auto simp: punch_body_def bind_net_def ret_def)
  next
    case poll
    then have run: "(case ne_poll E (os_calls os1) of
           Poll_error interrupted \<Rightarrow>
             if interrupted then ret (Inr (sec, False))
             else throw (ConnectionError ''Poll failed during hole punch'')
         | Poll_events readable finished \<Rightarrow> step readable finished) os2 = (r, os')"
      using assms out unfolding body by (simp add: bind_net_def sys_poll_def os2_def)
    show ?thesis
    proof (cases "ne_poll E (os_calls os1)")
      case (Poll_error i)
      then show ?thesis using run polls2 by (auto simp: ret_def throw_def split: if_splits)
    next
      case (Poll_events readable finished)
      then have st: "step readable finished os2 = (r, os')" using run by simp
      then show ?thesis using frameD [OF step_frame st] polls2 step_next by auto
    qed
  qed
qed

lemma backoff_bound: "\<not> fless (float_of_bits (hp_connect_sec_max settings)) (punch_backoff settings sec)"
  by (simp add: punch_backoff_def Let_def fless_irrefl)

lemma loop_polls:
  assumes "punch_loop E settings src dst tries sec fire os = (r, os')"
    and "sec = start \<or> \<not> fless (float_of_bits (hp_connect_sec_max settings)) sec"
  shows "\<exists>new. os_polls os' = os_polls os @ new \<and> length new \<le> tries
    \<and> (\<forall>ms \<in> set new. ms = poll_timeout E start
        \<or> (\<exists>sec. ms = poll_timeout E sec \<and> \<not> fless (float_of_bits (hp_connect_sec_max settings)) sec))"
  using assms
proof (induction tries arbitrary: sec fire os)
  case 0
  then show ?case by (simp add: throw_def)
next
  case (Suc tries)
  obtain r1 os1 where b: "punch_body E settings src dst sec fire os = (r1, os1)" by fastforce
  note polls = body_polls [OF b]
  show ?case
  proof (cases "\<exists>sec' f. r1 = Inr (Inr (sec', f))")
    case False
    then have "os' = os1" using Suc.prems(1) b by (auto simp: bind_net_def ret_def split: sum.splits prod.splits)
    then show ?thesis using polls Suc.prems(2)
      by (elim conjE disjE) (auto intro: exI [of _ "[]"] exI [of _ "[poll_timeout E sec]"])
  next
    case True
    then obtain sec' f where r1: "r1 = Inr (Inr (sec', f))" by blast
    have run: "punch_loop E settings src dst tries sec' f os1 = (r, os')"
      using Suc.prems(1) b r1 by (simp add: bind_net_def)
    have "sec' = start \<or> \<not> fless (float_of_bits (hp_connect_sec_max settings)) sec'"
      using polls r1 Suc.prems(2) backoff_bound [of settings sec] by auto
    from Suc.IH [OF run this] obtain new where new: "os_polls os' = os_polls os1 @ new" "length new \<le> tries"
      "\<forall>ms \<in> set new. ms = poll_timeout E start
        \<or> (\<exists>sec. ms = poll_timeout E sec \<and> \<not> fless (float_of_bits (hp_connect_sec_max settings)) sec)" by blast
    have "os_polls os1 = os_polls os @ [poll_timeout E sec]" using polls r1 by auto
    then show ?thesis using new Suc.prems(2) by (intro exI [of _ "poll_timeout E sec # new"]) auto
  qed
qed

text \<open>
  What a wait may be: the first one, what the system makes of a conversion that is undefined, or a time that
  exceeds \<open>connect_sec_max\<close> by less than a millisecond.
\<close>

definition wait_within :: "net_env \<Rightarrow> hole_punch_parameters \<Rightarrow> int \<Rightarrow> bool" where
  "wait_within E settings ms =
     (ms = poll_timeout E (float_of_bits (hp_connect_sec_start settings))
      \<or> (\<exists>x. ieee_to_int 32 x = None \<and> ms = ne_cast E x)
      \<or> real_of_int ms < 1000 * ieee_val (float_of_bits (hp_connect_sec_max settings)) + 1)"

lemma poll_timeout_below:
  assumes "\<not> fless (Finite t n f) sec" and "0 \<le> ieee_val (Finite t n f)" and "ieee_val (Finite t n f) \<le> 2 ^ 14"
    and "ieee_to_int 32 (fmul binary32 sec (Finite False 1000 0)) = Some ms"
  shows "real_of_int ms < 1000 * ieee_val (Finite t n f) + 1"
proof -
  obtain s m e where sec: "sec = Finite s m e" using assms(4) by (cases sec) (auto simp: fmul_def)
  obtain s2 m2 e2 where r: "ieee_round binary32 s (m * 1000) e = Finite s2 m2 e2"
    using assms(4) by (cases "ieee_round binary32 s (m * 1000) e") (auto simp: fmul_def sec)
  note err = ieee_round_error [OF r]
  have ms: "ms = with_sign s (trunc_nat m2 e2)" using assms(4) r err by (simp add: fmul_def sec Let_def split: if_splits)
  show ?thesis
  proof (cases s)
    case True
    then have "ms \<le> 0" by (simp add: ms with_sign_def)
    then have "real_of_int ms \<le> 0" by simp
    then show ?thesis using assms(2) by linarith
  next
    case False
    define p where "p = real m2 * 2 powi e2"
    have below: "real m * 2 powi e \<le> ieee_val (Finite t n f)" using assms(1) False by (simp add: sec fless_val)
    have "ms = \<lfloor>p\<rfloor>" using False by (simp only: ms with_sign_def if_False trunc_nat_floor p_def)
    then have "real_of_int ms \<le> p" by simp
    moreover have "p - real (m * 1000) * 2 powi e < 1"
    proof -
      have "(2 :: real) powi (-150) < 2 powi 0" by (rule power_int_strict_increasing) simp_all
      moreover have "real (m * 1000) * 2 powi e \<le> 1000 * 2 ^ 14" using below assms(3) by (simp add: algebra_simps)
      ultimately have small: "max (real (m * 1000) * 2 powi e / 2 ^ 24) ((2 :: real) powi (-150)) < 1" by simp
      have "ff_emin binary32 - 1 = -150" "ff_prec binary32 = 24" by (simp_all add: binary32_def)
      then have "\<bar>p - real (m * 1000) * 2 powi e\<bar> \<le> max (real (m * 1000) * 2 powi e / 2 ^ 24) (2 powi (-150))"
        using err unfolding p_def by (simp only:)
      from le_less_trans [OF this small] show ?thesis by (simp only: abs_less_iff)
    qed
    ultimately show ?thesis using below by (simp add: algebra_simps)
  qed
qed

lemma wait_within_max:
  assumes "ms = poll_timeout E start \<or> (\<exists>sec. ms = poll_timeout E sec \<and> \<not> fless (float_of_bits (hp_connect_sec_max settings)) sec)"
    and "start = float_of_bits (hp_connect_sec_start settings)" and "float_of_bits (hp_connect_sec_max settings) = Finite t n f"
    and "0 \<le> ieee_val (Finite t n f)" and "ieee_val (Finite t n f) \<le> 2 ^ 14"
  shows "wait_within E settings ms"
  using assms(1)
proof
  assume "ms = poll_timeout E start"
  then show ?thesis using assms(2) by (simp add: wait_within_def)
next
  assume "\<exists>sec. ms = poll_timeout E sec \<and> \<not> fless (float_of_bits (hp_connect_sec_max settings)) sec"
  then obtain sec where sec: "ms = poll_timeout E sec" "\<not> fless (Finite t n f) sec" using assms(3) by auto
  show ?thesis
  proof (cases "ieee_to_int 32 (fmul binary32 sec (Finite False 1000 0))")
    case None
    then show ?thesis using sec(1) by (auto simp: wait_within_def poll_timeout_def Let_def)
  next
    case (Some z)
    then have "ms = z" using sec(1) by (simp add: poll_timeout_def Let_def)
    then show ?thesis
      using poll_timeout_below [OF sec(2) assms(4,5) Some] unfolding wait_within_def assms(3) by blast
  qed
qed

text \<open>
  C18. The loop of hole punching, from a listening and a connecting socket: it ends after at most
  \<open>connect_count\<close> passes (\<open>2 ^ 32\<close> when that is 0), of all descriptors it leaves open only the one
  that it returns, none when it throws, and for a \<open>connect_sec_max\<close> up to four hours no wait after the
  first is a millisecond longer than it, with the rounding of the two products of each pass; but for a
  wait that does not fit an \<open>int\<close>, where the conversion is undefined.
\<close>

theorem punch_loop_keeps_descriptors:
  assumes "owns B (os\<lparr>fd_listen := l, fd_connect := c\<rparr>)"
    and "float_of_bits (hp_connect_sec_max settings) = Finite False n f" and "real n * 2 powi f \<le> 2 ^ 14"
    and "with_fds E l c (punch_run E settings src dst) os = (r, os')"
  shows "distinct (os_fds os') \<and> mset (os_fds os') = (case r of Inr fd \<Rightarrow> B + var_fd fd | Inl e \<Rightarrow> B)
    \<and> (\<exists>polls. os_polls os' = os_polls os @ polls \<and> length polls \<le> punch_tries (hp_connect_count settings)
        \<and> (\<forall>ms \<in> set polls. wait_within E settings ms))"
proof -
  have "valid (owns B) (punch_run E settings src dst) (\<lambda>fd. owns (B + var_fd fd)) (owns B)"
    unfolding punch_run_def by (rule valid_weaken [OF valid_loop]) (simp_all add: gives_def)
  from with_fds_leaves [OF this assms(1), where E = E] assms(4)
  have fds: "distinct (os_fds os') \<and> mset (os_fds os') = (case r of Inr fd \<Rightarrow> B + var_fd fd | Inl e \<Rightarrow> B)"
    by (auto split: sum.splits)
  obtain r1 os1 where run: "punch_run E settings src dst (os\<lparr>fd_listen := l, fd_connect := c\<rparr>) = (r1, os1)" by fastforce
  have polls': "os_polls os' = os_polls os1"
    using assms(4) run
    by (auto simp: with_fds_def Let_def unique_fd_reset_def sys_close_def counted_def split: if_splits)
  obtain new where new: "os_polls os1 = os_polls os @ new" "length new \<le> punch_tries (hp_connect_count settings)"
    "\<forall>ms \<in> set new. ms = poll_timeout E (float_of_bits (hp_connect_sec_start settings))
        \<or> (\<exists>sec. ms = poll_timeout E sec \<and> \<not> fless (float_of_bits (hp_connect_sec_max settings)) sec)"
    using loop_polls [OF run [unfolded punch_run_def], of "float_of_bits (hp_connect_sec_start settings)"] by auto
  have "\<forall>ms \<in> set new. wait_within E settings ms"
    using wait_within_max [OF _ refl assms(2)] new(3) assms(3) by simp
  then show ?thesis using fds new(1,2) polls' by auto
qed

theorem punch_loop_keeps_descriptors_witness:
  "\<exists>r os'. with_fds calm_env 3 4 (punch_run calm_env some_punch no_addr no_addr) (os_with [3, 4]) = (r, os')
     \<and> length (os_polls os') \<le> 4"
proof -
  obtain r os' where run: "with_fds calm_env 3 4 (punch_run calm_env some_punch no_addr no_addr) (os_with [3, 4]) = (r, os')"
    by fastforce
  have "owns {#} ((os_with [3, 4])\<lparr>fd_listen := 3, fd_connect := 4\<rparr>)" by (simp add: owns_def os_with_def var_fd_def)
  moreover have "float_of_bits (hp_connect_sec_max some_punch) = Finite False 12582912 (-21)"
    by (simp add: some_punch_def float_of_bits_def Let_def)
  moreover have "real 12582912 * 2 powi (-21) \<le> 2 ^ 14" by (simp add: power_int_def power_divide)
  ultimately show ?thesis
    using punch_loop_keeps_descriptors [OF _ _ _ run] run by (fastforce simp: os_with_def some_punch_def punch_tries_def)
qed

text \<open>
  A refused connection is returned as an established one: when \<open>connect\<close> reports its failure at once,
  as it does for an unreachable network, the socket has no pending error, polls as finished and reads
  \<open>SO_ERROR\<close> as 0, and the first pass of the loop returns it.
\<close>

theorem refused_connection_returned:
  assumes "fd_open os (fd_connect os)" and "length (v4_addr dst) = 4"
    and "ne_connect E (os_calls os) = CONN_ERROR"
    and "ne_poll E (Suc (os_calls os)) = Poll_events False True"
    and "ne_so_error E (Suc (Suc (os_calls os))) = 0"
  shows "fst (punch_run E settings src dst os) = Inr (fd_connect os)"
proof -
  have conv: "ipv4_convert_addr (v4_addr dst) = Inr (v4_addr dst)"
    using assms(2) by (auto simp: ipv4_convert_addr_def)
  have tries: "\<exists>n. punch_tries (hp_connect_count settings) = Suc n"
    unfolding punch_tries_def by (cases "hp_connect_count settings = 0")
      (auto intro!: Suc_pred [symmetric] exI simp: unat_gt_0)
  have "fst (punch_body E settings src dst (float_of_bits (hp_connect_sec_start settings)) True os) = Inr (Inl (fd_connect os))"
    using assms conv
    by (simp add: punch_body_def punch_outbound_def punch_finished_def tcpv4_connect_unsafe_def net_defs get_connect_def
        sys_connect_def sys_poll_def sys_so_error_def unique_fd_handle_def counted_def fd_open_def)
  then show ?thesis
    using tries by (cases "punch_body E settings src dst (float_of_bits (hp_connect_sec_start settings)) True os")
      (auto simp: punch_run_def bind_net_def ret_def)
qed

theorem refused_connection_returned_witness:
  "fst (punch_run (calm_env\<lparr>ne_connect := (\<lambda>k. CONN_ERROR), ne_poll := (\<lambda>k. Poll_events False True)\<rparr>)
     some_punch no_addr (no_addr\<lparr>v4_addr := ''abcd''\<rparr>) ((os_with [3, 4])\<lparr>fd_listen := 3, fd_connect := 4\<rparr>)) = Inr 4"
  using refused_connection_returned [of "(os_with [3, 4])\<lparr>fd_listen := 3, fd_connect := 4\<rparr>" "no_addr\<lparr>v4_addr := ''abcd''\<rparr>"
      "calm_env\<lparr>ne_connect := (\<lambda>k. CONN_ERROR), ne_poll := (\<lambda>k. Poll_events False True)\<rparr>"]
  by (simp add: fd_open_def os_with_def calm_env_def)

subsection \<open>Reserving a port\<close>

lemma port_reuse_keeps_bound:
  "tcpv4_port_reuse E fd os = (r, os') \<Longrightarrow> os_bound os' = os_bound os"
  by (auto simp: tcpv4_defs net_defs sys_plain_def counted_def split: if_splits)

lemma remove1_new: "n \<notin> set fds \<Longrightarrow> remove1 n (n # fds) = fds"
  by simp

text \<open>What one try leaves: nothing, or the new descriptor, bound to the port.\<close>

lemma reserve_try_result:
  assumes "reserve_try E ip port os = (r, os')"
  shows "case r of
      Inr (Some res) \<Rightarrow> rs_port res = port \<and> rs_fd res = int (lowest_free (os_fds os))
        \<and> os_fds os' = lowest_free (os_fds os) # os_fds os
        \<and> os_bound os' (lowest_free (os_fds os)) = Some (ip, htons port)
    | _ \<Rightarrow> os_fds os' = os_fds os"
proof -
  let ?n = "lowest_free (os_fds os)"
  let ?os = "os\<lparr>fd_listen := -1, fd_connect := -1\<rparr>"
  show ?thesis
  proof (cases "ne_socket E (os_calls os)")
    case False
    then show ?thesis
      using assms by (auto simp: reserve_try_def with_fds_def bind_net_def new_socket_result counted_def unique_fd_reset_def)
  next
    case True
    define os1 where "os1 = (snd (new_fd True (counted ?os)))\<lparr>fd_connect := int ?n\<rparr>"
    have os1: "os_fds os1 = ?n # os_fds os" "fd_listen os1 = -1" "fd_connect os1 = int ?n"
      by (simp_all add: os1_def new_fd_def counted_def Let_def)
    obtain r2 os2 where p: "tcpv4_port_reuse E (int ?n) os1 = (r2, os2)" by fastforce
    have os2: "os_fds os2 = ?n # os_fds os" "fd_listen os2 = -1" "fd_connect os2 = int ?n"
      using port_reuse_keeps [OF p] os1 by simp_all
    have opened: "fd_open os2 (int ?n)" using os2(1) by (simp add: fd_open_def)
    have new: "tcpv4_new_socket E False ?os = (Inr (int ?n), snd (new_fd True (counted ?os)))"
      using True by (simp add: new_socket_result) (simp add: new_fd_def counted_def Let_def)
    have assign: "unique_fd_assign E (int ?n) (snd (new_fd True (counted ?os))) = (Inr (), os1)"
      by (simp add: unique_fd_assign_def unique_fd_reset_def os1_def new_fd_def counted_def Let_def)
    show ?thesis
    proof (cases r2)
      case (Inl e)
      then show ?thesis
        using assms new assign p os2 opened
        by (auto simp: reserve_try_def with_fds_def bind_net_def unique_fd_reset_def sys_close_def fd_open_def counted_def Let_def)
    next
      case (Inr u)
      show ?thesis
      proof (cases "ne_bind E (os_calls os2)")
        case True
        then show ?thesis
          using assms new assign p os2 opened Inr
          by (auto simp: reserve_try_def with_fds_def bind_net_def sys_bind_def unique_fd_handle_def ret_def
              unique_fd_reset_def counted_def Let_def)
      next
        case False
        then show ?thesis
          using assms new assign p os2 opened Inr
          by (auto simp: reserve_try_def with_fds_def bind_net_def sys_bind_def ret_def
              unique_fd_reset_def sys_close_def fd_open_def counted_def Let_def)
      qed
    qed
  qed
qed

lemma random_port_range:
  fixes min_port max_port :: "16 word" and x :: nat
  assumes "min_port \<le> max_port"
  defines "port \<equiv> min_port + word_of_nat (x mod Suc (unat max_port - unat min_port)) "
  shows "min_port \<le> port \<and> port \<le> max_port"
proof -
  let ?k = "x mod Suc (unat max_port - unat min_port)"
  have le: "unat min_port \<le> unat max_port" using assms(1) by (simp add: word_le_nat_alt)
  have k: "?k \<le> unat max_port - unat min_port" using mod_less_divisor [of "Suc (unat max_port - unat min_port)" x] by simp
  have sum: "unat min_port + ?k \<le> unat max_port" using k le by linarith
  moreover have "unat max_port < 2 ^ 16" using unsigned_less [of max_port] by simp
  ultimately have "unat min_port + ?k < 2 ^ 16" by linarith
  then have "unat port = unat min_port + ?k"
    by (simp add: port_def unat_word_ariths unat_of_nat take_bit_eq_mod mod_simps)
  then show ?thesis using sum by (simp add: word_le_nat_alt)
qed

lemma random_port_result:
  assumes "tcpv4_bind_random_port E min_port max_port local_ip tries os = (r, os')"
  shows "case r of
      Inl e \<Rightarrow> os_fds os' = os_fds os
    | Inr res \<Rightarrow>
        if unique_fd_valid (rs_fd res)
        then (\<exists>n. rs_fd res = int n \<and> n \<notin> set (os_fds os) \<and> os_fds os' = n # os_fds os
               \<and> os_bound os' n = Some (local_ip, htons (rs_port res)))
             \<and> min_port \<le> rs_port res \<and> rs_port res \<le> max_port
        else os_fds os' = os_fds os \<and> rs_port res = 0"
proof (cases "min_port > max_port")
  case True
  then show ?thesis using assms by (auto simp: tcpv4_bind_random_port_def ret_def no_reservation_def unique_fd_valid_def)
next
  case False
  then have le: "min_port \<le> max_port" by simp
  have "reserve_loop E local_ip min_port max_port (nat tries) os = (r, os')"
    using assms False by (simp add: tcpv4_bind_random_port_def)
  then show ?thesis
  proof (induction "nat tries" arbitrary: tries os)
    case 0
    then have "reserve_loop E local_ip min_port max_port 0 os = (r, os')" by simp
    then show ?case by (auto simp: ret_def no_reservation_def unique_fd_valid_def)
  next
    case (Suc n)
    define port where "port = min_port + word_of_nat (ne_random E (os_calls os) mod Suc (unat max_port - unat min_port))"
    have n: "nat tries = Suc n" "n = nat (tries - 1)" using Suc.hyps(2) by simp_all
    obtain r1 os1 where t: "reserve_try E local_ip port (counted os) = (r1, os1)" by fastforce
    note tried = reserve_try_result [OF t]
    have run: "reserve_loop E local_ip min_port max_port (Suc n) os = (r, os')" using Suc.prems n by simp
    have cfds: "os_fds (counted os) = os_fds os" by (simp add: counted_def)
    consider (exn) e where "r1 = Inl e" | (res) res where "r1 = Inr (Some res)" | (none) "r1 = Inr None"
      by (metis option.exhaust sum.exhaust)
    then show ?case
    proof cases
      case exn
      then show ?thesis using run t tried by (auto simp: bind_net_def sys_random_def port_def Let_def cfds)
    next
      case res
      then have eq: "r = Inr res" "os' = os1"
        using run t by (auto simp: bind_net_def sys_random_def port_def Let_def ret_def)
      moreover have "min_port \<le> port \<and> port \<le> max_port" unfolding port_def by (rule random_port_range [OF le])
      ultimately show ?thesis
        using tried res lowest_free_fresh [of "os_fds os"] by (auto simp: cfds unique_fd_valid_def)
    next
      case none
      then have "reserve_loop E local_ip min_port max_port n os1 = (r, os')" and fds: "os_fds os1 = os_fds os"
        using run t tried by (auto simp: bind_net_def sys_random_def port_def Let_def cfds)
      then have "reserve_loop E local_ip min_port max_port (nat (tries - 1)) os1 = (r, os')" using n(2) by simp
      from Suc.hyps(1) [OF n(2) this] show ?thesis unfolding fds .
    qed
  qed
qed

text \<open>
  C19. The reservation of a random port: with whatever outcome of the calls, no descriptor is lost. A
  valid reservation is one new descriptor, bound to a port of the range at the address asked for; an
  invalid one and an exception leave the open descriptors as they were.
\<close>

theorem random_port_reserved:
  assumes "tcpv4_bind_random_port E min_port max_port local_ip tries os = (r, os')"
  shows "case r of
      Inl e \<Rightarrow> os_fds os' = os_fds os
    | Inr res \<Rightarrow>
        if unique_fd_valid (rs_fd res)
        then (\<exists>n. rs_fd res = int n \<and> n \<notin> set (os_fds os) \<and> os_fds os' = n # os_fds os
               \<and> os_bound os' n = Some (local_ip, htons (rs_port res)))
             \<and> min_port \<le> rs_port res \<and> rs_port res \<le> max_port
        else os_fds os' = os_fds os \<and> rs_port res = 0"
  by (rule random_port_result [OF assms])

theorem random_port_reserved_witness:
  "\<exists>res os'. tcpv4_bind_random_port calm_env 12345 23456 ''addr'' 1 (os_with [0, 1, 2]) = (Inr res, os')
     \<and> rs_fd res = 3 \<and> 12345 \<le> rs_port res \<and> rs_port res \<le> 23456 \<and> os_fds os' = [3, 0, 1, 2]"
proof -
  obtain r os' where run: "tcpv4_bind_random_port calm_env 12345 23456 ''addr'' 1 (os_with [0, 1, 2]) = (r, os')" by fastforce
  have low: "lowest_free [0, 1, 2] = 3" by (simp add: lowest_free_def upt_rec)
  have "\<exists>res. r = Inr res \<and> rs_fd res = 3"
    using run low
    by (auto simp: tcpv4_bind_random_port_def
        reserve_try_def with_fds_def bind_net_def new_socket_result new_fd_def calm_env_def os_with_def counted_def
        unique_fd_assign_def unique_fd_reset_def tcpv4_port_reuse_def ccall_def sys_plain_def sys_bind_def sys_random_def
        fd_open_def unique_fd_handle_def ret_def throw_def Let_def)
  then obtain res where res: "r = Inr res" "rs_fd res = 3" by blast
  then have "\<exists>n. rs_fd res = int n \<and> os_fds os' = n # [0, 1, 2]" "12345 \<le> rs_port res \<and> rs_port res \<le> 23456"
    using random_port_reserved [OF run] by (auto simp: unique_fd_valid_def os_with_def)
  then show ?thesis using run res by auto
qed

end
