(* ===== verification/Poll_Engine.thy ===== *)
theory Poll_Engine
  imports Prelude
begin

unbundle bit_operations_syntax

text \<open>
  The poll engine (\<open>common/utils/poll_engine.cc\<close>, \<open>.h\<close>): watchers of descriptors with one-shot
  callbacks over an epoll instance. A callback is a value of any type, run by whoever called \<open>poll\<close>. The
  interest list of the kernel is part of the state: \<open>EPOLLONESHOT\<close> disarms a descriptor when an event of
  it is delivered. Which events come is the argument of \<open>poll\<close>, as far as the interest list allows them.
\<close>

definition EPOLLIN :: "32 word" where "EPOLLIN = 1"
definition EPOLLOUT :: "32 word" where "EPOLLOUT = 4"
definition EPOLLERR :: "32 word" where "EPOLLERR = 8"
definition EPOLLHUP :: "32 word" where "EPOLLHUP = 16"

definition event_batch_size :: nat where "event_batch_size = 16"

text \<open>A watcher is a descriptor, the flags it waits for and its callback.\<close>

type_synonym 'c watcher = "int \<times> 32 word \<times> 'c"

record 'c poll_engine =
  pe_watchers :: "'c watcher list"
  pe_interest :: "int \<rightharpoonup> 32 word \<times> bool"
  pe_wakeups :: nat

definition poll_engine_new :: "'c poll_engine" where
  "poll_engine_new = \<lparr>pe_watchers = [], pe_interest = Map.empty, pe_wakeups = 0\<rparr>"

definition wake :: "'c poll_engine \<Rightarrow> 'c poll_engine" where
  "wake p = p\<lparr>pe_wakeups := Suc (pe_wakeups p)\<rparr>"

definition clear_wake :: "'c poll_engine \<Rightarrow> 'c poll_engine" where
  "clear_wake p = p\<lparr>pe_wakeups := 0\<rparr>"

definition get_watch_flags :: "int \<Rightarrow> 'c poll_engine \<Rightarrow> 32 word" where
  "get_watch_flags fd p = fold (\<lambda>(_, f, _) acc. acc OR f) (filter (\<lambda>w. fst w = fd) (pe_watchers p)) 0"

text \<open>
  \<open>epoll_ctl\<close> of a valid descriptor: \<open>ADD\<close> fails when it is in the interest list, \<open>MOD\<close> when it is not;
  both fail for a descriptor that is not valid (\<open>ok\<close>).
\<close>

definition poll_push :: "bool \<Rightarrow> int \<Rightarrow> 'c \<Rightarrow> bool \<Rightarrow> bool \<Rightarrow> 'c poll_engine \<Rightarrow> unit result \<times> 'c poll_engine" where
  "poll_push ok fd callback read write p =
     (let request_flags = (if read then EPOLLIN else 0) OR (if write then EPOLLOUT else 0);
          watch_flags = request_flags OR get_watch_flags fd p;
          p1 = p\<lparr>pe_watchers := pe_watchers p @ [(fd, request_flags, callback)]\<rparr>
      in if ok then (Inr (), wake (p1\<lparr>pe_interest := (pe_interest p1)(fd \<mapsto> (watch_flags, True))\<rparr>))
         else (Inl SysError, p1))"

text \<open>The kernel's side of \<open>epoll_wait\<close>: what it may deliver, and what it disarms.\<close>

definition deliverable :: "'c poll_engine \<Rightarrow> (int \<times> 32 word) list \<Rightarrow> bool" where
  "deliverable p events =
     (length events \<le> event_batch_size \<and> distinct (map fst events)
      \<and> (\<forall>(fd, fl) \<in> set events. \<exists>wfl. pe_interest p fd = Some (wfl, True)
           \<and> fl AND (wfl OR EPOLLERR OR EPOLLHUP) = fl \<and> fl \<noteq> 0))"

definition disarm :: "(int \<times> 32 word) list \<Rightarrow> 'c poll_engine \<Rightarrow> 'c poll_engine" where
  "disarm events p = p\<lparr>pe_interest := (\<lambda>fd. case pe_interest p fd of
      None \<Rightarrow> None | Some (wfl, armed) \<Rightarrow> Some (wfl, armed \<and> fd \<notin> set (map fst events)))\<rparr>"

definition hit :: "int \<times> 32 word \<Rightarrow> 'c watcher \<Rightarrow> bool" where
  "hit ev w = (fst w = fst ev \<and> snd ev AND fst (snd w) \<noteq> 0)"

definition take_event :: "int \<times> 32 word \<Rightarrow> 'c list \<times> 'c poll_engine \<Rightarrow> 'c list \<times> 'c poll_engine" where
  "take_event ev = (\<lambda>(callbacks, p).
     (callbacks @ map (snd \<circ> snd) (filter (hit ev) (pe_watchers p)),
      p\<lparr>pe_watchers := filter (\<lambda>w. \<not> hit ev w) (pe_watchers p)\<rparr>))"

text \<open>
  The callbacks to run and the engine before they run. The event of the wake-up descriptor has no
  watcher; \<open>woken\<close> says whether it is among the events.
\<close>

definition poll_events :: "bool \<Rightarrow> (int \<times> 32 word) list \<Rightarrow> 'c poll_engine \<Rightarrow> 'c list \<times> 'c poll_engine" where
  "poll_events woken events p =
     (let p1 = disarm events p;
          nfds = length events + (if woken then 1 else 0)
      in if nfds = 0 then ([], p1)
         else fold take_event events ([], if nfds < event_batch_size then clear_wake p1 else p1))"

definition poll_pop :: "int \<Rightarrow> 'c poll_engine \<Rightarrow> 'c poll_engine" where
  "poll_pop fd p = p\<lparr>pe_watchers := filter (\<lambda>w. fst w \<noteq> fd) (pe_watchers p)\<rparr>"

text \<open>
  The callbacks run one after the other, outside the lock; one that throws ends the poll, and the list of
  callbacks that are left goes out of scope. \<open>poll\<close> is the whole operation on an engine and the rest of the
  state, which the callbacks may change both; \<open>None\<close> is a failure of \<open>epoll_wait\<close>.
\<close>

fun poll_callbacks :: "('c \<Rightarrow> 's \<Rightarrow> unit result \<times> 's) \<Rightarrow> 'c list \<Rightarrow> 's \<Rightarrow> unit result \<times> 's" where
  "poll_callbacks f [] s = (Inr (), s)"
| "poll_callbacks f (c # cs) s =
     (case f c s of (Inl e, s') \<Rightarrow> (Inl e, s') | (Inr u, s') \<Rightarrow> poll_callbacks f cs s')"

definition poll :: "('c \<Rightarrow> 's \<times> 'c poll_engine \<Rightarrow> unit result \<times> 's \<times> 'c poll_engine)
    \<Rightarrow> (bool \<times> (int \<times> 32 word) list) option \<Rightarrow> 's \<times> 'c poll_engine \<Rightarrow> unit result \<times> 's \<times> 'c poll_engine" where
  "poll f waited = (\<lambda>(s, p). case waited of
      None \<Rightarrow> (Inl SysError, s, p)
    | Some (woken, events) \<Rightarrow> (case poll_events woken events p of (cs, p1) \<Rightarrow> poll_callbacks f cs (s, p1)))"

subsection \<open>What poll delivers\<close>

definition hit_any :: "(int \<times> 32 word) list \<Rightarrow> 'c watcher \<Rightarrow> bool" where
  "hit_any events w = (\<exists>ev \<in> set events. hit ev w)"

lemma fold_take_event:
  "fold take_event events (cs, p) = (cs', p') \<Longrightarrow>
    pe_watchers p' = filter (\<lambda>w. \<not> hit_any events w) (pe_watchers p)
    \<and> mset cs' = mset cs + mset (map (snd \<circ> snd) (filter (hit_any events) (pe_watchers p)))
    \<and> pe_interest p' = pe_interest p"
proof (induction events arbitrary: cs p)
  case (Cons ev events)
  define p1 where "p1 = p\<lparr>pe_watchers := filter (\<lambda>w. \<not> hit ev w) (pe_watchers p)\<rparr>"
  define cs1 where "cs1 = cs @ map (snd \<circ> snd) (filter (hit ev) (pe_watchers p))"
  have "take_event ev (cs, p) = (cs1, p1)" by (simp add: take_event_def cs1_def p1_def)
  then have "fold take_event events (cs1, p1) = (cs', p')" using Cons.prems by simp
  note IH = Cons.IH [OF this]
  have any: "hit_any (ev # events) w \<longleftrightarrow> hit ev w \<or> hit_any events w" for w :: "'a watcher"
    by (auto simp: hit_any_def)
  have split: "mset (map f (filter (\<lambda>w. hit ev w \<or> hit_any events w) ws)) =
      mset (map f (filter (hit ev) ws)) + mset (map f (filter (\<lambda>w. \<not> hit ev w \<and> hit_any events w) ws))"
    for f :: "'a watcher \<Rightarrow> 'a" and ws by (induction ws) auto
  have neg: "filter (\<lambda>w. \<not> (hit ev w \<or> hit_any events w)) ws = filter (\<lambda>w. \<not> hit_any events w) (filter (\<lambda>w. \<not> hit ev w) ws)"
    for ws :: "'a watcher list" by (induction ws) auto
  show ?case unfolding any neg split using IH by (simp add: p1_def cs1_def comp_def del: mset_map)
qed (simp add: hit_any_def)

lemma poll_events_effect:
  assumes "poll_events woken events p = (cs, p')"
  shows "pe_watchers p' = filter (\<lambda>w. \<not> hit_any events w) (pe_watchers p)
    \<and> mset cs = mset (map (snd \<circ> snd) (filter (hit_any events) (pe_watchers p)))
    \<and> pe_interest p' = pe_interest (disarm events p)"
proof (cases "length events + (if woken then 1 else 0) = 0")
  case True
  then show ?thesis using assms by (auto simp: poll_events_def Let_def hit_any_def disarm_def split: if_splits)
next
  case False
  then have "fold take_event events ([], if length events + (if woken then 1 else 0) < event_batch_size
      then clear_wake (disarm events p) else disarm events p) = (cs, p')"
    using assms unfolding poll_events_def Let_def by (simp only: if_False)
  from fold_take_event [OF this] show ?thesis by (auto simp: clear_wake_def disarm_def)
qed

lemma poll_events_callbacks:
  assumes "poll_events woken events p = (cs, p')"
  shows "mset cs + mset (map (snd \<circ> snd) (pe_watchers p')) = mset (map (snd \<circ> snd) (pe_watchers p))"
proof -
  have part: "mset (map f (filter P ws)) + mset (map f (filter (\<lambda>w. \<not> P w) ws)) = mset (map f ws)"
    for f :: "'a watcher \<Rightarrow> 'a" and P ws by (induction ws) auto
  show ?thesis using poll_events_effect [OF assms] part [of _ "hit_any events" "pe_watchers p"] by auto
qed

text \<open>A callback that also writes down that it was run.\<close>

definition logged :: "('c \<Rightarrow> 's \<times> 'p \<Rightarrow> unit result \<times> 's \<times> 'p) \<Rightarrow> 'c \<Rightarrow> ('c list \<times> 's) \<times> 'p \<Rightarrow> unit result \<times> ('c list \<times> 's) \<times> 'p" where
  "logged f c = (\<lambda>((log, s), p). case f c (s, p) of (r, s', p') \<Rightarrow> (r, (log @ [c], s'), p'))"

lemma logged_apply:
  "f c (s, p) = (r, s1, p1) \<Longrightarrow> logged f c ((log, s), p) = (r, (log @ [c], s1), p1)"
  by (simp add: logged_def)

lemma poll_callbacks_logged:
  assumes "poll_callbacks (logged f) cs ((log, s), p) = (r, (log', s'), p')"
  shows "poll_callbacks f cs (s, p) = (r, s', p') \<and>
    (case r of Inr _ \<Rightarrow> log' = log @ cs
      | Inl e \<Rightarrow> (\<exists>before c lost. cs = before @ c # lost \<and> log' = log @ before @ [c]
          \<and> (\<exists>s1 p1. poll_callbacks f before (s, p) = (Inr (), s1, p1) \<and> f c (s1, p1) = (Inl e, s', p'))))"
  using assms
proof (induction cs arbitrary: log s p)
  case (Cons c cs)
  obtain r1 s1 p1 where f: "f c (s, p) = (r1, s1, p1)" by (metis prod.exhaust)
  have step: "logged f c ((log, s), p) = (r1, (log @ [c], s1), p1)" using f by (rule logged_apply)
  show ?case
  proof (cases r1)
    case (Inl e)
    then have "cs = cs \<and> r = Inl e \<and> log' = log @ [] @ [c] \<and> s' = s1 \<and> p' = p1"
      using Cons.prems step by simp
    then show ?thesis using f Inl by (force intro: exI [of _ "[]"])
  next
    case (Inr u)
    then have "poll_callbacks (logged f) cs ((log @ [c], s1), p1) = (r, (log', s'), p')"
      using Cons.prems step by simp
    from Cons.IH [OF this] have IH: "poll_callbacks f cs (s1, p1) = (r, s', p')"
      "case r of Inr _ \<Rightarrow> log' = (log @ [c]) @ cs
        | Inl e \<Rightarrow> (\<exists>before d lost. cs = before @ d # lost \<and> log' = (log @ [c]) @ before @ [d]
          \<and> (\<exists>s2 p2. poll_callbacks f before (s1, p1) = (Inr (), s2, p2) \<and> f d (s2, p2) = (Inl e, s', p')))"
      by blast+
    show ?thesis
    proof (cases r)
      case (Inl e)
      then obtain before d lost s2 p2 where "cs = before @ d # lost" "log' = (log @ [c]) @ before @ [d]"
        "poll_callbacks f before (s1, p1) = (Inr (), s2, p2)" "f d (s2, p2) = (Inl e, s', p')"
        using IH(2) by auto
      then have "c # cs = (c # before) @ d # lost \<and> log' = log @ (c # before) @ [d]
          \<and> poll_callbacks f (c # before) (s, p) = (Inr (), s2, p2) \<and> f d (s2, p2) = (Inl e, s', p')"
        using f Inr by simp
      then have "\<exists>before d lost. c # cs = before @ d # lost \<and> log' = log @ before @ [d]
          \<and> (\<exists>s2 p2. poll_callbacks f before (s, p) = (Inr (), s2, p2) \<and> f d (s2, p2) = (Inl e, s', p'))" by blast
      then show ?thesis using IH(1) f Inr Inl by simp
    qed (use IH f Inr in simp)
  qed
qed auto

text \<open>
  C34. A poll takes the callback of each watcher whose flags met an event exactly once, forgets these
  watchers and no other, and disarms the descriptors of the events. It then runs the callbacks in turn
  as long as none throws: if none does, each has run exactly once; if one does, the poll throws what it
  threw, those before it and it itself have run once, and those after it, no longer watchers when the
  callbacks began, are not run.
\<close>

theorem poll_runs_exactly_the_hit:
  assumes "poll_events woken events p = (cs, p1)"
    and "poll (logged f) (Some (woken, events)) ((log, s), p) = (r, (log', s'), p')"
  shows "mset cs + mset (map (snd \<circ> snd) (pe_watchers p1)) = mset (map (snd \<circ> snd) (pe_watchers p))
    \<and> pe_watchers p1 = filter (\<lambda>w. \<not> hit_any events w) (pe_watchers p)
    \<and> (\<forall>fd \<in> set (map fst events). \<forall>wfl armed. pe_interest p1 fd = Some (wfl, armed) \<longrightarrow> \<not> armed)
    \<and> poll f (Some (woken, events)) (s, p) = (r, s', p')
    \<and> (case r of Inr _ \<Rightarrow> log' = log @ cs
        | Inl e \<Rightarrow> (\<exists>before c lost. cs = before @ c # lost \<and> log' = log @ before @ [c]
            \<and> (\<exists>s1 p2. poll_callbacks f before (s, p1) = (Inr (), s1, p2) \<and> f c (s1, p2) = (Inl e, s', p'))))"
proof -
  have "pe_interest p1 fd = Some (wfl, armed) \<Longrightarrow> fd \<in> set (map fst events) \<Longrightarrow> \<not> armed" for fd wfl armed
    using poll_events_effect [OF assms(1)] by (auto simp: disarm_def split: option.splits)
  moreover have "poll_callbacks (logged f) cs ((log, s), p1) = (r, (log', s'), p')"
    using assms by (simp add: poll_def)
  ultimately show ?thesis
    using poll_events_effect [OF assms(1)] poll_events_callbacks [OF assms(1)] poll_callbacks_logged [of f cs log s p1 r log' s' p']
    by (auto simp: poll_def assms(1))
qed

theorem poll_runs_exactly_the_hit_witness:
  "let f = (\<lambda>c (s, p). if c = ''r'' then (Inl SysError, s, p) else (Inr (), s, p));
       p = \<lparr>pe_watchers = [(3, EPOLLOUT, ''w''), (3, EPOLLIN, ''r''), (3, EPOLLIN, ''v''), (4, EPOLLIN, ''x'')],
            pe_interest = [3 \<mapsto> (5, True)], pe_wakeups = 0\<rparr>;
       (r, (log, s), p') = poll (logged f) (Some (False, [(3, EPOLLIN OR EPOLLOUT)])) (([], ()), p)
   in r = Inl SysError \<and> log = [''w'', ''r''] \<and> pe_watchers p' = [(4, EPOLLIN, ''x'')]"
proof -
  let ?f = "\<lambda>c (s :: unit, p :: string poll_engine). if c = ''r'' then (Inl SysError, s, p) else (Inr (), s, p)"
  let ?p = "\<lparr>pe_watchers = [(3, EPOLLOUT, ''w''), (3, EPOLLIN, ''r''), (3, EPOLLIN, ''v''), (4, EPOLLIN, ''x'')],
            pe_interest = [3 \<mapsto> (5, True)], pe_wakeups = 0\<rparr>"
  obtain cs p1 where run: "poll_events False [(3, EPOLLIN OR EPOLLOUT)] ?p = (cs, p1)" by fastforce
  obtain r x p' where "poll (logged ?f) (Some (False, [(3, EPOLLIN OR EPOLLOUT)])) (([], ()), ?p) = (r, x, p')"
    by (rule prod_cases3)
  moreover obtain log s where "x = (log, s)" by (rule prod.exhaust)
  ultimately have poll: "poll (logged ?f) (Some (False, [(3, EPOLLIN OR EPOLLOUT)])) (([], ()), ?p) = (r, (log, s), p')"
    by simp
  have cs: "cs = [''w'', ''r'', ''v'']"
    using run by (simp add: poll_events_def Let_def event_batch_size_def take_event_def hit_def disarm_def clear_wake_def
        EPOLLIN_def EPOLLOUT_def)
  have r: "r = Inl SysError \<and> log = [''w'', ''r''] \<and> p' = p1"
    using poll run cs by (simp add: poll_def logged_def)
  have "pe_watchers p1 = filter (\<lambda>w. \<not> hit_any [(3, EPOLLIN OR EPOLLOUT)] w) (pe_watchers ?p)"
    using poll_runs_exactly_the_hit [OF run poll] by blast
  then show ?thesis using poll r unfolding Let_def poll prod.case
    by (simp add: hit_any_def hit_def EPOLLIN_def EPOLLOUT_def)
qed

subsection \<open>Starvation\<close>

text \<open>What happens to the engine: pushes, pops and polls of whatever may be delivered.\<close>

datatype 'c poll_event = Push bool int 'c bool bool | Poll bool "(int \<times> 32 word) list" | Pop int

fun poll_step :: "'c poll_event \<Rightarrow> 'c list \<times> 'c poll_engine \<Rightarrow> ('c list \<times> 'c poll_engine) option" where
  "poll_step (Push ok fd c r w) (got, p) = Some (got, snd (poll_push ok fd c r w p))"
| "poll_step (Poll woken events) (got, p) =
     (if deliverable p events
      then (case poll_events woken events p of (cs, p') \<Rightarrow> Some (got @ cs, p')) else None)"
| "poll_step (Pop fd) (got, p) = Some (got, poll_pop fd p)"

fun poll_run :: "'c poll_event list \<Rightarrow> 'c list \<times> 'c poll_engine \<Rightarrow> ('c list \<times> 'c poll_engine) option" where
  "poll_run [] s = Some s"
| "poll_run (e # es) s = (case poll_step e s of None \<Rightarrow> None | Some s' \<Rightarrow> poll_run es s')"

definition touches :: "int \<Rightarrow> 'c poll_event \<Rightarrow> bool" where
  "touches fd e = (case e of Push ok fd' c r w \<Rightarrow> fd' = fd | Poll woken events \<Rightarrow> False | Pop fd' \<Rightarrow> fd' = fd)"

definition disarmed :: "int \<Rightarrow> 'c poll_engine \<Rightarrow> bool" where
  "disarmed fd p = (\<forall>wfl armed. pe_interest p fd = Some (wfl, armed) \<longrightarrow> \<not> armed)"

lemma step_disarmed:
  assumes "poll_step e (got, p) = Some (got', p')" and "\<not> touches fd e" and "disarmed fd p"
  shows "disarmed fd p' \<and> filter (\<lambda>w. fst w = fd) (pe_watchers p') = filter (\<lambda>w. fst w = fd) (pe_watchers p)"
proof (cases e)
  case (Push ok fd' c r w)
  then show ?thesis
    using assms by (auto simp: poll_push_def wake_def disarmed_def touches_def Let_def split: if_splits)
next
  case (Pop fd')
  then have "fd' \<noteq> fd" using assms(2) by (simp add: touches_def)
  then have "filter (\<lambda>w. fst w = fd) (filter (\<lambda>w. fst w \<noteq> fd') ws) = filter (\<lambda>w. fst w = fd) ws" for ws :: "'a watcher list"
    by (induction ws) auto
  then show ?thesis using assms Pop by (auto simp: poll_pop_def disarmed_def)
next
  case (Poll woken events)
  then obtain cs where run: "poll_events woken events p = (cs, p')" and del: "deliverable p events"
    using assms(1) by (auto split: if_splits prod.splits)
  have none: "fd \<notin> set (map fst events)"
    using del assms(3) by (fastforce simp: deliverable_def disarmed_def)
  then have "\<not> hit_any events w" if "fst w = fd" for w :: "'a watcher"
    using that by (auto simp: hit_any_def hit_def)
  then have "filter (\<lambda>w. fst w = fd) (filter (\<lambda>w. \<not> hit_any events w) ws) = filter (\<lambda>w. fst w = fd) ws" for ws :: "'a watcher list"
    by (induction ws) auto
  moreover have "disarmed fd p'"
    using poll_events_effect [OF run] assms(3) none by (auto simp: disarmed_def disarm_def split: option.splits)
  ultimately show ?thesis using poll_events_effect [OF run] by simp
qed

lemma run_disarmed:
  assumes "poll_run es (got, p) = Some (got', p')" and "\<forall>e \<in> set es. \<not> touches fd e" and "disarmed fd p"
  shows "disarmed fd p' \<and> filter (\<lambda>w. fst w = fd) (pe_watchers p') = filter (\<lambda>w. fst w = fd) (pe_watchers p)"
  using assms
proof (induction es arbitrary: got p)
  case (Cons e es)
  then obtain got1 p1 where step: "poll_step e (got, p) = Some (got1, p1)" "poll_run es (got1, p1) = Some (got', p')"
    by (auto split: option.splits)
  have d: "disarmed fd p1 \<and> filter (\<lambda>w. fst w = fd) (pe_watchers p1) = filter (\<lambda>w. fst w = fd) (pe_watchers p)"
    by (rule step_disarmed [OF step(1)]) (use Cons.prems in simp_all)
  have rest: "\<forall>e \<in> set es. \<not> touches fd e" using Cons.prems(2) by simp
  show ?case using Cons.IH [OF step(2) rest] d by simp
qed simp

text \<open>
  A watcher is starved when an event of its descriptor is delivered to another one: a watcher whose
  flags the event did not meet stays registered, but the descriptor is disarmed, so no schedule of polls
  and of operations on other descriptors ever runs its callback, whatever happens on the descriptor.
\<close>

theorem missed_watcher_starves:
  assumes "poll_events woken events p = (cs, p1)" and "(fd, fl) \<in> set events"
    and "(fd, wfl, c) \<in> set (pe_watchers p)" and "\<not> hit_any events (fd, wfl, c)"
    and "poll_run es (cs, p1) = Some (got, p')" and "\<forall>e \<in> set es. \<not> touches fd e"
  shows "(fd, wfl, c) \<in> set (pe_watchers p') \<and> \<not> deliverable p' [(fd, fl')]"
proof -
  have eff: "pe_watchers p1 = filter (\<lambda>w. \<not> hit_any events w) (pe_watchers p)"
    "pe_interest p1 = pe_interest (disarm events p)" using poll_events_effect [OF assms(1)] by simp_all
  have "fd \<in> set (map fst events)" using assms(2) by force
  then have "disarmed fd p1" using eff(2) by (auto simp: disarmed_def disarm_def split: option.splits)
  from run_disarmed [OF assms(5,6) this]
  have d: "disarmed fd p'" and ws: "filter (\<lambda>w. fst w = fd) (pe_watchers p') = filter (\<lambda>w. fst w = fd) (pe_watchers p1)"
    by simp_all
  have "(fd, wfl, c) \<in> set (filter (\<lambda>w. fst w = fd) (pe_watchers p1))" using assms(3,4) eff(1) by simp
  then have "(fd, wfl, c) \<in> set (pe_watchers p')" unfolding ws [symmetric] by simp
  moreover have "\<not> deliverable p' [(fd, fl')]" using d by (auto simp: deliverable_def disarmed_def)
  ultimately show ?thesis ..
qed

theorem missed_watcher_starves_witness:
  "let p = \<lparr>pe_watchers = [(3, EPOLLIN, ''r''), (3, EPOLLOUT, ''w'')], pe_interest = [3 \<mapsto> (5, True)], pe_wakeups = 0\<rparr>;
       (cs, p1) = poll_events False [(3, EPOLLOUT)] p
   in \<not> deliverable (poll_pop 9 p1) [(3, EPOLLIN)]"
proof -
  let ?p = "\<lparr>pe_watchers = [(3, EPOLLIN, ''r''), (3, EPOLLOUT, ''w'')], pe_interest = [3 \<mapsto> (5, True)], pe_wakeups = 0\<rparr>"
  obtain cs p1 where run: "poll_events False [(3, EPOLLOUT)] ?p = (cs, p1)" by fastforce
  have miss: "\<not> hit_any [(3, EPOLLOUT)] (3, EPOLLIN, ''r'')" by (simp add: hit_any_def hit_def EPOLLIN_def EPOLLOUT_def)
  have "\<not> deliverable (poll_pop 9 p1) [(3, EPOLLIN)]"
    using missed_watcher_starves [OF run _ _ miss, of EPOLLOUT "[Pop 9]" cs "poll_pop 9 p1" EPOLLIN]
    by (simp add: touches_def)
  then show ?thesis unfolding Let_def run prod.case .
qed

end
