(* ===== verification/Ssl_Endpoint.thy ===== *)
theory Ssl_Endpoint
  imports Poll_Engine
begin

text \<open>
  The TLS endpoint (\<open>common/grpc/ssl_endpoint.cc\<close>, \<open>.h\<close>) over the poll engine, and the owning pointer
  \<open>guard_ptr\<close> (\<open>common/utils/guard_ptr.h\<close>) that holds its \<open>SSL\<close>. What \<open>SSL_read\<close> and \<open>SSL_write\<close>
  transfer is chosen by \<open>ssl_io\<close>, indexed by the number of the call; a slice is the string of its bytes.
  A failed assertion of gRPC is the exception \<open>Abort\<close>, after which there is nothing.
\<close>

subsection \<open>guard_ptr\<close>

text \<open>The objects that live, and a pointer that frees the one it owns; freeing twice is undefined.\<close>

definition free_obj :: "nat \<Rightarrow> nat set \<Rightarrow> nat set result" where
  "free_obj p live = (if p \<in> live then Inr (live - {p}) else Inl UndefinedBehaviour)"

definition guard_destroy :: "nat option \<Rightarrow> nat set \<Rightarrow> nat set result" where
  "guard_destroy g live = (case g of None \<Rightarrow> Inr live | Some p \<Rightarrow> free_obj p live)"

text \<open>Moves give the new value of the target and of the source.\<close>

definition guard_move :: "nat option \<Rightarrow> nat option \<times> nat option" where
  "guard_move src = (src, None)"

definition guard_assign :: "nat option \<Rightarrow> nat option \<Rightarrow> nat set \<Rightarrow> (nat option \<times> nat option \<times> nat set) result" where
  "guard_assign g src live = bind_result (guard_destroy g live) (\<lambda>live. Inr (src, None, live))"

definition guard_handle :: "nat option \<Rightarrow> nat option \<times> nat option" where
  "guard_handle g = (g, None)"

subsection \<open>The endpoint\<close>

datatype endpoint_cb = Cb_read | Cb_write

datatype io_status = Io_ok | Io_internal string

datatype ssl_error = WANT_READ | WANT_WRITE | SSL_OTHER

text \<open>
  \<open>si_read\<close> gives the data of a read, empty when it failed, and the error; \<open>si_write\<close> the number of bytes
  of a write, 0 when it failed, and the error; \<open>si_epoll\<close> whether \<open>epoll_ctl\<close> accepts the descriptor.
\<close>

record ssl_io =
  si_read :: "nat \<Rightarrow> string \<times> ssl_error"
  si_write :: "nat \<Rightarrow> nat \<times> ssl_error"
  si_epoll :: "nat \<Rightarrow> bool"

text \<open>\<open>ep_in\<close> and \<open>ep_out\<close> are the slice buffers of gRPC, \<open>ep_sent\<close> what TLS accepted.\<close>

record ssl_endpoint =
  ep_fd :: int
  ep_ssl :: "nat option"
  ep_poller :: "endpoint_cb poll_engine"
  ep_in :: "string list"
  ep_out :: "string list"
  ep_sent :: string
  ep_read_done :: "io_status list"
  ep_write_done :: "io_status list"
  ep_calls :: nat

definition kSslReadBufferSize :: nat where "kSslReadBufferSize = 16384"

definition ssl_endpoint_new :: "int \<Rightarrow> nat option \<Rightarrow> endpoint_cb poll_engine \<Rightarrow> ssl_endpoint" where
  "ssl_endpoint_new fd ssl poller =
     \<lparr>ep_fd = fd, ep_ssl = ssl, ep_poller = poller, ep_in = [], ep_out = [], ep_sent = [], ep_read_done = [],
      ep_write_done = [], ep_calls = 0\<rparr>"

text \<open>The destructor of the class, then that of the member \<open>ssl_\<close>.\<close>

definition ssl_endpoint_destroy :: "ssl_endpoint \<Rightarrow> nat set \<Rightarrow> (endpoint_cb poll_engine \<times> nat set) result" where
  "ssl_endpoint_destroy ep live =
     (let poller = poll_pop (ep_fd ep) (ep_poller ep) in
      bind_result (case ep_ssl ep of None \<Rightarrow> Inr live | Some p \<Rightarrow> free_obj p live) (\<lambda>live.
      bind_result (guard_destroy (ep_ssl ep) live) (\<lambda>live. Inr (poller, live))))"

definition ep_push :: "ssl_io \<Rightarrow> endpoint_cb \<Rightarrow> bool \<Rightarrow> bool \<Rightarrow> ssl_endpoint \<Rightarrow> unit result \<times> ssl_endpoint" where
  "ep_push S cb read write ep =
     (case poll_push (si_epoll S (ep_calls ep)) (ep_fd ep) cb read write (ep_poller ep) of
        (r, p) \<Rightarrow> (r, ep\<lparr>ep_poller := p, ep_calls := Suc (ep_calls ep)\<rparr>))"

definition DoRead :: "ssl_io \<Rightarrow> ssl_endpoint \<Rightarrow> unit result \<times> ssl_endpoint" where
  "DoRead S ep =
     (let (d, err) = si_read S (ep_calls ep);
          d = take kSslReadBufferSize d;
          ep = ep\<lparr>ep_calls := Suc (ep_calls ep)\<rparr>
      in if d \<noteq> [] then (Inr (), ep\<lparr>ep_in := ep_in ep @ [d], ep_read_done := ep_read_done ep @ [Io_ok]\<rparr>)
         else if err = WANT_READ \<or> err = WANT_WRITE then
           (let want_read = (err = WANT_READ) in ep_push S Cb_read want_read (\<not> want_read) ep)
         else (Inr (), ep\<lparr>ep_read_done := ep_read_done ep @ [Io_internal ''SSL_read failed'']\<rparr>))"

text \<open>\<open>Slice::TakeSubSlice(pos, n)\<close> of gRPC; it aborts when the range is not inside the slice.\<close>

definition take_sub_slice :: "string \<Rightarrow> nat \<Rightarrow> nat \<Rightarrow> string result" where
  "take_sub_slice sl pos n = (if pos + n \<le> length sl then Inr (take n (drop pos sl)) else Inl Abort)"

text \<open>
  The loop of \<open>DoWrite\<close> over the slices that are left. After a partial write the code asks for
  \<open>TakeSubSlice (written, size)\<close>, whose arguments are a position and a length: the range ends \<open>written\<close>
  bytes behind the slice, \<open>written > 0\<close>, and the assertion in \<open>grpc_slice_sub_no_ref\<close> ends the process.
\<close>

fun write_slices :: "ssl_io \<Rightarrow> string list \<Rightarrow> ssl_endpoint \<Rightarrow> unit result \<times> ssl_endpoint" where
  "write_slices S [] ep = (Inr (), ep\<lparr>ep_out := [], ep_write_done := ep_write_done ep @ [Io_ok]\<rparr>)"
| "write_slices S (sl # rest) ep =
     (let (n, err) = si_write S (ep_calls ep);
          written = min n (length sl);
          ep = ep\<lparr>ep_calls := Suc (ep_calls ep)\<rparr>
      in if written > 0 then
           (let ep = ep\<lparr>ep_sent := ep_sent ep @ take written sl\<rparr> in
            if written < length sl
            then (case take_sub_slice sl written (length sl) of
                Inl e \<Rightarrow> (Inl e, ep\<lparr>ep_out := rest\<rparr>)
              | Inr remaining \<Rightarrow> ep_push S Cb_write False True (ep\<lparr>ep_out := remaining # rest\<rparr>))
            else write_slices S rest ep)
         else if err = WANT_WRITE \<or> err = WANT_READ then
           (let want_read = (err = WANT_READ)
            in ep_push S Cb_write want_read (\<not> want_read) (ep\<lparr>ep_out := sl # rest\<rparr>))
         else (Inr (), ep\<lparr>ep_out := rest, ep_write_done := ep_write_done ep @ [Io_internal ''SSL_write failed'']\<rparr>))"

definition DoWrite :: "ssl_io \<Rightarrow> ssl_endpoint \<Rightarrow> unit result \<times> ssl_endpoint" where
  "DoWrite S ep = write_slices S (ep_out ep) ep"

text \<open>\<open>Read\<close> and \<open>Write\<close> always return \<open>false\<close>.\<close>

definition ep_read :: "ssl_io \<Rightarrow> ssl_endpoint \<Rightarrow> bool result \<times> ssl_endpoint" where
  "ep_read S ep = (case DoRead S ep of (r, ep') \<Rightarrow> (bind_result r (\<lambda>_. Inr False), ep'))"

definition ep_write :: "ssl_io \<Rightarrow> string list \<Rightarrow> ssl_endpoint \<Rightarrow> bool result \<times> ssl_endpoint" where
  "ep_write S data ep = (case DoWrite S (ep\<lparr>ep_out := data\<rparr>) of (r, ep') \<Rightarrow> (bind_result r (\<lambda>_. Inr False), ep'))"

text \<open>A poll that runs the callbacks of the endpoint; an exception ends it.\<close>

definition run_callback :: "ssl_io \<Rightarrow> endpoint_cb \<Rightarrow> ssl_endpoint \<Rightarrow> unit result \<times> ssl_endpoint" where
  "run_callback S cb ep = (case cb of Cb_read \<Rightarrow> DoRead S ep | Cb_write \<Rightarrow> DoWrite S ep)"

definition ep_poll :: "ssl_io \<Rightarrow> bool \<Rightarrow> (int \<times> 32 word) list \<Rightarrow> ssl_endpoint \<Rightarrow> unit result \<times> ssl_endpoint" where
  "ep_poll S woken events ep =
     (case poll_events woken events (ep_poller ep) of
        (cbs, p) \<Rightarrow> poll_callbacks (run_callback S) cbs (ep\<lparr>ep_poller := p\<rparr>))"

subsection \<open>A write, over any number of callbacks\<close>

text \<open>
  The operations that gRPC and the poll loop do while a write is outstanding. An exception that gets out
  of one is collected and the schedule goes on, unless it ends the process.
\<close>

datatype endpoint_event = Ev_read | Ev_poll bool "(int \<times> 32 word) list"

definition endpoint_step :: "ssl_io \<Rightarrow> endpoint_event \<Rightarrow> ssl_endpoint \<Rightarrow> unit result \<times> ssl_endpoint" where
  "endpoint_step S e ep = (case e of
      Ev_read \<Rightarrow> (case ep_read S ep of (r, ep') \<Rightarrow> (bind_result r (\<lambda>_. Inr ()), ep'))
    | Ev_poll woken events \<Rightarrow> ep_poll S woken events ep)"

definition go_on :: "'a result \<times> 's \<Rightarrow> ('s \<Rightarrow> exn list \<times> 's) \<Rightarrow> exn list \<times> 's" where
  "go_on x k = (case x of
      (Inr _, s) \<Rightarrow> k s
    | (Inl e, s) \<Rightarrow> if e = Abort then ([e], s) else (case k s of (es, s') \<Rightarrow> (e # es, s')))"

primrec endpoint_run :: "ssl_io \<Rightarrow> endpoint_event list \<Rightarrow> ssl_endpoint \<Rightarrow> exn list \<times> ssl_endpoint" where
  "endpoint_run S [] = (\<lambda>ep. ([], ep))"
| "endpoint_run S (e # es) = (\<lambda>ep. go_on (endpoint_step S e ep) (endpoint_run S es))"

definition write_run :: "ssl_io \<Rightarrow> string list \<Rightarrow> endpoint_event list \<Rightarrow> ssl_endpoint \<Rightarrow> exn list \<times> ssl_endpoint" where
  "write_run S data es ep = go_on (ep_write S data ep) (endpoint_run S es)"

text \<open>The continuations of writes that wait in the poll engine.\<close>

definition waiting :: "endpoint_cb \<Rightarrow> ssl_endpoint \<Rightarrow> nat" where
  "waiting cb ep = count (mset (map (snd \<circ> snd) (pe_watchers (ep_poller ep)))) cb"

text \<open>TLS takes each slice as a whole or not at all.\<close>

definition whole_writes :: "ssl_io \<Rightarrow> string list \<Rightarrow> bool" where
  "whole_writes S data = (\<forall>k. \<forall>sl \<in> set data. fst (si_write S k) = 0 \<or> length sl \<le> fst (si_write S k))"

text \<open>
  \<open>write_inv sure s0 d0 data todo ep\<close>: of a write of \<open>data\<close> that began when \<open>s0\<close> was sent and \<open>d0\<close>
  reported, nothing is lost and it waits at most once, as a watcher or among the callbacks \<open>todo\<close>
  (exactly once when no exception was thrown, \<open>sure\<close>); or it was reported.
\<close>

definition write_inv :: "bool \<Rightarrow> string \<Rightarrow> io_status list \<Rightarrow> string list \<Rightarrow> endpoint_cb list \<Rightarrow> ssl_endpoint \<Rightarrow> bool" where
  "write_inv sure s0 d0 data todo ep =
     (let w = waiting Cb_write ep + count (mset todo) Cb_write in
      (w \<le> 1 \<and> (sure \<longrightarrow> w = 1) \<and> ep_write_done ep = d0 \<and> ep_sent ep @ concat (ep_out ep) = s0 @ concat data
         \<and> set (ep_out ep) \<subseteq> set data)
      \<or> (w = 0 \<and> ep_write_done ep = d0 @ [Io_ok] \<and> ep_sent ep = s0 @ concat data)
      \<or> (w = 0 \<and> (\<exists>msg. ep_write_done ep = d0 @ [Io_internal msg]) \<and> (\<exists>lost. ep_sent ep @ lost = s0 @ concat data)))"

text \<open>What an operation leaves: on an exception the callbacks that were to run are lost.\<close>

definition left :: "ssl_io \<Rightarrow> bool \<Rightarrow> string \<Rightarrow> io_status list \<Rightarrow> string list \<Rightarrow> endpoint_cb list \<Rightarrow> unit result \<times> ssl_endpoint \<Rightarrow> bool" where
  "left S sure s0 d0 data todo x = (case x of
      (Inr _, ep) \<Rightarrow> write_inv sure s0 d0 data todo ep
    | (Inl e, ep) \<Rightarrow> (e = SysError \<and> (\<exists>k. \<not> si_epoll S k) \<and> write_inv False s0 d0 data [] ep)
        \<or> (e = Abort \<and> \<not> whole_writes S data \<and> ep_write_done ep = d0 \<and> (\<exists>lost. ep_sent ep @ lost = s0 @ concat data)))"

lemma ep_push_effect:
  assumes "ep_push S cb r w ep = (x, ep')"
  shows "waiting cb' ep' = waiting cb' ep + (if cb' = cb then 1 else 0)
    \<and> ep_write_done ep' = ep_write_done ep \<and> ep_sent ep' = ep_sent ep \<and> ep_out ep' = ep_out ep
    \<and> (x = Inr () \<or> x = Inl SysError \<and> (\<exists>k. \<not> si_epoll S k))"
  using assms by (auto simp: ep_push_def poll_push_def wake_def waiting_def Let_def split: if_splits)

lemma write_inv_unsure:
  "write_inv sure s0 d0 data todo ep \<Longrightarrow> write_inv False s0 d0 data [] ep"
  by (auto simp: write_inv_def Let_def)

lemma push_left:
  assumes "waiting Cb_write ep + count (mset todo) Cb_write = 0" and "ep_write_done ep = d0"
    and "ep_sent ep @ concat (ep_out ep) = s0 @ concat data" and "set (ep_out ep) \<subseteq> set data"
  shows "left S sure s0 d0 data todo (ep_push S Cb_write r w ep)"
proof -
  obtain x ep' where p: "ep_push S Cb_write r w ep = (x, ep')" by (rule prod.exhaust)
  have "write_inv True s0 d0 data todo ep'"
    using assms ep_push_effect [OF p, of Cb_write] by (simp add: write_inv_def Let_def)
  then have "write_inv sure s0 d0 data todo ep'" "write_inv False s0 d0 data [] ep'"
    by (auto simp: write_inv_def Let_def)
  then show ?thesis using ep_push_effect [OF p, of Cb_write] p by (auto simp: left_def)
qed

lemma write_slices_left:
  assumes "waiting Cb_write ep + count (mset todo) Cb_write = 0" and "ep_write_done ep = d0"
    and "ep_sent ep @ concat slices = s0 @ concat data" and "set slices \<subseteq> set data"
  shows "left S sure s0 d0 data todo (write_slices S slices ep)"
  using assms
proof (induction slices arbitrary: ep)
  case Nil
  then show ?case by (simp add: left_def write_inv_def waiting_def Let_def)
next
  case (Cons sl rest)
  obtain n err where w: "si_write S (ep_calls ep) = (n, err)" by fastforce
  define written where "written = min n (length sl)"
  define ep1 where "ep1 = ep\<lparr>ep_calls := Suc (ep_calls ep)\<rparr>"
  consider (partial) "0 < written" "written < length sl" | (full) "0 < written" "\<not> written < length sl"
    | (again) "written = 0" "err = WANT_WRITE \<or> err = WANT_READ" | (fatal) "written = 0" "\<not> (err = WANT_WRITE \<or> err = WANT_READ)"
    by blast
  then show ?case
  proof cases
    case partial
    have run: "write_slices S (sl # rest) ep =
        (Inl Abort, ep1\<lparr>ep_sent := ep_sent ep @ take written sl, ep_out := rest\<rparr>)"
      using partial w by (auto simp: written_def ep1_def Let_def take_sub_slice_def)
    have "n = written" using partial by (simp add: written_def min_def split: if_splits)
    then have "\<not> (fst (si_write S (ep_calls ep)) = 0 \<or> length sl \<le> fst (si_write S (ep_calls ep)))"
      using partial w by simp
    moreover have "sl \<in> set data" using Cons.prems(4) by simp
    ultimately have "\<not> whole_writes S data" unfolding whole_writes_def by blast
    moreover have "(ep_sent ep @ take written sl) @ drop written sl @ concat rest = s0 @ concat data"
      using Cons.prems(3) by (simp flip: append_assoc) (simp add: append_assoc)
    ultimately show ?thesis unfolding run left_def using Cons.prems(2) by (auto simp: ep1_def)
  next
    case full
    define ep2 where "ep2 = ep1\<lparr>ep_sent := ep_sent ep @ sl\<rparr>"
    have "write_slices S (sl # rest) ep = write_slices S rest ep2"
      using full w by (simp add: written_def ep2_def ep1_def Let_def)
    moreover have "left S sure s0 d0 data todo (write_slices S rest ep2)"
      by (rule Cons.IH) (use Cons.prems in \<open>simp_all add: ep2_def ep1_def waiting_def\<close>)
    ultimately show ?thesis by simp
  next
    case again
    have "write_slices S (sl # rest) ep =
        ep_push S Cb_write (err = WANT_READ) (err \<noteq> WANT_READ) (ep1\<lparr>ep_out := sl # rest\<rparr>)"
      using again w by (auto simp: written_def ep1_def Let_def min_def split: if_splits)
    moreover have "left S sure s0 d0 data todo (ep_push S Cb_write (err = WANT_READ) (err \<noteq> WANT_READ) (ep1\<lparr>ep_out := sl # rest\<rparr>))"
      by (rule push_left) (use Cons.prems in \<open>simp_all add: ep1_def waiting_def\<close>)
    ultimately show ?thesis by simp
  next
    case fatal
    then have "write_slices S (sl # rest) ep =
        (Inr (), ep1\<lparr>ep_out := rest, ep_write_done := ep_write_done ep @ [Io_internal ''SSL_write failed'']\<rparr>)"
      using w by (auto simp: written_def ep1_def Let_def min_def split: if_splits)
    then show ?thesis using Cons.prems by (auto simp: left_def write_inv_def ep1_def waiting_def Let_def)
  qed
qed

lemma do_read_left:
  assumes "write_inv sure s0 d0 data todo ep"
  shows "left S sure s0 d0 data todo (DoRead S ep)"
proof -
  obtain d err where r: "si_read S (ep_calls ep) = (d, err)" by fastforce
  define ep1 where "ep1 = ep\<lparr>ep_calls := Suc (ep_calls ep)\<rparr>"
  show ?thesis
  proof (cases "take kSslReadBufferSize d \<noteq> [] \<or> \<not> (err = WANT_READ \<or> err = WANT_WRITE)")
    case True
    then show ?thesis using assms r by (auto simp: DoRead_def Let_def left_def write_inv_def waiting_def)
  next
    case False
    obtain x ep' where p: "ep_push S Cb_read (err = WANT_READ) (err \<noteq> WANT_READ) ep1 = (x, ep')" by fastforce
    have "DoRead S ep = (x, ep')" using False r p by (auto simp: DoRead_def ep1_def Let_def)
    moreover have "write_inv sure s0 d0 data todo ep'"
      using assms ep_push_effect [OF p, of Cb_write] by (simp add: write_inv_def ep1_def waiting_def Let_def)
    ultimately show ?thesis
      using ep_push_effect [OF p, of Cb_write] write_inv_unsure by (fastforce simp: left_def)
  qed
qed

lemma run_callback_left:
  assumes "write_inv sure s0 d0 data (cb # cbs) ep"
  shows "left S sure s0 d0 data cbs (run_callback S cb ep)"
proof (cases cb)
  case Cb_read
  then have "write_inv sure s0 d0 data cbs ep" using assms by (simp add: write_inv_def)
  then show ?thesis using Cb_read do_read_left by (simp add: run_callback_def)
next
  case Cb_write
  then have "waiting Cb_write ep + count (mset cbs) Cb_write = 0" "ep_write_done ep = d0"
    "ep_sent ep @ concat (ep_out ep) = s0 @ concat data" "set (ep_out ep) \<subseteq> set data"
    using assms by (auto simp: write_inv_def Let_def)
  then show ?thesis using Cb_write write_slices_left by (simp add: run_callback_def DoWrite_def)
qed

lemma poll_callbacks_left:
  "write_inv sure s0 d0 data cbs ep \<Longrightarrow> left S sure s0 d0 data [] (poll_callbacks (run_callback S) cbs ep)"
proof (induction cbs arbitrary: ep)
  case (Cons cb cbs)
  obtain r ep1 where run: "run_callback S cb ep = (r, ep1)" by fastforce
  show ?case using run_callback_left [OF Cons.prems, of S] Cons.IH [of ep1] run
    by (cases r) (simp_all add: left_def)
qed (simp add: left_def)

lemma ep_poll_left:
  assumes "write_inv sure s0 d0 data [] ep"
  shows "left S sure s0 d0 data [] (ep_poll S woken events ep)"
proof -
  obtain cbs p where run: "poll_events woken events (ep_poller ep) = (cbs, p)" by fastforce
  have "mset cbs + mset (map (snd \<circ> snd) (pe_watchers p)) = mset (map (snd \<circ> snd) (pe_watchers (ep_poller ep)))"
    by (rule poll_events_callbacks [OF run])
  then have "count (mset cbs) Cb_write + waiting Cb_write (ep\<lparr>ep_poller := p\<rparr>) = waiting Cb_write ep"
    by (simp add: waiting_def flip: count_union)
  then have "write_inv sure s0 d0 data cbs (ep\<lparr>ep_poller := p\<rparr>)"
    using assms by (simp add: write_inv_def Let_def add.commute)
  from poll_callbacks_left [OF this] show ?thesis by (simp add: ep_poll_def run)
qed

lemma endpoint_step_left:
  assumes "write_inv sure s0 d0 data [] ep"
  shows "left S sure s0 d0 data [] (endpoint_step S e ep)"
proof (cases e)
  case Ev_read
  obtain r ep1 where run: "DoRead S ep = (r, ep1)" by fastforce
  show ?thesis using do_read_left [OF assms, of S] run Ev_read
    by (cases r) (simp_all add: endpoint_step_def ep_read_def left_def)
next
  case (Ev_poll woken events)
  then show ?thesis using ep_poll_left [OF assms] by (simp add: endpoint_step_def)
qed

text \<open>
  \<open>run_left\<close> is what every schedule leaves: nothing thrown and the write in exactly one of its three
  states; or the poll engine threw, and the write is in one of them or was dropped; or the process ended.
\<close>

definition run_left :: "ssl_io \<Rightarrow> bool \<Rightarrow> string \<Rightarrow> io_status list \<Rightarrow> string list \<Rightarrow> exn list \<times> ssl_endpoint \<Rightarrow> bool" where
  "run_left S sure s0 d0 data x = (case x of (exns, ep) \<Rightarrow>
     (exns = [] \<and> write_inv sure s0 d0 data [] ep)
     \<or> (exns \<noteq> [] \<and> (\<exists>k. \<not> si_epoll S k) \<and> set exns = {SysError} \<and> write_inv False s0 d0 data [] ep)
     \<or> (\<not> whole_writes S data \<and> Abort \<in> set exns \<and> set exns \<subseteq> {SysError, Abort} \<and> ep_write_done ep = d0
        \<and> (\<exists>lost. ep_sent ep @ lost = s0 @ concat data)))"

lemma go_on_left:
  assumes "left S sure s0 d0 data [] x"
    and "\<And>b ep. write_inv b s0 d0 data [] ep \<Longrightarrow> run_left S b s0 d0 data (k ep)"
  shows "run_left S sure s0 d0 data (go_on x k)"
proof -
  obtain r ep where x: "x = (r, ep)" by fastforce
  show ?thesis
  proof (cases r)
    case (Inr u)
    then show ?thesis using assms(1) assms(2) [of sure ep] by (simp add: x go_on_def left_def)
  next
    case (Inl e)
    show ?thesis
    proof (cases "e = Abort")
      case False
      then have "run_left S False s0 d0 data (k ep)" "\<exists>k. \<not> si_epoll S k" "e = SysError"
        using assms(1) assms(2) [of False ep] Inl by (simp_all add: x left_def)
      then show ?thesis using False Inl by (cases "k ep") (auto simp: x go_on_def run_left_def)
    qed (use assms(1) Inl in \<open>simp add: x go_on_def left_def run_left_def\<close>)
  qed
qed

lemma endpoint_run_left:
  "write_inv sure s0 d0 data [] ep \<Longrightarrow> run_left S sure s0 d0 data (endpoint_run S es ep)"
proof (induction es arbitrary: sure ep)
  case (Cons e es)
  show ?case unfolding endpoint_run.simps
    by (rule go_on_left [OF endpoint_step_left [OF Cons.prems]]) (rule Cons.IH)
qed (simp add: run_left_def)

lemma write_run_left:
  assumes "waiting Cb_write ep = 0"
  shows "run_left S True (ep_sent ep) (ep_write_done ep) data (write_run S data es ep)"
proof -
  obtain r ep1 where run: "write_slices S data (ep\<lparr>ep_out := data\<rparr>) = (r, ep1)" by fastforce
  have "left S True (ep_sent ep) (ep_write_done ep) data [] (r, ep1)"
    unfolding run [symmetric] by (rule write_slices_left) (use assms in \<open>simp_all add: waiting_def\<close>)
  moreover have "go_on (ep_write S data ep) k = go_on (r, ep1) k" for k
    using run by (cases r) (simp_all add: go_on_def ep_write_def DoWrite_def)
  ultimately show ?thesis unfolding write_run_def using go_on_left endpoint_run_left by metis
qed

text \<open>
  C11. However TLS takes the data and however often a \<open>Write\<close> has to wait, whatever is read meanwhile and
  whether or not \<open>epoll_ctl\<close> accepts the socket: at every moment what was sent is the beginning of
  the data, in order, the write is reported at most once and waits at most once, and success is reported
  only when all was sent. If nothing threw, the write is in exactly one of three states: it waits and what
  was sent followed by what is left is the data, or success was reported, or a failure was. The process
  aborts only if TLS takes a part of a slice, and something is thrown only then or if \<open>epoll_ctl\<close> fails.
\<close>

theorem write_is_complete_and_in_order:
  assumes "waiting Cb_write ep = 0" and "write_run S data es ep = (exns, ep')"
  shows "(\<exists>lost. ep_sent ep' @ lost = ep_sent ep @ concat data)
    \<and> (ep_write_done ep' = ep_write_done ep
       \<or> (ep_write_done ep' = ep_write_done ep @ [Io_ok] \<and> ep_sent ep' = ep_sent ep @ concat data \<and> waiting Cb_write ep' = 0)
       \<or> ((\<exists>msg. ep_write_done ep' = ep_write_done ep @ [Io_internal msg]) \<and> waiting Cb_write ep' = 0))
    \<and> (Abort \<notin> set exns \<longrightarrow> waiting Cb_write ep' \<le> 1)
    \<and> (exns = [] \<and> ep_write_done ep' = ep_write_done ep \<longrightarrow>
         waiting Cb_write ep' = 1 \<and> ep_sent ep' @ concat (ep_out ep') = ep_sent ep @ concat data)
    \<and> (whole_writes S data \<longrightarrow> Abort \<notin> set exns)
    \<and> (whole_writes S data \<and> (\<forall>k. si_epoll S k) \<longrightarrow> exns = [])"
proof -
  have "run_left S True (ep_sent ep) (ep_write_done ep) data (exns, ep')"
    using write_run_left [OF assms(1), of S data es] by (simp add: assms(2))
  then consider
      (fine) "exns = []" "write_inv True (ep_sent ep) (ep_write_done ep) data [] ep'"
    | (thrown) "exns \<noteq> []" "\<exists>k. \<not> si_epoll S k" "set exns = {SysError}"
        "write_inv False (ep_sent ep) (ep_write_done ep) data [] ep'"
    | (aborted) "\<not> whole_writes S data" "Abort \<in> set exns" "ep_write_done ep' = ep_write_done ep"
        "\<exists>lost. ep_sent ep' @ lost = ep_sent ep @ concat data"
    unfolding run_left_def prod.case by blast
  then show ?thesis
  proof cases
    case aborted
    then show ?thesis by auto
  next
    case fine
    note inv = fine(2) [unfolded write_inv_def Let_def]
    have lost: "\<exists>lost. ep_sent ep' @ lost = ep_sent ep @ concat data" using inv by (metis append_Nil2)
    show ?thesis by (rule conjI [OF lost]) (use inv fine(1) in \<open>elim disjE conjE exE; simp\<close>)
  next
    case thrown
    note inv = thrown(4) [unfolded write_inv_def Let_def]
    have "Abort \<notin> set exns" using thrown(3) by simp
    moreover have lost: "\<exists>lost. ep_sent ep' @ lost = ep_sent ep @ concat data" using inv by (metis append_Nil2)
    ultimately show ?thesis by (intro conjI [OF lost]) (use inv thrown(1,2) in \<open>elim disjE conjE exE; simp\<close>)
  qed
qed

text \<open>TLS that takes the first slice, then asks to wait, and takes the second when the socket is writable.\<close>

definition slow_io :: ssl_io where
  "slow_io = \<lparr>si_read = (\<lambda>k. ([], WANT_READ)), si_write = (\<lambda>k. if k = 1 then (0, WANT_WRITE) else (9, WANT_WRITE)),
     si_epoll = (\<lambda>k. True)\<rparr>"

theorem write_is_complete_and_in_order_witness:
  "\<exists>ep'. write_run slow_io [''abc'', ''d''] [Ev_read] (ssl_endpoint_new 3 (Some 1) poll_engine_new) = ([], ep')
     \<and> waiting Cb_write ep' = 1 \<and> ep_sent ep' = ''abc'' \<and> ep_sent ep' @ concat (ep_out ep') = ''abcd''"
proof -
  let ?ep = "ssl_endpoint_new 3 (Some 1) poll_engine_new"
  obtain exns ep' where run: "write_run slow_io [''abc'', ''d''] [Ev_read] ?ep = (exns, ep')" by fastforce
  have sent: "ep_write_done ep' = [] \<and> ep_sent ep' = ''abc'' \<and> exns = []"
    using run by (auto simp: write_run_def go_on_def ep_write_def DoWrite_def ssl_endpoint_new_def slow_io_def ep_push_def
        poll_push_def wake_def Let_def endpoint_step_def ep_read_def DoRead_def)
  have "waiting Cb_write ?ep = 0" by (simp add: waiting_def ssl_endpoint_new_def poll_engine_new_def)
  from write_is_complete_and_in_order [OF this run] show ?thesis
    using run sent by (auto simp: ssl_endpoint_new_def)
qed

text \<open>
  The other side: a partial write of a slice, which the endpoint itself enables, always ends the process.
\<close>

theorem partial_write_aborts:
  assumes "si_write S (ep_calls ep) = (n, err)" and "0 < n" and "n < length sl"
  shows "fst (ep_write S (sl # rest) ep) = Inl Abort"
proof -
  have "min n (length sl) = n" "sl \<noteq> []" using assms(3) by auto
  then show ?thesis using assms by (simp add: ep_write_def DoWrite_def Let_def take_sub_slice_def)
qed

theorem partial_write_aborts_witness:
  "fst (ep_write \<lparr>si_read = (\<lambda>k. ([], WANT_READ)), si_write = (\<lambda>k. (2, WANT_WRITE)), si_epoll = (\<lambda>k. True)\<rparr> [''abc'']
      (ssl_endpoint_new 3 (Some 1) poll_engine_new)) = Inl Abort"
  by (rule partial_write_aborts) (auto simp: ssl_endpoint_new_def)

subsection \<open>A pending read\<close>

lemma ep_poll_writable:
  assumes "pe_watchers (ep_poller ep) = [(ep_fd ep, EPOLLIN, Cb_read), (ep_fd ep, EPOLLOUT, Cb_write)]"
    and "ep_out ep = [d]" and "si_write S (ep_calls ep) = (n, err)" and "0 < length d" and "length d \<le> n"
  shows "\<exists>p. ep_poll S False [(ep_fd ep, EPOLLOUT)] ep =
      (Inr (), ep\<lparr>ep_poller := p, ep_out := [], ep_sent := ep_sent ep @ d, ep_write_done := ep_write_done ep @ [Io_ok],
         ep_calls := Suc (ep_calls ep)\<rparr>)
    \<and> poll_events False [(ep_fd ep, EPOLLOUT)] (ep_poller ep) = ([Cb_write], p)"
proof -
  obtain cbs p where run: "poll_events False [(ep_fd ep, EPOLLOUT)] (ep_poller ep) = (cbs, p)" by fastforce
  have hits: "hit_any [(ep_fd ep, EPOLLOUT)] (ep_fd ep, EPOLLOUT, Cb_write)"
    "\<not> hit_any [(ep_fd ep, EPOLLOUT)] (ep_fd ep, EPOLLIN, Cb_read)"
    by (simp_all add: hit_any_def hit_def EPOLLIN_def EPOLLOUT_def)
  have "mset cbs = mset [Cb_write]" using poll_events_effect [OF run] hits by (simp add: assms(1))
  then have cbs: "cbs = [Cb_write]" by (metis mset_single_iff_right)
  show ?thesis
    using assms run unfolding cbs
    by (auto simp: ep_poll_def run_callback_def DoWrite_def Let_def min_absorb2)
qed

text \<open>
  A read starves behind a write: when a read and a write of one endpoint wait for different events and
  the socket becomes writable first, the write completes and the read is left with a disarmed socket; no
  later sequence of polls, whatever arrives, delivers it anything until the next operation on the socket.
\<close>

theorem read_starves_behind_write:
  assumes "pe_watchers (ep_poller ep) = [(ep_fd ep, EPOLLIN, Cb_read), (ep_fd ep, EPOLLOUT, Cb_write)]"
    and "ep_out ep = [d]" and "si_write S (ep_calls ep) = (n, err)" and "0 < length d" and "length d \<le> n"
    and "ep_poll S False [(ep_fd ep, EPOLLOUT)] ep = (r, ep')"
    and "poll_run (map (\<lambda>(woken, events). Poll woken events) polls) ([], ep_poller ep') = Some (got, p)"
  shows "ep_write_done ep' = ep_write_done ep @ [Io_ok] \<and> ep_read_done ep' = ep_read_done ep
    \<and> (ep_fd ep, EPOLLIN, Cb_read) \<in> set (pe_watchers p) \<and> \<not> deliverable p [(ep_fd ep, fl)]"
proof -
  obtain q where poll: "ep_poll S False [(ep_fd ep, EPOLLOUT)] ep =
      (Inr (), ep\<lparr>ep_poller := q, ep_out := [], ep_sent := ep_sent ep @ d, ep_write_done := ep_write_done ep @ [Io_ok],
         ep_calls := Suc (ep_calls ep)\<rparr>)"
    and run: "poll_events False [(ep_fd ep, EPOLLOUT)] (ep_poller ep) = ([Cb_write], q)"
    using ep_poll_writable [OF assms(1-5)] by blast
  have eff: "pe_watchers q = filter (\<lambda>w. \<not> hit_any [(ep_fd ep, EPOLLOUT)] w) (pe_watchers (ep_poller ep))"
    "pe_interest q = pe_interest (disarm [(ep_fd ep, EPOLLOUT)] (ep_poller ep))"
    using poll_events_effect [OF run] by simp_all
  have "\<not> hit_any [(ep_fd ep, EPOLLOUT)] (ep_fd ep, EPOLLIN, Cb_read)"
    by (simp add: hit_any_def hit_def EPOLLIN_def EPOLLOUT_def)
  then have inq: "(ep_fd ep, EPOLLIN, Cb_read) \<in> set (filter (\<lambda>w. fst w = ep_fd ep) (pe_watchers q))"
    using eff(1) by (simp add: assms(1))
  have dq: "disarmed (ep_fd ep) q"
    using eff(2) by (auto simp: disarmed_def disarm_def split: option.splits)
  have rq: "poll_run (map (\<lambda>(woken, events). Poll woken events) polls) ([], q) = Some (got, p)"
    using assms(6,7) poll by auto
  have tq: "\<forall>e \<in> set (map (\<lambda>(woken, events). Poll woken events) polls). \<not> touches (ep_fd ep) e"
    by (auto simp: touches_def)
  note later = run_disarmed [OF rq tq dq]
  have "(ep_fd ep, EPOLLIN, Cb_read) \<in> set (filter (\<lambda>w. fst w = ep_fd ep) (pe_watchers p))"
    unfolding conjunct2 [OF later] by (rule inq)
  moreover have "disarmed (ep_fd ep) p" using later by simp
  ultimately have "(ep_fd ep, EPOLLIN, Cb_read) \<in> set (pe_watchers p)" "\<not> deliverable p [(ep_fd ep, fl)]"
    by (simp, fastforce simp: deliverable_def disarmed_def)
  moreover have "ep_write_done ep' = ep_write_done ep @ [Io_ok]" "ep_read_done ep' = ep_read_done ep"
    using assms(6) poll by auto
  ultimately show ?thesis by blast
qed

theorem read_starves_behind_write_witness:
  "let ep = (ssl_endpoint_new 3 (Some 1) (\<lparr>pe_watchers = [(3, EPOLLIN, Cb_read), (3, EPOLLOUT, Cb_write)],
          pe_interest = [3 \<mapsto> (5, True)], pe_wakeups = 0\<rparr>))\<lparr>ep_out := [''ab'']\<rparr>;
       ep' = snd (ep_poll slow_io False [(3, EPOLLOUT)] ep)
   in ep_write_done ep' = [Io_ok] \<and> \<not> deliverable (ep_poller ep') [(3, EPOLLIN)]"
proof -
  let ?ep = "(ssl_endpoint_new 3 (Some 1) (\<lparr>pe_watchers = [(3, EPOLLIN, Cb_read), (3, EPOLLOUT, Cb_write)],
          pe_interest = [3 \<mapsto> (5, True)], pe_wakeups = 0\<rparr>))\<lparr>ep_out := [''ab'']\<rparr>"
  obtain r ep' where run: "ep_poll slow_io False [(3, EPOLLOUT)] ?ep = (r, ep')" by fastforce
  have "ep_write_done ep' = ep_write_done ?ep @ [Io_ok] \<and> \<not> deliverable (ep_poller ep') [(3, EPOLLIN)]"
    using read_starves_behind_write [of ?ep "''ab''" slow_io 9 WANT_WRITE r ep' "[]" "[]" "ep_poller ep'" EPOLLIN] run
    by (simp add: ssl_endpoint_new_def slow_io_def)
  then show ?thesis using run by (simp add: ssl_endpoint_new_def Let_def)
qed

subsection \<open>The end of an endpoint\<close>

text \<open>
  An endpoint that owns its \<open>SSL\<close> cannot be destroyed: the destructor of the class frees the object
  and the destructor of the owning pointer frees it again, which is undefined.
\<close>

theorem endpoint_destructor_frees_twice:
  "(\<exists>out. ssl_endpoint_destroy ep live = Inr out) \<longleftrightarrow> ep_ssl ep = None"
  by (auto simp: ssl_endpoint_destroy_def guard_destroy_def free_obj_def bind_result_def split: option.splits)

end
