(* ===== verification/Event_Engine.thy ===== *)
theory Event_Engine
  imports Tcpv4 "HOL-Library.AList"
begin

text \<open>
  The hole-punching event engine (\<open>common/grpc/engine.cc\<close>, \<open>.h\<close>): the worker that punches and does the TLS
  handshake, the connections that run in detached threads with their cancellation flags, and the
  listener. The methods that only call the default engine call a parameter; whether the handshake
  succeeds is an argument.
\<close>

datatype conn_status = Conn_ok | Cancelled string | Unavailable string | Failed_precondition string

subsection \<open>PerformHolePunchAndHandshake\<close>

text \<open>
  What follows the punch. \<open>SSL_set_fd\<close> is passed \<open>connected_fd.handle()\<close>; the timeout and the blocking
  mode are set again on what the variable then holds.
\<close>

definition handshake_body :: "net_env \<Rightarrow> bool \<Rightarrow> conn_status net" where
  "handshake_body E handshake_ok =
     bind_net get_connect (\<lambda>fd.
     bind_net (tcpv4_set_blocking E fd True) (\<lambda>_.
     bind_net (tcpv4_set_timeout E fd (Finite False 5 0)) (\<lambda>_.
     bind_net unique_fd_handle (\<lambda>_.
     if \<not> handshake_ok then ret (Unavailable ''TLS Handshake failed or timed out'')
     else
       bind_net get_connect (\<lambda>fd.
       bind_net (tcpv4_set_timeout E fd (ieee_of_int binary32 0)) (\<lambda>_.
       bind_net (tcpv4_set_blocking E fd False) (\<lambda>_.
       bind_net unique_fd_handle (\<lambda>_. ret Conn_ok))))))))"

definition caught :: "conn_status result \<Rightarrow> conn_status" where
  "caught r = (case r of Inl e \<Rightarrow> Unavailable ''Hole punch failed: '' | Inr s \<Rightarrow> s)"

definition after_punch :: "net_env \<Rightarrow> bool \<Rightarrow> int \<Rightarrow> net_os \<Rightarrow> conn_status \<times> net_os" where
  "after_punch E handshake_ok connected_fd os =
     (case with_fds E (-1) connected_fd (handshake_body E handshake_ok) os of (r, os') \<Rightarrow> (caught r, os'))"

text \<open>The worker as one run, with the values that the cancellation flag has at its two tests.\<close>

definition PerformHolePunchAndHandshake ::
  "net_env \<Rightarrow> int \<Rightarrow> hole_punch_parameters \<Rightarrow> bool \<Rightarrow> bool \<Rightarrow> bool \<Rightarrow> net_os \<Rightarrow> conn_status \<times> net_os" where
  "PerformHolePunchAndHandshake E fd params cancelled1 cancelled2 handshake_ok os =
     (if cancelled1 then (Cancelled ''Cancelled before punch'', unique_fd_reset E fd os)
      else case tcpv4_hole_punch E fd params os of
          (Inl e, os') \<Rightarrow> (Unavailable ''Hole punch failed: '', os')
        | (Inr c, os') \<Rightarrow>
            if cancelled2 then (Cancelled ''Cancelled during punch'', unique_fd_reset E c os')
            else after_punch E handshake_ok c os')"

subsection \<open>Connections\<close>

text \<open>Where a thread is; \<open>Th_done\<close> has reported and has not yet left the map of the flags.\<close>

datatype phase = Th_start int hole_punch_parameters | Th_punched int | Th_done

record event_engine =
  ee_next :: int
  ee_active :: "int set"
  ee_flags :: "int \<Rightarrow> bool"
  ee_threads :: "int \<rightharpoonup> phase"
  ee_reports :: "(int \<times> conn_status) list"
  ee_os :: net_os

definition event_engine_new :: "net_os \<Rightarrow> event_engine" where
  "event_engine_new os =
     \<lparr>ee_next = 1, ee_active = {}, ee_flags = (\<lambda>_. False), ee_threads = Map.empty, ee_reports = [], ee_os = os\<rparr>"

definition kInvalid :: int where "kInvalid = -1"

text \<open>
  \<open>Connect\<close> for an argument with the reserved descriptor and the parameters; the descriptor is moved out
  of the argument. The result is the handle.
\<close>

definition ee_connect :: "int \<Rightarrow> hole_punch_parameters \<Rightarrow> event_engine \<Rightarrow> int \<times> event_engine" where
  "ee_connect reserved_fd params e =
     (if \<not> unique_fd_valid reserved_fd
      then (kInvalid, e\<lparr>ee_reports := ee_reports e @ [(kInvalid, Unavailable ''Socket consumed by previous attempt'')]\<rparr>)
      else
        let h = ee_next e in
        (h, e\<lparr>ee_next := h + 1, ee_active := insert h (ee_active e), ee_flags := (ee_flags e)(h := False),
              ee_threads := (ee_threads e)(h \<mapsto> Th_start reserved_fd params)\<rparr>))"

definition ee_cancel_connect :: "int \<Rightarrow> event_engine \<Rightarrow> bool \<times> event_engine" where
  "ee_cancel_connect h e =
     (if h \<in> ee_active e then (True, e\<lparr>ee_flags := (ee_flags e)(h := True)\<rparr>) else (False, e))"

definition ee_report :: "int \<Rightarrow> conn_status \<Rightarrow> net_os \<Rightarrow> event_engine \<Rightarrow> event_engine" where
  "ee_report h s os e = e\<lparr>ee_reports := ee_reports e @ [(h, s)], ee_threads := (ee_threads e)(h \<mapsto> Th_done), ee_os := os\<rparr>"

text \<open>A thread up to its next look at something that others change.\<close>

definition ee_thread :: "net_env \<Rightarrow> bool \<Rightarrow> int \<Rightarrow> event_engine \<Rightarrow> event_engine" where
  "ee_thread E handshake_ok h e =
     (case ee_threads e h of
        None \<Rightarrow> e
      | Some (Th_start fd params) \<Rightarrow>
          if ee_flags e h then ee_report h (Cancelled ''Cancelled before punch'') (unique_fd_reset E fd (ee_os e)) e
          else (case tcpv4_hole_punch E fd params (ee_os e) of
              (Inl x, os') \<Rightarrow> ee_report h (Unavailable ''Hole punch failed: '') os' e
            | (Inr c, os') \<Rightarrow> e\<lparr>ee_threads := (ee_threads e)(h \<mapsto> Th_punched c), ee_os := os'\<rparr>)
      | Some (Th_punched c) \<Rightarrow>
          if ee_flags e h then ee_report h (Cancelled ''Cancelled during punch'') (unique_fd_reset E c (ee_os e)) e
          else (case after_punch E handshake_ok c (ee_os e) of (s, os') \<Rightarrow> ee_report h s os' e)
      | Some Th_done \<Rightarrow> e\<lparr>ee_threads := (ee_threads e)(h := None), ee_active := ee_active e - {h}\<rparr>)"

text \<open>The steps of the engine, in any order.\<close>

inductive ee_step :: "net_env \<Rightarrow> event_engine \<Rightarrow> event_engine \<Rightarrow> bool" for E where
  step_connect: "ee_step E e (snd (ee_connect fd params e))"
| step_cancel: "ee_step E e (snd (ee_cancel_connect h e))"
| step_thread: "ee_step E e (ee_thread E handshake_ok h e)"

inductive ee_reachable :: "net_env \<Rightarrow> net_os \<Rightarrow> event_engine \<Rightarrow> bool" for E os where
  reach_new: "ee_reachable E os (event_engine_new os)"
| reach_step: "ee_reachable E os e \<Longrightarrow> ee_step E e e' \<Longrightarrow> ee_reachable E os e'"

subsection \<open>The handshake\<close>

lemma set_timeout_nothing: "\<exists>e os'. tcpv4_set_timeout E (-1) t os = (Inl e, os')"
  by (simp add: tcpv4_set_timeout_def sys_timeout_def net_defs sys_plain_def fd_open_def throw_def split: option.split)

lemma timeout_keeps_variable:
  "tcpv4_set_timeout E fd t os = (r, os') \<Longrightarrow> fd_connect os' = fd_connect os \<and> os_fds os' = os_fds os \<and> fd_listen os' = fd_listen os"
  by (auto simp: tcpv4_set_timeout_def sys_timeout_def net_defs sys_plain_def counted_def throw_def split: if_splits option.splits)

lemma blocking_keeps_variable:
  "tcpv4_set_blocking E fd b os = (r, os') \<Longrightarrow> fd_connect os' = fd_connect os \<and> os_fds os' = os_fds os \<and> fd_listen os' = fd_listen os"
  by (auto simp: tcpv4_set_blocking_def net_defs sys_plain_def sys_set_nonblock_def counted_def split: if_splits)

lemma handshake_never_ok: "handshake_body E ok os = (Inr s, os') \<Longrightarrow> s \<noteq> Conn_ok"
proof -
  assume run: "handshake_body E ok os = (Inr s, os')"
  define rest where "rest = (\<lambda>_::int. if \<not> ok then ret (Unavailable ''TLS Handshake failed or timed out'')
     else
       bind_net get_connect (\<lambda>fd.
       bind_net (tcpv4_set_timeout E fd (ieee_of_int binary32 0)) (\<lambda>_.
       bind_net (tcpv4_set_blocking E fd False) (\<lambda>_.
       bind_net unique_fd_handle (\<lambda>_. ret Conn_ok)))))"
  have rest_not: "rest x os2 = (Inr s, os3) \<Longrightarrow> fd_connect os2 = -1 \<Longrightarrow> s \<noteq> Conn_ok" for x os2 os3
    using set_timeout_nothing [of E "ieee_of_int binary32 0" os2]
    by (auto simp: rest_def bind_net_def get_connect_def ret_def split: if_splits)
  have body: "handshake_body E ok = bind_net get_connect (\<lambda>fd.
     bind_net (tcpv4_set_blocking E fd True) (\<lambda>_. bind_net (tcpv4_set_timeout E fd (Finite False 5 0)) (\<lambda>_. bind_net unique_fd_handle rest)))"
    unfolding handshake_body_def rest_def by (rule refl)
  have "\<exists>os2 x. rest x (os2\<lparr>fd_connect := -1\<rparr>) = (Inr s, os')"
    using run unfolding body
    by (auto simp: bind_net_def get_connect_def unique_fd_handle_def split: prod.splits sum.splits)
  then show ?thesis using rest_not by fastforce
qed

lemma after_punch_never_ok: "fst (after_punch E handshake_ok c os) \<noteq> Conn_ok"
proof -
  obtain r os1 where b: "handshake_body E handshake_ok (os\<lparr>fd_listen := -1, fd_connect := c\<rparr>) = (r, os1)" by fastforce
  then have "r \<noteq> Inr Conn_ok" using handshake_never_ok by blast
  then show ?thesis by (auto simp: after_punch_def with_fds_def b Let_def caught_def split: sum.split)
qed

lemma perform_never_ok: "fst (PerformHolePunchAndHandshake E fd params c1 c2 handshake_ok os) \<noteq> Conn_ok"
  using after_punch_never_ok by (auto simp: PerformHolePunchAndHandshake_def split: prod.split sum.split)

text \<open>
  No connection is ever established: whatever the system does and even for a connected socket and a
  handshake that succeeds, the worker reports something else than success. The descriptor was given to
  TLS before its timeout is set again, so the call after the handshake is on no descriptor.
\<close>

theorem handshake_result_discarded:
  "fst (after_punch E handshake_ok connected_fd os) \<noteq> Conn_ok
   \<and> fst (PerformHolePunchAndHandshake E fd params c1 c2 handshake_ok os) \<noteq> Conn_ok"
  by (simp add: after_punch_never_ok perform_never_ok)

subsection \<open>Reports and handles\<close>

definition reported :: "int \<Rightarrow> event_engine \<Rightarrow> nat" where
  "reported h e = length (filter (\<lambda>r. fst r = h) (ee_reports e))"

definition running :: "int \<Rightarrow> event_engine \<Rightarrow> bool" where
  "running h e = (\<exists>ph. ee_threads e h = Some ph \<and> ph \<noteq> Th_done)"

definition ee_inv :: "event_engine \<Rightarrow> bool" where
  "ee_inv e = (1 \<le> ee_next e \<and> ee_active e = dom (ee_threads e) \<and> dom (ee_threads e) \<subseteq> {1..<ee_next e}
     \<and> (\<forall>h. 1 \<le> h \<longrightarrow> reported h e = (if h < ee_next e \<and> \<not> running h e then 1 else 0)))"

lemma inv_connect: "ee_inv e \<Longrightarrow> ee_inv (snd (ee_connect fd params e))"
  by (auto simp: ee_inv_def ee_connect_def kInvalid_def reported_def running_def Let_def)

lemma inv_cancel: "ee_inv e \<Longrightarrow> ee_inv (snd (ee_cancel_connect h e))"
  by (auto simp: ee_inv_def ee_cancel_connect_def reported_def running_def)

lemma inv_report:
  assumes "ee_inv e" and "running h e"
  shows "ee_inv (ee_report h s os e)"
proof -
  have h: "1 \<le> h" "h < ee_next e" "h \<in> dom (ee_threads e)" using assms by (auto simp: ee_inv_def running_def)
  have "reported h e = 0" using assms h by (auto simp: ee_inv_def)
  then show ?thesis using assms h by (auto simp: ee_inv_def ee_report_def reported_def running_def)
qed

lemma inv_thread: "ee_inv e \<Longrightarrow> ee_inv (ee_thread E ok h e)"
proof -
  assume inv: "ee_inv e"
  show ?thesis
  proof (cases "ee_threads e h")
    case None
    then show ?thesis using inv by (simp add: ee_thread_def)
  next
    case (Some ph)
    have run: "running h e" if "ph \<noteq> Th_done" using that Some by (simp add: running_def)
    show ?thesis
    proof (cases ph)
      case (Th_start fd params)
      have "ee_inv (e\<lparr>ee_threads := (ee_threads e)(h \<mapsto> Th_punched c), ee_os := os'\<rparr>)" for c os'
        using inv Some Th_start by (auto simp: ee_inv_def running_def reported_def)
      then show ?thesis
        using Some Th_start inv_report [OF inv run] by (auto simp: ee_thread_def split: prod.split sum.split)
    next
      case (Th_punched c)
      then show ?thesis using Some inv_report [OF inv run] by (auto simp: ee_thread_def split: prod.split)
    next
      case Th_done
      then show ?thesis using inv Some by (auto simp: ee_thread_def ee_inv_def running_def reported_def)
    qed
  qed
qed

lemma reachable_inv: "ee_reachable E os e \<Longrightarrow> ee_inv e"
proof (induction rule: ee_reachable.induct)
  case reach_new
  show ?case by (simp add: ee_inv_def event_engine_new_def reported_def running_def)
next
  case (reach_step e e')
  from reach_step(2) show ?case
    by cases (use reach_step.IH inv_connect inv_cancel inv_thread in auto)
qed

text \<open>
  C12. Every connection is reported exactly once: in every reachable state, whatever the order of
  connections, cancellations and thread steps, the handles given out are \<open>1, \<dots>, next - 1\<close>, the callback
  of each has run once if its thread is past the report and not at all before, and the flags kept are
  those of the threads that have not ended.
\<close>

theorem connections_reported_once:
  assumes "ee_reachable E os e" and "1 \<le> h"
  shows "reported h e = (if h < ee_next e \<and> \<not> running h e then 1 else 0)
    \<and> ee_active e = {h. ee_threads e h \<noteq> None} \<and> ee_next e \<notin> ee_active e"
proof -
  have inv: "ee_inv e" by (rule reachable_inv [OF assms(1)])
  then have "ee_next e \<notin> ee_active e" by (auto simp: ee_inv_def)
  then show ?thesis using inv assms(2) by (auto simp: ee_inv_def dom_def)
qed

theorem connections_reported_once_witness:
  "reported 1 (snd (ee_connect 3 some_punch (event_engine_new (os_with [3])))) = 0"
proof -
  let ?e = "snd (ee_connect 3 some_punch (event_engine_new (os_with [3])))"
  have "ee_reachable calm_env (os_with [3]) ?e"
    by (rule reach_step [OF reach_new step_connect])
  moreover have "running 1 ?e"
    by (simp add: ee_connect_def event_engine_new_def running_def unique_fd_valid_def Let_def)
  ultimately show ?thesis using connections_reported_once [of calm_env "os_with [3]" ?e 1] by (metis order.refl)
qed

text \<open>
  A successful cancellation stops no callback: when \<open>CancelConnect\<close> returns true the callback of the
  connection has already run, or it runs at the next step of its thread, with the status of a
  cancellation; gRPC is told that it will not run.
\<close>

theorem cancelled_callback_still_runs:
  assumes "ee_reachable E os e" and "ee_cancel_connect h e = (True, e')"
  shows "reported h e = 1 \<or>
    (reported h e = 0 \<and> reported h (ee_thread E ok h e') = 1
      \<and> (\<exists>why. (h, Cancelled why) \<in> set (ee_reports (ee_thread E ok h e'))))"
proof -
  have inv: "ee_inv e" by (rule reachable_inv [OF assms(1)])
  have act: "h \<in> ee_active e" and e': "e' = e\<lparr>ee_flags := (ee_flags e)(h := True)\<rparr>"
    using assms(2) by (auto simp: ee_cancel_connect_def split: if_splits)
  then obtain ph where ph: "ee_threads e h = Some ph" and h: "1 \<le> h" "h < ee_next e"
    using inv by (auto simp: ee_inv_def)
  show ?thesis
  proof (cases "ph = Th_done")
    case True
    then have "reported h e = 1" using inv ph h by (auto simp: ee_inv_def running_def)
    then show ?thesis by simp
  next
    case False
    then have zero: "reported h e = 0" using inv ph h by (auto simp: ee_inv_def running_def)
    have "\<exists>why os2. ee_thread E ok h e' = ee_report h (Cancelled why) os2 e'"
      using False ph by (cases ph) (auto simp: ee_thread_def e')
    then show ?thesis using zero by (auto simp: ee_report_def reported_def e')
  qed
qed

theorem cancelled_callback_still_runs_witness:
  "let e = snd (ee_connect 3 some_punch (event_engine_new (os_with [3])));
       e' = snd (ee_cancel_connect 1 e)
   in fst (ee_cancel_connect 1 e) \<and> reported 1 (ee_thread calm_env True 1 e') = 1"
proof -
  let ?e = "snd (ee_connect 3 some_punch (event_engine_new (os_with [3])))"
  let ?e' = "snd (ee_cancel_connect 1 ?e)"
  have "ee_reachable calm_env (os_with [3]) ?e" by (rule reach_step [OF reach_new step_connect])
  moreover have "ee_cancel_connect 1 ?e = (True, ?e')"
    by (simp add: ee_cancel_connect_def ee_connect_def event_engine_new_def unique_fd_valid_def Let_def)
  ultimately have "reported 1 ?e = 1 \<or> reported 1 (ee_thread calm_env True 1 ?e') = 1"
    using cancelled_callback_still_runs [of calm_env "os_with [3]" ?e 1 ?e' True] by blast
  moreover have "reported 1 ?e = 0"
    by (simp add: reported_def ee_connect_def event_engine_new_def unique_fd_valid_def Let_def)
  ultimately show ?thesis
    by (simp add: Let_def) (simp add: ee_cancel_connect_def ee_connect_def event_engine_new_def unique_fd_valid_def Let_def)
qed

subsection \<open>The delegated methods\<close>

text \<open>
  What gRPC's own engine does is a parameter, a function on its state for each method. The two forms of
  \<open>Run\<close> and \<open>RunAfter\<close> differ in the type of the task only.
\<close>

record ('t, 'h, 'd) default_engine =
  de_run :: "'t \<Rightarrow> 'd \<Rightarrow> 'd"
  de_run_after :: "int \<Rightarrow> 't \<Rightarrow> 'd \<Rightarrow> 'h \<times> 'd"
  de_cancel :: "'h \<Rightarrow> 'd \<Rightarrow> bool \<times> 'd"
  de_is_worker :: "'d \<Rightarrow> bool"
  de_get_dns_resolver :: "string \<Rightarrow> 'd \<Rightarrow> nat option \<times> 'd"
  de_connect :: "string \<Rightarrow> 'd \<Rightarrow> int \<times> 'd"

definition engine_Run :: "('t, 'h, 'd) default_engine \<Rightarrow> 't \<Rightarrow> event_engine \<times> 'd \<Rightarrow> event_engine \<times> 'd" where
  "engine_Run D closure = (\<lambda>(e, d). (e, de_run D closure d))"

definition engine_RunAfter :: "('t, 'h, 'd) default_engine \<Rightarrow> int \<Rightarrow> 't \<Rightarrow> event_engine \<times> 'd \<Rightarrow> 'h \<times> event_engine \<times> 'd" where
  "engine_RunAfter D when closure = (\<lambda>(e, d). case de_run_after D when closure d of (h, d') \<Rightarrow> (h, e, d'))"

definition engine_Cancel :: "('t, 'h, 'd) default_engine \<Rightarrow> 'h \<Rightarrow> event_engine \<times> 'd \<Rightarrow> bool \<times> event_engine \<times> 'd" where
  "engine_Cancel D handle = (\<lambda>(e, d). case de_cancel D handle d of (r, d') \<Rightarrow> (r, e, d'))"

definition engine_IsWorkerThread :: "('t, 'h, 'd) default_engine \<Rightarrow> event_engine \<times> 'd \<Rightarrow> bool" where
  "engine_IsWorkerThread D = (\<lambda>(e, d). de_is_worker D d)"

definition engine_GetDNSResolver ::
  "('t, 'h, 'd) default_engine \<Rightarrow> string \<Rightarrow> event_engine \<times> 'd \<Rightarrow> nat option \<times> event_engine \<times> 'd" where
  "engine_GetDNSResolver D options = (\<lambda>(e, d). case de_get_dns_resolver D options d of (r, d') \<Rightarrow> (r, e, d'))"

text \<open>
  \<open>NegotiatedHolePunchArg\<close> (\<open>common/grpc/resolver.h\<close>), the object in the arguments of an address by which the
  resolver hands its socket to the engine. Arguments are a list of names and objects.
\<close>

record hole_punch_arg =
  ha_reserved_fd :: int
  ha_params :: hole_punch_parameters

definition ChannelArgName :: string where
  "ChannelArgName = ''grpc.custom.hole_punch_params''"

text \<open>Two of them are compared by their addresses.\<close>

definition hole_punch_arg_Cmp :: "nat \<Rightarrow> nat \<Rightarrow> int" where
  "hole_punch_arg_Cmp this other = (if this < other then -1 else if this > other then 1 else 0)"

text \<open>
  \<open>Connect\<close> with its arguments: without the object the default engine connects, else the socket is moved out
  of the object. A handle is given by its first key; \<open>CancelConnect\<close> looks that up in its own connections.
\<close>

definition engine_Connect ::
  "('t, 'h, 'd) default_engine \<Rightarrow> string \<Rightarrow> (string \<times> hole_punch_arg) list \<Rightarrow> event_engine \<times> 'd
   \<Rightarrow> int \<times> (string \<times> hole_punch_arg) list \<times> event_engine \<times> 'd" where
  "engine_Connect D addr args = (\<lambda>(e, d).
     case map_of args ''grpc.custom.hole_punch_params'' of
       None \<Rightarrow> (case de_connect D addr d of (h, d') \<Rightarrow> (h, args, e, d'))
     | Some a \<Rightarrow>
         (case ee_connect (ha_reserved_fd a) (ha_params a) e of
            (h, e') \<Rightarrow> (h, AList.update ''grpc.custom.hole_punch_params'' (a\<lparr>ha_reserved_fd := -1\<rparr>) args, e', d)))"

definition engine_CancelConnect :: "int \<Rightarrow> event_engine \<times> 'd \<Rightarrow> bool \<times> event_engine \<times> 'd" where
  "engine_CancelConnect handle = (\<lambda>(e, d). case ee_cancel_connect handle e of (r, e') \<Rightarrow> (r, e', d))"

text \<open>Calls of the engine, and the steps of its threads, in any order.\<close>

datatype ('t, 'h) engine_call =
    Call_run 't
  | Call_run_after int 't
  | Call_cancel 'h
  | Call_dns string
  | Call_connect string "(string \<times> hole_punch_arg) list"
  | Call_cancel_connect int
  | Thread_step bool int

fun do_engine_call :: "net_env \<Rightarrow> ('t, 'h, 'd) default_engine \<Rightarrow> ('t, 'h) engine_call \<Rightarrow> event_engine \<times> 'd \<Rightarrow> event_engine \<times> 'd" where
  "do_engine_call E D (Call_run t) s = engine_Run D t s"
| "do_engine_call E D (Call_run_after when t) s = snd (engine_RunAfter D when t s)"
| "do_engine_call E D (Call_cancel h) s = snd (engine_Cancel D h s)"
| "do_engine_call E D (Call_dns opts) s = snd (engine_GetDNSResolver D opts s)"
| "do_engine_call E D (Call_connect addr args) s = snd (snd (engine_Connect D addr args s))"
| "do_engine_call E D (Call_cancel_connect h) s = snd (engine_CancelConnect h s)"
| "do_engine_call E D (Thread_step ok h) s = (ee_thread E ok h (fst s), snd s)"

fun default_call :: "('t, 'h, 'd) default_engine \<Rightarrow> ('t, 'h) engine_call \<Rightarrow> 'd \<Rightarrow> 'd" where
  "default_call D (Call_run t) d = de_run D t d"
| "default_call D (Call_run_after when t) d = snd (de_run_after D when t d)"
| "default_call D (Call_cancel h) d = snd (de_cancel D h d)"
| "default_call D (Call_dns opts) d = snd (de_get_dns_resolver D opts d)"
| "default_call D (Call_connect addr args) d =
     (if map_of args ''grpc.custom.hole_punch_params'' = None then snd (de_connect D addr d) else d)"
| "default_call D c d = d"

lemmas engine_defs =
  engine_Run_def engine_RunAfter_def engine_Cancel_def engine_GetDNSResolver_def engine_Connect_def engine_CancelConnect_def

lemma do_engine_call_snd: "snd (do_engine_call E D c s) = default_call D c (snd s)"
  by (cases c; cases s)
    (simp_all add: engine_defs split: prod.split option.split)

lemma do_engine_call_fst: "fst (do_engine_call E D c s) = fst s \<or> ee_step E (fst s) (fst (do_engine_call E D c s))"
proof (cases c)
  case (Call_connect addr args)
  then show ?thesis
    using step_connect [of E "fst s"] by (cases s) (simp add: engine_defs split: prod.split option.split, metis snd_conv)
next
  case (Call_cancel_connect h)
  then show ?thesis using step_cancel [of E "fst s" h] by (cases s) (auto simp: engine_defs split: prod.split)
qed (cases s; simp add: engine_defs step_thread split: prod.split)+

text \<open>
  Used in place of the default engine, the engine is that engine for everything but hole punching: whatever
  the calls, the default engine sees exactly those that were delegated, in their order, and the
  connections stay in a state that their own steps reach.
\<close>

theorem delegation_is_transparent:
  "snd (fold (do_engine_call E D) calls (event_engine_new os, d)) = fold (default_call D) calls d
   \<and> ee_reachable E os (fst (fold (do_engine_call E D) calls (event_engine_new os, d)))"
proof (induction calls rule: rev_induct)
  case Nil
  show ?case by (simp add: reach_new)
next
  case (snoc c calls)
  let ?s = "fold (do_engine_call E D) calls (event_engine_new os, d)"
  have "ee_reachable E os (fst (do_engine_call E D c ?s))"
    using do_engine_call_fst [of E D c ?s] snoc.IH by (auto intro: reach_step)
  then show ?case using snoc.IH by (simp add: do_engine_call_snd)
qed

text \<open>
  C29. An argument serves one attempt: what is in the arguments under the name of its class is what \<open>Connect\<close> finds;
  the first attempt with a socket gets a handle and a thread, each later one with the same arguments fails at
  once and changes nothing but the reports.
\<close>

theorem connect_argument_used_once:
  assumes "map_of args ChannelArgName = Some a" and "unique_fd_valid (ha_reserved_fd a)"
    and "engine_Connect D addr args (e, d) = (h, args', e', d')"
  shows "h = ee_next e \<and> d' = d \<and> ee_threads e' h = Some (Th_start (ha_reserved_fd a) (ha_params a)) \<and> h \<in> ee_active e'
    \<and> engine_Connect D addr args' (e', d')
      = (kInvalid, args', e'\<lparr>ee_reports := ee_reports e' @ [(kInvalid, Unavailable ''Socket consumed by previous attempt'')]\<rparr>, d')"
proof -
  have found: "map_of (AList.update k x xs) k = Some x" for k :: string and x :: hole_punch_arg and xs
    by (simp add: update_conv')
  have again: "AList.update k x (AList.update k x xs) = AList.update k x xs" for k :: string and x :: hole_punch_arg and xs
    by (simp add: update_last)
  have args': "args' = AList.update ''grpc.custom.hole_punch_params'' (a\<lparr>ha_reserved_fd := -1\<rparr>) args"
    using assms(1,3) by (simp add: engine_Connect_def ChannelArgName_def split: prod.splits)
  show ?thesis
    using assms
    by (simp add: args' engine_Connect_def ChannelArgName_def found again ee_connect_def unique_fd_valid_def Let_def)
      auto
qed

definition counting_engine :: "(nat, nat, int) default_engine" where
  "counting_engine = \<lparr>de_run = (\<lambda>t d. d), de_run_after = (\<lambda>w t d. (t, d)), de_cancel = (\<lambda>h d. (False, d)),
     de_is_worker = (\<lambda>d. False), de_get_dns_resolver = (\<lambda>opts d. (None, d)), de_connect = (\<lambda>a d. (d + 1, d + 1))\<rparr>"

theorem connect_argument_used_once_witness:
  "let args = [(ChannelArgName, \<lparr>ha_reserved_fd = 3, ha_params = some_punch\<rparr>)];
       (h, args', s) = engine_Connect counting_engine ''node:abc'' args (event_engine_new (os_with [3]), 0)
   in fst (engine_Connect counting_engine ''node:abc'' args' s) = kInvalid"
proof -
  let ?a = "\<lparr>ha_reserved_fd = 3, ha_params = some_punch\<rparr>"
  obtain h args' e' d' where r: "engine_Connect counting_engine ''node:abc'' [(ChannelArgName, ?a)] (event_engine_new (os_with [3]), 0)
      = (h, args', e', d')" by (metis surj_pair)
  have a: "map_of [(ChannelArgName, ?a)] ChannelArgName = Some ?a" "unique_fd_valid (ha_reserved_fd ?a)"
    by (simp_all add: unique_fd_valid_def)
  have "\<exists>x. engine_Connect counting_engine ''node:abc'' args' (e', d') = (kInvalid, x)"
    using connect_argument_used_once [OF a r] by blast
  then show ?thesis by (auto simp: r)
qed

text \<open>
  A connection that was left to the default engine cannot be cancelled: whatever handle that engine gave, the
  call does not reach it, and when the number is also that of a hole-punched connection it is that one
  whose flag is set.
\<close>

theorem delegated_connection_not_cancelled:
  assumes "map_of args ''grpc.custom.hole_punch_params'' = None"
    and "engine_Connect D addr args (e, d) = (h, args', e', d')"
    and "engine_CancelConnect h (e', d') = (r, e'', d'')"
  shows "e' = e \<and> d'' = d' \<and> r = (h \<in> ee_active e) \<and> (r \<longrightarrow> ee_flags e'' h) \<and> (\<not> r \<longrightarrow> e'' = e)"
  using assms
  by (auto simp: engine_Connect_def engine_CancelConnect_def ee_cancel_connect_def split: prod.splits if_splits)

theorem delegated_connection_not_cancelled_witness:
  "let e = snd (ee_connect 3 some_punch (event_engine_new (os_with [3])));
       (h, args, s) = engine_Connect counting_engine ''ipv4:1.2.3.4:80'' [] (e, 0)
   in fst (engine_CancelConnect h s) \<and> snd (snd (engine_CancelConnect h s)) = 1"
proof -
  let ?e = "snd (ee_connect 3 some_punch (event_engine_new (os_with [3])))"
  have run: "engine_Connect counting_engine ''ipv4:1.2.3.4:80'' [] (?e, 0) = (1, [], ?e, 1)"
    by (simp add: engine_Connect_def counting_engine_def)
  obtain r e'' d'' where c: "engine_CancelConnect 1 (?e, 1 :: int) = (r, e'', d'')" by (metis surj_pair)
  have "1 \<in> ee_active ?e" by (simp add: ee_connect_def event_engine_new_def unique_fd_valid_def Let_def)
  then show ?thesis using delegated_connection_not_cancelled [OF _ run c] c by (simp only: run Let_def case_prod_conv fst_conv snd_conv) simp
qed

subsection \<open>The listener\<close>

text \<open>\<open>Bind\<close> and \<open>Start\<close> of a listener do nothing and succeed; the port is 0.\<close>

definition listener_Bind :: "string \<Rightarrow> conn_status \<times> int" where
  "listener_Bind addr = (Conn_ok, 0)"

definition listener_Start :: conn_status where
  "listener_Start = Conn_ok"

text \<open>
  The engine keeps a raw pointer to the listener that gRPC owns; the destructor of any listener clears it.
  \<open>ls_live\<close> are the listeners not yet destroyed, \<open>ls_accepted\<close> the connections given to each.
\<close>

record listener_state =
  ls_live :: "nat set"
  ls_next :: nat
  ls_active :: "nat option"
  ls_accepted :: "nat list"

definition CreateListener :: "listener_state \<Rightarrow> nat \<times> listener_state" where
  "CreateListener s =
     (ls_next s, s\<lparr>ls_live := insert (ls_next s) (ls_live s), ls_next := Suc (ls_next s), ls_active := Some (ls_next s)\<rparr>)"

definition destroy_listener :: "nat \<Rightarrow> listener_state \<Rightarrow> listener_state" where
  "destroy_listener l s = s\<lparr>ls_live := ls_live s - {l}, ls_active := None\<rparr>"

definition AcceptIncomingHolePunch :: "listener_state \<Rightarrow> listener_state" where
  "AcceptIncomingHolePunch s =
     (case ls_active s of None \<Rightarrow> s | Some l \<Rightarrow> s\<lparr>ls_accepted := ls_accepted s @ [l]\<rparr>)"

text \<open>The status that is returned does not depend on whether there was a listener.\<close>

definition RunSignaledIncomingHolePunch ::
  "net_env \<Rightarrow> bool \<Rightarrow> int \<Rightarrow> hole_punch_parameters \<Rightarrow> net_os \<times> listener_state \<Rightarrow> conn_status \<times> net_os \<times> listener_state" where
  "RunSignaledIncomingHolePunch E handshake_ok reserved_fd params = (\<lambda>(os, s).
     case PerformHolePunchAndHandshake E reserved_fd params False False handshake_ok os of
       (outcome, os') \<Rightarrow>
         if outcome \<noteq> Conn_ok then (outcome, os', s)
         else (Conn_ok, os', AcceptIncomingHolePunch s))"

lemma signaled_never_ok: "fst (RunSignaledIncomingHolePunch E ok fd params (os, s)) \<noteq> Conn_ok
    \<and> snd (snd (RunSignaledIncomingHolePunch E ok fd params (os, s))) = s"
proof -
  obtain r os' where run: "PerformHolePunchAndHandshake E fd params False False ok os = (r, os')" by fastforce
  then have "r \<noteq> Conn_ok" using perform_never_ok by (metis fst_conv)
  then show ?thesis by (simp add: RunSignaledIncomingHolePunch_def run)
qed

fun listener_run :: "nat option list \<Rightarrow> listener_state \<Rightarrow> listener_state" where
  "listener_run [] s = s"
| "listener_run (None # es) s = listener_run es (snd (CreateListener s))"
| "listener_run (Some l # es) s = listener_run es (destroy_listener l s)"

text \<open>
  The engine never uses a listener that was destroyed, but destroying an older one also drops the
  newer one that replaced it: from then on an incoming connection is given to nobody.
\<close>

theorem listener_dropped_by_older:
  assumes "ls_active s = None" and "ls_live s = {}"
  shows "(\<forall>l. ls_active (listener_run es s) = Some l \<longrightarrow> l \<in> ls_live (listener_run es s))
    \<and> (let (l1, s1) = CreateListener s; (l2, s2) = CreateListener s1; s3 = destroy_listener l1 s2
       in l2 \<in> ls_live s3 \<and> AcceptIncomingHolePunch s3 = s3)"
proof
  have "\<forall>l. ls_active (listener_run es s) = Some l \<longrightarrow> l \<in> ls_live (listener_run es s)"
    if "\<forall>l. ls_active s = Some l \<longrightarrow> l \<in> ls_live s" for s
    using that by (induction es s rule: listener_run.induct) (auto simp: CreateListener_def destroy_listener_def)
  then show "\<forall>l. ls_active (listener_run es s) = Some l \<longrightarrow> l \<in> ls_live (listener_run es s)" using assms by simp
  show "let (l1, s1) = CreateListener s; (l2, s2) = CreateListener s1; s3 = destroy_listener l1 s2
       in l2 \<in> ls_live s3 \<and> AcceptIncomingHolePunch s3 = s3"
    by (simp add: CreateListener_def destroy_listener_def AcceptIncomingHolePunch_def)
qed

theorem listener_dropped_by_older_witness:
  "ls_active (listener_run [None, None, Some 0] \<lparr>ls_live = {}, ls_next = 0, ls_active = None, ls_accepted = []\<rparr>) = None
   \<and> 1 \<in> ls_live (listener_run [None, None, Some 0] \<lparr>ls_live = {}, ls_next = 0, ls_active = None, ls_accepted = []\<rparr>)"
  using listener_dropped_by_older [of "\<lparr>ls_live = {}, ls_next = 0, ls_active = None, ls_accepted = []\<rparr>" "[None, None, Some 0]"]
  by (simp add: CreateListener_def destroy_listener_def)

end
