(* ===== verification/Peer_Addr.thy ===== *)
theory Peer_Addr
  imports Decimal Messages Grpc_Callback
begin

text \<open>
  Peer addresses (\<open>common/grpc/addr.cc\<close>, \<open>.h\<close>) and the handler that tells a caller its own
  (\<open>minion/message/tell_my_addr.cc\<close>, \<open>.h\<close>). \<open>std::stoul\<close> and \<open>inet_pton\<close> for IPv4 are modelled as the
  C library defines them; \<open>inet_pton\<close> for IPv6 is the parameter \<open>pton6\<close>.
\<close>

subsection \<open>The library functions\<close>

definition is_space :: "char \<Rightarrow> bool" where
  "is_space c \<longleftrightarrow> code_of c = 32 \<or> (9 \<le> code_of c \<and> code_of c \<le> 13)"

text \<open>\<open>strtoul\<close> negates a value with a minus sign in \<open>unsigned long\<close>.\<close>

definition stoul :: "string \<Rightarrow> nat result" where
  "stoul s =
     (let t = dropWhile is_space s;
          neg = (t \<noteq> [] \<and> hd t = CHR ''-'');
          u = (if t \<noteq> [] \<and> (hd t = CHR ''-'' \<or> hd t = CHR ''+'') then tl t else t);
          ds = takeWhile is_digit u;
          v = decimal ds
      in if ds = [] then Inl (InvalidArgument ''stoul'')
         else if 2 ^ 64 \<le> v then Inl OutOfRange
         else Inr (if neg then (2 ^ 64 - v) mod 2 ^ 64 else v))"

definition rfind :: "char \<Rightarrow> string \<Rightarrow> nat option" where
  "rfind c s =
     (let after = takeWhile (\<lambda>x. x \<noteq> c) (rev s)
      in if length after = length s then None else Some (length s - length after - 1))"

definition find_char :: "char \<Rightarrow> string \<Rightarrow> nat option" where
  "find_char c s = (let n = length (takeWhile (\<lambda>x. x \<noteq> c) s) in if n = length s then None else Some n)"

text \<open>
  \<open>inet_pton(AF_INET, \<dots>)\<close>: the octets that are complete and the value of the one being read. An octet has
  no leading zero and is at most 255.
\<close>

fun pton4 :: "nat list \<Rightarrow> nat option \<Rightarrow> string \<Rightarrow> nat list option" where
  "pton4 octets cur [] =
     (case cur of Some v \<Rightarrow> if length octets = 3 then Some (octets @ [v]) else None | None \<Rightarrow> None)"
| "pton4 octets cur (c # cs) =
     (if is_digit c then
        (case cur of
           None \<Rightarrow> pton4 octets (Some (digit_value c)) cs
         | Some v \<Rightarrow>
             if v = 0 then None
             else if 255 < v * 10 + digit_value c then None
             else pton4 octets (Some (v * 10 + digit_value c)) cs)
      else if c = CHR ''.'' then
        (case cur of
           None \<Rightarrow> None
         | Some v \<Rightarrow> if length octets = 3 then None else pton4 (octets @ [v]) None cs)
      else None)"

definition bytes_of :: "nat list \<Rightarrow> string" where
  "bytes_of ns = map char_of ns"

definition inet_pton4 :: "string \<Rightarrow> string option" where
  "inet_pton4 s = map_option bytes_of (pton4 [] None (takeWhile (\<lambda>c. c \<noteq> CHR 0x00) s))"

subsection \<open>Parsing\<close>

definition parse_port :: "string \<Rightarrow> 32 word option" where
  "parse_port port_str =
     (case stoul port_str of
        Inl e \<Rightarrow> None
      | Inr port_ul \<Rightarrow> if port_ul > 65535 then None else Some (word_of_nat port_ul))"

definition parse_host_port_tail :: "string \<Rightarrow> (string \<times> 32 word) option" where
  "parse_host_port_tail rest =
     (case rfind (CHR '':'') rest of
        None \<Rightarrow> None
      | Some colon \<Rightarrow>
          if colon = 0 then None
          else (case parse_port (drop (colon + 1) rest) of
                  None \<Rightarrow> None
                | Some port \<Rightarrow> Some (take colon rest, port)))"

definition parse_ipv6_bracketed :: "string \<Rightarrow> (string \<times> 32 word) option" where
  "parse_ipv6_bracketed rest =
     (if rest = [] \<or> hd rest \<noteq> CHR ''['' then None
      else case find_char (CHR '']'') rest of
        None \<Rightarrow> None
      | Some close_bracket \<Rightarrow>
          if close_bracket < 2 then None
          else if close_bracket + 1 \<ge> length rest \<or> rest ! (close_bracket + 1) \<noteq> CHR '':'' then None
          else (case parse_port (drop (close_bracket + 2) rest) of
                  None \<Rightarrow> None
                | Some port \<Rightarrow> Some (take (close_bracket - 1) (drop 1 rest), port)))"

definition c_string :: "string \<Rightarrow> string" where
  "c_string s = takeWhile (\<lambda>c. c \<noteq> CHR 0x00) s"

definition grpc_peer_uri_to_net_ip_addr :: "(string \<Rightarrow> string option) \<Rightarrow> string \<Rightarrow> ip_addr option" where
  "grpc_peer_uri_to_net_ip_addr pton6 peer =
     (if length peer > 5 \<and> take 5 peer = ''ipv4:'' then
        (case parse_host_port_tail (drop 5 peer) of
           None \<Rightarrow> None
         | Some (host, port) \<Rightarrow>
             (case inet_pton4 host of
                None \<Rightarrow> None
              | Some bin \<Rightarrow> Some (Ipv4 \<lparr>v4_addr = bin, v4_port = port\<rparr>)))
      else if length peer > 5 \<and> take 5 peer = ''ipv6:'' then
        (case parse_ipv6_bracketed (drop 5 peer) of
           None \<Rightarrow> None
         | Some (host, port) \<Rightarrow>
             (case pton6 (c_string host) of
                None \<Rightarrow> None
              | Some bin \<Rightarrow> Some (Ipv6 \<lparr>v6_addr = bin, v6_port = port\<rparr>)))
      else None)"

text \<open>\<open>handle_request\<close> of \<open>TellMyAddrHandler\<close> with its \<open>finish_grpc_status\<close>; the peer is the caller's.\<close>

definition tell_my_addr_impl :: "(string \<Rightarrow> string option) \<Rightarrow> string \<Rightarrow> (unit, ip_addr option, 'env) unary_impl" where
  "tell_my_addr_impl pton6 peer = (\<lambda>env req response.
     case grpc_peer_uri_to_net_ip_addr pton6 peer of
       Some a \<Rightarrow> (Some a, Status_OK, env)
     | None \<Rightarrow> (response,
         INVALID_ARGUMENT ''could not parse peer address (expected ipv4:host:port or ipv6:[host]:port)'', env))"

subsection \<open>Dotted quads\<close>

fun dotted :: "nat list \<Rightarrow> string" where
  "dotted [] = []"
| "dotted [n] = to_string n"
| "dotted (n # m # ns) = to_string n @ CHR ''.'' # dotted (m # ns)"

lemma digit_char: "is_digit c \<Longrightarrow> digit_value c < 10 \<and> char_of (48 + digit_value c) = c"
proof -
  assume "is_digit c"
  then have "digit_value c < 10" "48 + digit_value c = code_of c"
    unfolding is_digit_def digit_value_def by linarith+
  then show ?thesis by (simp add: code_of_def)
qed

lemma to_string_step: "v \<noteq> 0 \<Longrightarrow> d < 10 \<Longrightarrow> to_string (v * 10 + d) = to_string v @ [char_of (48 + d)]"
  by (subst to_string.simps) simp

lemma to_string_digit: "d < 10 \<Longrightarrow> to_string d = [char_of (48 + d)]"
  by (subst to_string.simps) simp

lemma pton4_number:
  assumes "n \<le> 255"
  shows "pton4 octets None (to_string n @ cs) = pton4 octets (Some n) cs"
  using assms
proof (induction n arbitrary: cs rule: to_string.induct)
  case (1 n)
  show ?case
  proof (cases "n < 10")
    case True
    then show ?thesis
      using is_digit_char [of n] by (simp add: to_string_digit digit_value_def code_of_char_of)
  next
    case False
    have "to_string n = to_string (n div 10) @ [char_of (48 + n mod 10)]"
      using False to_string_step [of "n div 10" "n mod 10"] by simp
    moreover have "is_digit (char_of (48 + n mod 10))" "digit_value (char_of (48 + n mod 10)) = n mod 10"
      by (simp_all add: is_digit_char digit_value_def code_of_char_of)
    moreover have "n div 10 \<noteq> 0" "n div 10 \<le> 255" using False 1(2) by presburger+
    ultimately show ?thesis
      using False 1 by simp
  qed
qed

lemma not_digit_dot: "\<not> is_digit (CHR ''.'')"
  by (simp add: is_digit_def code_of_def)

lemma pton4_dotted:
  assumes "\<forall>n \<in> set ns. n \<le> 255" and "ns \<noteq> []" and "length octets + length ns = 4"
  shows "pton4 octets None (dotted ns) = Some (octets @ ns)"
  using assms
proof (induction ns arbitrary: octets rule: dotted.induct)
  case (2 n)
  then show ?case using pton4_number [of n octets "[]"] by simp
next
  case (3 n m ns)
  then show ?case using pton4_number [of n octets] not_digit_dot by simp
qed simp

lemma pton4_only_dotted:
  assumes "pton4 octets cur s = Some os" and "length octets \<le> 3" and "\<forall>v. cur = Some v \<longrightarrow> v \<le> 255"
  shows "\<exists>ns. os = octets @ ns \<and> length os = 4 \<and> ns \<noteq> [] \<and> (\<forall>n \<in> set ns. n \<le> 255)
    \<and> (case cur of None \<Rightarrow> s | Some v \<Rightarrow> to_string v @ s) = dotted ns"
  using assms
proof (induction s arbitrary: octets cur)
  case Nil
  then obtain v where "cur = Some v" "length octets = 3" "os = octets @ [v]" "v \<le> 255"
    by (auto split: option.splits if_splits)
  then show ?case by (intro exI [of _ "[v]"]) simp
next
  case (Cons c cs)
  show ?case
  proof (cases "is_digit c")
    case True
    note dig = digit_char [OF True]
    show ?thesis
    proof (cases cur)
      case None
      then have "pton4 octets (Some (digit_value c)) cs = Some os" using Cons.prems(1) True by simp
      from Cons.IH [OF this Cons.prems(2)] dig None show ?thesis by (simp add: to_string_digit)
    next
      case (Some v)
      then have v: "v \<noteq> 0" "v * 10 + digit_value c \<le> 255"
        "pton4 octets (Some (v * 10 + digit_value c)) cs = Some os"
        using Cons.prems(1) True by (auto split: if_splits)
      from Cons.IH [OF v(3) Cons.prems(2)] v(1,2) dig Some show ?thesis
        using to_string_step [of v "digit_value c"] by simp
    qed
  next
    case False
    then obtain v where v: "cur = Some v" "c = CHR ''.''" "length octets \<noteq> 3" "pton4 (octets @ [v]) None cs = Some os"
      using Cons.prems(1) by (auto split: option.splits if_splits)
    have "length (octets @ [v]) \<le> 3" using Cons.prems(2) v(3) by simp
    from Cons.IH [OF v(4) this] obtain ns where ns: "os = (octets @ [v]) @ ns" "length os = 4" "ns \<noteq> []"
      "\<forall>n \<in> set ns. n \<le> 255" "cs = dotted ns" by auto
    then have "to_string v @ c # cs = dotted (v # ns)" using v(2) by (cases ns) simp_all
    then show ?thesis using ns v(1) Cons.prems(3) by (intro exI [of _ "v # ns"]) simp
  qed
qed

text \<open>What the IPv4 parser accepts: the decimal text of four octets, up to the first NUL.\<close>

lemma inet_pton4_iff:
  "inet_pton4 s = Some bin \<longleftrightarrow>
    (\<exists>ns. length ns = 4 \<and> (\<forall>n \<in> set ns. n \<le> 255) \<and> c_string s = dotted ns \<and> bin = bytes_of ns)"
proof
  assume "inet_pton4 s = Some bin"
  then obtain os where os: "pton4 [] None (c_string s) = Some os" "bin = bytes_of os"
    by (auto simp: inet_pton4_def c_string_def)
  from pton4_only_dotted [OF this(1)] os(2)
  show "\<exists>ns. length ns = 4 \<and> (\<forall>n \<in> set ns. n \<le> 255) \<and> c_string s = dotted ns \<and> bin = bytes_of ns" by auto
next
  assume "\<exists>ns. length ns = 4 \<and> (\<forall>n \<in> set ns. n \<le> 255) \<and> c_string s = dotted ns \<and> bin = bytes_of ns"
  then obtain ns where "length ns = 4" "\<forall>n \<in> set ns. n \<le> 255" "c_string s = dotted ns" "bin = bytes_of ns" by blast
  moreover from this have "pton4 [] None (dotted ns) = Some ns" using pton4_dotted [of ns "[]"] by fastforce
  ultimately show "inet_pton4 s = Some bin" by (simp add: inet_pton4_def c_string_def)
qed

subsection \<open>The address of a peer\<close>

lemma rfind_last: "c \<notin> set ys \<Longrightarrow> rfind c (xs @ c # ys) = Some (length xs)"
proof -
  assume "c \<notin> set ys"
  then have "takeWhile (\<lambda>x. x \<noteq> c) (rev ys @ c # rev xs) = rev ys"
    by (auto simp: takeWhile_tail takeWhile_append2)
  then show ?thesis by (simp add: rfind_def Let_def)
qed

lemma to_string_head: "\<exists>d ds. to_string n = d # ds \<and> is_digit d"
  using to_string_nonempty [of n] to_string_digits [of n] by (cases "to_string n") auto

lemma stoul_to_string: "n < 2 ^ 64 \<Longrightarrow> stoul (to_string n) = Inr n"
proof -
  assume n: "n < 2 ^ 64"
  obtain d ds where d: "to_string n = d # ds" "is_digit d" using to_string_head by blast
  then have "\<not> is_space d" "d \<noteq> CHR ''-''" "d \<noteq> CHR ''+''"
    by (auto simp: is_digit_def is_space_def code_of_def)
  moreover have tw: "takeWhile is_digit ds = ds"
    using takeWhile_to_string [of n] d by (simp add: takeWhile_eq_all_conv)
  ultimately show ?thesis
    using n d decimal_to_string [of n] by (simp add: stoul_def Let_def tw)
qed

lemma parse_port_printed: "n \<le> 65535 \<Longrightarrow> parse_port (to_string n) = Some (word_of_nat n)"
  by (simp add: parse_port_def stoul_to_string)

lemma colon_not_in_number: "CHR '':'' \<notin> set (to_string n)"
  using to_string_digits [of n] by (auto simp: list_all_iff is_digit_def code_of_def)

lemma printed_ipv4_read:
  assumes r: "a \<le> 255 \<and> b \<le> 255 \<and> c \<le> 255 \<and> d \<le> 255 \<and> port \<le> 65535"
  shows "grpc_peer_uri_to_net_ip_addr pton6 (''ipv4:'' @ dotted [a, b, c, d] @ '':'' @ to_string port)
    = Some (Ipv4 \<lparr>v4_addr = bytes_of [a, b, c, d], v4_port = word_of_nat port\<rparr>)"
proof -
  let ?host = "dotted [a, b, c, d]"
  have nul: "CHR 0x00 \<notin> set (to_string n)" for n
    using to_string_digits [of n] by (auto simp: list_all_iff is_digit_def code_of_def)
  then have "c_string ?host = ?host" by (auto simp: c_string_def takeWhile_eq_all_conv)
  then have host: "inet_pton4 ?host = Some (bytes_of [a, b, c, d])"
    using r by (subst inet_pton4_iff) (intro exI [of _ "[a, b, c, d]"], simp)
  have "rfind (CHR '':'') (?host @ CHR '':'' # to_string port) = Some (length ?host)"
    by (rule rfind_last) (rule colon_not_in_number)
  moreover have "length ?host \<noteq> 0" by simp
  ultimately have "parse_host_port_tail (?host @ '':'' @ to_string port) = Some (?host, word_of_nat port)"
    using parse_port_printed r by (simp add: parse_host_port_tail_def del: dotted.simps)
  then show ?thesis
    using host by (simp add: grpc_peer_uri_to_net_ip_addr_def numeral_eq_Suc del: dotted.simps)
qed

lemma accepted_ipv4_printed:
  assumes "grpc_peer_uri_to_net_ip_addr pton6 peer = Some (Ipv4 addr)"
  shows "\<exists>ns host tail. length ns = 4 \<and> (\<forall>n \<in> set ns. n \<le> 255) \<and> v4_addr addr = bytes_of ns
      \<and> c_string host = dotted ns \<and> peer = ''ipv4:'' @ host @ tail \<and> v4_port addr \<le> 65535"
proof -
  obtain host port where peer: "take 5 peer = ''ipv4:''" "parse_host_port_tail (drop 5 peer) = Some (host, port)"
    and bin: "inet_pton4 host = Some (v4_addr addr)" and port: "v4_port addr = port"
    using assms by (auto simp: grpc_peer_uri_to_net_ip_addr_def split: if_splits option.splits prod.splits)
  obtain colon where "host = take colon (drop 5 peer)" and p: "parse_port (drop (colon + 1) (drop 5 peer)) = Some port"
    using peer(2) by (auto simp: parse_host_port_tail_def split: option.splits if_splits)
  then have "peer = ''ipv4:'' @ host @ drop colon (drop 5 peer)"
    using peer(1) by (metis append_take_drop_id)
  moreover have "port \<le> 65535"
    using p by (auto simp: parse_port_def word_le_nat_alt unat_of_nat take_bit_eq_mod split: sum.splits if_splits)
  moreover obtain ns where "length ns = 4" "\<forall>n \<in> set ns. n \<le> 255" "c_string host = dotted ns" "v4_addr addr = bytes_of ns"
    using bin inet_pton4_iff by blast
  ultimately show ?thesis
    using port by blast
qed

text \<open>
  C35. The IPv4 addresses that gRPC prints are read back: four octets and a port in decimal give the four
  bytes and the port; and whatever is accepted as IPv4 has a host that is exactly the decimal text of
  the four bytes that are returned, and a port of at most 65535.
\<close>

theorem peer_uri_roundtrip:
  "(\<forall>a b c d port. a \<le> 255 \<and> b \<le> 255 \<and> c \<le> 255 \<and> d \<le> 255 \<and> port \<le> 65535 \<longrightarrow>
      grpc_peer_uri_to_net_ip_addr pton6 (''ipv4:'' @ dotted [a, b, c, d] @ '':'' @ to_string port)
        = Some (Ipv4 \<lparr>v4_addr = bytes_of [a, b, c, d], v4_port = word_of_nat port\<rparr>))
   \<and> (\<forall>peer addr. grpc_peer_uri_to_net_ip_addr pton6 peer = Some (Ipv4 addr) \<longrightarrow>
      (\<exists>ns host tail. length ns = 4 \<and> (\<forall>n \<in> set ns. n \<le> 255) \<and> v4_addr addr = bytes_of ns \<and> c_string host = dotted ns
         \<and> peer = ''ipv4:'' @ host @ tail \<and> v4_port addr \<le> 65535))"
  using printed_ipv4_read accepted_ipv4_printed by blast

theorem peer_uri_roundtrip_witness:
  "grpc_peer_uri_to_net_ip_addr (\<lambda>_. None) ''ipv4:10.0.0.255:8080'' = Some (Ipv4 \<lparr>v4_addr = bytes_of [10, 0, 0, 255], v4_port = 8080\<rparr>)"
proof -
  have "dotted [10, 0, 0, 255] = ''10.0.0.255''" "to_string 8080 = ''8080''"
    by (simp_all add: to_string.simps char_of_eq_iff)
  then show ?thesis using peer_uri_roundtrip [of "\<lambda>_. None", THEN conjunct1, rule_format, of 10 0 0 255 8080] by simp
qed

text \<open>
  The port of a peer is taken from any text that begins with a number: spaces and a plus sign
  before it and anything behind it are ignored, and a minus sign turns it around, so that two
  different texts give the same address.
\<close>

theorem peer_port_is_lenient:
  assumes "port \<le> 65535" and "junk = [] \<or> \<not> is_digit (hd junk)" and "CHR '':'' \<notin> set junk"
    and "set spaces \<subseteq> {CHR '' ''}" and "host \<noteq> []"
  shows "parse_host_port_tail (host @ '':'' @ spaces @ ''+'' @ to_string port @ junk) = Some (host, word_of_nat port)
    \<and> (0 < port \<longrightarrow> parse_host_port_tail (host @ '':-'' @ to_string (2 ^ 64 - port)) = Some (host, word_of_nat port))"
proof
  have spaces: "dropWhile is_space (spaces @ s) = dropWhile is_space s" for s
    using assms(4) by (induction spaces) (auto simp: is_space_def code_of_def)
  have sign: "\<not> is_space (CHR ''+'')" "\<not> is_space (CHR ''-'')" by (simp_all add: is_space_def code_of_def)
  have digits: "takeWhile is_digit (to_string n @ junk) = to_string n" for n
  proof -
    have "takeWhile is_digit junk = []" using assms(2) by (cases junk) auto
    then show ?thesis using to_string_digits [of n] by (simp add: takeWhile_append2 list_all_iff)
  qed
  have "stoul (spaces @ ''+'' @ to_string port @ junk) = Inr port"
    using assms(1) digits [of port] decimal_to_string [of port] to_string_nonempty [of port] sign
    by (simp add: stoul_def spaces Let_def)
  then have p: "parse_port (spaces @ ''+'' @ to_string port @ junk) = Some (word_of_nat port)"
    using assms(1) by (simp add: parse_port_def)
  have "rfind (CHR '':'') (host @ CHR '':'' # (spaces @ ''+'' @ to_string port @ junk)) = Some (length host)"
    by (rule rfind_last) (use assms(3,4) colon_not_in_number in auto)
  then show "parse_host_port_tail (host @ '':'' @ spaces @ ''+'' @ to_string port @ junk) = Some (host, word_of_nat port)"
    using p assms(5) by (simp add: parse_host_port_tail_def)
  show "0 < port \<longrightarrow> parse_host_port_tail (host @ '':-'' @ to_string (2 ^ 64 - port)) = Some (host, word_of_nat port)"
  proof
    assume pos: "0 < port"
    have "stoul (''-'' @ to_string (2 ^ 64 - port)) = Inr port"
      using assms(1) pos decimal_to_string [of "2 ^ 64 - port"] to_string_nonempty [of "2 ^ 64 - port"] sign
      by (simp add: stoul_def Let_def takeWhile_to_string)
    then have p: "parse_port (''-'' @ to_string (2 ^ 64 - port)) = Some (word_of_nat port)"
      using assms(1) by (simp add: parse_port_def)
    have "rfind (CHR '':'') (host @ CHR '':'' # (''-'' @ to_string (2 ^ 64 - port))) = Some (length host)"
      by (rule rfind_last) (use colon_not_in_number in auto)
    then show "parse_host_port_tail (host @ '':-'' @ to_string (2 ^ 64 - port)) = Some (host, word_of_nat port)"
      using p assms(5) by (simp add: parse_host_port_tail_def)
  qed
qed

theorem peer_port_is_lenient_witness:
  "parse_host_port_tail ''h: +80xyz'' = Some (''h'', 80)"
proof -
  have "to_string 80 = ''80''" by (simp add: to_string.simps char_of_eq_iff)
  then show ?thesis
    using peer_port_is_lenient [of 80 "''xyz''" "'' ''" "''h''"] by (simp add: is_digit_def code_of_def)
qed

end
