(* ===== verification/Message_Service.thy ===== *)
theory Message_Service
  imports Event_Engine Auth_Store
begin

text \<open>
  The unary handler \<open>Send\<close> of the message service (\<open>minion/message/message_send.cc\<close>, \<open>.h\<close>): it
  authenticates a signed message, reserves a port and runs the incoming side of a hole punch. Here the
  trust store, the sockets and the event engine meet.
\<close>

text \<open>\<open>handle_request\<close>; an exception of the reservation is not caught.\<close>

definition message_send_handle_request ::
  "('x, 'k) openssl \<Rightarrow> protobuf \<Rightarrow> 'k auth_store option \<Rightarrow> net_env \<Rightarrow> bool \<Rightarrow> signed_message
   \<Rightarrow> net_os \<times> listener_state \<Rightarrow> send_message_status result \<times> net_os \<times> listener_state" where
  "message_send_handle_request S P store E handshake_ok msg = (\<lambda>(os, ls).
     case authenticate_signed_message_data S P store msg of
       Inl e \<Rightarrow> (Inl e, os, ls)
     | Inr UnknownSender \<Rightarrow> (Inr REJECTED, os, ls)
     | Inr BadSignature \<Rightarrow> (Inr REJECTED, os, ls)
     | Inr BadPayload \<Rightarrow> (Inr FAILED, os, ls)
     | Inr (AuthOk data) \<Rightarrow>
         (case md_m data of
            Some (Hole_punch params) \<Rightarrow>
              (case hp_dst params of
                 Some (Ipv4 dst) \<Rightarrow>
                   (case tcpv4_bind_random_port E 12345 23456 (replicate 4 (CHR 0x00)) 32 os of
                      (Inl e, os1) \<Rightarrow> (Inl e, os1, ls)
                    | (Inr reservation, os1) \<Rightarrow>
                        if \<not> unique_fd_valid (rs_fd reservation) then (Inr FAILED, os1, ls)
                        else
                          (case tcpv4_addr_from_socket E (rs_fd reservation) os1 of
                             (Inl e, os2) \<Rightarrow> (Inr FAILED, unique_fd_reset E (rs_fd reservation) os2, ls)
                           | (Inr src, os2) \<Rightarrow>
                               (case RunSignaledIncomingHolePunch E handshake_ok (rs_fd reservation)
                                       (params\<lparr>hp_src := Some (Ipv4 src)\<rparr>) (os2, ls) of
                                  (st, os3, ls3) \<Rightarrow>
                                    if st \<noteq> Conn_ok then (Inr FAILED, os3, ls3) else (Inr StatusOK, os3, ls3))))
               | _ \<Rightarrow> (Inr FAILED, os, ls))
          | _ \<Rightarrow> (Inr REJECTED, os, ls)))"

subsection \<open>What a sender can reach\<close>

definition authentic :: "('x, 'k) openssl \<Rightarrow> protobuf \<Rightarrow> 'k auth_store option \<Rightarrow> signed_message \<Rightarrow> message_data \<Rightarrow> bool" where
  "authentic S P store msg data = (authenticate_signed_message_data S P store msg = Inr (AuthOk data))"

definition no_listener :: listener_state where
  "no_listener = \<lparr>ls_live = {}, ls_next = 0, ls_active = None, ls_accepted = []\<rparr>"

text \<open>
  Only an authentic hole-punch message with an IPv4 destination makes the node open a socket: after
  any other message the descriptors, and all of the system's state, are as they were.
\<close>

theorem unauthenticated_send_opens_nothing:
  assumes "\<not> (\<exists>data params dst. authentic S P store msg data \<and> md_m data = Some (Hole_punch params)
      \<and> hp_dst params = Some (Ipv4 dst))"
    and "message_send_handle_request S P store E ok msg (os, ls) = (r, os', ls')"
  shows "os' = os \<and> ls' = ls \<and> r \<noteq> Inr StatusOK"
  using assms
  by (auto simp: message_send_handle_request_def authentic_def
      split: sum.splits signed_payload_auth_result.splits option.splits message_m.splits ip_addr.splits)

theorem unauthenticated_send_opens_nothing_witness:
  "message_send_handle_request toy_openssl toy_protobuf None calm_env True toy_message (os_with [3], no_listener) = (Inr REJECTED, os_with [3], no_listener)"
proof -
  have auth: "authenticate_signed_message_data toy_openssl toy_protobuf (None :: string auth_store option) toy_message = Inr UnknownSender"
    by (simp add: authenticate_signed_message_data_def)
  obtain r os' ls' where run: "message_send_handle_request toy_openssl toy_protobuf None calm_env True toy_message (os_with [3], no_listener) = (r, os', ls')"
    by (rule prod_cases3)
  have "os' = os_with [3] \<and> ls' = no_listener"
    using unauthenticated_send_opens_nothing [OF _ run] auth by (simp add: authentic_def)
  moreover have "r = Inr REJECTED" using run auth by (simp add: message_send_handle_request_def)
  ultimately show ?thesis using run by simp
qed

lemma signaled_pair:
  "RunSignaledIncomingHolePunch E ok fd params (os, ls) = (st, os', ls') \<Longrightarrow> st \<noteq> Conn_ok \<and> ls' = ls"
  using signaled_never_ok [of E ok fd params os ls] by simp

text \<open>
  A \<open>Send\<close> never succeeds: no message, signed by whoever and whatever the system does, is answered
  with OK, and the listener of the server never gets a connection.
\<close>

theorem send_never_ok:
  assumes "message_send_handle_request S P store E ok msg (os, ls) = (r, os', ls')"
  shows "r \<noteq> Inr StatusOK \<and> ls' = ls"
  using assms
  by (auto dest: signaled_pair simp: message_send_handle_request_def
      split: sum.splits signed_payload_auth_result.splits option.splits message_m.splits ip_addr.splits prod.splits if_splits)

theorem send_never_ok_witness:
  "fst (message_send_handle_request toy_openssl toy_protobuf None calm_env True toy_message (os_with [3], no_listener)) \<noteq> Inr StatusOK"
proof -
  obtain r os' ls' where run: "message_send_handle_request toy_openssl toy_protobuf None calm_env True toy_message (os_with [3], no_listener) = (r, os', ls')"
    by (rule prod_cases3)
  then show ?thesis using send_never_ok [OF run] by simp
qed

subsection \<open>Descriptors\<close>

text \<open>A system on which every call succeeds.\<close>

definition healthy :: "net_env \<Rightarrow> bool" where
  "healthy E = (\<forall>k. ne_socket E k \<and> ne_setsockopt E k \<and> ne_bind E k \<and> ne_listen E k \<and> ne_getsockname E k \<noteq> None)"

lemma reserve_try_healthy:
  assumes "healthy E"
  shows "\<exists>res os'. reserve_try E ip port os = (Inr (Some res), os')"
proof -
  let ?n = "lowest_free (os_fds os)"
  have "?n \<in> set (?n # os_fds os)" by simp
  then show ?thesis
    using assms
    by (simp add: healthy_def reserve_try_def with_fds_def bind_net_def new_socket_result new_fd_def counted_def
        unique_fd_assign_def unique_fd_reset_def tcpv4_port_reuse_def ccall_def sys_plain_def sys_bind_def fd_open_def
        unique_fd_handle_def ret_def throw_def Let_def)
qed

lemma reserve_healthy:
  assumes "healthy E" and "min_port \<le> max_port" and "0 < tries"
  shows "\<exists>res os'. tcpv4_bind_random_port E min_port max_port ip tries os = (Inr res, os') \<and> 0 \<le> rs_fd res"
proof -
  obtain k where k: "nat tries = Suc k" using assms(3) by (metis gr0_conv_Suc zero_less_nat_eq)
  define port where "port = min_port + word_of_nat (ne_random E (os_calls os) mod Suc (unat max_port - unat min_port))"
  obtain res os' where t: "reserve_try E ip port (counted os) = (Inr (Some res), os')"
    using reserve_try_healthy [OF assms(1)] by blast
  have "rs_fd res = int (lowest_free (os_fds (counted os)))" using reserve_try_result [OF t] by simp
  moreover have "tcpv4_bind_random_port E min_port max_port ip tries os = (Inr res, os')"
    using assms(2) k t
    by (simp add: tcpv4_bind_random_port_def not_less [symmetric] bind_net_def sys_random_def port_def ret_def Let_def)
  ultimately show ?thesis by simp
qed

text \<open>
  Each authentic hole-punch message costs a descriptor for good: on a system on which every call
  succeeds, handling it leaves open everything that was open and one descriptor more, so that the
  process runs out of them after as many messages as it may open files.
\<close>

theorem send_leaks_a_descriptor:
  assumes "healthy E" and "distinct (os_fds os)"
    and "authentic S P store msg data" and "md_m data = Some (Hole_punch params)" and "hp_dst params = Some (Ipv4 dst)"
    and "message_send_handle_request S P store E ok msg (os, ls) = (r, os', ls')"
  shows "\<exists>leaked. leaked \<notin> set (os_fds os) \<and> set (os_fds os') = insert leaked (set (os_fds os))"
proof -
  obtain res os1 where res: "tcpv4_bind_random_port E 12345 23456 (replicate 4 (CHR 0x00)) 32 os = (Inr res, os1)" "0 \<le> rs_fd res"
    using reserve_healthy [OF assms(1), of 12345 23456 32 "replicate 4 (CHR 0x00)" os] by auto
  then obtain n where n: "rs_fd res = int n" "n \<notin> set (os_fds os)" "os_fds os1 = n # os_fds os"
    using random_port_result [OF res(1)] by (auto simp: unique_fd_valid_def split: if_splits)
  have opened: "fd_open os1 (rs_fd res)" using n by (simp add: fd_open_def)
  have "ne_getsockname E (os_calls os1) \<noteq> None" using assms(1) by (simp add: healthy_def)
  then obtain p where "ne_getsockname E (os_calls os1) = Some p" by blast
  then have name: "tcpv4_addr_from_socket E (rs_fd res) os1 = (Inr (peer_addr p), counted os1)"
    using opened by (simp add: tcpv4_addr_from_socket_def net_defs sys_getsockname_def)
  define params1 where "params1 = params\<lparr>hp_src := Some (Ipv4 (peer_addr p))\<rparr>"
  obtain r2 os2 where punch: "tcpv4_hole_punch E (rs_fd res) params1 (counted os1) = (r2, os2)" by fastforce
  have fds: "os_fds (counted os1) = n # os_fds os" "os_calls (counted os1) = Suc (os_calls os1)"
    using n by (simp_all add: counted_def)
  have "distinct (os_fds (counted os1))" using fds n assms(2) by simp
  from hole_punch_throws [OF punch this]
  have p2: "\<exists>e. r2 = Inl e" "set (os_fds os2) = insert (lowest_free (n # os_fds os)) (set (n # os_fds os) - {n})"
    using assms(1,5) n fds by (auto simp: healthy_def params1_def fd_open_def)
  have "message_send_handle_request S P store E ok msg (os, ls) =
      (Inr FAILED, os2, ls)"
    using assms(3-5) res n name punch p2(1)
    by (auto simp: message_send_handle_request_def authentic_def unique_fd_valid_def RunSignaledIncomingHolePunch_def
        PerformHolePunchAndHandshake_def params1_def)
  then have "os' = os2" using assms(6) by simp
  moreover have "lowest_free (n # os_fds os) \<notin> set (n # os_fds os)" by (rule lowest_free_fresh)
  ultimately show ?thesis using p2(2) n(2) by (intro exI [of _ "lowest_free (n # os_fds os)"]) auto
qed

definition punch_protobuf :: protobuf where
  "punch_protobuf = \<lparr>SerializeToString = (\<lambda>m. None),
     ParseFromString = (\<lambda>s. Some (empty_message_data\<lparr>md_m := Some (Hole_punch some_punch)\<rparr>))\<rparr>"

theorem send_leaks_a_descriptor_witness:
  "\<exists>r os' ls'. message_send_handle_request toy_openssl punch_protobuf (Some (auth_run toy_openssl toy_history auth_store_new))
      (calm_env\<lparr>ne_getsockname := (\<lambda>k. Some (''abcd'', 80))\<rparr>) True toy_message (os_with [0, 1, 2], no_listener) = (r, os', ls')
    \<and> (\<exists>leaked. leaked \<notin> {0, 1, 2} \<and> set (os_fds os') = {leaked, 0, 1, 2})"
proof -
  let ?E = "calm_env\<lparr>ne_getsockname := (\<lambda>k. Some (''abcd'', 80))\<rparr>"
  let ?store = "Some (auth_run toy_openssl toy_history auth_store_new)"
  obtain r os' ls' where run: "message_send_handle_request toy_openssl punch_protobuf ?store ?E True toy_message (os_with [0, 1, 2], no_listener) = (r, os', ls')"
    by (rule prod_cases3)
  have auth: "authentic toy_openssl punch_protobuf ?store toy_message (empty_message_data\<lparr>md_m := Some (Hole_punch some_punch)\<rparr>)"
    unfolding toy_store authentic_def
    by (simp add: authenticate_iff toy_message_def toy_peer_def punch_protobuf_def empty_signed_message_def)
  have "healthy ?E" by (simp add: healthy_def calm_env_def)
  from send_leaks_a_descriptor [OF this _ auth _ _ run] show ?thesis
    using run by (simp add: os_with_def some_punch_def)
qed

end
