(* ===== verification/Node_Resolver.thy ===== *)
theory Node_Resolver
  imports Tcpv4 Auth_Store
begin

text \<open>
  The name resolver of the node scheme (\<open>common/grpc/resolver.cc\<close>, \<open>.h\<close>): it reserves a port, sends a
  signed hole-punch request to the peer and reports an address that carries the reserved socket. The
  methods run one at a time on the resolver's serializer, the completion of the request being a step of
  its own. A \<open>ClientContext\<close> that is destroyed while its request is outstanding, and an empty optional
  that is read, are \<open>UndefinedBehaviour\<close>; exceptions are not caught.
\<close>

datatype resolver_report =
    Report_error string
  | Report_address int hole_punch_parameters

text \<open>A context is its number; \<open>nr_rpcs\<close> are the contexts of the outstanding requests.\<close>

record node_resolver =
  nr_node_id :: string
  nr_resolving :: bool
  nr_reservation :: "reserved_socket option"
  nr_context :: "nat option"
  nr_contexts :: nat
  nr_rpcs :: "nat list"
  nr_request :: signed_message
  nr_reports :: "resolver_report list"
  nr_os :: net_os

definition node_resolver_new :: "string \<Rightarrow> net_os \<Rightarrow> node_resolver" where
  "node_resolver_new node_id os =
     \<lparr>nr_node_id = node_id, nr_resolving = False, nr_reservation = None, nr_context = None, nr_contexts = 0, nr_rpcs = [],
      nr_request = empty_signed_message, nr_reports = [], nr_os = os\<rparr>"

text \<open>Assigning to the optional and resetting it close the socket that it held.\<close>

definition close_reservation :: "net_env \<Rightarrow> node_resolver \<Rightarrow> net_os" where
  "close_reservation E n =
     (case nr_reservation n of None \<Rightarrow> nr_os n | Some r \<Rightarrow> unique_fd_reset E (rs_fd r) (nr_os n))"

definition any_addr :: string where "any_addr = replicate 4 (CHR 0x00)"

definition reserve_port :: "net_env \<Rightarrow> reserved_socket net" where
  "reserve_port E = tcpv4_bind_random_port E 12345 23456 any_addr 32"

text \<open>The request; the three floats are 5, 6 and 2.5.\<close>

definition punch_request :: "16 word \<Rightarrow> message_data" where
  "punch_request port = empty_message_data\<lparr>md_m := Some (Hole_punch
     \<lparr>hp_src = Some (Ipv4 \<lparr>v4_addr = any_addr, v4_port = ucast port\<rparr>),
      hp_dst = Some (Ipv4 \<lparr>v4_addr = any_addr, v4_port = 0\<rparr>),
      hp_start_time_ms = 1234, hp_connect_sec_start = 0x40A00000, hp_connect_sec_max = 0x40C00000,
      hp_connect_sec_scale = 0x40200000, hp_connect_count = 4\<rparr>)\<rparr>"

definition default_punch :: hole_punch_parameters where
  "default_punch = \<lparr>hp_src = None, hp_dst = None, hp_start_time_ms = 0, hp_connect_sec_start = 0, hp_connect_sec_max = 0,
     hp_connect_sec_scale = 0, hp_connect_count = 0\<rparr>"

text \<open>A method ends with a result or an exception, and leaves the resolver as it then is.\<close>

definition new_context :: "node_resolver \<Rightarrow> unit result \<times> node_resolver" where
  "new_context n =
     (if \<exists>c. nr_context n = Some c \<and> c \<in> set (nr_rpcs n) then (Inl UndefinedBehaviour, n)
      else (Inr (), n\<lparr>nr_context := Some (nr_contexts n), nr_contexts := Suc (nr_contexts n)\<rparr>))"

definition send_request ::
  "('x, 'k) openssl \<Rightarrow> protobuf \<Rightarrow> 'k auth_store \<Rightarrow> reserved_socket \<Rightarrow> node_resolver \<Rightarrow> unit result \<times> node_resolver" where
  "send_request S P store res n =
     (case sign_message S P store (punch_request (rs_port res)) (nr_node_id n) False of
        Inl e \<Rightarrow> (Inl e, n)
      | Inr req \<Rightarrow> (Inr (), n\<lparr>nr_request := req, nr_rpcs := nr_rpcs n @ [the (nr_context n)]\<rparr>))"

definition no_ports :: string where "no_ports = ''No ports available in configured range''"

text \<open>A port is reserved here only when none is held; the assignment closes what the optional held.\<close>

definition StartHolePunching ::
  "('x, 'k) openssl \<Rightarrow> protobuf \<Rightarrow> 'k auth_store \<Rightarrow> net_env \<Rightarrow> node_resolver \<Rightarrow> unit result \<times> node_resolver" where
  "StartHolePunching S P store E n =
     (case new_context n of
        (Inl e, n) \<Rightarrow> (Inl e, n)
      | (Inr _, n) \<Rightarrow>
          (case (case nr_reservation n of Some res \<Rightarrow> if unique_fd_valid (rs_fd res) then Some res else None | None \<Rightarrow> None) of
             Some res \<Rightarrow> send_request S P store res n
           | None \<Rightarrow>
               (case reserve_port E (nr_os n) of
                  (Inl e, os) \<Rightarrow> (Inl e, n\<lparr>nr_os := os\<rparr>)
                | (Inr res, os) \<Rightarrow>
                    let n = n\<lparr>nr_os := close_reservation E (n\<lparr>nr_os := os\<rparr>), nr_reservation := Some res\<rparr> in
                    if \<not> unique_fd_valid (rs_fd res)
                    then (Inr (), n\<lparr>nr_resolving := False, nr_reports := nr_reports n @ [Report_error no_ports]\<rparr>)
                    else send_request S P store res n)))"

definition StartLocked ::
  "('x, 'k) openssl \<Rightarrow> protobuf \<Rightarrow> 'k auth_store \<Rightarrow> net_env \<Rightarrow> node_resolver \<Rightarrow> unit result \<times> node_resolver" where
  "StartLocked S P store E n =
     (if nr_resolving n then (Inr (), n)
      else let n = n\<lparr>nr_resolving := True\<rparr> in
        case reserve_port E (nr_os n) of
          (Inl e, os) \<Rightarrow> (Inl e, n\<lparr>nr_os := os\<rparr>)
        | (Inr res, os) \<Rightarrow>
            let n = n\<lparr>nr_os := os\<rparr> in
            if \<not> unique_fd_valid (rs_fd res) then (Inr (), n\<lparr>nr_resolving := False\<rparr>)
            else StartHolePunching S P store E (n\<lparr>nr_os := close_reservation E n, nr_reservation := Some res\<rparr>))"

definition RequestReresolutionLocked ::
  "('x, 'k) openssl \<Rightarrow> protobuf \<Rightarrow> 'k auth_store \<Rightarrow> net_env \<Rightarrow> node_resolver \<Rightarrow> unit result \<times> node_resolver" where
  "RequestReresolutionLocked = StartLocked"

text \<open>\<open>ResetBackoffLocked\<close> does nothing.\<close>

definition ResetBackoffLocked :: "node_resolver \<Rightarrow> node_resolver" where "ResetBackoffLocked n = n"

definition FinishResolution :: "node_resolver \<Rightarrow> unit result \<times> node_resolver" where
  "FinishResolution n =
     (case nr_reservation n of
        None \<Rightarrow> (Inl UndefinedBehaviour, n)
      | Some res \<Rightarrow> (Inr (), n\<lparr>nr_resolving := False, nr_reservation := None,
          nr_reports := nr_reports n @ [Report_address (rs_fd res) default_punch]\<rparr>))"

text \<open>The completion of the request of the context \<open>c\<close>.\<close>

definition OnHolePunchingDone :: "net_env \<Rightarrow> nat \<Rightarrow> bool \<Rightarrow> node_resolver \<Rightarrow> unit result \<times> node_resolver" where
  "OnHolePunchingDone E c ok n =
     (let n = n\<lparr>nr_rpcs := remove1 c (nr_rpcs n)\<rparr> in
      if \<not> ok
      then (Inr (), n\<lparr>nr_resolving := False, nr_os := close_reservation E n, nr_reservation := None,
             nr_reports := nr_reports n @ [Report_error ''Hole Punch Signaling Failed: '']\<rparr>)
      else FinishResolution n)"

text \<open>\<open>TryCancel\<close> only asks for a completion with an error.\<close>

definition ShutdownLocked :: "node_resolver \<Rightarrow> node_resolver" where
  "ShutdownLocked n = n\<lparr>nr_resolving := False\<rparr>"

subsection \<open>Runs\<close>

datatype resolver_event = Ev_start | Ev_reresolve | Ev_backoff | Ev_done nat bool | Ev_shutdown

definition resolver_step ::
  "('x, 'k) openssl \<Rightarrow> protobuf \<Rightarrow> 'k auth_store \<Rightarrow> net_env \<Rightarrow> resolver_event \<Rightarrow> node_resolver \<Rightarrow> unit result \<times> node_resolver" where
  "resolver_step S P store E ev n = (case ev of
      Ev_start \<Rightarrow> StartLocked S P store E n
    | Ev_reresolve \<Rightarrow> RequestReresolutionLocked S P store E n
    | Ev_backoff \<Rightarrow> (Inr (), ResetBackoffLocked n)
    | Ev_done c ok \<Rightarrow> if c \<in> set (nr_rpcs n) then OnHolePunchingDone E c ok n else (Inr (), n)
    | Ev_shutdown \<Rightarrow> (Inr (), ShutdownLocked n))"

text \<open>
  A run goes on after an exception and collects them: whoever catches the exception keeps the resolver,
  and the run in which nobody does is a prefix.
\<close>

fun resolver_run ::
  "('x, 'k) openssl \<Rightarrow> protobuf \<Rightarrow> 'k auth_store \<Rightarrow> net_env \<Rightarrow> resolver_event list \<Rightarrow> node_resolver \<Rightarrow> exn list \<times> node_resolver" where
  "resolver_run S P store E [] n = ([], n)"
| "resolver_run S P store E (ev # evs) n =
     (case resolver_step S P store E ev n of
        (Inl e, n) \<Rightarrow> (case resolver_run S P store E evs n of (es, n) \<Rightarrow> (e # es, n))
      | (Inr _, n) \<Rightarrow> resolver_run S P store E evs n)"

text \<open>The sockets that were reported, and the one that is held.\<close>

fun reported :: "resolver_report list \<Rightarrow> int list" where
  "reported [] = []"
| "reported (Report_error t # rs) = reported rs"
| "reported (Report_address fd params # rs) = fd # reported rs"

definition held :: "node_resolver \<Rightarrow> int list" where
  "held n = (case nr_reservation n of None \<Rightarrow> [] | Some res \<Rightarrow> if unique_fd_valid (rs_fd res) then [rs_fd res] else [])"

text \<open>
  What always holds when \<open>fds\<close> are the descriptors that others have: the open descriptors are exactly those, the
  reported ones and the held one, each once; a request has its own context and a held socket.
\<close>

definition resolver_ok :: "nat list \<Rightarrow> node_resolver \<Rightarrow> bool" where
  "resolver_ok fds n =
     ((nr_rpcs n = [] \<or> (\<exists>c. nr_rpcs n = [c] \<and> nr_context n = Some c \<and> held n \<noteq> []))
      \<and> mset (map int (os_fds (nr_os n))) = mset (map int fds) + mset (reported (nr_reports n)) + mset (held n)
      \<and> distinct (os_fds (nr_os n))
      \<and> (\<forall>fd params. Report_address fd params \<in> set (nr_reports n) \<longrightarrow> params = default_punch)
      \<and> Report_error no_ports \<notin> set (nr_reports n))"

text \<open>Until the shutdown a resolver that is not resolving has no request and holds nothing.\<close>

definition resolver_inv :: "nat list \<Rightarrow> node_resolver \<Rightarrow> bool" where
  "resolver_inv fds n =
     (resolver_ok fds n \<and> (\<not> nr_resolving n \<longrightarrow> nr_rpcs n = [] \<and> nr_reservation n = None))"

lemma reported_append [simp]: "reported (xs @ ys) = reported xs @ reported ys"
  by (induction xs rule: reported.induct) simp_all

lemma sign_not_ub: "sign_message S P store d i b \<noteq> Inl UndefinedBehaviour"
  by (auto simp: sign_message_def fillMessageData_def signer_sign_def bind_result_def Let_def split: option.splits sum.splits)

text \<open>What the calls throw is a connection error.\<close>

definition defined :: "'a net \<Rightarrow> bool" where
  "defined m = (\<forall>os. fst (m os) \<noteq> Inl UndefinedBehaviour)"

lemma defined_bind: "defined m \<Longrightarrow> (\<And>x. defined (f x)) \<Longrightarrow> defined (bind_net m f)"
  unfolding defined_def bind_net_def by (auto split: prod.split sum.split) (metis fst_conv)+

lemma defined_calls:
  "defined (ret x)" "defined (sys_socket E nb)" "defined (sys_plain c fd)" "defined (sys_bind E fd a)"
  "defined (sys_random E)" "defined (unique_fd_assign E fd)" "defined unique_fd_handle" "defined (throw (ConnectionError d))"
  by (simp_all add: defined_def ret_def sys_socket_def new_fd_def sys_plain_def sys_bind_def sys_random_def
      unique_fd_assign_def unique_fd_handle_def throw_def Let_def)

lemma defined_ccall: "defined m \<Longrightarrow> defined (ccall d m)"
  unfolding ccall_def by (rule defined_bind) (simp_all add: defined_calls)

lemma defined_with_fds: "defined m \<Longrightarrow> defined (with_fds E l c m)"
  unfolding defined_def with_fds_def by (auto simp: Let_def split: prod.split) (metis fst_conv)

lemma defined_try: "defined (reserve_try E ip port)"
  unfolding reserve_try_def tcpv4_new_socket_def tcpv4_port_reuse_def
  by (auto intro!: defined_with_fds defined_bind defined_ccall simp: defined_calls)

lemma defined_loop: "defined (reserve_loop E ip min_port max_port k)"
proof (induction k)
  case (Suc k)
  then show ?case
    unfolding reserve_loop.simps Let_def
    by (intro defined_bind defined_calls defined_try) (auto simp: defined_calls split: option.split)
qed (simp add: defined_calls)

lemma reserve_result:
  assumes "reserve_port E os = (r, os')"
  shows "case r of
      Inl e \<Rightarrow> e \<noteq> UndefinedBehaviour \<and> os_fds os' = os_fds os
    | Inr res \<Rightarrow>
        if unique_fd_valid (rs_fd res)
        then \<exists>n. rs_fd res = int n \<and> n \<notin> set (os_fds os) \<and> os_fds os' = n # os_fds os
        else os_fds os' = os_fds os"
proof -
  have "defined (reserve_port E)" by (simp add: reserve_port_def tcpv4_bind_random_port_def defined_calls defined_loop)
  then have "r \<noteq> Inl UndefinedBehaviour" unfolding defined_def using assms by (metis fst_conv)
  then show ?thesis
    using random_port_result [OF assms [unfolded reserve_port_def]] by (auto split: sum.splits if_splits)
qed

lemma start_inv:
  assumes inv: "resolver_inv fds n"
  shows "\<exists>r n'. StartLocked S P store E n = (r, n') \<and> r \<noteq> Inl UndefinedBehaviour \<and> resolver_inv fds n'"
proof (cases "nr_resolving n")
  case True
  then show ?thesis using inv by (simp add: StartLocked_def)
next
  case False
  then have idle: "nr_rpcs n = []" "nr_reservation n = None" using inv by (simp_all add: resolver_inv_def)
  obtain r os where r: "reserve_port E (nr_os n) = (r, os)" by (rule prod.exhaust)
  note res = reserve_result [OF r]
  note defs = StartLocked_def resolver_inv_def resolver_ok_def held_def
  show ?thesis
  proof (cases r)
    case (Inl e)
    then show ?thesis using False r res inv idle by (simp add: defs)
  next
    case (Inr s)
    show ?thesis
    proof (cases "unique_fd_valid (rs_fd s)")
      case valid: False
      then show ?thesis using False r res inv idle Inr by (simp add: defs)
    next
      case valid: True
      then obtain k where k: "rs_fd s = int k" "k \<notin> set (os_fds (nr_os n))" "os_fds os = k # os_fds (nr_os n)"
        using res Inr by auto
      show ?thesis
        using False r inv idle Inr valid k sign_not_ub [of S P store "punch_request (rs_port s)" "nr_node_id n" False]
        by (auto simp: defs StartHolePunching_def new_context_def send_request_def close_reservation_def Let_def
            split: sum.split)
    qed
  qed
qed

subsection \<open>The contract of the channel\<close>

text \<open>A channel starts the resolver, may shut it down, and asks for nothing more after that.\<close>

definition quiet :: "resolver_event \<Rightarrow> bool" where
  "quiet ev = (case ev of Ev_start \<Rightarrow> False | Ev_reresolve \<Rightarrow> False | _ \<Rightarrow> True)"

lemma ok_open: "resolver_ok fds n \<Longrightarrow> fd \<in> set (held n) \<union> set (reported (nr_reports n)) \<Longrightarrow> fd_open (nr_os n) fd"
proof -
  assume "resolver_ok fds n" and fd: "fd \<in> set (held n) \<union> set (reported (nr_reports n))"
  then have "set_mset (mset (map int (os_fds (nr_os n)))) = set_mset (mset (map int fds) + mset (reported (nr_reports n)) + mset (held n))"
    by (simp add: resolver_ok_def)
  then have "fd \<in> int ` set (os_fds (nr_os n))" using fd by auto
  then show ?thesis by (auto simp: fd_open_def)
qed

lemma ok_apart:
  assumes "resolver_ok fds n"
  shows "distinct (reported (nr_reports n)) \<and> set (reported (nr_reports n)) \<inter> (int ` set fds \<union> set (held n)) = {}"
proof -
  have "distinct (map int (os_fds (nr_os n)))" using assms by (simp add: resolver_ok_def distinct_map)
  moreover have "mset (map int (os_fds (nr_os n))) = mset (map int fds @ reported (nr_reports n) @ held n)"
    using assms by (simp add: resolver_ok_def)
  ultimately have "distinct (map int fds @ reported (nr_reports n) @ held n)" by (metis mset_eq_imp_distinct_iff)
  then show ?thesis by auto
qed

lemma mset_map_remove1: "k \<in> set xs \<Longrightarrow> add_mset (f k) (mset (map f (remove1 k xs))) = mset (map f xs)"
  by (induction xs) auto

text \<open>Closing the held socket gives back just that.\<close>

lemma close_held:
  assumes "resolver_ok fds n"
  shows "mset (map int (os_fds (close_reservation E n))) = mset (map int fds) + mset (reported (nr_reports n))
    \<and> distinct (os_fds (close_reservation E n))"
proof (cases "held n")
  case Nil
  then have "os_fds (close_reservation E n) = os_fds (nr_os n)"
    by (auto simp: held_def close_reservation_def unique_fd_reset_def unique_fd_valid_def split: option.splits if_splits)
  then show ?thesis using assms Nil by (simp add: resolver_ok_def)
next
  case (Cons fd rest)
  then obtain res where res: "nr_reservation n = Some res" "rs_fd res = fd" "fd \<noteq> -1" "rest = []"
    by (auto simp: held_def unique_fd_valid_def split: option.splits if_splits)
  have "fd_open (nr_os n) fd" using ok_open [OF assms] Cons by simp
  then obtain k where k: "fd = int k" "k \<in> set (os_fds (nr_os n))"
    unfolding fd_open_def by (metis nat_0_le)
  have fds: "os_fds (close_reservation E n) = remove1 k (os_fds (nr_os n))"
    using res k by (simp add: close_reservation_def unique_fd_reset_def sys_close_def fd_open_def counted_def)
  have "add_mset (int k) (mset (map int (remove1 k (os_fds (nr_os n))))) = mset (map int (os_fds (nr_os n)))"
    by (rule mset_map_remove1 [OF k(2)])
  also have "\<dots> = add_mset (int k) (mset (map int fds) + mset (reported (nr_reports n)))"
    using assms Cons res(4) k(1) by (simp add: resolver_ok_def)
  finally show ?thesis using assms by (simp add: fds resolver_ok_def)
qed

lemma done_ok:
  assumes ok: "resolver_ok fds n" and "c \<in> set (nr_rpcs n)"
  shows "\<exists>n'. OnHolePunchingDone E c good n = (Inr (), n') \<and> resolver_ok fds n' \<and> nr_rpcs n' = [] \<and> nr_reservation n' = None"
proof -
  have rpcs: "nr_rpcs n = [c]" and "held n \<noteq> []" using assms by (auto simp: resolver_ok_def)
  then obtain res where res: "nr_reservation n = Some res" "held n = [rs_fd res]"
    by (auto simp: held_def split: option.splits if_splits)
  let ?n = "n\<lparr>nr_rpcs := []\<rparr>"
  have ok': "resolver_ok fds ?n" using ok by (simp add: resolver_ok_def held_def)
  show ?thesis
  proof (cases good)
    case True
    then show ?thesis
      using ok rpcs res by (auto simp: OnHolePunchingDone_def FinishResolution_def resolver_ok_def held_def)
  next
    case False
    then show ?thesis
      using ok' close_held [OF ok', of E] rpcs
      by (auto simp: OnHolePunchingDone_def resolver_ok_def held_def no_ports_def Let_def)
  qed
qed

lemma quiet_step:
  assumes "resolver_ok fds n" and "quiet ev"
  shows "\<exists>n'. resolver_step S P store E ev n = (Inr (), n') \<and> resolver_ok fds n'"
proof (cases ev)
  case (Ev_done c good)
  then show ?thesis
    using done_ok [OF assms(1), of c E good] assms(1) by (cases "c \<in> set (nr_rpcs n)") (auto simp: resolver_step_def)
qed (use assms in \<open>simp_all add: quiet_def resolver_step_def ShutdownLocked_def ResetBackoffLocked_def resolver_ok_def held_def\<close>)

lemma step_inv:
  assumes "resolver_inv fds n" and "ev \<noteq> Ev_shutdown"
  shows "\<exists>r n'. resolver_step S P store E ev n = (r, n') \<and> r \<noteq> Inl UndefinedBehaviour \<and> resolver_inv fds n'"
proof (cases ev)
  case (Ev_done c good)
  then show ?thesis
    using done_ok [of fds n c E good] assms(1)
    by (cases "c \<in> set (nr_rpcs n)") (auto simp: resolver_step_def resolver_inv_def)
qed (use assms start_inv [OF assms(1), of S P store E] in
    \<open>simp_all add: resolver_step_def RequestReresolutionLocked_def ResetBackoffLocked_def\<close>)

lemma resolver_run_inv:
  "resolver_inv fds n \<Longrightarrow> Ev_shutdown \<notin> set evs \<Longrightarrow> resolver_run S P store E evs n = (es, n') \<Longrightarrow>
   UndefinedBehaviour \<notin> set es \<and> resolver_inv fds n'"
proof (induction evs arbitrary: n es)
  case (Cons ev evs)
  have "ev \<noteq> Ev_shutdown" using Cons.prems(2) by auto
  from step_inv [OF Cons.prems(1) this, of S P store E] obtain r n1 where
    r: "resolver_step S P store E ev n = (r, n1)" "r \<noteq> Inl UndefinedBehaviour" "resolver_inv fds n1" by blast
  then show ?case using Cons.IH [OF r(3)] Cons.prems(2,3) by (fastforce split: sum.splits prod.splits)
qed simp

lemma quiet_run:
  "resolver_ok fds n \<Longrightarrow> list_all quiet evs \<Longrightarrow> resolver_run S P store E evs n = (es, n') \<Longrightarrow>
   es = [] \<and> resolver_ok fds n'"
proof (induction evs arbitrary: n)
  case (Cons ev evs)
  then obtain n1 where "resolver_step S P store E ev n = (Inr (), n1)" "resolver_ok fds n1"
    using quiet_step [of fds n ev S P store E] by auto
  then show ?case using Cons by simp
qed simp

lemma run_append:
  "resolver_run S P store E (xs @ ys) n =
     (case resolver_run S P store E xs n of (es, n1) \<Rightarrow> case resolver_run S P store E ys n1 of (es', n2) \<Rightarrow> (es @ es', n2))"
  by (induction xs arbitrary: n) (auto split: sum.split prod.split)

lemma inv_new: "distinct (os_fds os) \<Longrightarrow> resolver_inv (os_fds os) (node_resolver_new node_id os)"
  by (simp add: resolver_inv_def resolver_ok_def held_def node_resolver_new_def)

text \<open>
  C15. The life of a resolver, with whatever outcome of the system calls, the signatures and the requests, and
  going on after exceptions, for a channel that asks for nothing after the shutdown. Undefined behaviour is never
  reached, so no context is destroyed under its request, and at most one request is outstanding, which holds a
  socket. Every reported address carries a socket that is open, that was not open before the resolver, that the
  resolver no longer holds and that no other report carries, and the default hole-punch parameters. No descriptor is
  lost: the open ones are those from before, the reported ones and the held one. The exhaustion of the ports is
  never reported.
\<close>

theorem resolver_life:
  assumes "Ev_shutdown \<notin> set evs" and "list_all quiet evs'" and "distinct (os_fds os)"
    and "resolver_run S P store E (evs @ evs') (node_resolver_new node_id os) = (es, n)"
  shows "UndefinedBehaviour \<notin> set es
    \<and> resolver_ok (os_fds os) n
    \<and> (\<forall>fd \<in> set (reported (nr_reports n)). fd_open (nr_os n) fd \<and> fd \<notin> set (held n) \<and> fd \<notin> int ` set (os_fds os))
    \<and> distinct (reported (nr_reports n))"
proof -
  obtain es1 n1 where 1: "resolver_run S P store E evs (node_resolver_new node_id os) = (es1, n1)" by (rule prod.exhaust)
  obtain es2 n2 where 2: "resolver_run S P store E evs' n1 = (es2, n2)" by (rule prod.exhaust)
  have run: "es = es1 @ es2" "n = n2" using assms(4) by (simp_all add: run_append 1 2)
  from resolver_run_inv [OF inv_new [OF assms(3)] assms(1) 1]
  have ub: "UndefinedBehaviour \<notin> set es1" and ok: "resolver_ok (os_fds os) n1" by (simp_all add: resolver_inv_def)
  from quiet_run [OF ok assms(2) 2] have ok2: "es2 = []" "resolver_ok (os_fds os) n" by (simp_all add: run)
  show ?thesis using ub ok2 ok_open [OF ok2(2)] ok_apart [OF ok2(2)] by (auto simp: run)
qed

lemma sign_fails:
  assumes "\<And>k md d out cap. EVP_DigestSign S k md d cap = Some out \<Longrightarrow> length out \<le> cap"
    and "\<And>sg. as_signer st = Some sg \<Longrightarrow> 0 < signature_size sg"
  shows "\<exists>e. sign_message S P st data recipient add_cert = Inl e"
proof (cases "as_signer st")
  case (Some sg)
  then have "signer_sign S sg d = Inl SSLError" for d
    by (intro signer_sign_always_throws) (use assms in \<open>auto simp: signature_size_def\<close>)
  then show ?thesis using Some by (simp add: sign_message_def fillMessageData_def Let_def split: option.split)
qed (simp add: sign_message_def Let_def)

lemma start_silent:
  assumes sign: "\<And>d i. \<exists>e. sign_message S P store d i False = Inl e"
    and "nr_rpcs n = []" and "nr_reports n = []"
  shows "\<exists>r n'. StartLocked S P store E n = (r, n') \<and> nr_rpcs n' = [] \<and> nr_reports n' = []"
proof (cases "nr_resolving n")
  case True
  then show ?thesis using assms(2,3) by (simp add: StartLocked_def)
next
  case False
  obtain r os where r: "reserve_port E (nr_os n) = (r, os)" by (rule prod.exhaust)
  have "\<exists>e. send_request S P store res m = (Inl e, m)" for res m
    using sign [of "punch_request (rs_port res)" "nr_node_id m"] by (auto simp: send_request_def)
  then have send: "snd (send_request S P store res m) = m" for res m by (metis snd_conv)
  show ?thesis
  proof (cases r)
    case (Inr res)
    then show ?thesis
      using False r assms(2,3) send
      by (cases "StartLocked S P store E n")
        (auto simp: StartLocked_def StartHolePunching_def new_context_def Let_def dest!: arg_cong [where f = snd] split: if_splits)
  qed (use False r assms(2,3) in \<open>simp add: StartLocked_def\<close>)
qed

lemma silent_run:
  assumes sign: "\<And>d i. \<exists>e. sign_message S P store d i False = Inl e"
  shows "resolver_run S P store E evs m = (es, n) \<Longrightarrow> nr_rpcs m = [] \<Longrightarrow> nr_reports m = [] \<Longrightarrow>
    nr_rpcs n = [] \<and> nr_reports n = []"
proof (induction evs arbitrary: m es)
  case (Cons ev evs)
  obtain r m1 where m1: "resolver_step S P store E ev m = (r, m1)" by (rule prod.exhaust)
  have "nr_rpcs m1 = [] \<and> nr_reports m1 = []"
    using m1 Cons.prems(2,3) start_silent [of S P store m E, OF sign]
    by (cases ev) (auto simp: resolver_step_def RequestReresolutionLocked_def ShutdownLocked_def ResetBackoffLocked_def)
  then show ?case using Cons.IH [of m1] Cons.prems(1) m1 by (auto split: sum.splits prod.splits)
qed simp

text \<open>
  With a library that, as OpenSSL documents, refuses an output buffer shorter than the signature, the
  resolver never reports anything: a start either finds no port and returns in silence, or reserves one
  and ends with an exception of \<open>sign_message\<close>, so no request is ever sent.
\<close>

theorem resolver_never_reports:
  assumes "\<And>k md d out cap. EVP_DigestSign S k md d cap = Some out \<Longrightarrow> length out \<le> cap"
    and "\<And>sg. as_signer store = Some sg \<Longrightarrow> 0 < signature_size sg"
    and "resolver_run S P store E evs (node_resolver_new node_id os) = (es, n)"
  shows "nr_rpcs n = [] \<and> nr_reports n = []"
proof -
  have sign: "\<exists>e. sign_message S P store d i False = Inl e" for d i
    by (rule sign_fails) (use assms in auto)
  show ?thesis
    using silent_run [OF sign assms(3)] by (simp add: node_resolver_new_def)
qed

subsection \<open>Concrete runs\<close>

text \<open>On a system on which every call succeeds the first port is reserved.\<close>

lemma calm_loop:
  "\<exists>os. reserve_loop calm_env any_addr 12345 23456 (Suc k) (os_with [3]) = (Inr \<lparr>rs_fd = 0, rs_port = 12345\<rparr>, os)"
proof -
  have "lowest_free [3] = 0" by (simp add: lowest_free_def upt_rec)
  then show ?thesis
    by (simp add: reserve_try_def with_fds_def bind_net_def new_socket_result new_fd_def calm_env_def os_with_def counted_def
        unique_fd_assign_def unique_fd_reset_def tcpv4_port_reuse_def ccall_def sys_plain_def sys_bind_def sys_random_def
        fd_open_def unique_fd_handle_def ret_def throw_def Let_def)
qed

lemma calm_reserve:
  "\<exists>os. reserve_port calm_env (os_with [3]) = (Inr \<lparr>rs_fd = 0, rs_port = 12345\<rparr>, os)"
  using calm_loop [of 31] by (simp add: reserve_port_def tcpv4_bind_random_port_def)

text \<open>A library whose signatures are empty, and a codec that writes no payload: a request can be signed.\<close>

definition blank_openssl :: "(string, string) openssl" where
  "blank_openssl = toy_openssl\<lparr>EVP_DigestSign := (\<lambda>k md d cap. Some []), EVP_DigestSignFinal_size := (\<lambda>k md. Some 0)\<rparr>"

definition blank_store :: "string auth_store" where
  "blank_store = auth_store_new\<lparr>as_self_id := ''k'', as_signer := Some \<lparr>sg_key = ''pk'', sg_md = ''sha512'', sg_len = 0\<rparr>\<rparr>"

definition blank_protobuf :: protobuf where
  "blank_protobuf = \<lparr>SerializeToString = (\<lambda>m. Some []), ParseFromString = (\<lambda>s. Some empty_message_data)\<rparr>"

lemma blank_signs: "\<exists>m. sign_message blank_openssl blank_protobuf blank_store d i False = Inr m"
  by (simp add: sign_message_def fillMessageData_def signer_sign_def blank_openssl_def blank_protobuf_def blank_store_def Let_def)

theorem resolver_life_witness:
  "\<exists>n. resolver_run blank_openssl blank_protobuf blank_store calm_env
       ([Ev_start, Ev_done 0 True] @ [Ev_shutdown]) (node_resolver_new ''k'' (os_with [3])) = ([], n)
     \<and> reported (nr_reports n) = [0] \<and> fd_open (nr_os n) 0"
proof -
  let ?run = "resolver_run blank_openssl blank_protobuf blank_store calm_env
    ([Ev_start, Ev_done 0 True] @ [Ev_shutdown]) (node_resolver_new ''k'' (os_with [3]))"
  obtain os where os: "reserve_port calm_env (os_with [3]) = (Inr \<lparr>rs_fd = 0, rs_port = 12345\<rparr>, os)" using calm_reserve by blast
  obtain m where m: "sign_message blank_openssl blank_protobuf blank_store (punch_request 12345) ''k'' False = Inr m"
    using blank_signs by blast
  have "\<exists>n. ?run = ([], n) \<and> reported (nr_reports n) = [0]"
    by (simp add: resolver_step_def StartLocked_def StartHolePunching_def new_context_def send_request_def node_resolver_new_def
        os m unique_fd_valid_def OnHolePunchingDone_def FinishResolution_def ShutdownLocked_def Let_def)
  then obtain n where run: "?run = ([], n)" and rep: "reported (nr_reports n) = [0]" by blast
  have "\<forall>fd \<in> set (reported (nr_reports n)). fd_open (nr_os n) fd"
    using resolver_life [OF _ _ _ run] by (simp add: quiet_def os_with_def)
  with run rep show ?thesis by auto
qed

text \<open>With a library that signs as documented the start reserves the port and throws.\<close>

lemma throwing_start:
  assumes "\<And>d i. \<exists>e. sign_message S P store d i False = Inl e"
  shows "\<exists>e n. resolver_run S P store calm_env [Ev_start, Ev_done 0 True, Ev_reresolve, Ev_shutdown]
      (node_resolver_new i (os_with [3])) = ([e], n) \<and> held n = [0]"
proof -
  obtain os where os: "reserve_port calm_env (os_with [3]) = (Inr \<lparr>rs_fd = 0, rs_port = 12345\<rparr>, os)" using calm_reserve by blast
  obtain e where e: "sign_message S P store (punch_request 12345) i False = Inl e" using assms by blast
  show ?thesis
    by (simp add: resolver_step_def StartLocked_def StartHolePunching_def new_context_def send_request_def node_resolver_new_def
        os e unique_fd_valid_def RequestReresolutionLocked_def ShutdownLocked_def held_def Let_def)
qed

theorem resolver_never_reports_witness:
  "\<exists>e n. resolver_run toy_openssl toy_protobuf toy_signing_store calm_env [Ev_start, Ev_done 0 True, Ev_reresolve, Ev_shutdown]
     (node_resolver_new ''k'' (os_with [3])) = ([e], n) \<and> held n = [0] \<and> nr_reports n = []"
proof -
  have "\<exists>e. sign_message toy_openssl toy_protobuf toy_signing_store d i False = Inl e" for d i
    by (rule sign_fails) (auto simp: toy_signing_store_def signature_size_def split: if_splits)
  from throwing_start [OF this] obtain e n where
    run: "resolver_run toy_openssl toy_protobuf toy_signing_store calm_env [Ev_start, Ev_done 0 True, Ev_reresolve, Ev_shutdown]
      (node_resolver_new ''k'' (os_with [3])) = ([e], n)" and h: "held n = [0]" by blast
  have "nr_rpcs n = [] \<and> nr_reports n = []"
    by (rule resolver_never_reports [OF _ _ run]) (auto simp: toy_signing_store_def signature_size_def split: if_splits)
  with run h show ?thesis by blast
qed

end
