(* ===== verification/Block_Storage.thy ===== *)
theory Block_Storage
  imports Prelude
begin

text \<open>
  Arrays in mapped files (\<open>common/storage/block.cc\<close>, \<open>.h\<close>): copying in and out of the mapped bytes with
  the arithmetic of \<open>size_t\<close>, opening and creating the file, and the class over them. The address range
  of a mapping is valid from \<open>mmap\<close> to \<open>munmap\<close>; a copy that leaves the range, or goes backwards, is
  \<open>UndefinedBehaviour\<close>. The second copy is written with a \<open>void *\<close> as its target, which the standard
  library does not accept; the model does what it says.
\<close>

subsection \<open>Copying\<close>

text \<open>\<open>std::copy\<close> of the bytes from \<open>a\<close> to \<open>b\<close>.\<close>

definition byte_range :: "bytes \<Rightarrow> size_t \<Rightarrow> size_t \<Rightarrow> bytes result" where
  "byte_range d a b =
     (if a \<le> b \<and> unat b \<le> length d then Inr (take (unat b - unat a) (drop (unat a) d)) else Inl UndefinedBehaviour)"

definition put_bytes :: "bytes \<Rightarrow> size_t \<Rightarrow> bytes \<Rightarrow> bytes result" where
  "put_bytes d a xs =
     (if unat a + length xs \<le> length d then Inr (take (unat a) d @ xs @ drop (unat a + length xs) d) else Inl UndefinedBehaviour)"

definition mapped :: "bytes option \<Rightarrow> bytes result" where
  "mapped dat = (case dat of None \<Rightarrow> Inl UndefinedBehaviour | Some d \<Rightarrow> Inr d)"

definition clamp_count :: "size_t \<Rightarrow> size_t \<Rightarrow> size_t \<Rightarrow> size_t" where
  "clamp_count n offset data_count = (if offset + data_count > n then n - offset else data_count)"

definition read_data :: "bytes option \<Rightarrow> size_t \<Rightarrow> size_t \<Rightarrow> size_t \<Rightarrow> size_t \<Rightarrow> (size_t \<times> bytes) result" where
  "read_data dat elem_size n offset data_count =
     (if offset > n then Inr (0, [])
      else let data_count = clamp_count n offset data_count in
        if data_count = 0 then Inr (0, [])
        else bind_result (mapped dat) (\<lambda>d.
             bind_result (byte_range d (offset * elem_size) ((offset + data_count) * elem_size)) (\<lambda>out.
             Inr (data_count, out))))"

definition write_data ::
  "bytes \<Rightarrow> size_t \<Rightarrow> size_t \<Rightarrow> bytes option \<Rightarrow> size_t \<Rightarrow> size_t \<Rightarrow> bool \<Rightarrow> (size_t \<times> bytes option) result" where
  "write_data in_data offset data_count dat elem_size n readonly =
     (if offset > n then Inr (0, dat)
      else let data_count = clamp_count n offset data_count in
        if data_count = 0 then Inr (0, dat)
        else if readonly then Inl (RuntimeError ''Cannot write to a readonly BlockStorage instance.'')
        else bind_result (byte_range in_data 0 (data_count * elem_size)) (\<lambda>xs.
             bind_result (mapped dat) (\<lambda>d.
             bind_result (put_bytes d (offset * elem_size) xs) (\<lambda>d'.
             Inr (data_count, Some d')))))"

subsection \<open>Files and mappings\<close>

text \<open>
  The calls by what they do when they succeed, and choices whether they do. A file is its bytes; an open
  descriptor has its file. A mapping is the name of its file and a length, the bytes being those of the file.
\<close>

record block_os =
  bo_files :: "string \<rightharpoonup> bytes"
  bo_fds :: "nat \<rightharpoonup> string"
  bo_calls :: nat

record block_env =
  be_open :: "nat \<Rightarrow> nat option"
  be_ftruncate :: "nat \<Rightarrow> bool"
  be_fstat :: "nat \<Rightarrow> bool"
  be_mmap :: "nat \<Rightarrow> bool"
  be_munmap :: "nat \<Rightarrow> bool"

definition block_call :: "block_os \<Rightarrow> block_os" where
  "block_call os = os\<lparr>bo_calls := Suc (bo_calls os)\<rparr>"

definition get_open_flags :: "bool \<Rightarrow> bool \<Rightarrow> bool \<times> bool" where
  "get_open_flags readonly create = (\<not> readonly, create)"

definition get_prot_flags :: "bool \<Rightarrow> bool" where
  "get_prot_flags readonly = (\<not> readonly)"

definition sys_open :: "block_env \<Rightarrow> string \<Rightarrow> bool \<times> bool \<Rightarrow> block_os \<Rightarrow> int \<times> block_os" where
  "sys_open E fname flags os =
     (case be_open E (bo_calls os) of
        None \<Rightarrow> (-1, block_call os)
      | Some fd \<Rightarrow>
          if bo_fds os fd \<noteq> None \<or> (bo_files os fname = None \<and> \<not> snd flags) then (-1, block_call os)
          else (int fd, (block_call os)\<lparr>bo_files := (if bo_files os fname = None then (bo_files os)(fname \<mapsto> []) else bo_files os),
                          bo_fds := (bo_fds os)(fd \<mapsto> fname)\<rparr>))"

definition block_fd_file :: "block_os \<Rightarrow> int \<Rightarrow> string option" where
  "block_fd_file os fd = (if 0 \<le> fd then bo_fds os (nat fd) else None)"

definition resize :: "nat \<Rightarrow> bytes \<Rightarrow> bytes" where
  "resize k d = take k d @ replicate (k - length d) 0"

definition sys_ftruncate :: "block_env \<Rightarrow> int \<Rightarrow> size_t \<Rightarrow> block_os \<Rightarrow> int \<times> block_os" where
  "sys_ftruncate E fd len os =
     (case block_fd_file os fd of
        None \<Rightarrow> (-1, block_call os)
      | Some f \<Rightarrow>
          if be_ftruncate E (bo_calls os)
          then (0, (block_call os)\<lparr>bo_files := (bo_files os)(f := map_option (resize (unat len)) (bo_files os f))\<rparr>)
          else (-1, block_call os))"

definition sys_fstat :: "block_env \<Rightarrow> int \<Rightarrow> block_os \<Rightarrow> size_t option \<times> block_os" where
  "sys_fstat E fd os =
     (case block_fd_file os fd of
        None \<Rightarrow> (None, block_call os)
      | Some f \<Rightarrow>
          (if be_fstat E (bo_calls os) then Some (word_of_nat (length (the (bo_files os f)))) else None, block_call os))"

definition sys_mmap :: "block_env \<Rightarrow> int \<Rightarrow> bool \<Rightarrow> size_t \<Rightarrow> block_os \<Rightarrow> string option \<times> block_os" where
  "sys_mmap E fd prot len os =
     (if be_mmap E (bo_calls os) then (block_fd_file os fd, block_call os) else (None, block_call os))"

definition close_fd :: "int \<Rightarrow> block_os \<Rightarrow> block_os" where
  "close_fd fd os = (if fd \<noteq> -1 \<and> 0 \<le> fd then (block_call os)\<lparr>bo_fds := (bo_fds os)(nat fd := None)\<rparr> else os)"

text \<open>Both functions own the descriptor: it is closed when they throw.\<close>

definition init_data_file :: "block_env \<Rightarrow> string \<Rightarrow> bool \<Rightarrow> size_t \<Rightarrow> block_os \<Rightarrow> int result \<times> block_os" where
  "init_data_file E fname readonly len os =
     (case sys_open E fname (get_open_flags readonly True) os of (fd, os1) \<Rightarrow>
        if fd \<noteq> -1 then (Inl (RuntimeError ''open or create file''), close_fd fd os1)
        else case sys_ftruncate E fd len os1 of (r, os2) \<Rightarrow>
          if r = -1 then (Inl (RuntimeError ''ftruncate file''), close_fd fd os2)
          else (Inl UndefinedBehaviour, close_fd fd os2))"

definition open_data_file :: "block_env \<Rightarrow> string \<Rightarrow> bool \<Rightarrow> block_os \<Rightarrow> (int \<times> size_t) result \<times> block_os" where
  "open_data_file E fname readonly os =
     (case sys_open E fname (get_open_flags readonly False) os of (fd, os1) \<Rightarrow>
        if fd \<noteq> -1 then (Inl (RuntimeError ''open file''), close_fd fd os1)
        else case sys_fstat E fd os1 of (r, os2) \<Rightarrow>
          case r of
            None \<Rightarrow> (Inl (RuntimeError ''fstat file''), close_fd fd os2)
          | Some st_size \<Rightarrow> (Inr (fd, st_size), os2))"

text \<open>\<open>None\<close> is the null pointer.\<close>

definition mmap_data :: "block_env \<Rightarrow> int \<Rightarrow> bool \<Rightarrow> size_t \<Rightarrow> block_os \<Rightarrow> string option result \<times> block_os" where
  "mmap_data E fd readonly len os =
     (if len = 0 then (Inr None, os)
      else case sys_mmap E fd (get_prot_flags readonly) len os of
        (None, os1) \<Rightarrow> (Inl (RuntimeError ''mmap file''), os1)
      | (Some f, os1) \<Rightarrow> (Inr (Some f), os1))"

subsection \<open>The class\<close>

text \<open>
  \<open>bs_data\<close> is the pointer, \<open>None\<close> when null, as the file it was mapped from; \<open>bs_mapped\<close> says
  whether the range it points to is still mapped.
\<close>

record block_storage =
  bs_fd :: int
  bs_data :: "string option"
  bs_n :: size_t
  bs_readonly :: bool
  bs_mapped :: bool

definition block_open :: "block_env \<Rightarrow> size_t \<Rightarrow> string \<Rightarrow> bool \<Rightarrow> block_os \<Rightarrow> block_storage result \<times> block_os" where
  "block_open E elem_size fname readonly os =
     (case open_data_file E fname readonly os of
        (Inl e, os1) \<Rightarrow> (Inl e, os1)
      | (Inr (fd, len), os1) \<Rightarrow>
          if elem_size = 0 then (Inl UndefinedBehaviour, os1)
          else if len mod elem_size \<noteq> 0 then (Inl (RuntimeError ''File size is not a multiple of the element size''), close_fd fd os1)
          else (case mmap_data E fd readonly (len div elem_size * elem_size) os1 of
                  (Inl e, os2) \<Rightarrow> (Inl e, close_fd fd os2)
                | (Inr dat, os2) \<Rightarrow>
                    (Inr \<lparr>bs_fd = fd, bs_data = dat, bs_n = len div elem_size, bs_readonly = readonly, bs_mapped = True\<rparr>, os2)))"

definition block_create :: "block_env \<Rightarrow> size_t \<Rightarrow> string \<Rightarrow> bool \<Rightarrow> size_t \<Rightarrow> block_os \<Rightarrow> block_storage result \<times> block_os" where
  "block_create E elem_size fname readonly n os =
     (case init_data_file E fname readonly (n * elem_size) os of
        (Inl e, os1) \<Rightarrow> (Inl e, os1)
      | (Inr fd, os1) \<Rightarrow>
          (case mmap_data E fd readonly (n * elem_size) os1 of
             (Inl e, os2) \<Rightarrow> (Inl e, close_fd fd os2)
           | (Inr dat, os2) \<Rightarrow>
               (Inr \<lparr>bs_fd = fd, bs_data = dat, bs_n = n, bs_readonly = readonly, bs_mapped = True\<rparr>, os2)))"

definition block_bytes :: "block_storage \<Rightarrow> block_os \<Rightarrow> bytes option" where
  "block_bytes b os = (if bs_mapped b then Option.bind (bs_data b) (bo_files os) else None)"

definition block_read :: "size_t \<Rightarrow> size_t \<Rightarrow> size_t \<Rightarrow> block_storage \<Rightarrow> block_os \<Rightarrow> (size_t \<times> bytes) result" where
  "block_read elem_size offset data_count b os = read_data (block_bytes b os) elem_size (bs_n b) offset data_count"

definition block_write ::
  "size_t \<Rightarrow> size_t \<Rightarrow> bytes \<Rightarrow> size_t \<Rightarrow> block_storage \<Rightarrow> block_os \<Rightarrow> size_t result \<times> block_os" where
  "block_write elem_size offset in_data data_count b os =
     (case write_data in_data offset data_count (block_bytes b os) elem_size (bs_n b) (bs_readonly b) of
        Inl e \<Rightarrow> (Inl e, os)
      | Inr (k, dat) \<Rightarrow>
          (Inr k, case bs_data b of
                    None \<Rightarrow> os
                  | Some f \<Rightarrow> if bs_mapped b then os\<lparr>bo_files := (bo_files os)(f := dat)\<rparr> else os))"

definition block_reset :: "block_env \<Rightarrow> size_t \<Rightarrow> block_storage \<Rightarrow> block_os \<Rightarrow> block_storage \<times> block_os" where
  "block_reset E elem_size b os =
     (let (b1, os1) =
        (if bs_data b \<noteq> None
         then (if be_munmap E (bo_calls os) then (b\<lparr>bs_mapped := False\<rparr>, block_call os)
               else (b\<lparr>bs_data := None, bs_n := 0\<rparr>, block_call os))
         else (b, os))
      in (b1\<lparr>bs_fd := -1\<rparr>, close_fd (bs_fd b1) os1))"

subsection \<open>The bounds of the copies\<close>

definition copied :: "size_t \<Rightarrow> size_t \<Rightarrow> size_t \<Rightarrow> nat" where
  "copied n offset data_count = (if offset > n then 0 else min (unat data_count) (unat n - unat offset))"

text \<open>\<open>array_of es n d\<close>: the bytes of \<open>n\<close> elements of \<open>es\<close> bytes.\<close>

definition array_of :: "size_t \<Rightarrow> size_t \<Rightarrow> bytes \<Rightarrow> bool" where
  "array_of es n d = (length d = unat n * unat es \<and> length d < 2 ^ 64)"

lemma unat_bound: "unat (a :: size_t) < 2 ^ 64"
  using unsigned_less [of a, where ?'a = nat] by simp

lemma word_of_unat: "unat (a :: size_t) = k \<Longrightarrow> a = word_of_nat k"
  by auto

lemma unat_zero_iff: "a = 0 \<longleftrightarrow> unat (a :: size_t) = 0"
  by (metis unsigned_0 word_unat_eq_iff)

lemma unat_mult_below:
  fixes a b :: size_t
  assumes "unat a * unat b < 2 ^ 64"
  shows "unat (a * b) = unat a * unat b"
  using assms by (simp add: unat_word_ariths)

lemma clamp_copied:
  assumes "offset \<le> n" and "unat offset + unat data_count < 2 ^ 64"
  shows "unat (clamp_count n offset data_count) = copied n offset data_count"
    and "unat (offset + clamp_count n offset data_count) = unat offset + copied n offset data_count"
proof -
  have sum: "unat (offset + data_count) = unat offset + unat data_count"
    using assms(2) by (simp add: unat_word_ariths)
  have le: "unat offset \<le> unat n" using assms(1) by (simp add: word_le_nat_alt)
  show count: "unat (clamp_count n offset data_count) = copied n offset data_count"
    using assms(1) sum le
    by (auto simp: clamp_count_def copied_def word_less_nat_alt word_le_nat_alt unat_sub min_def not_less)
  have "unat offset + copied n offset data_count \<le> unat n" using le assms(1) by (auto simp: copied_def min_def)
  also have "\<dots> < 2 ^ 64" by (rule unat_bound)
  finally show "unat (offset + clamp_count n offset data_count) = unat offset + copied n offset data_count"
    by (simp add: unat_word_ariths count)
qed

lemma copied_fits:
  assumes "offset \<le> n" and "array_of es n d"
  shows "(unat offset + copied n offset data_count) * unat es \<le> length d"
proof -
  have "unat offset + copied n offset data_count \<le> unat n"
    using assms(1) by (auto simp: copied_def word_le_nat_alt min_def)
  then show ?thesis using assms(2) by (simp add: array_of_def)
qed

text \<open>The ends of the range, without wrap-around.\<close>

lemma range_ends:
  assumes "offset \<le> n" and "array_of es n d" and "unat offset + unat data_count < 2 ^ 64"
  defines "k \<equiv> copied n offset data_count"
  shows "unat (offset * es) = unat offset * unat es"
    and "unat ((offset + clamp_count n offset data_count) * es) = (unat offset + k) * unat es"
    and "unat (clamp_count n offset data_count * es) = k * unat es"
proof -
  note fits = copied_fits [OF assms(1,2), of data_count, folded k_def]
  have len: "length d < 2 ^ 64" using assms(2) by (simp add: array_of_def)
  have below: "unat offset * unat es < 2 ^ 64" "(unat offset + k) * unat es < 2 ^ 64" "k * unat es < 2 ^ 64"
    using fits len by (simp_all add: algebra_simps)
  then show "unat (offset * es) = unat offset * unat es" by (simp add: unat_mult_below)
  show "unat ((offset + clamp_count n offset data_count) * es) = (unat offset + k) * unat es"
    using unat_mult_below [of "offset + clamp_count n offset data_count" es] below(2) clamp_copied(2) [OF assms(1,3)]
    by (simp add: k_def)
  show "unat (clamp_count n offset data_count * es) = k * unat es"
    using unat_mult_below [of "clamp_count n offset data_count" es] below(3) clamp_copied(1) [OF assms(1,3)]
    by (simp add: k_def)
qed

lemma read_data_copied:
  assumes "array_of es n d" and "unat offset + unat data_count < 2 ^ 64"
  defines "k \<equiv> copied n offset data_count"
  shows "read_data (Some d) es n offset data_count = Inr (word_of_nat k, take (k * unat es) (drop (unat offset * unat es) d))"
proof (cases "offset > n")
  case True
  then show ?thesis by (simp add: read_data_def k_def copied_def)
next
  case False
  then have le: "offset \<le> n" by simp
  note ends = range_ends [OF le assms(1,2), folded k_def]
  have count: "clamp_count n offset data_count = word_of_nat k"
    unfolding k_def by (rule word_of_unat) (rule clamp_copied(1) [OF le assms(2)])
  have "clamp_count n offset data_count = 0 \<longleftrightarrow> k = 0"
    unfolding k_def clamp_copied(1) [OF le assms(2), symmetric] by (rule unat_zero_iff)
  moreover have "byte_range d (offset * es) ((offset + clamp_count n offset data_count) * es)
      = Inr (take (k * unat es) (drop (unat offset * unat es) d))"
    using copied_fits [OF le assms(1), of data_count]
    by (simp add: byte_range_def word_le_nat_alt ends k_def [symmetric]) (simp add: algebra_simps)
  ultimately show ?thesis using False count by (auto simp: read_data_def mapped_def Let_def)
qed

lemma write_data_copied:
  assumes "array_of es n d" and "unat offset + unat data_count < 2 ^ 64" and "length inp = unat data_count * unat es"
  defines "k \<equiv> copied n offset data_count"
  shows "write_data inp offset data_count (Some d) es n False = Inr (word_of_nat k,
     Some (take (unat offset * unat es) d @ take (k * unat es) inp @ drop ((unat offset + k) * unat es) d))"
proof (cases "offset > n")
  case True
  then show ?thesis by (simp add: write_data_def k_def copied_def)
next
  case False
  then have le: "offset \<le> n" by simp
  note ends = range_ends [OF le assms(1,2), folded k_def]
  note fits = copied_fits [OF le assms(1), of data_count, folded k_def]
  have count: "clamp_count n offset data_count = word_of_nat k"
    unfolding k_def by (rule word_of_unat) (rule clamp_copied(1) [OF le assms(2)])
  have zero: "clamp_count n offset data_count = 0 \<longleftrightarrow> k = 0"
    unfolding k_def clamp_copied(1) [OF le assms(2), symmetric] by (rule unat_zero_iff)
  have "k \<le> unat data_count" by (simp add: k_def copied_def)
  then have kin: "k * unat es \<le> length inp" using assms(3) by simp
  then have src: "byte_range inp 0 (clamp_count n offset data_count * es) = Inr (take (k * unat es) inp)"
    by (simp add: byte_range_def ends)
  have dst: "put_bytes d (offset * es) (take (k * unat es) inp)
      = Inr (take (unat offset * unat es) d @ take (k * unat es) inp @ drop ((unat offset + k) * unat es) d)"
    using kin fits by (simp add: put_bytes_def ends min.absorb2 add_mult_distrib)
  show ?thesis using False count zero src dst by (auto simp: write_data_def mapped_def Let_def)
qed

text \<open>
  C28. Copying in and out of a mapped array of elements: with an offset and a count whose sum fits in
  64 bits a write of that many elements stores those that fit between the offset and the end, changes no
  other byte and returns their number, none beyond the end, and a read of the same range returns them.
\<close>

theorem block_write_read:
  assumes "array_of es n d" and "unat offset + unat data_count < 2 ^ 64"
    and "length inp = unat data_count * unat es"
  shows "\<exists>d'. write_data inp offset data_count (Some d) es n False = Inr (word_of_nat (copied n offset data_count), Some d')
    \<and> d' = take (unat offset * unat es) d @ take (copied n offset data_count * unat es) inp
        @ drop ((unat offset + copied n offset data_count) * unat es) d
    \<and> read_data (Some d') es n offset data_count
        = Inr (word_of_nat (copied n offset data_count), take (copied n offset data_count * unat es) inp)"
proof -
  define k where "k = copied n offset data_count"
  define d' where "d' = take (unat offset * unat es) d @ take (k * unat es) inp @ drop ((unat offset + k) * unat es) d"
  have "k \<le> unat data_count" by (simp add: k_def copied_def)
  then have kin: "k * unat es \<le> length inp" using assms(3) by simp
  have at: "length (take (unat offset * unat es) d) = unat offset * unat es" if "k \<noteq> 0"
  proof -
    have "offset \<le> n" using that by (auto simp: k_def copied_def split: if_splits)
    then show ?thesis using copied_fits [OF _ assms(1), of offset data_count] by (simp add: algebra_simps)
  qed
  have len: "length d' = length d"
  proof (cases "k = 0")
    case False
    then have "offset \<le> n" by (auto simp: k_def copied_def split: if_splits)
    then have "unat offset * unat es + k * unat es \<le> length d"
      using copied_fits [OF _ assms(1), of offset data_count, folded k_def] by (simp add: algebra_simps)
    moreover have "length (take (k * unat es) inp) = k * unat es"
        "length (drop ((unat offset + k) * unat es) d) = length d - (unat offset * unat es + k * unat es)"
      using kin by (simp_all add: algebra_simps)
    ultimately show ?thesis unfolding d'_def length_append at [OF False] by linarith
  qed (simp add: d'_def)
  then have "array_of es n d'" using assms(1) by (simp add: array_of_def)
  from read_data_copied [OF this assms(2), folded k_def]
  have "read_data (Some d') es n offset data_count = Inr (word_of_nat k, take (k * unat es) inp)"
    using at kin by (cases "k = 0") (simp_all add: d'_def)
  moreover have "write_data inp offset data_count (Some d) es n False = Inr (word_of_nat k, Some d')"
    unfolding k_def d'_def by (rule write_data_copied [OF assms])
  ultimately show ?thesis unfolding k_def [symmetric] d'_def by blast
qed

theorem block_write_read_witness:
  "\<exists>d'. write_data [7, 8, 9, 10] 2 2 (Some [1, 2, 3, 4, 5, 6]) 2 3 False = Inr (1, Some d') \<and> d' = [1, 2, 3, 4, 7, 8]"
proof -
  have "copied 3 2 2 = 1" by (simp add: copied_def)
  then show ?thesis
    using block_write_read [of 2 3 "[1, 2, 3, 4, 5, 6]" 2 2 "[7, 8, 9, 10]"] by (simp add: array_of_def)
qed

text \<open>
  When a read is defined: on a mapped array of elements that are not empty, a read reaches outside the
  array exactly when the sum of its offset and its count does not fit in 64 bits, the check of the end
  then being done on the wrapped sum, and the offset itself is not behind the end.
\<close>

theorem block_read_undefined_iff:
  assumes "array_of es n d" and "es \<noteq> 0"
  shows "read_data (Some d) es n offset data_count = Inl UndefinedBehaviour
    \<longleftrightarrow> offset \<le> n \<and> 2 ^ 64 \<le> unat offset + unat data_count"
proof (cases "offset \<le> n \<and> 2 ^ 64 \<le> unat offset + unat data_count")
  case False
  then consider "offset > n" | "unat offset + unat data_count < 2 ^ 64" by fastforce
  then have "read_data (Some d) es n offset data_count \<noteq> Inl UndefinedBehaviour"
    using read_data_copied [OF assms(1)] by cases (simp_all add: read_data_def)
  then show ?thesis using False by blast
next
  case True
  have small: "unat offset < 2 ^ 64" "unat data_count < 2 ^ 64"
    by (rule unat_bound)+
  have "unat (offset + data_count) = unat offset + unat data_count - 2 ^ 64"
    using True small by (simp add: unat_word_ariths le_mod_geq)
  then have less: "unat (offset + data_count) < unat offset" using True small by linarith
  have le: "unat offset \<le> unat n" using True by (simp add: word_le_nat_alt)
  then have count: "clamp_count n offset data_count = data_count"
    using less by (simp add: clamp_count_def word_less_nat_alt)
  have "unat n * unat es < 2 ^ 64" using assms(1) by (simp add: array_of_def)
  moreover have "unat (offset + data_count) * unat es \<le> unat n * unat es" "unat offset * unat es \<le> unat n * unat es"
    using less le by simp_all
  ultimately have "unat (offset + data_count) * unat es < 2 ^ 64" "unat offset * unat es < 2 ^ 64"
    by (meson le_less_trans)+
  then have "unat ((offset + data_count) * es) = unat (offset + data_count) * unat es"
      "unat (offset * es) = unat offset * unat es"
    by (simp_all only: unat_mult_below)
  moreover have "unat (offset + data_count) * unat es < unat offset * unat es"
    using less assms(2) by (simp add: unat_gt_0)
  ultimately have "\<not> offset * es \<le> (offset + data_count) * es" by (simp add: word_le_nat_alt)
  moreover have "data_count \<noteq> 0" using True small by auto
  ultimately have "read_data (Some d) es n offset data_count = Inl UndefinedBehaviour"
    using True count by (simp add: read_data_def mapped_def byte_range_def Let_def not_less)
  then show ?thesis using True by blast
qed

theorem block_read_undefined_iff_witness:
  "read_data (Some [1, 2, 3]) 1 3 1 0xFFFFFFFFFFFFFFFF = Inl UndefinedBehaviour"
  using block_read_undefined_iff [of 1 3 "[1, 2, 3]" 1 "0xFFFFFFFFFFFFFFFF"] by (simp add: array_of_def)

subsection \<open>The life of a storage\<close>

lemma open_restores:
  assumes "sys_open E fname flags os = (fd, os1)"
  shows "bo_fds (close_fd fd os1) = bo_fds os
    \<and> (bo_files os1 = bo_files os \<or> bo_files os fname = None \<and> snd flags \<and> bo_files os1 = (bo_files os)(fname \<mapsto> []))"
  using assms by (auto simp: sys_open_def close_fd_def block_call_def split: option.splits if_splits)

lemma close_files [simp]: "bo_files (close_fd fd os) = bo_files os"
  by (simp add: close_fd_def block_call_def)

text \<open>
  No storage can be opened or created: whatever the system does both constructors throw, because they
  take a valid descriptor for the failure of \<open>open\<close>. The descriptor is closed and no file is changed,
  but creating leaves an empty file where there was none.
\<close>

theorem block_storage_never_opens:
  "(\<exists>e. fst (block_open E es fname readonly os) = Inl (RuntimeError e))
   \<and> bo_fds (snd (block_open E es fname readonly os)) = bo_fds os
   \<and> bo_files (snd (block_open E es fname readonly os)) = bo_files os
   \<and> (\<exists>e. fst (block_create E es fname readonly n os) = Inl (RuntimeError e))
   \<and> bo_fds (snd (block_create E es fname readonly n os)) = bo_fds os
   \<and> bo_files (snd (block_create E es fname readonly n os))
       \<in> {bo_files os, if bo_files os fname = None then (bo_files os)(fname \<mapsto> []) else bo_files os}"
proof -
  obtain fd os1 where o: "sys_open E fname (get_open_flags readonly False) os = (fd, os1)" by (rule prod.exhaust)
  obtain fd' os1' where c: "sys_open E fname (get_open_flags readonly True) os = (fd', os1')" by (rule prod.exhaust)
  show ?thesis
    using open_restores [OF o] open_restores [OF c] o c
    by (auto simp: block_open_def block_create_def open_data_file_def init_data_file_def get_open_flags_def
        sys_fstat_def sys_ftruncate_def block_fd_file_def close_fd_def block_call_def)
qed

text \<open>
  C4. What \<open>reset\<close> leaves behind: when \<open>munmap\<close> succeeds the pointer and the number of elements stay, and
  each later read or write of an element that was there reaches an unmapped range; only when \<open>munmap\<close>
  fails are they cleared, so that later accesses copy nothing and the mapping is never released.
\<close>

theorem block_reset_dangles:
  assumes "bs_data b = Some f" and "block_reset E es b os = (b', os')"
  shows "if be_munmap E (bo_calls os)
    then bs_data b' = Some f
      \<and> (\<forall>offset. offset < bs_n b \<longrightarrow> block_read es offset 1 b' os1 = Inl UndefinedBehaviour
           \<and> (bs_readonly b \<or> fst (block_write es offset (replicate (unat es) 0) 1 b' os1) = Inl UndefinedBehaviour))
    else bs_mapped b' = bs_mapped b \<and> bs_data b' = None
      \<and> (\<forall>offset count. block_read es offset count b' os1 = Inr (0, []) \<or> offset = 0)"
proof (cases "be_munmap E (bo_calls os)")
  case True
  then have b': "b' = b\<lparr>bs_mapped := False, bs_fd := -1\<rparr>"
    using assms by (auto simp: block_reset_def Let_def)
  have one: "\<not> n < offset + 1" if "offset < n" for offset n :: size_t
    using that by (simp add: not_less inc_le)
  show ?thesis
    using True assms(1)
    by (auto simp: b' block_read_def block_write_def block_bytes_def read_data_def write_data_def mapped_def clamp_count_def
        byte_range_def one Let_def not_less [symmetric])
next
  case False
  then have b': "b' = b\<lparr>bs_data := None, bs_n := 0, bs_fd := -1\<rparr>"
    using assms by (auto simp: block_reset_def Let_def)
  show ?thesis using False by (auto simp: b' block_read_def read_data_def word_gt_0)
qed

theorem block_reset_dangles_witness:
  "let b = \<lparr>bs_fd = 3, bs_data = Some ''f'', bs_n = 2, bs_readonly = True, bs_mapped = True\<rparr>;
       E = \<lparr>be_open = (\<lambda>k. None), be_ftruncate = (\<lambda>k. True), be_fstat = (\<lambda>k. True), be_mmap = (\<lambda>k. True), be_munmap = (\<lambda>k. True)\<rparr>;
       os = \<lparr>bo_files = [''f'' \<mapsto> [1, 2]], bo_fds = [3 \<mapsto> ''f''], bo_calls = 0\<rparr>;
       (b', os') = block_reset E 1 b os
   in block_read 1 0 1 b os = Inr (1, [1]) \<and> block_read 1 0 1 b' os' = Inl UndefinedBehaviour"
proof -
  let ?b = "\<lparr>bs_fd = 3, bs_data = Some ''f'', bs_n = 2, bs_readonly = True, bs_mapped = True\<rparr>"
  let ?E = "\<lparr>be_open = (\<lambda>k. None), be_ftruncate = (\<lambda>k. True), be_fstat = (\<lambda>k. True), be_mmap = (\<lambda>k. True), be_munmap = (\<lambda>k. True)\<rparr>"
  let ?os = "\<lparr>bo_files = [''f'' \<mapsto> [1, 2]], bo_fds = [3 \<mapsto> ''f''], bo_calls = 0\<rparr>"
  obtain b' os' where r: "block_reset ?E 1 ?b ?os = (b', os')" by (rule prod.exhaust)
  have "block_read 1 0 1 b' os' = Inl UndefinedBehaviour"
    using block_reset_dangles [OF _ r, of "''f''" os'] by simp
  moreover have "block_read 1 0 1 ?b ?os = Inr (1, [1])"
    by (simp add: block_read_def block_bytes_def read_data_def clamp_count_def mapped_def byte_range_def)
  ultimately show ?thesis by (simp only: Let_def r prod.case)
qed

end
