(* ===== verification/Task_Runner.thy ===== *)
theory Task_Runner
  imports Prelude
begin

text \<open>
  The task queue and its worker threads (\<open>common/utils/task_runner.h\<close>), a template that nothing instantiates
  and that does not compile as it stands (a \<open>multiset\<close> of objects is used as one of pointers); the model
  takes the elements as the pointers that the operations use. The \<open>multiset\<close> is the list of its elements
  in its order, equal ones in the order of their insertion. The comparison of \<open>double\<close> is a parameter.
\<close>

datatype task_status = PENDING | RUNNING | COMPLETED | TASK_FAILED | CANCELLED | TIMEOUT | OVERLOAD

text \<open>\<open>tk_ident\<close> stands for what the container runs.\<close>

record 'd task =
  tk_ident :: nat
  tk_priority :: int
  tk_timestamp :: 'd
  tk_status :: task_status

definition get_priority :: "'d task \<Rightarrow> int" where
  "get_priority t = tk_priority t"

text \<open>As written: the priority, not the time.\<close>

definition get_timestamp :: "'d task \<Rightarrow> int" where
  "get_timestamp t = tk_priority t"

definition newest_first :: "'d task \<Rightarrow> 'd task \<Rightarrow> bool" where
  "newest_first a b =
     (if get_timestamp a = get_timestamp b then get_priority a < get_priority b else get_timestamp a < get_timestamp b)"

definition oldest_first :: "'d task \<Rightarrow> 'd task \<Rightarrow> bool" where
  "oldest_first a b =
     (if get_timestamp a = get_timestamp b then get_priority a < get_priority b else get_timestamp a > get_timestamp b)"

subsection \<open>The queue\<close>

fun emplace_task :: "('d task \<Rightarrow> 'd task \<Rightarrow> bool) \<Rightarrow> 'd task \<Rightarrow> 'd task list \<Rightarrow> 'd task list" where
  "emplace_task before t [] = [t]"
| "emplace_task before t (x # xs) = (if before t x then t # x # xs else x # emplace_task before t xs)"

text \<open>The loop of \<open>pop_tasks\<close>: what stays in the set and what is popped.\<close>

fun pop_loop :: "('d \<Rightarrow> 'd \<Rightarrow> bool) \<Rightarrow> int \<Rightarrow> 'd \<Rightarrow> int \<Rightarrow> int \<Rightarrow> 'd task list \<Rightarrow> 'd task list \<times> 'd task list" where
  "pop_loop lt max_per_priority older_than cnt last_priority [] = ([], [])"
| "pop_loop lt max_per_priority older_than cnt last_priority (t # ts) =
     (if tk_priority t = -1
      then (let (kept, popped) = pop_loop lt max_per_priority older_than cnt last_priority ts in (t # kept, popped))
      else
        let cnt = (if tk_priority t = last_priority then cnt + 1 else 1);
            (kept, popped) = pop_loop lt max_per_priority older_than cnt (tk_priority t) ts
        in if cnt > max_per_priority
           then (kept, t\<lparr>tk_status := OVERLOAD, tk_priority := -1\<rparr> # popped)
           else if lt (tk_timestamp t) older_than
           then (kept, t\<lparr>tk_status := TIMEOUT, tk_priority := -1\<rparr> # popped)
           else (t # kept, popped))"

definition pop_tasks ::
  "('d task \<Rightarrow> 'd task \<Rightarrow> bool) \<Rightarrow> ('d \<Rightarrow> 'd \<Rightarrow> bool) \<Rightarrow> int \<Rightarrow> 'd \<Rightarrow> 'd task list \<Rightarrow> 'd task list" where
  "pop_tasks before lt max_per_priority older_than ts =
     (let (kept, popped) = pop_loop lt max_per_priority older_than 0 (-1) ts in fold (emplace_task before) popped kept)"

definition cancel_all :: "'d task list \<Rightarrow> 'd task list" where
  "cancel_all ts = map (\<lambda>t. t\<lparr>tk_status := CANCELLED, tk_priority := -1\<rparr>) ts"

subsection \<open>The workers\<close>

text \<open>
  A worker at the top of its loop, waiting on the condition variable, woken, with a task, and ended. The
  condition of the loop, which the code reads without the lock, is taken together with the locked part.
\<close>

datatype 'd worker = At_top | Asleep | Woken | With_task "'d task" | Ended

record 'd runner =
  tr_tasks :: "'d task list"
  tr_workers :: "'d worker list"
  tr_running :: bool
  tr_ran :: "'d task list"

definition start_threads :: "nat \<Rightarrow> 'd runner" where
  "start_threads num_threads = \<lparr>tr_tasks = [], tr_workers = replicate num_threads At_top, tr_running = True, tr_ran = []\<rparr>"

text \<open>
  \<open>pop_unsafe\<close> returns a reference to the element inside the node handle that \<open>extract\<close> gave it, a
  temporary that is destroyed, with the element, when the function returns; \<open>None\<close> is such a dangling
  reference. \<open>take_task\<close> is the assignment \<open>task = pop_unsafe()\<close>, which reads through the reference.
\<close>

definition pop_unsafe :: "'d runner \<Rightarrow> ('d task option \<times> 'd runner) result" where
  "pop_unsafe r =
     (case tr_tasks r of
        [] \<Rightarrow> Inl UndefinedBehaviour
      | t # ts \<Rightarrow> Inr (None, r\<lparr>tr_tasks := ts\<rparr>))"

definition take_task :: "nat \<Rightarrow> 'd runner \<Rightarrow> 'd runner result" where
  "take_task i r =
     bind_result (pop_unsafe r) (\<lambda>(ref, r').
       case ref of
         None \<Rightarrow> Inl UndefinedBehaviour
       | Some t \<Rightarrow> Inr (r'\<lparr>tr_workers := (tr_workers r')[i := With_task t]\<rparr>))"

definition task_loop :: "nat \<Rightarrow> 'd runner \<Rightarrow> 'd runner result" where
  "task_loop i r =
     (case tr_workers r ! i of
        At_top \<Rightarrow>
          if tr_running r \<or> tr_tasks r \<noteq> [] then
            (if tr_tasks r \<noteq> [] then take_task i r else Inr (r\<lparr>tr_workers := (tr_workers r)[i := Asleep]\<rparr>))
          else Inr (r\<lparr>tr_workers := (tr_workers r)[i := Ended]\<rparr>)
      | Asleep \<Rightarrow> Inr r
      | Woken \<Rightarrow> take_task i r
      | With_task t \<Rightarrow> Inr (r\<lparr>tr_workers := (tr_workers r)[i := At_top], tr_ran := tr_ran r @ [t]\<rparr>)
      | Ended \<Rightarrow> Inr r)"

definition wake_worker :: "'d worker \<Rightarrow> 'd worker" where
  "wake_worker w = (case w of Asleep \<Rightarrow> Woken | _ \<Rightarrow> w)"

definition wake_nth :: "nat \<Rightarrow> 'd worker list \<Rightarrow> 'd worker list" where
  "wake_nth i ws = (if i < length ws then ws[i := wake_worker (ws ! i)] else ws)"

text \<open>\<open>notify_one\<close> wakes one of the sleeping workers, here the \<open>i\<close>-th if it sleeps.\<close>

definition runner_push :: "('d task \<Rightarrow> 'd task \<Rightarrow> bool) \<Rightarrow> nat \<Rightarrow> 'd task \<Rightarrow> 'd runner \<Rightarrow> 'd runner" where
  "runner_push before i t r =
     r\<lparr>tr_tasks := emplace_task before t (tr_tasks r),
       tr_workers := wake_nth i (tr_workers r)\<rparr>"

definition runner_join :: "'d runner \<Rightarrow> 'd runner" where
  "runner_join r = r\<lparr>tr_running := False, tr_workers := map wake_worker (tr_workers r)\<rparr>"

datatype 'd runner_event =
    Ev_push nat "'d task"
  | Ev_pop int 'd
  | Ev_cancel
  | Ev_join
  | Ev_worker nat
  | Ev_wake nat

text \<open>\<open>Ev_wake\<close> is a spurious wake-up of \<open>cv.wait\<close>, which the language allows at any time.\<close>

fun runner_run ::
  "('d task \<Rightarrow> 'd task \<Rightarrow> bool) \<Rightarrow> ('d \<Rightarrow> 'd \<Rightarrow> bool) \<Rightarrow> 'd runner_event list \<Rightarrow> 'd runner \<Rightarrow> 'd runner result" where
  "runner_run before lt [] r = Inr r"
| "runner_run before lt (Ev_push i t # es) r = runner_run before lt es (runner_push before i t r)"
| "runner_run before lt (Ev_pop k d # es) r =
     runner_run before lt es (r\<lparr>tr_tasks := pop_tasks before lt k d (tr_tasks r)\<rparr>)"
| "runner_run before lt (Ev_cancel # es) r = runner_run before lt es (r\<lparr>tr_tasks := cancel_all (tr_tasks r)\<rparr>)"
| "runner_run before lt (Ev_join # es) r = runner_run before lt es (runner_join r)"
| "runner_run before lt (Ev_worker i # es) r =
     (if i < length (tr_workers r) then bind_result (task_loop i r) (runner_run before lt es) else runner_run before lt es r)"
| "runner_run before lt (Ev_wake i # es) r = runner_run before lt es (r\<lparr>tr_workers := wake_nth i (tr_workers r)\<rparr>)"

text \<open>
  \<open>TaskContainerLambda\<close> calls its function with the status that the task has when it is run (it calls the
  pointer to the function, which does not compile). The destructor gives all waiting tasks up and joins.
\<close>

definition lambda_run :: "(nat \<Rightarrow> task_status \<Rightarrow> 'a) \<Rightarrow> 'd task \<Rightarrow> 'a" where
  "lambda_run lambda t = lambda (tk_ident t) (tk_status t)"

definition destroy_runner :: "'d runner \<Rightarrow> 'd runner" where
  "destroy_runner r = runner_join (r\<lparr>tr_tasks := cancel_all (tr_tasks r)\<rparr>)"

subsection \<open>What a comparator promises\<close>

locale task_order =
  fixes before :: "'d task \<Rightarrow> 'd task \<Rightarrow> bool"
  assumes equal_iff: "\<not> before a b \<and> \<not> before b a \<longleftrightarrow> tk_priority a = tk_priority b"
    and asym: "before a b \<Longrightarrow> \<not> before b a"
    and not_before_trans: "\<not> before b a \<Longrightarrow> \<not> before c b \<Longrightarrow> \<not> before c a"
begin

definition ordered :: "'d task list \<Rightarrow> bool" where
  "ordered ts = sorted_wrt (\<lambda>a b. \<not> before b a) ts"

lemma set_emplace: "set (emplace_task before t ts) = insert t (set ts)"
  by (induction ts) auto

lemma mset_emplace: "mset (emplace_task before t ts) = add_mset t (mset ts)"
  by (induction ts) auto

lemma ordered_emplace:
  assumes "ordered ts"
  shows "ordered (emplace_task before t ts)"
  using assms
proof (induction ts)
  case (Cons x xs)
  have rest: "\<forall>y \<in> set xs. \<not> before y x" and ord: "ordered xs" using Cons.prems by (simp_all add: ordered_def)
  show ?case
  proof (cases "before t x")
    case True
    then have "\<not> before x t" by (rule asym)
    moreover have "\<forall>y \<in> set xs. \<not> before y t" using rest not_before_trans [OF calculation] by blast
    ultimately show ?thesis using True Cons.prems by (simp add: ordered_def)
  next
    case False
    then show ?thesis using Cons.IH ord rest by (simp add: ordered_def set_emplace)
  qed
qed (simp add: ordered_def)

lemma mset_fold_emplace: "mset (fold (emplace_task before) ps ts) = mset ps + mset ts"
  by (induction ps arbitrary: ts) (simp_all add: mset_emplace)

lemma ordered_fold_emplace: "ordered ts \<Longrightarrow> ordered (fold (emplace_task before) ps ts)"
  by (induction ps arbitrary: ts) (simp_all add: ordered_emplace)

text \<open>Equal priorities stand together, so a counter per run counts a priority.\<close>

definition at_priority :: "int \<Rightarrow> 'd task list \<Rightarrow> nat" where
  "at_priority p ts = length (filter (\<lambda>t. tk_priority t = p) ts)"

lemma fst_pop_loop:
  "fst (pop_loop lt k d cnt lp (t # ts)) =
     (if tk_priority t = -1 then t # fst (pop_loop lt k d cnt lp ts)
      else let c = (if tk_priority t = lp then cnt + 1 else 1);
               kept = fst (pop_loop lt k d c (tk_priority t) ts)
           in if c > k \<or> lt (tk_timestamp t) d then kept else t # kept)"
  by (simp add: Let_def split: prod.split)

lemma pop_loop_kept: "set (fst (pop_loop lt k d cnt lp ts)) \<subseteq> set ts"
  by (induction lt k d cnt lp ts rule: pop_loop.induct) (auto simp: Let_def split: prod.splits if_splits)

lemma pop_loop_ordered:
  "ordered ts \<Longrightarrow> ordered (fst (pop_loop lt k d cnt lp ts))"
proof (induction ts arbitrary: cnt lp)
  case (Cons t ts)
  have "\<forall>y \<in> set (fst (pop_loop lt k d c l ts)). \<not> before y t" for c l
    using Cons.prems pop_loop_kept [of lt k d c l ts] by (auto simp: ordered_def)
  then show ?case
    using Cons.prems Cons.IH by (simp add: ordered_def fst_pop_loop Let_def del: pop_loop.simps)
qed (simp add: ordered_def)

lemma pop_loop_in_time:
  "t \<in> set (fst (pop_loop lt k d cnt lp ts)) \<Longrightarrow> tk_priority t \<noteq> -1 \<Longrightarrow> \<not> lt (tk_timestamp t) d"
  by (induction lt k d cnt lp ts rule: pop_loop.induct) (auto simp: Let_def split: prod.splits if_splits)

lemma pop_loop_popped: "t \<in> set (snd (pop_loop lt k d cnt lp ts)) \<Longrightarrow> tk_priority t = -1"
  by (induction lt k d cnt lp ts rule: pop_loop.induct) (auto simp: Let_def split: prod.splits if_splits)

lemma pop_loop_count:
  assumes "ordered ts" and "p \<noteq> -1" and "0 \<le> k"
    and "lp \<noteq> -1 \<Longrightarrow> \<exists>s. tk_priority s = lp \<and> (\<forall>t \<in> set ts. \<not> before t s)"
  shows "int (at_priority p (fst (pop_loop lt k d cnt lp ts))) \<le> (if lp = p then max 0 (k - cnt) else k)"
  using assms
proof (induction ts arbitrary: cnt lp)
  case Nil
  then show ?case by (simp add: at_priority_def)
next
  case (Cons t ts)
  have ord: "ordered ts" and after: "\<forall>x \<in> set ts. \<not> before x t" using Cons.prems(1) by (simp_all add: ordered_def)
  show ?case
  proof (cases "tk_priority t = -1")
    case True
    have "lp \<noteq> -1 \<Longrightarrow> \<exists>s. tk_priority s = lp \<and> (\<forall>x \<in> set ts. \<not> before x s)" using Cons.prems(4) by auto
    from Cons.IH [OF ord Cons.prems(2,3) this, of cnt] show ?thesis
      using True Cons.prems(2) by (simp add: at_priority_def fst_pop_loop del: pop_loop.simps)
  next
    case False
    define c where "c = (if tk_priority t = lp then cnt + 1 else 1)"
    have ih: "int (at_priority p (fst (pop_loop lt k d c (tk_priority t) ts)))
        \<le> (if tk_priority t = p then max 0 (k - c) else k)"
      by (rule Cons.IH [OF ord Cons.prems(2,3)]) (use after in blast)
    have none: "at_priority p (fst (pop_loop lt k d c (tk_priority t) ts)) = 0" if "lp = p" "tk_priority t \<noteq> p"
    proof -
      obtain s where s: "tk_priority s = p" "\<not> before t s" using Cons.prems(2,4) \<open>lp = p\<close> by auto
      have "tk_priority x \<noteq> p" if "x \<in> set ts" for x
      proof
        assume "tk_priority x = p"
        then have "\<not> before s x" using s(1) equal_iff [of s x] by simp
        moreover have "\<not> before x t" using after that by blast
        ultimately have "\<not> before s t" using not_before_trans by blast
        then show False using s equal_iff [of s t] \<open>tk_priority t \<noteq> p\<close> by simp
      qed
      then show ?thesis using pop_loop_kept [of lt k d c "tk_priority t" ts] by (auto simp: at_priority_def filter_empty_conv)
    qed
    obtain kept popped where rec: "pop_loop lt k d c (tk_priority t) ts = (kept, popped)" by (rule prod.exhaust)
    have step: "fst (pop_loop lt k d cnt lp (t # ts)) = (if c > k \<or> lt (tk_timestamp t) d then kept else t # kept)"
      using False by (simp add: fst_pop_loop c_def [symmetric] rec Let_def del: pop_loop.simps)
    show ?thesis
      using ih none Cons.prems(3) unfolding step rec fst_conv
      by (auto simp: at_priority_def c_def split: if_splits)
  qed
qed

lemma pop_tasks_contract:
  assumes "ordered ts" and "0 \<le> k"
  shows "ordered (pop_tasks before lt k d ts)
    \<and> (\<forall>p. p \<noteq> -1 \<longrightarrow> int (at_priority p (pop_tasks before lt k d ts)) \<le> k)
    \<and> (\<forall>t \<in> set (pop_tasks before lt k d ts). tk_priority t \<noteq> -1 \<longrightarrow> t \<in> set ts \<and> \<not> lt (tk_timestamp t) d)"
proof -
  obtain kept popped where l: "pop_loop lt k d 0 (-1) ts = (kept, popped)" by (rule prod.exhaust)
  have res: "mset (pop_tasks before lt k d ts) = mset popped + mset kept"
    by (simp add: pop_tasks_def l mset_fold_emplace)
  then have set_res: "set (pop_tasks before lt k d ts) = set popped \<union> set kept"
    by (metis set_mset_mset set_mset_union)
  have popped: "tk_priority t = -1" if "t \<in> set popped" for t using pop_loop_popped [of t lt k d 0 "-1" ts] l that by simp
  have "at_priority p (pop_tasks before lt k d ts) = at_priority p kept" if "p \<noteq> -1" for p
  proof -
    have "at_priority p (pop_tasks before lt k d ts) = size (filter_mset (\<lambda>t. tk_priority t = p) (mset popped + mset kept))"
      unfolding at_priority_def by (metis mset_filter res size_mset)
    moreover have "filter (\<lambda>t. tk_priority t = p) popped = []" using popped that by (auto simp: filter_empty_conv)
    ultimately show ?thesis by (simp add: at_priority_def flip: mset_filter)
  qed
  moreover have "int (at_priority p kept) \<le> k" if "p \<noteq> -1" for p
    using pop_loop_count [OF assms(1) that assms(2), of "-1" lt d 0] l that by simp
  moreover have "ordered (pop_tasks before lt k d ts)"
    using ordered_fold_emplace pop_loop_ordered [OF assms(1), of lt k d 0 "-1"] by (simp add: pop_tasks_def l)
  moreover have "t \<in> set ts \<and> \<not> lt (tk_timestamp t) d" if "t \<in> set (pop_tasks before lt k d ts)" "tk_priority t \<noteq> -1" for t
  proof -
    have "t \<in> set kept" using that set_res popped by auto
    then show ?thesis using pop_loop_kept [of lt k d 0 "-1" ts] pop_loop_in_time [of t lt k d 0 "-1" ts] that l by auto
  qed
  ultimately show ?thesis by simp
qed

end

interpretation newest: task_order newest_first
  by unfold_locales (auto simp: newest_first_def get_timestamp_def get_priority_def split: if_splits)

interpretation oldest: task_order oldest_first
  by unfold_locales (auto simp: oldest_first_def get_timestamp_def get_priority_def split: if_splits)

subsection \<open>The queue under its limits\<close>

lemma newest_first_iff: "newest_first a b \<longleftrightarrow> tk_priority a < tk_priority b"
  by (simp add: newest_first_def get_timestamp_def get_priority_def)

lemma oldest_first_iff: "oldest_first a b \<longleftrightarrow> tk_priority b < tk_priority a"
  by (simp add: oldest_first_def get_timestamp_def get_priority_def)

text \<open>
  The limits of \<open>pop_tasks\<close>, with either comparator: a queue in order stays in order, afterwards no
  priority but that of the given-up tasks has more than the allowed number of tasks, and a task that was
  not given up was in the queue, unchanged, and is not older than the bound.
\<close>

theorem pop_tasks_bounds:
  assumes "(before = newest_first \<and> newest.ordered ts) \<or> (before = oldest_first \<and> oldest.ordered ts)" and "0 \<le> k"
  shows "(if before = newest_first then newest.ordered (pop_tasks before lt k d ts) else oldest.ordered (pop_tasks before lt k d ts))
    \<and> (\<forall>p. p \<noteq> -1 \<longrightarrow> int (length (filter (\<lambda>t. tk_priority t = p) (pop_tasks before lt k d ts))) \<le> k)
    \<and> (\<forall>t \<in> set (pop_tasks before lt k d ts). tk_priority t \<noteq> -1 \<longrightarrow> t \<in> set ts \<and> \<not> lt (tk_timestamp t) d)"
proof (cases "before = newest_first")
  case True
  have ne: "newest_first \<noteq> (oldest_first :: 'a task \<Rightarrow> 'a task \<Rightarrow> bool)"
  proof
    assume "newest_first = (oldest_first :: 'a task \<Rightarrow> 'a task \<Rightarrow> bool)"
    then have "newest_first t (t\<lparr>tk_priority := tk_priority t + 1\<rparr>) = oldest_first t (t\<lparr>tk_priority := tk_priority t + 1\<rparr>)"
      for t :: "'a task" by simp
    then show False by (simp add: newest_first_iff oldest_first_iff)
  qed
  then have "newest.ordered ts" using assms(1) True by auto
  from newest.pop_tasks_contract [OF this assms(2), of lt d] show ?thesis
    by (simp add: True newest.at_priority_def)
next
  case False
  then have "before = oldest_first" "oldest.ordered ts" using assms(1) by auto
  with oldest.pop_tasks_contract [OF this(2) assms(2), of lt d] False show ?thesis
    by (simp add: oldest.at_priority_def)
qed

theorem pop_tasks_bounds_witness:
  "let t = \<lparr>tk_ident = 0, tk_priority = 5, tk_timestamp = 7 :: nat, tk_status = PENDING\<rparr>;
       ts = pop_tasks newest_first (<) 1 3 [t, t\<lparr>tk_ident := 1\<rparr>]
   in int (length (filter (\<lambda>t. tk_priority t = 5) ts)) \<le> 1 \<and> length ts = 2"
proof -
  let ?t = "\<lparr>tk_ident = 0, tk_priority = 5, tk_timestamp = 7 :: nat, tk_status = PENDING\<rparr>"
  let ?ts = "[?t, ?t\<lparr>tk_ident := 1\<rparr>]"
  have "newest.ordered ?ts" by (simp add: newest.ordered_def newest_first_iff)
  then have "int (length (filter (\<lambda>t. tk_priority t = 5) (pop_tasks newest_first (<) 1 3 ?ts))) \<le> 1"
    using pop_tasks_bounds [of newest_first ?ts 1 "(<)" 3] by simp
  moreover have "length (pop_tasks newest_first (<) 1 3 ?ts) = 2"
    by (simp add: pop_tasks_def Let_def newest_first_iff)
  ultimately show ?thesis by (simp add: Let_def)
qed

subsection \<open>What the workers do\<close>

definition idents :: "'d task list \<Rightarrow> nat multiset" where
  "idents ts = mset (map tk_ident ts)"

fun pushed :: "'d runner_event list \<Rightarrow> nat multiset" where
  "pushed [] = {#}"
| "pushed (Ev_push i t # es) = add_mset (tk_ident t) (pushed es)"
| "pushed (e # es) = pushed es"

lemma idents_emplace: "idents (emplace_task before t ts) = add_mset (tk_ident t) (idents ts)"
  by (induction ts) (auto simp: idents_def)

lemma idents_fold_emplace: "idents (fold (emplace_task before) ps ts) = idents ps + idents ts"
proof (induction ps arbitrary: ts)
  case (Cons p ps)
  then show ?case by (simp add: idents_emplace) (simp add: idents_def)
qed (simp add: idents_def)

lemma idents_pop_loop:
  "idents (fst (pop_loop lt k d cnt lp ts)) + idents (snd (pop_loop lt k d cnt lp ts)) = idents ts"
  by (induction lt k d cnt lp ts rule: pop_loop.induct) (auto simp: idents_def Let_def split: prod.splits)

lemma idents_pop_tasks: "idents (pop_tasks before lt k d ts) = idents ts"
proof -
  obtain kept popped where "pop_loop lt k d 0 (-1) ts = (kept, popped)" by (rule prod.exhaust)
  then show ?thesis
    using idents_pop_loop [of lt k d 0 "-1" ts] by (simp add: pop_tasks_def idents_fold_emplace add.commute)
qed

lemma idents_cancel: "idents (cancel_all ts) = idents ts"
  by (simp add: idents_def cancel_all_def comp_def)

lemma take_task_undefined: "take_task i r = Inl UndefinedBehaviour"
  by (simp add: take_task_def pop_unsafe_def split: list.split)

text \<open>No worker holds a task and none was run.\<close>

definition nothing_ran :: "'d runner \<Rightarrow> bool" where
  "nothing_ran r = (tr_ran r = [] \<and> (\<forall>t. With_task t \<notin> set (tr_workers r)))"

lemma nothing_ran_update:
  "nothing_ran r \<Longrightarrow> (\<And>t. w \<noteq> With_task t) \<Longrightarrow> nothing_ran (r\<lparr>tr_workers := (tr_workers r)[i := w]\<rparr>)"
  using set_update_subset_insert [of "tr_workers r" i w] by (force simp: nothing_ran_def)

lemma nothing_ran_worker:
  assumes "nothing_ran r" and "i < length (tr_workers r)" and "task_loop i r = Inr r'"
  shows "nothing_ran r' \<and> tr_tasks r' = tr_tasks r"
proof -
  have "tr_workers r ! i \<noteq> With_task t" for t using assms(1) nth_mem [OF assms(2)] by (metis nothing_ran_def)
  then show ?thesis using assms(1,3)
    by (auto simp: task_loop_def take_task_undefined split: worker.splits if_splits intro!: nothing_ran_update)
qed

lemma wake_worker_task: "wake_worker w = With_task t \<longleftrightarrow> w = With_task t"
  by (cases w) (simp_all add: wake_worker_def)

lemma nothing_ran_wake: "nothing_ran r \<Longrightarrow> nothing_ran (r\<lparr>tr_workers := wake_nth i (tr_workers r)\<rparr>)"
  using nothing_ran_update [of r "wake_worker (tr_workers r ! i)" i]
  by (auto simp: wake_nth_def wake_worker_task) (metis nothing_ran_def nth_mem)

lemma nothing_ran_run:
  "nothing_ran r \<Longrightarrow> runner_run before lt es r = Inr r' \<Longrightarrow> nothing_ran r' \<and> idents (tr_tasks r') = idents (tr_tasks r) + pushed es"
proof (induction es arbitrary: r)
  case (Cons e es)
  show ?case
  proof (cases e)
    case (Ev_worker i)
    show ?thesis
    proof (cases "i < length (tr_workers r)")
      case True
      then obtain r1 where r1: "task_loop i r = Inr r1" "runner_run before lt es r1 = Inr r'"
        using Cons.prems(2) Ev_worker by (auto simp: bind_result_def split: sum.splits)
      then show ?thesis using Cons.IH [OF _ r1(2)] nothing_ran_worker [OF Cons.prems(1) True r1(1)] Ev_worker by simp
    qed (use Cons Ev_worker in simp)
  next
    case Ev_join
    have "nothing_ran (runner_join r)"
      using Cons.prems(1) by (auto simp: nothing_ran_def runner_join_def eq_commute [of "With_task _"] wake_worker_task)
    then show ?thesis using Cons Ev_join by (simp add: runner_join_def)
  next
    case (Ev_push i t)
    have "nothing_ran (runner_push before i t r)"
      using nothing_ran_wake [OF Cons.prems(1), of i] by (simp add: runner_push_def nothing_ran_def)
    then show ?thesis using Cons Ev_push by (simp add: runner_push_def idents_emplace)
  next
    case (Ev_pop k d)
    have "nothing_ran (r\<lparr>tr_tasks := pop_tasks before lt k d (tr_tasks r)\<rparr>)" using Cons.prems(1) by (simp add: nothing_ran_def)
    then show ?thesis using Cons Ev_pop by (simp add: idents_pop_tasks)
  next
    case Ev_cancel
    have "nothing_ran (r\<lparr>tr_tasks := cancel_all (tr_tasks r)\<rparr>)" using Cons.prems(1) by (simp add: nothing_ran_def)
    then show ?thesis using Cons Ev_cancel by (simp add: idents_cancel)
  next
    case (Ev_wake i)
    then show ?thesis using Cons nothing_ran_wake [OF Cons.prems(1), of i] by simp
  qed
qed simp

lemma runner_run_append:
  "runner_run before lt (es @ es') r = bind_result (runner_run before lt es r) (runner_run before lt es')"
proof (induction es arbitrary: r)
  case (Cons e es)
  have eq: "runner_run before lt (es @ es') = (\<lambda>r. bind_result (runner_run before lt es r) (runner_run before lt es'))"
    using Cons.IH by (intro ext)
  show ?case by (cases e) (simp_all add: eq bind_result_assoc)
qed simp

text \<open>
  C16. No task is ever run. After any sequence of pushes, limits, cancellations, wake-ups and steps of the
  workers that has kept to what the language defines, nothing was run and the queue holds every task that
  was pushed; and the next step of any worker that has not ended then is undefined while a task waits.
\<close>

theorem no_task_ever_runs:
  assumes "runner_run before lt es (start_threads n) = Inr r"
  shows "tr_ran r = [] \<and> idents (tr_tasks r) = pushed es
    \<and> (\<forall>i < length (tr_workers r). tr_workers r ! i \<noteq> Ended \<and> tr_tasks r \<noteq> [] \<longrightarrow>
         runner_run before lt (es @ [Ev_wake i, Ev_worker i]) (start_threads n) = Inl UndefinedBehaviour)"
proof -
  have "nothing_ran (start_threads n :: 'a runner)" by (simp add: nothing_ran_def start_threads_def)
  from nothing_ran_run [OF this assms] have ran: "nothing_ran r" "idents (tr_tasks r) = pushed es"
    by (simp_all add: start_threads_def idents_def)
  have "runner_run before lt (es @ [Ev_wake i, Ev_worker i]) (start_threads n) = Inl UndefinedBehaviour"
    if "i < length (tr_workers r)" "tr_workers r ! i \<noteq> Ended" "tr_tasks r \<noteq> []" for i
  proof -
    have "tr_workers r ! i \<noteq> With_task t" for t using ran(1) nth_mem [OF that(1)] by (metis nothing_ran_def)
    then show ?thesis using that assms
      by (cases "tr_workers r ! i")
        (auto simp: runner_run_append wake_nth_def wake_worker_def task_loop_def take_task_undefined)
  qed
  then show ?thesis using ran by (simp add: nothing_ran_def)
qed

theorem no_task_ever_runs_witness:
  "let t = \<lparr>tk_ident = 9, tk_priority = 5, tk_timestamp = 7 :: nat, tk_status = PENDING\<rparr>
   in runner_run newest_first (<) [Ev_worker 0, Ev_push 0 t, Ev_wake 0, Ev_worker 0] (start_threads 1) = Inl UndefinedBehaviour"
proof -
  let ?t = "\<lparr>tk_ident = 9, tk_priority = 5, tk_timestamp = 7 :: nat, tk_status = PENDING\<rparr>"
  obtain r where r: "runner_run newest_first (<) [Ev_worker 0, Ev_push 0 ?t] (start_threads 1) = Inr r" "tr_tasks r = [?t]"
      "tr_workers r = [Woken]"
    by (simp add: start_threads_def runner_push_def task_loop_def wake_worker_def wake_nth_def)
  have "runner_run newest_first (<) ([Ev_worker 0, Ev_push 0 ?t] @ [Ev_wake 0, Ev_worker 0]) (start_threads 1) = Inl UndefinedBehaviour"
    using no_task_ever_runs [OF r(1)] r(2,3) by simp
  then show ?thesis by (simp only: Let_def append.simps)
qed

text \<open>
  A runner whose workers wait cannot be destroyed: whatever happened before, when a worker sleeps and
  the queue is empty, \<open>join\<close> wakes the worker and it takes a task from the empty queue.
\<close>

theorem idle_runner_cannot_be_joined:
  assumes "runner_run before lt es (start_threads n) = Inr r" and "tr_tasks r = []"
    and "i < length (tr_workers r)" and "tr_workers r ! i = Asleep"
  shows "runner_run before lt (es @ [Ev_cancel, Ev_join, Ev_worker i]) (start_threads n) = Inl UndefinedBehaviour"
  using assms
  by (simp add: runner_run_append cancel_all_def runner_join_def task_loop_def take_task_undefined wake_worker_def)

theorem idle_runner_cannot_be_joined_witness:
  "runner_run newest_first (<) [Ev_worker 0, Ev_cancel, Ev_join, Ev_worker 0] (start_threads 1 :: nat runner) = Inl UndefinedBehaviour"
proof -
  obtain r :: "nat runner" where "runner_run newest_first (<) [Ev_worker 0] (start_threads 1) = Inr r" "tr_tasks r = []"
      "0 < length (tr_workers r)" "tr_workers r ! 0 = Asleep"
    by (simp add: start_threads_def task_loop_def)
  from idle_runner_cannot_be_joined [OF this] show ?thesis by (simp only: append.simps)
qed

end
