(* ===== verification/Ref_Count.thy ===== *)
theory Ref_Count
  imports Prelude
begin

text \<open>
  Counted references (\<open>common/utils/ref_count_obj.h\<close>). A \<open>TrackRef\<close> variable is a slot that holds an
  object or nothing, a destroyed variable one that holds nothing; a \<open>void *\<close> into which a reference was
  moved is a slot of its own. A counter that is touched after its object was deleted is
  \<open>UndefinedBehaviour\<close>; the counter is an atomic \<open>int\<close>, which wraps around, a \<open>32 word\<close>.
\<close>

record ref_state =
  rc_counts :: "nat \<rightharpoonup> 32 word"
  rc_vars :: "nat option list"
  rc_voids :: "nat option list"

definition obj_inc_ref :: "nat \<Rightarrow> ref_state \<Rightarrow> ref_state result" where
  "obj_inc_ref obj s =
     (case rc_counts s obj of
        None \<Rightarrow> Inl UndefinedBehaviour
      | Some c \<Rightarrow> Inr (s\<lparr>rc_counts := (rc_counts s)(obj \<mapsto> c + 1)\<rparr>))"

definition obj_unref :: "nat \<Rightarrow> ref_state \<Rightarrow> ref_state result" where
  "obj_unref obj s =
     (case rc_counts s obj of
        None \<Rightarrow> Inl UndefinedBehaviour
      | Some c \<Rightarrow>
          Inr (s\<lparr>rc_counts := (rc_counts s)(obj := if c = 1 then None else Some (c - 1))\<rparr>))"

definition set_var :: "nat \<Rightarrow> nat option \<Rightarrow> ref_state \<Rightarrow> ref_state" where
  "set_var v x s = s\<lparr>rc_vars := (rc_vars s)[v := x]\<rparr>"

definition ref_inc_ref :: "nat \<Rightarrow> ref_state \<Rightarrow> ref_state result" where
  "ref_inc_ref v s = (case rc_vars s ! v of None \<Rightarrow> Inr s | Some obj \<Rightarrow> obj_inc_ref obj s)"

definition ref_unref :: "nat \<Rightarrow> ref_state \<Rightarrow> ref_state result" where
  "ref_unref v s =
     (case rc_vars s ! v of None \<Rightarrow> Inr s | Some obj \<Rightarrow> map_sum (\<lambda>e. e) (set_var v None) (obj_unref obj s))"

definition ref_new :: "nat \<Rightarrow> nat option \<Rightarrow> ref_state \<Rightarrow> ref_state result" where
  "ref_new v obj s = ref_inc_ref v (set_var v obj s)"

definition ref_copy :: "nat \<Rightarrow> nat \<Rightarrow> ref_state \<Rightarrow> ref_state result" where
  "ref_copy v w s = ref_inc_ref v (set_var v (rc_vars s ! w) s)"

definition ref_assign :: "nat \<Rightarrow> nat \<Rightarrow> ref_state \<Rightarrow> ref_state result" where
  "ref_assign v w s =
     bind_result (ref_unref v s) (\<lambda>s. ref_inc_ref v (set_var v (rc_vars s ! w) s))"

definition ref_move :: "nat \<Rightarrow> nat \<Rightarrow> ref_state \<Rightarrow> ref_state result" where
  "ref_move v w s = Inr (set_var w None (set_var v (rc_vars s ! w) s))"

definition ref_move_to_void :: "nat \<Rightarrow> nat \<Rightarrow> ref_state \<Rightarrow> ref_state" where
  "ref_move_to_void v k s = set_var v None (s\<lparr>rc_voids := (rc_voids s)[k := rc_vars s ! v]\<rparr>)"

text \<open>It sets the member of the new reference and counts nothing.\<close>

definition ref_copy_void :: "nat \<Rightarrow> nat \<Rightarrow> ref_state \<Rightarrow> ref_state" where
  "ref_copy_void v k s = set_var v (rc_voids s ! k) s"

subsection \<open>Programs\<close>

text \<open>
  \<open>Take_void\<close> is \<open>copy_void_ref\<close> on a pointer that is not used again, \<open>Copy_void\<close> on one that is.
\<close>

datatype ref_op =
    New_object nat
  | Track nat nat
  | Copy nat nat
  | Assign nat nat
  | Move nat nat
  | Destroy nat
  | To_void nat nat
  | Take_void nat nat
  | Copy_void nat nat

definition ref_step :: "ref_op \<Rightarrow> ref_state \<Rightarrow> ref_state result" where
  "ref_step a s = (case a of
      New_object obj \<Rightarrow> Inr (s\<lparr>rc_counts := (rc_counts s)(obj \<mapsto> 0)\<rparr>)
    | Track v obj \<Rightarrow> ref_new v (Some obj) s
    | Copy v w \<Rightarrow> ref_copy v w s
    | Assign v w \<Rightarrow> ref_assign v w s
    | Move v w \<Rightarrow> ref_move v w s
    | Destroy v \<Rightarrow> ref_unref v s
    | To_void v k \<Rightarrow> Inr (ref_move_to_void v k s)
    | Take_void v k \<Rightarrow> Inr ((ref_copy_void v k s)\<lparr>rc_voids := (rc_voids s)[k := None]\<rparr>)
    | Copy_void v k \<Rightarrow> Inr (ref_copy_void v k s))"

text \<open>
  What C++ and the contract of the pointer ask of each operation: a variable is constructed once, an
  object is new, a reference is made from a pointer to an object that no reference has counted yet or
  that another reference still holds, a moved pointer is not overwritten while it holds a reference, and
  is taken only once.
\<close>

definition allowed :: "ref_op \<Rightarrow> ref_state \<Rightarrow> bool" where
  "allowed a s = (case a of
      New_object obj \<Rightarrow> rc_counts s obj = None
    | Track v obj \<Rightarrow> v < length (rc_vars s) \<and> rc_vars s ! v = None
        \<and> (rc_counts s obj = Some 0 \<or> Some obj \<in> set (rc_vars s) \<or> Some obj \<in> set (rc_voids s))
    | Copy v w \<Rightarrow> v < length (rc_vars s) \<and> w < length (rc_vars s) \<and> v \<noteq> w \<and> rc_vars s ! v = None
    | Assign v w \<Rightarrow> v < length (rc_vars s) \<and> w < length (rc_vars s)
    | Move v w \<Rightarrow> v < length (rc_vars s) \<and> w < length (rc_vars s) \<and> v \<noteq> w \<and> rc_vars s ! v = None
    | Destroy v \<Rightarrow> v < length (rc_vars s)
    | To_void v k \<Rightarrow> v < length (rc_vars s) \<and> k < length (rc_voids s) \<and> rc_voids s ! k = None
    | Take_void v k \<Rightarrow> v < length (rc_vars s) \<and> k < length (rc_voids s) \<and> rc_vars s ! v = None
    | Copy_void v k \<Rightarrow> False)"

fun ref_run :: "ref_op list \<Rightarrow> ref_state \<Rightarrow> ref_state result" where
  "ref_run [] s = Inr s"
| "ref_run (a # as) s = bind_result (ref_step a s) (ref_run as)"

fun run_allowed :: "ref_op list \<Rightarrow> ref_state \<Rightarrow> bool" where
  "run_allowed [] s = True"
| "run_allowed (a # as) s =
     (allowed a s \<and> (case ref_step a s of Inl e \<Rightarrow> True | Inr s' \<Rightarrow> run_allowed as s'))"

definition no_refs :: "nat \<Rightarrow> nat \<Rightarrow> ref_state" where
  "no_refs vars voids = \<lparr>rc_counts = Map.empty, rc_vars = replicate vars None, rc_voids = replicate voids None\<rparr>"

subsection \<open>The counters count the references\<close>

definition holders :: "nat \<Rightarrow> ref_state \<Rightarrow> nat" where
  "holders obj s = count_list (rc_vars s) (Some obj) + count_list (rc_voids s) (Some obj)"

fun ref_ok :: "32 word option \<Rightarrow> nat \<Rightarrow> bool" where
  "ref_ok None k = (k = 0)"
| "ref_ok (Some c) k = (unat c = k)"

definition counted_refs :: "ref_state \<Rightarrow> bool" where
  "counted_refs s =
     (length (rc_vars s) + length (rc_voids s) < 2 ^ 31
      \<and> (\<forall>obj. ref_ok (rc_counts s obj) (holders obj s)))"

lemma holders_le: "holders obj s \<le> length (rc_vars s) + length (rc_voids s)"
  unfolding holders_def by (intro add_mono count_le_length)

lemma unat_count_inc: "Suc k < 2 ^ 31 \<Longrightarrow> unat (c :: 32 word) = k \<Longrightarrow> unat (c + 1) = Suc k"
  by (simp add: unat_word_ariths)

lemma unat_count_dec: "0 < k \<Longrightarrow> unat (c :: 32 word) = k \<Longrightarrow> unat (c - 1) = k - 1"
  by (metis One_nat_def Suc_le_eq unat_1 unat_sub word_le_nat_alt)

lemma holders_counts [simp]: "holders obj (s\<lparr>rc_counts := m\<rparr>) = holders obj s"
  by (simp add: holders_def)

lemma count_update:
  "i < length xs \<Longrightarrow> count_list (xs[i := y]) a + (if xs ! i = a then 1 else 0) = count_list xs a + (if y = a then 1 else 0)"
proof (induction xs arbitrary: i)
  case (Cons x xs)
  show ?case
  proof (cases i)
    case (Suc j)
    then show ?thesis using Cons.IH [of j] Cons.prems by auto
  qed simp
qed simp

lemma holders_set_var:
  assumes "v < length (rc_vars s)"
  shows "holders obj (set_var v x s) + (if rc_vars s ! v = Some obj then 1 else 0)
    = holders obj s + (if x = Some obj then 1 else 0)"
  using count_update [OF assms, of x "Some obj"] by (simp add: holders_def set_var_def)

lemma holder_alive:
  assumes "counted_refs s" and "v < length (rc_vars s)" and "rc_vars s ! v = Some obj"
  shows "\<exists>c. rc_counts s obj = Some c \<and> unat c = holders obj s \<and> 0 < holders obj s"
proof -
  have "0 < holders obj s" using holders_set_var [OF assms(2), of obj None] assms(3) by simp
  moreover have "ref_ok (rc_counts s obj) (holders obj s)"
    using assms(1) by (simp add: counted_refs_def)
  ultimately show ?thesis by (cases "rc_counts s obj") simp_all
qed

lemma tracked_alive:
  assumes "counted_refs s" and "rc_counts s obj = Some 0 \<or> Some obj \<in> set (rc_vars s) \<or> Some obj \<in> set (rc_voids s)"
  shows "rc_counts s obj \<noteq> None"
proof
  assume none: "rc_counts s obj = None"
  then have "holders obj s = 0" using assms(1) by (metis counted_refs_def ref_ok.simps(1))
  then show False using assms(2) none by (auto simp: holders_def count_list_0_iff)
qed

lemma set_none: "rc_vars s ! v = None \<Longrightarrow> set_var v None s = s"
proof -
  assume "rc_vars s ! v = None"
  then have "(rc_vars s)[v := None] = rc_vars s" by (metis list_update_id)
  then show ?thesis by (simp add: set_var_def)
qed

text \<open>A reference taken by a variable that held none, and one given up.\<close>

lemma counted_inc:
  assumes "counted_refs s" and "v < length (rc_vars s)" and "rc_vars s ! v = None"
    and "\<And>obj. x = Some obj \<Longrightarrow> rc_counts s obj \<noteq> None"
  shows "\<exists>s'. ref_inc_ref v (set_var v x s) = Inr s' \<and> counted_refs s'
    \<and> length (rc_vars s') = length (rc_vars s) \<and> length (rc_voids s') = length (rc_voids s)"
proof (cases x)
  case None
  then have "set_var v x s = s" using assms(3) by (simp add: set_none)
  then show ?thesis using assms by (simp add: ref_inc_ref_def)
next
  case (Some obj)
  then obtain c where c: "rc_counts s obj = Some c" using assms(4) by blast
  let ?s = "(set_var v x s)\<lparr>rc_counts := (rc_counts s)(obj \<mapsto> c + 1)\<rparr>"
  have "ref_inc_ref v (set_var v x s) = Inr ?s"
    using assms(2) Some c by (simp add: ref_inc_ref_def obj_inc_ref_def set_var_def)
  moreover have "ref_ok (rc_counts ?s a) (holders a ?s)" for a
  proof -
    have "holders a ?s = holders a (set_var v x s)" by (simp add: holders_def set_var_def)
    then have "holders a ?s = holders a s + (if a = obj then 1 else 0)"
      using holders_set_var [OF assms(2), of a x] assms(3) Some by auto
    moreover have "ref_ok (rc_counts s a) (holders a s)"
      using assms(1) by (simp add: counted_refs_def)
    moreover have "holders a ?s < 2 ^ 31"
      using holders_le [of a ?s] assms(1) by (simp add: counted_refs_def set_var_def)
    ultimately show ?thesis
      using c unat_count_inc [of "holders a s" c] by auto
  qed
  then have "counted_refs ?s" using assms(1) by (simp add: counted_refs_def set_var_def)
  ultimately show ?thesis by (simp add: set_var_def)
qed

lemma counted_unref:
  assumes "counted_refs s" and "v < length (rc_vars s)"
  shows "\<exists>s'. ref_unref v s = Inr s' \<and> counted_refs s' \<and> rc_vars s' = (rc_vars s)[v := None] \<and> rc_voids s' = rc_voids s"
proof (cases "rc_vars s ! v")
  case None
  then have "(rc_vars s)[v := None] = rc_vars s" by (metis list_update_id)
  then show ?thesis using assms None by (simp add: ref_unref_def)
next
  case (Some obj)
  obtain c where alive: "rc_counts s obj = Some c" "unat c = holders obj s" "0 < holders obj s"
    using holder_alive [OF assms Some] by blast
  let ?c = "if c = 1 then None else Some (c - 1)"
  let ?s = "set_var v None (s\<lparr>rc_counts := (rc_counts s)(obj := ?c)\<rparr>)"
  have "ref_unref v s = Inr ?s" using Some alive by (simp add: ref_unref_def obj_unref_def)
  moreover have "ref_ok (rc_counts ?s a) (holders a ?s)" for a
  proof -
    have "holders a ?s = holders a (set_var v None s)" by (simp add: holders_def set_var_def)
    then have "holders a ?s + (if a = obj then 1 else 0) = holders a s"
      using holders_set_var [OF assms(2), of a None] Some by (auto split: if_splits)
    moreover have "ref_ok (rc_counts s a) (holders a s)"
      using assms(1) by (simp add: counted_refs_def)
    moreover have "unat (c - 1) = holders obj s - 1" "c = 1 \<longleftrightarrow> holders obj s = 1"
      using unat_count_dec [OF alive(3,2)] alive(2) by (metis unat_1 word_unat_eq_iff)+
    ultimately show ?thesis
      using alive by (auto simp: set_var_def)
  qed
  then have "counted_refs ?s" using assms(1) by (simp add: counted_refs_def set_var_def)
  ultimately show ?thesis by (simp add: set_var_def)
qed

lemma counted_shift:
  assumes "counted_refs s" and "rc_counts s' = rc_counts s" and "\<And>obj. holders obj s' = holders obj s"
    and "length (rc_vars s') = length (rc_vars s)" and "length (rc_voids s') = length (rc_voids s)"
  shows "counted_refs s'"
  unfolding counted_refs_def assms(2-5) using assms(1) by (simp add: counted_refs_def)

lemma counted_step:
  assumes "counted_refs s" and "allowed a s"
  shows "\<exists>s'. ref_step a s = Inr s' \<and> counted_refs s'"
proof (cases a)
  case (New_object obj)
  have inv: "ref_ok (rc_counts s b) (holders b s)" for b
    using assms(1) by (simp add: counted_refs_def)
  have "holders obj s = 0" using inv [of obj] assms(2) New_object by (simp add: allowed_def)
  then have "counted_refs (s\<lparr>rc_counts := (rc_counts s)(obj \<mapsto> 0)\<rparr>)"
    using inv assms(1) by (simp add: counted_refs_def)
  then show ?thesis using New_object by (simp add: ref_step_def)
next
  case (Track v obj)
  then show ?thesis
    using counted_inc [OF assms(1), of v "Some obj"] tracked_alive [OF assms(1), of obj] assms(2)
    by (auto simp: ref_step_def ref_new_def allowed_def)
next
  case (Copy v w)
  then show ?thesis
    using counted_inc [OF assms(1), of v "rc_vars s ! w"] holder_alive [OF assms(1), of w] assms(2)
    by (auto simp: ref_step_def ref_copy_def allowed_def)
next
  case (Assign v w)
  then have v: "v < length (rc_vars s)" and w: "w < length (rc_vars s)" using assms(2) by (simp_all add: allowed_def)
  obtain s1 where s1: "ref_unref v s = Inr s1" "counted_refs s1" "rc_vars s1 = (rc_vars s)[v := None]"
    using counted_unref [OF assms(1) v] by blast
  have "\<exists>s'. ref_inc_ref v (set_var v (rc_vars s1 ! w) s1) = Inr s' \<and> counted_refs s'"
    using counted_inc [OF s1(2), of v "rc_vars s1 ! w"] holder_alive [OF s1(2), of w] v w s1(3) by auto
  then show ?thesis using Assign s1 by (simp add: ref_step_def ref_assign_def)
next
  case (Move v w)
  then have vw: "v < length (rc_vars s)" "w < length (rc_vars s)" "v \<noteq> w" "rc_vars s ! v = None"
    using assms(2) by (simp_all add: allowed_def)
  let ?s1 = "set_var v (rc_vars s ! w) s"
  have "holders obj (set_var w None ?s1) = holders obj s" for obj
    using holders_set_var [OF vw(1), of obj "rc_vars s ! w"] holders_set_var [of w ?s1 obj None] vw
    by (auto simp: set_var_def split: if_splits)
  then show ?thesis
    using counted_shift [OF assms(1), of "set_var w None ?s1"] Move by (simp add: ref_step_def ref_move_def set_var_def)
next
  case (Destroy v)
  then show ?thesis using counted_unref [OF assms(1), of v] assms(2) by (auto simp: ref_step_def allowed_def)
next
  case (To_void v k)
  then have vk: "v < length (rc_vars s)" "k < length (rc_voids s)" "rc_voids s ! k = None"
    using assms(2) by (simp_all add: allowed_def)
  have "holders obj (ref_move_to_void v k s) = holders obj s" for obj
    using count_update [OF vk(1), of None "Some obj"] count_update [OF vk(2), of "rc_vars s ! v" "Some obj"] vk(3)
    by (auto simp: holders_def ref_move_to_void_def set_var_def split: if_splits)
  then show ?thesis
    using counted_shift [OF assms(1), of "ref_move_to_void v k s"] To_void
    by (simp add: ref_step_def ref_move_to_void_def set_var_def)
next
  case (Take_void v k)
  then have vk: "v < length (rc_vars s)" "k < length (rc_voids s)" "rc_vars s ! v = None"
    using assms(2) by (simp_all add: allowed_def)
  let ?s = "(ref_copy_void v k s)\<lparr>rc_voids := (rc_voids s)[k := None]\<rparr>"
  have "holders obj ?s = holders obj s" for obj
    using count_update [OF vk(1), of "rc_voids s ! k" "Some obj"] count_update [OF vk(2), of None "Some obj"] vk(3)
    by (auto simp: holders_def ref_copy_void_def set_var_def split: if_splits)
  then show ?thesis
    using counted_shift [OF assms(1), of ?s] Take_void by (simp add: ref_step_def ref_copy_void_def set_var_def)
next
  case (Copy_void v k)
  then show ?thesis using assms(2) by (simp add: allowed_def)
qed

lemma counted_run:
  assumes "counted_refs s" and "run_allowed as s"
  shows "\<exists>s'. ref_run as s = Inr s' \<and> counted_refs s'"
  using assms
proof (induction as arbitrary: s)
  case (Cons a as)
  then obtain s1 where s1: "ref_step a s = Inr s1" "counted_refs s1" using counted_step [of s a] by auto
  then show ?case using Cons.IH [of s1] Cons.prems(2) by simp
qed simp

lemma counted_start: "n + k < 2 ^ 31 \<Longrightarrow> counted_refs (no_refs n k)"
  by (simp add: counted_refs_def holders_def no_refs_def count_list_0_iff)

lemma counted_sint:
  assumes "counted_refs s" and "rc_counts s obj = Some c"
  shows "sint c = int (holders obj s)"
proof -
  have c: "unat c = holders obj s" using assms by (metis counted_refs_def ref_ok.simps(2))
  then have "unat c < 2 ^ 31" using holders_le [of obj s] assms(1) by (simp add: counted_refs_def)
  then have "int (unat c) < int (2 ^ 31)" by (rule iffD2 [OF of_nat_less_iff])
  then have "uint c < 2 ^ 31" by simp
  then have "signed_take_bit 31 (uint c) = uint c"
    using uint_ge_0 [of c] by (intro signed_take_bit_int_eq_self) linarith+
  then have "sint c = int (unat c)" by (simp add: sint_uint)
  then show ?thesis using c by simp
qed

text \<open>
  C17. The counters are right, for fewer than two to the 31 variables and pointers: a program that
  constructs each variable once, takes each moved pointer once, and makes references from raw pointers only
  to objects not counted yet or still held, never touches a deleted object; at each moment the counter
  of an object that lives, read as an \<open>int\<close>, is the number of references to it and a deleted object
  has none.
\<close>

theorem references_are_counted:
  assumes "n + k < 2 ^ 31" and "run_allowed as (no_refs n k)"
  shows "\<exists>s. ref_run as (no_refs n k) = Inr s
    \<and> (\<forall>obj. case rc_counts s obj of None \<Rightarrow> holders obj s = 0 | Some c \<Rightarrow> sint c = int (holders obj s))"
proof -
  obtain s where s: "ref_run as (no_refs n k) = Inr s" "counted_refs s"
    using counted_run [OF counted_start [OF assms(1)] assms(2)] by blast
  have "case rc_counts s obj of None \<Rightarrow> holders obj s = 0 | Some c \<Rightarrow> sint c = int (holders obj s)" for obj
    using counted_sint [OF s(2), of obj] s(2) by (cases "rc_counts s obj") (auto simp: counted_refs_def dest!: spec [of _ obj])
  then show ?thesis using s(1) by blast
qed

theorem references_are_counted_witness:
  "\<exists>s. ref_run [New_object 7, Track 0 7, Copy 1 0, Destroy 0, Assign 1 1] (no_refs 2 0) = Inr s \<and> rc_counts s 7 = None"
proof -
  let ?as = "[New_object 7, Track 0 7, Copy 1 0, Destroy 0, Assign 1 1]"
  have "run_allowed ?as (no_refs 2 0)"
    by (simp add: allowed_def no_refs_def ref_step_def ref_new_def ref_copy_def ref_assign_def ref_inc_ref_def ref_unref_def obj_inc_ref_def
        obj_unref_def set_var_def nth_list_update numeral_2_eq_2)
  then obtain s where s: "ref_run ?as (no_refs 2 0) = Inr s" using references_are_counted [of 2 0 ?as] by auto
  then have "rc_counts s 7 = None"
    by (simp add: no_refs_def ref_step_def ref_new_def ref_copy_def ref_assign_def ref_inc_ref_def ref_unref_def obj_inc_ref_def
        obj_unref_def set_var_def nth_list_update numeral_2_eq_2) auto
  with s show ?thesis by blast
qed

text \<open>
  Where the code deviates from a counted reference: assigning a variable to itself gives its reference
  up, and deletes the object when it was the only one; and the reference made from a kept pointer is not
  counted, so that destroying it and then the original reference deletes the object twice.
\<close>

theorem self_assignment_drops:
  assumes "v < length (rc_vars s)" and "rc_vars s ! v = Some obj" and "rc_counts s obj = Some 1"
  shows "(\<exists>s'. ref_assign v v s = Inr s' \<and> rc_vars s' ! v = None \<and> rc_counts s' obj = None)
    \<and> (\<forall>w k. w < length (rc_vars s) \<and> w \<noteq> v \<and> rc_vars s ! w = None \<and> rc_voids s ! k = Some obj
        \<longrightarrow> ref_run [Copy_void w k, Destroy w, Destroy v] s = Inl UndefinedBehaviour)"
  using assms
  by (auto simp: ref_assign_def ref_step_def ref_copy_void_def ref_unref_def ref_inc_ref_def obj_unref_def set_var_def)

theorem self_assignment_drops_witness:
  "\<exists>s'. ref_assign 0 0 \<lparr>rc_counts = [7 \<mapsto> 1], rc_vars = [Some 7], rc_voids = []\<rparr> = Inr s' \<and> rc_counts s' 7 = None"
  using self_assignment_drops [of 0 "\<lparr>rc_counts = [7 \<mapsto> 1], rc_vars = [Some 7], rc_voids = []\<rparr>" 7] by auto

subsection \<open>Containers\<close>

text \<open>
  \<open>ReferenceContainerPtr\<close>, a counted object that owns another by a pointer and deletes it in its destructor;
  what it points to is in a heap of its own, deleting a deleted object is \<open>UndefinedBehaviour\<close>.
  (\<open>ReferenceContainer\<close> is a counted object that is the other one by inheritance and adds nothing.)
\<close>

record 'a container_world =
  cw_refs :: ref_state
  cw_obj :: "nat \<Rightarrow> nat option"
  cw_heap :: "nat \<rightharpoonup> 'a"

definition container_get :: "nat \<Rightarrow> 'a container_world \<Rightarrow> nat option" where
  "container_get c w = cw_obj w c"

text \<open>\<open>operator->\<close> returns the object by value.\<close>

definition container_arrow :: "nat \<Rightarrow> 'a container_world \<Rightarrow> 'a result" where
  "container_arrow c w =
     (case cw_obj w c of
        None \<Rightarrow> Inl UndefinedBehaviour
      | Some p \<Rightarrow> (case cw_heap w p of None \<Rightarrow> Inl UndefinedBehaviour | Some x \<Rightarrow> Inr x))"

definition container_destroy :: "nat \<Rightarrow> 'a container_world \<Rightarrow> 'a container_world result" where
  "container_destroy c w =
     (case cw_obj w c of
        None \<Rightarrow> Inr w
      | Some p \<Rightarrow> if cw_heap w p = None then Inl UndefinedBehaviour else Inr (w\<lparr>cw_heap := (cw_heap w)(p := None)\<rparr>))"

text \<open>The object whose counter an operation decreases.\<close>

definition dropped :: "ref_op \<Rightarrow> ref_state \<Rightarrow> nat option" where
  "dropped a s = (case a of Assign v u \<Rightarrow> rc_vars s ! v | Destroy v \<Rightarrow> rc_vars s ! v | _ \<Rightarrow> None)"

definition container_step :: "ref_op \<Rightarrow> 'a container_world \<Rightarrow> 'a container_world result" where
  "container_step a w =
     bind_result (ref_step a (cw_refs w)) (\<lambda>s.
       let w' = w\<lparr>cw_refs := s\<rparr> in
       case dropped a (cw_refs w) of
         None \<Rightarrow> Inr w'
       | Some c \<Rightarrow> if rc_counts s c = None then container_destroy c w' else Inr w')"

fun container_run :: "ref_op list \<Rightarrow> 'a container_world \<Rightarrow> 'a container_world result" where
  "container_run [] w = Inr w"
| "container_run (a # as) w = bind_result (container_step a w) (container_run as)"

definition no_new :: "ref_op \<Rightarrow> bool" where
  "no_new a = (case a of New_object obj \<Rightarrow> False | _ \<Rightarrow> True)"

lemma obj_ops_counts:
  "obj_inc_ref obj s = Inr s' \<Longrightarrow> (rc_counts s' c = None) = (rc_counts s c = None) \<and> rc_vars s' = rc_vars s"
  "obj_unref obj s = Inr s' \<Longrightarrow> c \<noteq> obj \<Longrightarrow> (rc_counts s' c = None) = (rc_counts s c = None)"
  "obj_unref obj s = Inr s' \<Longrightarrow> rc_counts s c = None \<Longrightarrow> rc_counts s' c = None"
  by (auto simp: obj_inc_ref_def obj_unref_def split: option.splits if_splits)

lemma set_var_counts [simp]: "rc_counts (set_var v x s) = rc_counts s"
  by (simp add: set_var_def)

lemma ref_inc_ref_counts: "ref_inc_ref v s = Inr s' \<Longrightarrow> (rc_counts s' c = None) = (rc_counts s c = None)"
  using obj_ops_counts(1) by (auto simp: ref_inc_ref_def split: option.splits)

lemma ref_unref_counts:
  assumes "ref_unref v s = Inr s'"
  shows "(rc_counts s' c = None) = (rc_counts s c = None) \<or> rc_vars s ! v = Some c"
    and "rc_counts s c = None \<Longrightarrow> rc_counts s' c = None"
  using assms obj_ops_counts by (auto simp: ref_unref_def map_sum_def split: option.splits sum.splits)

lemma step_counts:
  assumes "ref_step a s = Inr s'" and "no_new a"
  shows "rc_counts s' c = None \<longleftrightarrow> rc_counts s c = None \<or> (dropped a s = Some c \<and> rc_counts s' c = None)"
proof (cases a)
  case (Assign v w)
  then obtain s1 where u: "ref_unref v s = Inr s1" and i: "ref_inc_ref v (set_var v (rc_vars s1 ! w) s1) = Inr s'"
    using assms(1) by (auto simp: ref_step_def ref_assign_def bind_result_Inr_iff)
  show ?thesis
    using ref_unref_counts [OF u, of c] ref_inc_ref_counts [OF i, of c] Assign by (auto simp: dropped_def)
next
  case (Destroy v)
  then show ?thesis using assms ref_unref_counts [of v s s' c] by (auto simp: ref_step_def dropped_def)
qed (use assms ref_inc_ref_counts in \<open>auto simp: ref_step_def no_new_def dropped_def ref_new_def ref_copy_def ref_move_def
    ref_move_to_void_def ref_copy_void_def set_var_def\<close>)

definition owns_object :: "'a container_world \<Rightarrow> bool" where
  "owns_object w =
     (counted_refs (cw_refs w) \<and> inj_on (cw_obj w) (dom (cw_obj w))
      \<and> (\<forall>c p. cw_obj w c = Some p \<longrightarrow> (cw_heap w p = None) = (rc_counts (cw_refs w) c = None)))"

lemma owns_step:
  assumes "owns_object w" and "allowed a (cw_refs w)" and "no_new a"
  shows "\<exists>w'. container_step a w = Inr w' \<and> owns_object w' \<and> cw_obj w' = cw_obj w \<and> ref_step a (cw_refs w) = Inr (cw_refs w')
    \<and> (\<forall>p. p \<notin> ran (cw_obj w) \<longrightarrow> cw_heap w' p = cw_heap w p)"
proof -
  obtain s where s: "ref_step a (cw_refs w) = Inr s" "counted_refs s"
    using counted_step [of "cw_refs w" a] assms by (auto simp: owns_object_def)
  note counts = step_counts [OF s(1) assms(3)]
  have own: "(cw_heap w p = None) = (rc_counts (cw_refs w) c = None)" if "cw_obj w c = Some p" for c p
    using assms(1) that by (simp add: owns_object_def)
  have inj: "c = c'" if "cw_obj w c = Some p" "cw_obj w c' = Some p" for c c' p
    using assms(1) that by (auto simp: owns_object_def inj_on_def dom_def)
  show ?thesis
  proof (cases "\<exists>c. dropped a (cw_refs w) = Some c \<and> rc_counts s c = None")
    case False
    then have "container_step a w = Inr (w\<lparr>cw_refs := s\<rparr>)"
      using s(1) by (auto simp: container_step_def Let_def split: option.split)
    moreover have same: "(rc_counts s c = None) = (rc_counts (cw_refs w) c = None)" for c using counts [of c] False by blast
    have "owns_object (w\<lparr>cw_refs := s\<rparr>)"
      using assms(1) s(2) by (simp add: owns_object_def same)
    ultimately show ?thesis using s by auto
  next
    case True
    then obtain c where c: "dropped a (cw_refs w) = Some c" "rc_counts s c = None" by blast
    have live: "rc_counts (cw_refs w) c \<noteq> None"
    proof -
      have "v < length (rc_vars (cw_refs w))" "rc_vars (cw_refs w) ! v = Some c" if "a = Destroy v \<or> (\<exists>u. a = Assign v u)" for v
        using that c(1) assms(2) by (auto simp: dropped_def allowed_def)
      then show ?thesis
        using holder_alive [of "cw_refs w" _ c] assms(1) c(1)
        by (cases a) (force simp: owns_object_def dropped_def)+
    qed
    show ?thesis
    proof (cases "cw_obj w c")
      case None
      then have "container_step a w = Inr (w\<lparr>cw_refs := s\<rparr>)"
        using s(1) c by (simp add: container_step_def container_destroy_def Let_def)
      moreover have "(rc_counts s d = None) = (rc_counts (cw_refs w) d = None)" if "d \<noteq> c" for d
        using counts [of d] c that by auto
      then have "owns_object (w\<lparr>cw_refs := s\<rparr>)"
        using assms(1) s(2) None unfolding owns_object_def by (simp (no_asm_simp)) (metis option.distinct(1))
      ultimately show ?thesis using s by auto
    next
      case (Some p)
      let ?w = "w\<lparr>cw_refs := s, cw_heap := (cw_heap w)(p := None)\<rparr>"
      have "container_step a w = Inr ?w"
        using s(1) c Some own [OF Some] live by (simp add: container_step_def container_destroy_def Let_def)
      moreover have "((cw_heap w)(p := None)) q = None \<longleftrightarrow> rc_counts s d = None" if "cw_obj w d = Some q" for d q
      proof (cases "d = c")
        case True
        then show ?thesis using that Some c(2) by simp
      next
        case False
        then have "q \<noteq> p" using inj [OF Some] that by blast
        then show ?thesis using own [OF that] counts [of d] c(1) False by auto
      qed
      then have "owns_object ?w" using assms(1) s(2) unfolding owns_object_def by simp
      ultimately show ?thesis using s Some by (auto simp: ran_def)
    qed
  qed
qed

lemma owns_run:
  assumes "owns_object w" and "run_allowed as (cw_refs w)" and "list_all no_new as"
  shows "\<exists>w'. container_run as w = Inr w' \<and> owns_object w' \<and> cw_obj w' = cw_obj w
    \<and> (\<forall>p. p \<notin> ran (cw_obj w) \<longrightarrow> cw_heap w' p = cw_heap w p)"
  using assms
proof (induction as arbitrary: w)
  case (Cons a as)
  obtain w1 where w1: "container_step a w = Inr w1" "owns_object w1" "cw_obj w1 = cw_obj w" "ref_step a (cw_refs w) = Inr (cw_refs w1)"
    "\<forall>p. p \<notin> ran (cw_obj w) \<longrightarrow> cw_heap w1 p = cw_heap w p"
    using owns_step [OF Cons.prems(1), of a] Cons.prems by auto
  then show ?case using Cons.IH [of w1] Cons.prems by auto
qed simp

text \<open>
  A container deletes what it owns once, with its last reference: when each container has an object of its
  own, no program of references deletes an object twice, and at each moment the object of a container
  lives exactly as long as the container, all others being left alone.
\<close>

theorem containers_own_their_object:
  assumes "counted_refs (cw_refs w)" and "inj_on (cw_obj w) (dom (cw_obj w))"
    and "\<And>c p. cw_obj w c = Some p \<Longrightarrow> cw_heap w p \<noteq> None \<and> rc_counts (cw_refs w) c \<noteq> None"
    and "run_allowed as (cw_refs w)" and "list_all no_new as"
  shows "\<exists>w'. container_run as w = Inr w'
    \<and> (\<forall>c p. cw_obj w c = Some p \<longrightarrow> (cw_heap w' p = None) = (rc_counts (cw_refs w') c = None))
    \<and> (\<forall>p. p \<notin> ran (cw_obj w) \<longrightarrow> cw_heap w' p = cw_heap w p)"
proof -
  have "(cw_heap w p = None) = (rc_counts (cw_refs w) c = None)" if "cw_obj w c = Some p" for c p
    using assms(3) [OF that] by auto
  then have "owns_object w" using assms(1,2) by (simp add: owns_object_def)
  from owns_run [OF this assms(4,5)] show ?thesis by (auto simp: owns_object_def)
qed

theorem containers_own_their_object_witness:
  "\<exists>w'. container_run [Track 0 7, Destroy 0]
       \<lparr>cw_refs = (no_refs 1 0)\<lparr>rc_counts := [7 \<mapsto> 0]\<rparr>, cw_obj = [7 \<mapsto> 3], cw_heap = [3 \<mapsto> True, 4 \<mapsto> False]\<rparr> = Inr w'
     \<and> cw_heap w' 4 = Some False"
proof -
  let ?w = "\<lparr>cw_refs = (no_refs 1 0)\<lparr>rc_counts := [7 \<mapsto> 0]\<rparr>, cw_obj = [7 \<mapsto> 3], cw_heap = [3 \<mapsto> True, 4 \<mapsto> False]\<rparr>"
  have "counted_refs (cw_refs ?w)" by (simp add: counted_refs_def holders_def no_refs_def)
  moreover have "run_allowed [Track 0 7, Destroy 0] (cw_refs ?w)"
    by (simp add: allowed_def no_refs_def ref_step_def ref_new_def ref_inc_ref_def obj_inc_ref_def ref_unref_def obj_unref_def
        set_var_def)
  moreover have "list_all no_new [Track 0 7, Destroy 0]" by (simp add: no_new_def)
  moreover have "inj_on (cw_obj ?w) (dom (cw_obj ?w))" by simp
  moreover have "cw_heap ?w p \<noteq> None \<and> rc_counts (cw_refs ?w) c \<noteq> None" if "cw_obj ?w c = Some p" for c p
    using that by (auto split: if_splits)
  ultimately obtain w' where "container_run [Track 0 7, Destroy 0] ?w = Inr w'"
    "\<forall>p. p \<notin> ran (cw_obj ?w) \<longrightarrow> cw_heap w' p = cw_heap ?w p"
    using containers_own_their_object [of ?w "[Track 0 7, Destroy 0]"] by blast
  then show ?thesis by (intro exI [of _ w']) simp
qed

end
