(* ===== verification/Cache.thy ===== *)
theory Cache
  imports Prelude
begin

text \<open>
  The cache of counted entries (\<open>common/utils/cache.h\<close>), a template that nothing instantiates. The loops of
  \<open>flush_unsafe\<close> ask a key of the index for its \<open>refs\<close>, which does not compile; the model takes the
  \<open>refs\<close> of the entry with that key. The hash map is the list of its entries, the two indexes are lists in
  the order of their times. A time is an abstract number with its comparison and difference as parameters,
  and \<open>get_reserve\<close> is the two sections that it locks, between which others may run.
\<close>

record ('v, 'd) cache_item =
  ci_create_timestamp :: 'd
  ci_access_timestamp :: 'd
  ci_refs :: int
  ci_value :: 'v

record ('k, 'v, 'd) cache =
  ca_items :: "('k \<times> ('v, 'd) cache_item) list"
  ca_by_age :: "('d \<times> 'k) list"
  ca_by_access :: "('d \<times> 'k) list"
  ca_max_size :: nat
  ca_max_age :: 'd
  ca_max_inactivity :: 'd

record 'd clock =
  ck_less :: "'d \<Rightarrow> 'd \<Rightarrow> bool"
  ck_minus :: "'d \<Rightarrow> 'd \<Rightarrow> 'd"

definition cache_new :: "nat \<Rightarrow> 'd \<Rightarrow> 'd \<Rightarrow> ('k, 'v, 'd) cache" where
  "cache_new max_size max_age max_inactivity =
     \<lparr>ca_items = [], ca_by_age = [], ca_by_access = [], ca_max_size = max_size, ca_max_age = max_age,
      ca_max_inactivity = max_inactivity\<rparr>"

subsection \<open>The entries\<close>

definition erase_item :: "'k \<Rightarrow> ('k \<times> 'i) list \<Rightarrow> ('k \<times> 'i) list" where
  "erase_item k items = filter (\<lambda>(k', i). k' \<noteq> k) items"

definition update_item :: "'k \<Rightarrow> ('i \<Rightarrow> 'i) \<Rightarrow> ('k \<times> 'i) list \<Rightarrow> ('k \<times> 'i) list" where
  "update_item k f items = map (\<lambda>(k', i). (k', if k' = k then f i else i)) items"

text \<open>\<open>emplace\<close> keeps an entry that is there.\<close>

definition emplace_item :: "'k \<Rightarrow> 'i \<Rightarrow> ('k \<times> 'i) list \<Rightarrow> ('k \<times> 'i) list" where
  "emplace_item k i items = (if map_of items k = None then items @ [(k, i)] else items)"

definition refs_of :: "('k \<times> ('v, 'd) cache_item) list \<Rightarrow> 'k \<Rightarrow> int" where
  "refs_of items k = (case map_of items k of None \<Rightarrow> 0 | Some i \<Rightarrow> ci_refs i)"

subsection \<open>Flushing\<close>

definition remove_keys_from_index :: "('k, 'v, 'd) cache \<Rightarrow> ('k, 'v, 'd) cache" where
  "remove_keys_from_index c =
     c\<lparr>ca_by_age := filter (\<lambda>(t, k). map_of (ca_items c) k \<noteq> None) (ca_by_age c),
       ca_by_access := filter (\<lambda>(t, k). map_of (ca_items c) k \<noteq> None) (ca_by_access c)\<rparr>"

text \<open>
  A loop over an index up to the first time that is not before the bound: the entries, what was passed
  and kept of the index, and the rest of it.
\<close>

fun flush_stale ::
  "('d \<Rightarrow> bool) \<Rightarrow> ('k \<times> ('v, 'd) cache_item) list \<Rightarrow> ('d \<times> 'k) list
   \<Rightarrow> ('k \<times> ('v, 'd) cache_item) list \<times> ('d \<times> 'k) list \<times> ('d \<times> 'k) list" where
  "flush_stale stale items [] = (items, [], [])"
| "flush_stale stale items ((t, k) # index) =
     (if \<not> stale t then (items, [], (t, k) # index)
      else if refs_of items k = 0 then flush_stale stale (erase_item k items) index
      else (let (items', kept, rest) = flush_stale stale items index in (items', (t, k) # kept, rest)))"

fun flush_excess ::
  "nat \<Rightarrow> ('k \<times> ('v, 'd) cache_item) list \<Rightarrow> ('d \<times> 'k) list
   \<Rightarrow> ('k \<times> ('v, 'd) cache_item) list \<times> ('d \<times> 'k) list" where
  "flush_excess max_size items [] = (items, [])"
| "flush_excess max_size items ((t, k) # index) =
     (if length items \<le> max_size then (items, (t, k) # index)
      else if refs_of items k = 0 then flush_excess max_size (erase_item k items) index
      else (let (items', rest) = flush_excess max_size items index in (items', (t, k) # rest)))"

definition flush_unsafe :: "'d clock \<Rightarrow> 'd \<Rightarrow> ('k, 'v, 'd) cache \<Rightarrow> ('k, 'v, 'd) cache" where
  "flush_unsafe K timestamp c =
     (let (items, age_kept, age_rest) =
        flush_stale (\<lambda>t. ck_less K t (ck_minus K timestamp (ca_max_age c))) (ca_items c) (ca_by_age c);
          (items, access_kept, access_rest) =
        flush_stale (\<lambda>t. ck_less K t (ck_minus K timestamp (ca_max_inactivity c))) items (ca_by_access c);
          (items, access_rest) = flush_excess (ca_max_size c) items access_rest
      in c\<lparr>ca_items := items, ca_by_age := age_kept @ age_rest, ca_by_access := access_kept @ access_rest\<rparr>)"

definition flush_all :: "('k, 'v, 'd) cache \<Rightarrow> ('k, 'v, 'd) cache" where
  "flush_all c =
     remove_keys_from_index (c\<lparr>ca_items := filter (\<lambda>(k, i). ci_refs i \<noteq> 0) (ca_items c)\<rparr>)"

subsection \<open>Reserving and releasing\<close>

text \<open>The first locked section of \<open>get_reserve\<close>: the value of a hit.\<close>

definition cache_lookup :: "'d \<Rightarrow> 'k \<Rightarrow> ('k, 'v, 'd) cache \<Rightarrow> 'v option \<times> ('k, 'v, 'd) cache" where
  "cache_lookup timestamp key c =
     (case map_of (ca_items c) key of
        Some i \<Rightarrow>
          (Some (ci_value i),
           c\<lparr>ca_items := update_item key (\<lambda>i. i\<lparr>ci_refs := ci_refs i + 1, ci_access_timestamp := timestamp\<rparr>) (ca_items c)\<rparr>)
      | None \<Rightarrow> (None, c))"

text \<open>The second one, after a miss, with what was created.\<close>

definition cache_insert :: "'d \<Rightarrow> 'k \<Rightarrow> 'v \<Rightarrow> ('k, 'v, 'd) cache \<Rightarrow> 'v \<times> ('k, 'v, 'd) cache" where
  "cache_insert timestamp key val c =
     (let items = emplace_item key \<lparr>ci_create_timestamp = timestamp, ci_access_timestamp = timestamp, ci_refs = 1, ci_value = val\<rparr>
                    (ca_items c)
      in (ci_value (the (map_of items key)), c\<lparr>ca_items := items\<rparr>))"

definition cache_release :: "'d clock \<Rightarrow> 'd \<Rightarrow> 'k \<Rightarrow> ('k, 'v, 'd) cache \<Rightarrow> ('k, 'v, 'd) cache" where
  "cache_release K timestamp key c =
     flush_unsafe K timestamp (c\<lparr>ca_items := update_item key (\<lambda>i. i\<lparr>ci_refs := ci_refs i - 1\<rparr>) (ca_items c)\<rparr>)"

subsection \<open>Runs\<close>

text \<open>
  The holders are the keys for which a \<open>CacheHolder\<close> is alive; one is made by each section that returns a
  value, and its destructor releases the key. \<open>Ev_copy\<close> is a copy of a holder, which the class does not
  forbid: the copy counts nothing when it is made and releases the key when it is destroyed.
\<close>

datatype ('k, 'v) cache_event = Ev_lookup 'k | Ev_insert 'k 'v | Ev_release 'k | Ev_copy 'k | Ev_flush | Ev_flush_all

definition cache_step ::
  "'d clock \<Rightarrow> 'd \<Rightarrow> ('k, 'v) cache_event \<Rightarrow> ('k, 'v, 'd) cache \<times> 'k multiset \<Rightarrow> ('k, 'v, 'd) cache \<times> 'k multiset" where
  "cache_step K timestamp ev = (\<lambda>(c, held). case ev of
      Ev_lookup k \<Rightarrow> (case cache_lookup timestamp k c of
          (Some v, c') \<Rightarrow> (c', add_mset k held)
        | (None, c') \<Rightarrow> (c', held))
    | Ev_insert k v \<Rightarrow> (snd (cache_insert timestamp k v c), add_mset k held)
    | Ev_release k \<Rightarrow> if k \<in># held then (cache_release K timestamp k c, held - {#k#}) else (c, held)
    | Ev_copy k \<Rightarrow> if k \<in># held then (c, add_mset k held) else (c, held)
    | Ev_flush \<Rightarrow> (flush_unsafe K timestamp c, held)
    | Ev_flush_all \<Rightarrow> (flush_all c, held))"

fun cache_run ::
  "'d clock \<Rightarrow> ('d \<times> ('k, 'v) cache_event) list \<Rightarrow> ('k, 'v, 'd) cache \<times> 'k multiset \<Rightarrow> ('k, 'v, 'd) cache \<times> 'k multiset" where
  "cache_run K [] s = s"
| "cache_run K ((t, ev) # evs) s = cache_run K evs (cache_step K t ev s)"

text \<open>No two clients create the entry of one key: each insertion finds the key missing.\<close>

fun no_race :: "'d clock \<Rightarrow> ('d \<times> ('k, 'v) cache_event) list \<Rightarrow> ('k, 'v, 'd) cache \<times> 'k multiset \<Rightarrow> bool" where
  "no_race K [] s = True"
| "no_race K ((t, ev) # evs) s =
     ((case ev of Ev_insert k v \<Rightarrow> map_of (ca_items (fst s)) k = None | _ \<Rightarrow> True)
      \<and> no_race K evs (cache_step K t ev s))"

text \<open>No holder is copied.\<close>

definition no_copies :: "('d \<times> ('k, 'v) cache_event) list \<Rightarrow> bool" where
  "no_copies evs = (\<forall>t k. (t, Ev_copy k) \<notin> set evs)"

subsection \<open>The indexes stay empty\<close>

definition unindexed :: "('k, 'v, 'd) cache \<Rightarrow> bool" where
  "unindexed c = (ca_by_age c = [] \<and> ca_by_access c = [])"

lemma flush_unindexed: "unindexed c \<Longrightarrow> flush_unsafe K t c = c"
  by (simp add: flush_unsafe_def unindexed_def)

lemma map_of_update: "map_of (update_item k f items) a = (if a = k then map_option f (map_of items k) else map_of items a)"
  by (induction items) (auto simp: update_item_def)

lemma keys_update: "map fst (update_item k f items) = map fst items"
  by (induction items) (auto simp: update_item_def)

lemma map_of_emplace:
  "map_of (emplace_item k i items) a = (if a = k \<and> map_of items k = None then Some i else map_of items a)"
  by (auto simp: emplace_item_def map_add_def split: option.split)

lemma keys_emplace: "set (map fst (emplace_item k i items)) = insert k (set (map fst items))"
proof (cases "map_of items k")
  case (Some j)
  then have "k \<in> set (map fst items)" by (metis domI dom_map_of_conv_image_fst set_map)
  then show ?thesis using Some by (simp add: emplace_item_def insert_absorb del: set_map)
qed (simp add: emplace_item_def)

lemma map_of_flush_all:
  "distinct (map fst items) \<Longrightarrow>
   map_of (filter (\<lambda>(k, i). P i) items) a = (case map_of items a of None \<Rightarrow> None | Some i \<Rightarrow> if P i then Some i else None)"
  by (induction items) (auto simp: map_of_eq_None_iff image_iff split: option.splits)

lemma distinct_emplace: "distinct (map fst items) \<Longrightarrow> distinct (map fst (emplace_item k i items))"
  by (auto simp: emplace_item_def map_of_eq_None_iff)

lemma distinct_filter_keys: "distinct (map fst items) \<Longrightarrow> distinct (map fst (filter P items))"
  by (induction items) auto

text \<open>What the steps of a run do to a cache with empty indexes.\<close>

lemma step_release:
  "unindexed c \<Longrightarrow> cache_release K t k c = c\<lparr>ca_items := update_item k (\<lambda>i. i\<lparr>ci_refs := ci_refs i - 1\<rparr>) (ca_items c)\<rparr>"
  unfolding cache_release_def by (rule flush_unindexed) (simp add: unindexed_def)

lemma unindexed_step:
  assumes "unindexed c" and "distinct (map fst (ca_items c))"
  shows "unindexed (fst (cache_step K t ev (c, h))) \<and> distinct (map fst (ca_items (fst (cache_step K t ev (c, h)))))"
  using assms step_release [OF assms(1), of K t] flush_unindexed [OF assms(1), of K t]
  by (cases ev) (auto simp: cache_step_def cache_lookup_def cache_insert_def flush_all_def remove_keys_from_index_def
      unindexed_def keys_update distinct_emplace distinct_filter_keys Let_def split: option.split)

lemma unindexed_run:
  "unindexed c \<Longrightarrow> distinct (map fst (ca_items c)) \<Longrightarrow> unindexed (fst (cache_run K evs (c, h)))
    \<and> distinct (map fst (ca_items (fst (cache_run K evs (c, h)))))"
proof (induction evs arbitrary: c h)
  case (Cons e evs)
  obtain t ev where e: "e = (t, ev)" by (rule prod.exhaust)
  obtain c' h' where s: "cache_step K t ev (c, h) = (c', h')" by (rule prod.exhaust)
  show ?case using unindexed_step [OF Cons.prems, of K t ev h] Cons.IH [of c' h'] by (simp add: e s)
qed simp

lemma unindexed_new: "unindexed (cache_new a b d) \<and> distinct (map fst (ca_items (cache_new a b d)))"
  by (simp add: cache_new_def unindexed_def)

definition cached :: "('k, 'v, 'd) cache \<Rightarrow> 'k set" where
  "cached c = set (map fst (ca_items c))"

fun inserted :: "('d \<times> ('k, 'v) cache_event) list \<Rightarrow> 'k set" where
  "inserted [] = {}"
| "inserted ((t, Ev_insert k v) # evs) = insert k (inserted evs)"
| "inserted (_ # evs) = inserted evs"

lemma cached_step:
  assumes "unindexed c" and "ev \<noteq> Ev_flush_all"
  shows "cached (fst (cache_step K t ev (c, h))) = cached c \<union> inserted [(t, ev)]"
  using assms(2) step_release [OF assms(1), of K t] flush_unindexed [OF assms(1), of K t]
  by (cases ev) (auto simp: cached_def cache_step_def cache_lookup_def cache_insert_def Let_def keys_update keys_emplace
      simp del: set_map split: option.split)

lemma inserted_Cons: "inserted ((t, ev) # evs) = inserted [(t, ev)] \<union> inserted evs"
  by (cases ev) auto

lemma cached_run:
  assumes "unindexed c" and "distinct (map fst (ca_items c))" and "\<forall>t. (t, Ev_flush_all) \<notin> set evs"
  shows "cached (fst (cache_run K evs (c, h))) = cached c \<union> inserted evs"
  using assms
proof (induction evs arbitrary: c h)
  case (Cons e evs)
  obtain t ev where e: "e = (t, ev)" by (rule prod.exhaust)
  obtain c' h' where s: "cache_step K t ev (c, h) = (c', h')" by (rule prod.exhaust)
  have "ev \<noteq> Ev_flush_all" using Cons.prems(3) e by auto
  from cached_step [OF Cons.prems(1) this, of K t h] have "cached c' = cached c \<union> inserted [(t, ev)]" by (simp add: s)
  moreover have "unindexed c'" "distinct (map fst (ca_items c'))"
    using unindexed_step [OF Cons.prems(1,2), of K t ev h] s by simp_all
  moreover have "\<forall>t. (t, Ev_flush_all) \<notin> set evs" using Cons.prems(3) by simp
  ultimately have "cached (fst (cache_run K evs (c', h'))) = cached c \<union> inserted [(t, ev)] \<union> inserted evs"
    using Cons.IH [of c' h'] by simp
  then show ?case using inserted_Cons [of t ev evs] by (simp only: e s cache_run.simps Un_assoc)
qed simp

text \<open>
  The limits of the cache limit nothing: whatever its size and its two ages, releases and flushes
  never remove an entry, since nothing is ever entered in the indexes that they walk; without
  \<open>flush_all\<close> the cache holds every key that was ever inserted.
\<close>

theorem cache_never_evicts:
  assumes "\<forall>t. (t, Ev_flush_all) \<notin> set evs"
  shows "cached (fst (cache_run K evs (cache_new max_size max_age max_inactivity, {#}))) = inserted evs"
  using cached_run [OF unindexed_new [THEN conjunct1] unindexed_new [THEN conjunct2] assms]
  by (simp add: cached_def cache_new_def)

text \<open>A clock over the integers.\<close>

definition int_clock :: "int clock" where
  "int_clock = \<lparr>ck_less = (<), ck_minus = (-)\<rparr>"

theorem cache_never_evicts_witness:
  "cached (fst (cache_run int_clock [(0, Ev_insert ''a'' 1), (1, Ev_insert ''b'' 2), (900, Ev_release ''a''), (901, Ev_flush)]
     (cache_new 1 60 60 :: (string, nat, int) cache, {#}))) = {''a'', ''b''}"
  by (subst cache_never_evicts) auto

subsection \<open>The counters of the entries\<close>

text \<open>Without races the counter of an entry is the number of its holders.\<close>

definition refs_counted :: "('k, 'v, 'd) cache \<times> 'k multiset \<Rightarrow> bool" where
  "refs_counted s = (unindexed (fst s) \<and> distinct (map fst (ca_items (fst s)))
     \<and> (\<forall>k. refs_of (ca_items (fst s)) k = int (count (snd s) k)
          \<and> (k \<in># snd s \<longrightarrow> map_of (ca_items (fst s)) k \<noteq> None)))"

lemma refs_of_update:
  "refs_of (update_item k f items) a =
     (if a = k then (case map_of items k of None \<Rightarrow> 0 | Some i \<Rightarrow> ci_refs (f i)) else refs_of items a)"
  by (simp add: refs_of_def map_of_update split: option.split)

lemma refs_of_emplace:
  "refs_of (emplace_item k i items) a = (if a = k \<and> map_of items k = None then ci_refs i else refs_of items a)"
  by (simp add: refs_of_def map_of_emplace)

lemma refs_of_flush_all:
  "distinct (map fst items) \<Longrightarrow> refs_of (filter (\<lambda>(k, i). ci_refs i \<noteq> 0) items) a = refs_of items a"
  by (auto simp: refs_of_def map_of_flush_all split: option.split)

lemma refs_counted_step:
  assumes inv: "refs_counted (c, h)"
    and race: "\<And>k v. ev = Ev_insert k v \<Longrightarrow> map_of (ca_items c) k = None"
    and no_copy: "\<And>k. ev \<noteq> Ev_copy k"
  shows "refs_counted (cache_step K t ev (c, h))"
proof -
  have un: "unindexed c" "distinct (map fst (ca_items c))"
    and refs: "\<And>k. refs_of (ca_items c) k = int (count h k)"
    and held: "\<And>k. k \<in># h \<Longrightarrow> map_of (ca_items c) k \<noteq> None"
    using inv unfolding refs_counted_def fst_conv snd_conv by blast+
  note keeps = unindexed_step [OF un, of K t ev h]
  have "refs_of (ca_items (fst (cache_step K t ev (c, h)))) k = int (count (snd (cache_step K t ev (c, h))) k)
      \<and> (k \<in># snd (cache_step K t ev (c, h)) \<longrightarrow> map_of (ca_items (fst (cache_step K t ev (c, h)))) k \<noteq> None)" for k
  proof (cases ev)
    case (Ev_lookup a)
    then show ?thesis
      using refs [of k] held [of k] refs [of a]
      by (auto simp: cache_step_def cache_lookup_def refs_of_update map_of_update split: option.split)
        (auto simp: refs_of_def)
  next
    case (Ev_insert a v)
    then have none: "map_of (ca_items c) a = None" using race by blast
    then have "a \<notin># h" using held [of a] by blast
    then have "count h a = 0" by (simp add: not_in_iff)
    then show ?thesis
      using Ev_insert none refs [of k] held [of k]
      by (auto simp: cache_step_def cache_insert_def refs_of_emplace map_of_emplace Let_def)
  next
    case (Ev_release a)
    show ?thesis
    proof (cases "a \<in># h")
      case True
      then obtain i where i: "map_of (ca_items c) a = Some i" using held by blast
      then have "ci_refs i = int (count h a)" using refs [of a] by (simp add: refs_of_def)
      moreover have "0 < count h a" using True by simp
      ultimately show ?thesis
        using Ev_release True refs [of k] held [of k] i
        by (auto simp: cache_step_def step_release [OF un(1)] refs_of_update map_of_update dest: in_diffD)
    qed (use Ev_release refs [of k] held [of k] in \<open>simp add: cache_step_def\<close>)
  next
    case (Ev_copy a)
    then show ?thesis using no_copy by blast
  next
    case Ev_flush
    then show ?thesis using refs [of k] held [of k] by (simp add: cache_step_def flush_unindexed [OF un(1)])
  next
    case Ev_flush_all
    have "ci_refs i \<noteq> 0" if "k \<in># h" "map_of (ca_items c) k = Some i" for i
      using that refs [of k] by (auto simp: refs_of_def)
    then show ?thesis
      using Ev_flush_all refs [of k] held [of k]
      by (auto simp: cache_step_def flush_all_def remove_keys_from_index_def refs_of_flush_all [OF un(2)]
          map_of_flush_all [OF un(2)] split: option.splits)
  qed
  then show ?thesis using keeps by (simp add: refs_counted_def)
qed

lemma refs_counted_run:
  "refs_counted s \<Longrightarrow> no_race K evs s \<Longrightarrow> no_copies evs \<Longrightarrow> refs_counted (cache_run K evs s)"
proof (induction evs arbitrary: s)
  case (Cons e evs)
  obtain t ev where e: "e = (t, ev)" by (rule prod.exhaust)
  obtain c h where s: "s = (c, h)" by (rule prod.exhaust)
  have "refs_counted (cache_step K t ev s)"
    unfolding s using Cons.prems by (intro refs_counted_step) (auto simp: e s no_copies_def)
  then show ?case using Cons.IH Cons.prems(2,3) by (simp add: e no_copies_def)
qed simp

text \<open>
  C26. As long as no two clients create the entry of one key and nobody copies a holder, an entry counts
  the holders of its key, and an entry that is held is in the cache: \<open>flush_all\<close> removes only what nobody
  holds. (The counter is an \<open>int\<close>, which this takes to be large enough for the holders of a key.)
\<close>

theorem cache_counts_holders:
  assumes "no_race K evs (cache_new max_size max_age max_inactivity, {#})"
    and "no_copies evs"
    and "cache_run K evs (cache_new max_size max_age max_inactivity, {#}) = (c, held)"
  shows "refs_of (ca_items c) k = int (count held k) \<and> (k \<in># held \<longrightarrow> k \<in> cached c)"
proof -
  have "refs_counted (cache_new max_size max_age max_inactivity, {#})"
    by (simp add: refs_counted_def unindexed_def cache_new_def refs_of_def)
  from refs_counted_run [OF this assms(1,2)] have "refs_counted (c, held)" by (simp add: assms(3))
  then have "refs_of (ca_items c) k = int (count held k)" "k \<in># held \<longrightarrow> map_of (ca_items c) k \<noteq> None"
    unfolding refs_counted_def fst_conv snd_conv by blast+
  moreover have "map_of (ca_items c) k \<noteq> None \<longleftrightarrow> k \<in> cached c"
    unfolding cached_def by (metis domIff dom_map_of_conv_image_fst set_map)
  ultimately show ?thesis by simp
qed

theorem cache_counts_holders_witness:
  "refs_of (ca_items (fst (cache_run int_clock [(0, Ev_insert ''a'' 1), (1, Ev_lookup ''a''), (2, Ev_flush_all)]
     (cache_new 1 60 60 :: (string, nat, int) cache, {#})))) ''a'' = 2"
proof -
  let ?evs = "[(0, Ev_insert ''a'' 1), (1, Ev_lookup ''a''), (2, Ev_flush_all)]"
  let ?s = "(cache_new 1 60 60 :: (string, nat, int) cache, {#})"
  obtain c held where run: "cache_run int_clock ?evs ?s = (c, held)" by (rule prod.exhaust)
  have "no_race int_clock ?evs ?s" by (simp add: cache_new_def)
  moreover have "no_copies ?evs" by (simp add: no_copies_def)
  ultimately have "refs_of (ca_items c) ''a'' = int (count held ''a'')"
    using run by (rule cache_counts_holders [THEN conjunct1])
  moreover have "held = {#''a'', ''a''#}"
    using run by (auto simp: cache_step_def cache_new_def cache_insert_def cache_lookup_def emplace_item_def update_item_def)
  ultimately show ?thesis by (simp only: run fst_conv) simp
qed

text \<open>
  When two clients miss one key and both insert it, the second holder is not counted: after the first
  release the entry counts no holder and \<open>flush_all\<close> drops it although it is held.
\<close>

theorem cache_race_drops_held:
  assumes "map_of (ca_items c) k = None" and "unindexed c" and "cache_run K [(t1, Ev_insert k v), (t2, Ev_insert k v'),
      (t3, Ev_release k), (t4, Ev_flush_all)] (c, {#}) = (c', held)"
  shows "k \<in># held \<and> k \<notin> cached c'"
proof -
  let ?items = "ca_items c @ [(k, \<lparr>ci_create_timestamp = t1, ci_access_timestamp = t1, ci_refs = 1, ci_value = v\<rparr>)]"
  have two: "cache_run K [(t1, Ev_insert k v), (t2, Ev_insert k v')] (c, {#}) = (c\<lparr>ca_items := ?items\<rparr>, {#k, k#})"
    using assms(1) by (simp add: cache_step_def cache_insert_def emplace_item_def Let_def map_add_def)
  have un: "unindexed (c\<lparr>ca_items := ?items\<rparr>)" using assms(2) by (simp add: unindexed_def)
  have absent: "k \<notin> fst ` set (ca_items c)" using assms(1) by (simp add: map_of_eq_None_iff)
  have "held = {#k#} \<and> ca_items c' = filter (\<lambda>(k, i). ci_refs i \<noteq> 0) (update_item k (\<lambda>i. i\<lparr>ci_refs := ci_refs i - 1\<rparr>) ?items)"
    using assms(3) two by (auto simp: cache_step_def step_release [OF un] flush_all_def remove_keys_from_index_def)
  then show ?thesis using absent by (auto simp: cached_def update_item_def image_iff)
qed

theorem cache_race_drops_held_witness:
  "case cache_run int_clock [(0, Ev_insert ''a'' 1), (0, Ev_insert ''a'' 1), (1, Ev_release ''a''), (2, Ev_flush_all)]
     (cache_new 1 60 60 :: (string, nat, int) cache, {#}) of (c, held) \<Rightarrow> ''a'' \<in># held \<and> ''a'' \<notin> cached c"
proof -
  obtain c held where run: "cache_run int_clock [(0, Ev_insert ''a'' 1), (0, Ev_insert ''a'' 1), (1, Ev_release ''a''), (2, Ev_flush_all)]
     (cache_new 1 60 60 :: (string, nat, int) cache, {#}) = (c, held)" by (rule prod.exhaust)
  have "''a'' \<in># held \<and> ''a'' \<notin> cached c"
    by (rule cache_race_drops_held [OF _ _ run]) (simp_all add: cache_new_def unindexed_def)
  then show ?thesis by (simp only: run prod.case) simp
qed

subsection \<open>The holder that get_reserve returns\<close>

text \<open>\<open>CacheHolder\<close> has no copy constructor of its own: a copy is attached to the cache like the original.\<close>

record ('k, 'v) cache_holder =
  ho_attached :: bool
  ho_key :: 'k
  ho_value :: 'v

definition holder_new :: "'k \<Rightarrow> 'v \<Rightarrow> ('k, 'v) cache_holder" where
  "holder_new key val = \<lparr>ho_attached = True, ho_key = key, ho_value = val\<rparr>"

definition holder_value :: "('k, 'v) cache_holder \<Rightarrow> 'v" where
  "holder_value h = ho_value h"

definition holder_destroy :: "'d clock \<Rightarrow> 'd \<Rightarrow> ('k, 'v) cache_holder \<Rightarrow> ('k, 'v, 'd) cache \<Rightarrow> ('k, 'v, 'd) cache" where
  "holder_destroy K timestamp h c = (if ho_attached h then cache_release K timestamp (ho_key h) c else c)"

text \<open>
  \<open>get_reserve\<close> without others between its sections, with the holder as its result, and with the result
  type that it has by default, the value: the holder is converted and destroyed.
\<close>

definition get_reserve :: "'d \<Rightarrow> ('k \<Rightarrow> 'v) \<Rightarrow> 'k \<Rightarrow> ('k, 'v, 'd) cache \<Rightarrow> ('k, 'v) cache_holder \<times> ('k, 'v, 'd) cache" where
  "get_reserve timestamp create key c =
     (case cache_lookup timestamp key c of
        (Some v, c') \<Rightarrow> (holder_new key v, c')
      | (None, c') \<Rightarrow> (case cache_insert timestamp key (create key) c' of (v, c'') \<Rightarrow> (holder_new key v, c'')))"

definition get_reserve_value ::
  "'d clock \<Rightarrow> 'd \<Rightarrow> ('k \<Rightarrow> 'v) \<Rightarrow> 'k \<Rightarrow> ('k, 'v, 'd) cache \<Rightarrow> 'v \<times> ('k, 'v, 'd) cache" where
  "get_reserve_value K timestamp create key c =
     (case get_reserve timestamp create key c of (h, c') \<Rightarrow> (holder_value h, holder_destroy K timestamp h c'))"

lemma get_reserve_refs:
  assumes "get_reserve t create key c = (h, c')" and "unindexed c"
  shows "ho_attached h" and "ho_key h = key" and "unindexed c'" and "map_of (ca_items c') key \<noteq> None"
    and "refs_of (ca_items c') key = refs_of (ca_items c) key + 1"
  using assms
  by (auto simp: get_reserve_def cache_lookup_def cache_insert_def holder_new_def unindexed_def refs_of_update refs_of_emplace
      map_of_update map_of_emplace Let_def split: option.splits) (auto simp: refs_of_def)

lemma destroy_refs:
  assumes "unindexed c" and "ho_attached h" and "map_of (ca_items c) (ho_key h) \<noteq> None"
  shows "unindexed (holder_destroy K t h c)" and "map_of (ca_items (holder_destroy K t h c)) (ho_key h) \<noteq> None"
    and "refs_of (ca_items (holder_destroy K t h c)) (ho_key h) = refs_of (ca_items c) (ho_key h) - 1"
proof -
  have "holder_destroy K t h c = c\<lparr>ca_items := update_item (ho_key h) (\<lambda>i. i\<lparr>ci_refs := ci_refs i - 1\<rparr>) (ca_items c)\<rparr>"
    using assms step_release [OF assms(1)] by (simp add: holder_destroy_def)
  then show "unindexed (holder_destroy K t h c)" "map_of (ca_items (holder_destroy K t h c)) (ho_key h) \<noteq> None"
    "refs_of (ca_items (holder_destroy K t h c)) (ho_key h) = refs_of (ca_items c) (ho_key h) - 1"
    using assms by (auto simp: unindexed_def refs_of_update map_of_update) (auto simp: refs_of_def)
qed

text \<open>
  What the caller has in hand: the holder counts until it is destroyed; the plain value, the default, is
  counted by nobody when it is returned; and a holder that is copied takes the count below that of the
  holders that are left.
\<close>

theorem reserved_value_is_not_held:
  assumes "unindexed c"
  shows "refs_of (ca_items (snd (get_reserve t create key c))) key = refs_of (ca_items c) key + 1
    \<and> refs_of (ca_items (snd (get_reserve_value K t create key c))) key = refs_of (ca_items c) key
    \<and> (case get_reserve t create key c of (h, c') \<Rightarrow>
        refs_of (ca_items (holder_destroy K t h (holder_destroy K t h c'))) key = refs_of (ca_items c) key - 1)"
proof -
  obtain h c' where r: "get_reserve t create key c = (h, c')" by (rule prod.exhaust)
  note g = get_reserve_refs [OF r assms]
  have d: "unindexed (holder_destroy K t h c')" "map_of (ca_items (holder_destroy K t h c')) (ho_key h) \<noteq> None"
    "refs_of (ca_items (holder_destroy K t h c')) (ho_key h) = refs_of (ca_items c') (ho_key h) - 1"
    using destroy_refs [OF g(3) g(1)] g(2,4) by simp_all
  have "refs_of (ca_items (holder_destroy K t h (holder_destroy K t h c'))) (ho_key h)
      = refs_of (ca_items (holder_destroy K t h c')) (ho_key h) - 1"
    by (rule destroy_refs [OF d(1) g(1) d(2)])
  then show ?thesis using g d by (simp add: r get_reserve_value_def)
qed

theorem reserved_value_is_not_held_witness:
  "refs_of (ca_items (snd (get_reserve_value int_clock 5 length ''a'' (cache_new 1 60 60)))) ''a'' = 0"
proof -
  have "unindexed (cache_new 1 60 60 :: (string, nat, int) cache)" by (simp add: unindexed_def cache_new_def)
  from reserved_value_is_not_held [OF this, of 5 length "''a''" int_clock] show ?thesis
    by (simp add: cache_new_def refs_of_def)
qed

end
