(* ===== verification/Query_Print.thy ===== *)
theory Query_Print
  imports Sql_Support Decimal
begin

text \<open>
  Printing a query graph (\<open>printConstant\<close> and \<open>printQueryGraph\<close> of \<open>minion/planner/query/graph.h\<close>): the text
  that is written, and which nodes are written under which data frame. The text of a \<open>double\<close> and the
  names of the enums, which other libraries give, are parameters.
\<close>

record graph_printer =
  gp_double :: "64 word \<Rightarrow> string"
  gp_operation :: "column_operation \<Rightarrow> string"
  gp_type :: "value_type \<Rightarrow> string"

subsection \<open>Constants\<close>

definition show_int :: "int \<Rightarrow> string" where
  "show_int x = (if x < 0 then CHR ''-'' # to_string (nat (- x)) else to_string (nat x))"

definition show_int64 :: "64 word \<Rightarrow> string" where
  "show_int64 w = show_int (sint w)"

definition quoted :: "string \<Rightarrow> string" where
  "quoted s = [CHR 0x22] @ s @ [CHR 0x22]"

fun comma_list :: "string list \<Rightarrow> string" where
  "comma_list [] = []"
| "comma_list [s] = s"
| "comma_list (s # ss) = s @ '', '' @ comma_list ss"

definition in_pool :: "node \<Rightarrow> 'a list \<Rightarrow> bool" where
  "in_pool n xs = (0 \<le> n \<and> nat n < length xs)"

definition printConstant :: "graph_printer \<Rightarrow> query_graph \<Rightarrow> operation \<Rightarrow> string" where
  "printConstant P g op =
     (let c = op_const_id op in
      if c = NODE_NONE then []
      else '' | Const: '' @
       (if op_sequence op \<noteq> SEQ_ARRAY then
          (if op_type op = Ty_Int64 \<and> in_pool c (int64_constants g) then show_int64 (int64_constants g ! nat c)
           else if op_type op = Ty_Float64 \<and> in_pool c (float64_constants g) then gp_double P (float64_constants g ! nat c)
           else if op_type op = Ty_String \<and> in_pool c (string_constants g) then quoted (string_constants g ! nat c)
           else ''[ID: '' @ show_int c @ '']'')
        else ''{ '' @
          (if op_type op = Ty_Int64 \<and> in_pool c (int64_array_constants g)
           then comma_list (map show_int64 (int64_array_constants g ! nat c))
           else if op_type op = Ty_Float64 \<and> in_pool c (float64_array_constants g)
           then comma_list (map (gp_double P) (float64_array_constants g ! nat c))
           else if op_type op = Ty_String \<and> in_pool c (string_array_constants g)
           then comma_list (map quoted (string_array_constants g ! nat c))
           else []) @ '' }''))"

subsection \<open>The groups\<close>

text \<open>A \<open>std::map\<close> from nodes: its entries in ascending order of the keys.\<close>

fun df_update :: "node \<Rightarrow> (node list \<Rightarrow> node list) \<Rightarrow> (node \<times> node list) list \<Rightarrow> (node \<times> node list) list" where
  "df_update k f [] = [(k, f [])]"
| "df_update k f ((k', xs) # rest) =
     (if k = k' then (k', f xs) # rest
      else if k < k' then (k, f []) # (k', xs) # rest
      else (k', xs) # df_update k f rest)"

definition bucket_node ::
  "operation list \<Rightarrow> nat \<Rightarrow> (node \<times> node list) list \<times> node list \<Rightarrow> (node \<times> node list) list \<times> node list" where
  "bucket_node ops i = (\<lambda>(df_groups, standalone).
     let current_df = op_df (ops ! i) in
     if current_df = int i then (df_update (int i) (\<lambda>_. []) df_groups, standalone)
     else if current_df \<noteq> NODE_NONE then (df_update current_df (\<lambda>xs. xs @ [int i]) df_groups, standalone)
     else (df_groups, standalone @ [int i]))"

definition bucket_nodes :: "operation list \<Rightarrow> (node \<times> node list) list \<times> node list" where
  "bucket_nodes ops = fold (bucket_node ops) [0..<length ops] ([], [])"

subsection \<open>The text\<close>

definition pad_left :: "nat \<Rightarrow> string \<Rightarrow> string" where
  "pad_left w s = replicate (w - length s) (CHR '' '') @ s"

definition pad_right :: "nat \<Rightarrow> string \<Rightarrow> string" where
  "pad_right w s = s @ replicate (w - length s) (CHR '' '')"

definition child_mark :: string where
  "child_mark = ''    '' @ [CHR 0xE2, CHR 0x94, CHR 0x9C, CHR 0xE2, CHR 0x94, CHR 0x80, CHR 0x20]"

definition root_mark :: string where
  "root_mark = [CHR 0xE2, CHR 0x96, CHR 0xB6, CHR 0x20]"

definition newline :: string where "newline = [CHR 0x0A]"

definition node_name :: "query_graph \<Rightarrow> operation \<Rightarrow> string option" where
  "node_name g op =
     (if op_name op \<noteq> NODE_NONE \<and> in_pool (op_name op) (qg_names g) then Some (qg_names g ! nat (op_name op)) else None)"

text \<open>
  One line. \<open>std::left\<close> stays set after the first line, so only its number is aligned to the right.
\<close>

definition printNode :: "graph_printer \<Rightarrow> query_graph \<Rightarrow> bool \<Rightarrow> node \<times> bool \<Rightarrow> string result" where
  "printNode P g left_set = (\<lambda>(n, is_child).
     bind_result (at (qg_operations g) n) (\<lambda>op.
     bind_result
       (case node_name g op of
          Some s \<Rightarrow> Inr ('' | Name: '' @ [CHR 0x27] @ s @ [CHR 0x27])
        | None \<Rightarrow>
            if is_child \<and> op_df op \<noteq> NODE_NONE then
              bind_result (at (qg_operations g) (op_df op)) (\<lambda>parent.
              Inr (case node_name g parent of None \<Rightarrow> [] | Some s \<Rightarrow> '' | (DF: '' @ s @ '')''))
            else Inr []) (\<lambda>name_text.
     Inr ((if is_child then child_mark else root_mark) @ ''['' @
       (if left_set then pad_right 3 (show_int n) else pad_left 3 (show_int n)) @ ''] '' @
       pad_right 22 (gp_operation P (op_op op)) @ '' | '' @ pad_right 8 (gp_type P (op_type op)) @
       name_text @ printConstant P g op @
       (if in_pool n (qg_mapping g) \<and> qg_mapping g ! nat n \<noteq> []
        then '' | Args: { '' @ comma_list (map show_int (qg_mapping g ! nat n)) @ '' }'' else []) @ newline))))"

fun print_nodes :: "graph_printer \<Rightarrow> query_graph \<Rightarrow> bool \<Rightarrow> (node \<times> bool) list \<Rightarrow> string result" where
  "print_nodes P g left_set [] = Inr []"
| "print_nodes P g left_set (n # ns) =
     bind_result (printNode P g left_set n) (\<lambda>s. bind_result (print_nodes P g True ns) (\<lambda>t. Inr (s @ t)))"

definition dashes :: string where "dashes = replicate 65 (CHR ''-'') @ newline"
definition double_dashes :: string where "double_dashes = replicate 65 (CHR ''='') @ newline"

definition group_nodes :: "node \<times> node list \<Rightarrow> (node \<times> bool) list" where
  "group_nodes = (\<lambda>(df_id, children). (df_id, False) # map (\<lambda>c. (c, True)) children)"

fun print_groups :: "graph_printer \<Rightarrow> query_graph \<Rightarrow> bool \<Rightarrow> (node \<times> node list) list \<Rightarrow> string result" where
  "print_groups P g left_set [] = Inr []"
| "print_groups P g left_set (grp # grps) =
     bind_result (print_nodes P g left_set (group_nodes grp)) (\<lambda>s.
     bind_result (print_groups P g True grps) (\<lambda>t. Inr (dashes @ s @ t)))"

definition printQueryGraph :: "graph_printer \<Rightarrow> query_graph \<Rightarrow> string result" where
  "printQueryGraph P g =
     (let (df_groups, standalone) = bucket_nodes (qg_operations g) in
      bind_result (print_groups P g False df_groups) (\<lambda>s.
      bind_result (print_nodes P g (df_groups \<noteq> []) (map (\<lambda>n. (n, False)) standalone)) (\<lambda>t.
      Inr (newline @ double_dashes @ ''                   QUERY GRAPH EXECUTION PLAN                    '' @ newline @
        double_dashes @ s @
        (if standalone \<noteq> [] then dashes @ root_mark @ ''STANDALONE / UNATTACHED NODES'' @ newline @ t else []) @
        double_dashes @ newline))))"

subsection \<open>Which nodes are printed\<close>

lemma keys_df_update: "set (map fst (df_update k f gs)) = insert k (set (map fst gs))"
  by (induction k f gs rule: df_update.induct) auto

lemma sorted_df_update: "sorted_wrt (<) (map fst gs) \<Longrightarrow> sorted_wrt (<) (map fst (df_update k f gs))"
proof (induction k f gs rule: df_update.induct)
  case (2 k f k' xs rest)
  then show ?case using keys_df_update [of k f rest] by (auto simp: less_le_not_le)
qed simp

lemma map_of_df_update:
  "sorted_wrt (<) (map fst gs) \<Longrightarrow>
   map_of (df_update k f gs) a = (if a = k then Some (f (case map_of gs k of None \<Rightarrow> [] | Some xs \<Rightarrow> xs)) else map_of gs a)"
proof (induction k f gs rule: df_update.induct)
  case (2 k f k' xs rest)
  have "map_of rest k = None" if "k < k'"
  proof -
    have "k \<notin> set (map fst rest)" using 2 that by auto
    then show ?thesis by (simp add: map_of_eq_None_iff)
  qed
  then show ?case using 2 by auto
qed simp

definition tags_itself :: "operation list \<Rightarrow> node \<Rightarrow> nat \<Rightarrow> bool" where
  "tags_itself ops d m = (0 \<le> d \<and> nat d < m \<and> op_df (ops ! nat d) = d)"

definition df_children :: "operation list \<Rightarrow> node \<Rightarrow> nat \<Rightarrow> node list" where
  "df_children ops d m =
     map int (filter (\<lambda>i. op_df (ops ! i) = d \<and> int i \<noteq> d \<and> (tags_itself ops d m \<longrightarrow> d < int i)) [0..<m])"

lemma df_children_Suc:
  "df_children ops d (Suc m) =
     (if op_df (ops ! m) = d \<and> d = int m then []
      else df_children ops d m @ (if op_df (ops ! m) = d then [int m] else []))"
proof (cases "op_df (ops ! m) = d \<and> d = int m")
  case True
  then show ?thesis by (auto simp: df_children_def tags_itself_def filter_empty_conv)
next
  case False
  then have "tags_itself ops d (Suc m) = tags_itself ops d m"
    unfolding tags_itself_def by (metis int_nat_eq less_Suc_eq)
  moreover have "tags_itself ops d m \<Longrightarrow> d < int m" by (auto simp: tags_itself_def)
  ultimately show ?thesis using False by (auto simp: df_children_def)
qed

lemma bucket_prefix:
  fixes ops :: "operation list"
  defines "bucketed m \<equiv> fold (bucket_node ops) [0..<m] ([], [])"
  shows "sorted_wrt (<) (map fst (fst (bucketed m)))
    \<and> snd (bucketed m) = map int (filter (\<lambda>i. op_df (ops ! i) = NODE_NONE) [0..<m])
    \<and> (\<forall>d. map_of (fst (bucketed m)) d =
         (if d \<noteq> NODE_NONE \<and> (\<exists>i<m. op_df (ops ! i) = d) then Some (df_children ops d m) else None))"
proof (induction m)
  case 0
  then show ?case by (simp add: bucketed_def)
next
  case (Suc m)
  obtain gs alone where b: "bucketed m = (gs, alone)" by (rule prod.exhaust)
  have sorted: "sorted_wrt (<) (map fst gs)"
    and alone: "alone = map int (filter (\<lambda>i. op_df (ops ! i) = NODE_NONE) [0..<m])"
    and groups: "map_of gs d = (if d \<noteq> NODE_NONE \<and> (\<exists>i<m. op_df (ops ! i) = d) then Some (df_children ops d m) else None)" for d
    using Suc b by simp_all
  have step: "bucketed (Suc m) = bucket_node ops m (gs, alone)" using b by (simp add: bucketed_def)
  have none: "df_children ops d m = []" if "\<not> (\<exists>i<m. op_df (ops ! i) = d)" for d
    using that by (auto simp: df_children_def filter_empty_conv)
  let ?d = "op_df (ops ! m)"
  consider (own) "?d = int m" | (other) "?d \<noteq> int m" "?d \<noteq> NODE_NONE" | (free) "?d \<noteq> int m" "?d = NODE_NONE" by blast
  then show ?case
  proof cases
    case own
    then have "?d \<noteq> NODE_NONE" by (simp add: NODE_NONE_def)
    then show ?thesis
      using own sorted alone groups sorted_df_update [OF sorted, of "int m" "\<lambda>_. []"]
      by (auto simp: step bucket_node_def map_of_df_update [OF sorted] df_children_Suc less_Suc_eq)
  next
    case other
    then show ?thesis
      using sorted alone groups none sorted_df_update [OF sorted, of ?d "\<lambda>xs. xs @ [int m]"]
      by (auto simp: step bucket_node_def map_of_df_update [OF sorted] df_children_Suc less_Suc_eq Let_def)
  next
    case free
    then show ?thesis
      using sorted alone groups by (auto simp: step bucket_node_def df_children_Suc less_Suc_eq Let_def)
  qed
qed

text \<open>
  The groups that are printed: a group for every data frame that some node is tagged with, in the order
  of their numbers, the nodes without one standing alone. The group of a data frame lists the other nodes
  tagged with it in order; but when the frame is tagged with itself those before it are dropped, since
  entering its own node clears the list, and they are printed nowhere.
\<close>

theorem printed_groups:
  "sorted_wrt (<) (map fst (fst (bucket_nodes ops)))
   \<and> snd (bucket_nodes ops) = map int (filter (\<lambda>i. op_df (ops ! i) = NODE_NONE) [0..<length ops])
   \<and> (\<forall>d. map_of (fst (bucket_nodes ops)) d =
        (if d \<noteq> NODE_NONE \<and> (\<exists>i<length ops. op_df (ops ! i) = d)
         then Some (map int (filter (\<lambda>i. op_df (ops ! i) = d \<and> int i \<noteq> d
                \<and> (0 \<le> d \<and> nat d < length ops \<and> op_df (ops ! nat d) = d \<longrightarrow> d < int i)) [0..<length ops]))
         else None))"
  using bucket_prefix [of ops "length ops"]
  unfolding bucket_nodes_def df_children_def tags_itself_def by blast

theorem printed_groups_witness:
  "map_of (fst (bucket_nodes [default_operation\<lparr>op_df := 1\<rparr>, default_operation\<lparr>op_df := 1\<rparr>, default_operation\<lparr>op_df := 1\<rparr>])) 1 = Some [2]"
  using printed_groups [THEN conjunct2, THEN conjunct2, THEN spec,
      of "[default_operation\<lparr>op_df := 1\<rparr>, default_operation\<lparr>op_df := 1\<rparr>, default_operation\<lparr>op_df := 1\<rparr>]" 1]
  by (auto simp: NODE_NONE_def upt_rec less_Suc_eq)

subsection \<open>When printing is defined\<close>

lemma at_ok: "(\<exists>x. at (qg_operations g) n = Inr x) \<longleftrightarrow> node_ok g n"
  by (auto simp: at_def node_ok_def)

definition tag_ok :: "query_graph \<Rightarrow> operation \<Rightarrow> bool" where
  "tag_ok g op = (op_df op = NODE_NONE \<or> node_ok g (op_df op))"

lemma printNode_defined:
  assumes "\<forall>op \<in> set (qg_operations g). tag_ok g op"
  shows "(\<exists>s. printNode P g l n = Inr s) \<longleftrightarrow> node_ok g (fst n)"
proof (cases "at (qg_operations g) (fst n)")
  case (Inl e)
  then show ?thesis using at_ok [of g "fst n"] by (auto simp: printNode_def split: prod.split)
next
  case (Inr op)
  then have "op \<in> set (qg_operations g)" by (auto simp: at_iff)
  then have "op_df op = NODE_NONE \<or> (\<exists>p. at (qg_operations g) (op_df op) = Inr p)"
    using assms at_ok by (auto simp: tag_ok_def)
  moreover have "node_ok g (fst n)" using Inr at_ok by blast
  ultimately show ?thesis using Inr by (auto simp: printNode_def split: prod.split option.split)
qed

lemma print_nodes_defined:
  assumes "\<forall>op \<in> set (qg_operations g). tag_ok g op"
  shows "(\<exists>s. print_nodes P g l ns = Inr s) \<longleftrightarrow> (\<forall>n \<in> set ns. node_ok g (fst n))"
proof (induction ns arbitrary: l)
  case (Cons n ns)
  show ?case
    using printNode_defined [OF assms, of P l n] Cons.IH [of True]
    by (auto simp: bind_result_Inr_iff)
qed simp

lemma printNode_ok: "printNode P g l n = Inr s \<Longrightarrow> node_ok g (fst n)"
  using at_ok [of g "fst n"] by (auto simp: printNode_def bind_result_Inr_iff split: prod.splits)

lemma print_nodes_ok: "print_nodes P g l ns = Inr s \<Longrightarrow> n \<in> set ns \<Longrightarrow> node_ok g (fst n)"
  by (induction ns arbitrary: l s) (auto simp: bind_result_Inr_iff dest: printNode_ok)

lemma print_groups_ok: "print_groups P g l grps = Inr s \<Longrightarrow> grp \<in> set grps \<Longrightarrow> node_ok g (fst grp)"
proof (induction grps arbitrary: l s)
  case (Cons grp' grps)
  have "(fst grp', False) \<in> set (group_nodes grp')" by (simp add: group_nodes_def split_def)
  then show ?case
    using Cons print_nodes_ok [of P g l "group_nodes grp'" _ "(fst grp', False)"] by (auto simp: bind_result_Inr_iff)
qed simp

lemma print_groups_defined:
  assumes "\<forall>op \<in> set (qg_operations g). tag_ok g op"
    and "\<And>d cs n. (d, cs) \<in> set grps \<Longrightarrow> n \<in> insert d (set cs) \<Longrightarrow> node_ok g n"
  shows "\<exists>s. print_groups P g l grps = Inr s"
  using assms(2)
proof (induction grps arbitrary: l)
  case (Cons grp grps)
  have "node_ok g (fst n)" if "n \<in> set (group_nodes grp)" for n
    using Cons.prems [of "fst grp" "snd grp" "fst n"] that by (auto simp: group_nodes_def split: prod.splits)
  then have "\<exists>s. print_nodes P g l (group_nodes grp) = Inr s" using print_nodes_defined [OF assms(1)] by blast
  moreover have "\<exists>s. print_groups P g True grps = Inr s"
    by (rule Cons.IH) (use Cons.prems in auto)
  ultimately show ?case by auto
qed simp

lemma grouped:
  assumes "(d, cs) \<in> set (fst (bucket_nodes ops))"
  shows "(\<exists>i<length ops. op_df (ops ! i) = d) \<and> (\<forall>c \<in> set cs. 0 \<le> c \<and> nat c < length ops)"
proof -
  let ?gs = "fst (bucket_nodes ops)"
  note spec = bucket_prefix [of ops "length ops", folded bucket_nodes_def]
  have "distinct (map fst ?gs)" using spec by (simp add: strict_sorted_iff)
  then have "map_of ?gs d = Some cs" using assms by simp
  then show ?thesis using spec by (auto simp: df_children_def split: if_splits)
qed

lemma printable:
  assumes tags: "\<forall>op \<in> set (qg_operations g). op_df op = NODE_NONE \<or> node_ok g (op_df op)"
  shows "\<exists>s. printQueryGraph P g = Inr s"
proof -
  let ?ops = "qg_operations g"
  have ok: "\<forall>op \<in> set ?ops. tag_ok g op" using tags by (simp add: tag_ok_def)
  obtain gs alone where b: "bucket_nodes ?ops = (gs, alone)" by (rule prod.exhaust)
  have "node_ok g n" if grp: "(d, cs) \<in> set gs" and n: "n \<in> insert d (set cs)" for d cs n
  proof -
    from grouped [of d cs ?ops] grp b obtain i where i: "i < length ?ops" "op_df (?ops ! i) = d"
      and cs: "\<forall>c \<in> set cs. 0 \<le> c \<and> nat c < length ?ops" by auto
    have "map_of gs d \<noteq> None" using grp by (metis domIff fst_conv image_eqI dom_map_of_conv_image_fst)
    then have "d \<noteq> NODE_NONE"
      using bucket_prefix [of ?ops "length ?ops"] b unfolding bucket_nodes_def by (metis fst_conv)
    then have "node_ok g d" using ok i nth_mem [OF i(1)] by (auto simp: tag_ok_def)
    then show ?thesis using n cs by (auto simp: node_ok_def)
  qed
  then obtain s where "print_groups P g False gs = Inr s" using print_groups_defined [OF ok] by blast
  moreover have "alone = map int (filter (\<lambda>i. op_df (?ops ! i) = NODE_NONE) [0..<length ?ops])"
    using bucket_prefix [of ?ops "length ?ops"] b unfolding bucket_nodes_def by simp
  then have "\<exists>t. print_nodes P g (gs \<noteq> []) (map (\<lambda>n. (n, False)) alone) = Inr t"
    by (subst print_nodes_defined [OF ok]) (auto simp: node_ok_def)
  ultimately show "\<exists>s. printQueryGraph P g = Inr s" by (auto simp: printQueryGraph_def b)
qed

text \<open>
  Printing reads only nodes of the graph exactly when each node is tagged with no data frame or with a
  node of the graph.
\<close>

theorem print_defined_iff:
  "(\<exists>s. printQueryGraph P g = Inr s) \<longleftrightarrow> (\<forall>op \<in> set (qg_operations g). op_df op = NODE_NONE \<or> node_ok g (op_df op))"
proof
  assume "\<exists>s. printQueryGraph P g = Inr s"
  then have "\<exists>s. print_groups P g False (fst (bucket_nodes (qg_operations g))) = Inr s"
    by (auto simp: printQueryGraph_def bind_result_Inr_iff split: prod.splits)
  then obtain s where s: "print_groups P g False (fst (bucket_nodes (qg_operations g))) = Inr s" by blast
  show "\<forall>op \<in> set (qg_operations g). op_df op = NODE_NONE \<or> node_ok g (op_df op)"
  proof
    fix op assume "op \<in> set (qg_operations g)"
    then obtain i where i: "i < length (qg_operations g)" "op = qg_operations g ! i" by (auto simp: in_set_conv_nth)
    show "op_df op = NODE_NONE \<or> node_ok g (op_df op)"
    proof (cases "op_df op = NODE_NONE")
      case False
      have "\<exists>ia<length (qg_operations g). op_df (qg_operations g ! ia) = op_df op" using i by blast
      then obtain cs where "map_of (fst (bucket_nodes (qg_operations g))) (op_df op) = Some cs"
        using bucket_prefix [of "qg_operations g" "length (qg_operations g)"] False unfolding bucket_nodes_def by simp
      from print_groups_ok [OF s map_of_SomeD [OF this]] show ?thesis by simp
    qed simp
  qed
qed (rule printable)

theorem print_defined_iff_witness:
  "\<exists>s. printQueryGraph \<lparr>gp_double = (\<lambda>w. []), gp_operation = (\<lambda>op. ''OP''), gp_type = (\<lambda>t. ''T'')\<rparr>
     (query_graph_new\<lparr>qg_operations := [default_operation\<lparr>op_df := 0\<rparr>], qg_mapping := [[]]\<rparr>) = Inr s"
  by (subst print_defined_iff) (simp add: node_ok_def)

subsection \<open>The constants of a compiled query\<close>

text \<open>
  C38. The constants of a compiled query are typed: the type of a constant node names the pool that holds
  its constant, so that it is printed by its value and never by its number.
\<close>

theorem compiled_constants_typed:
  assumes "visits_in_order rt" and "compile_query rt q = Some (Inr g)"
    and "op \<in> set (qg_operations g)" and "op_op op = OP_CONST"
  shows "(op_type op = Ty_Int64 \<and> in_pool (op_const_id op) (int64_constants g)
      \<and> printConstant P g op = '' | Const: '' @ show_int64 (int64_constants g ! nat (op_const_id op)))
    \<or> (op_type op = Ty_Float64 \<and> in_pool (op_const_id op) (float64_constants g)
      \<and> printConstant P g op = '' | Const: '' @ gp_double P (float64_constants g ! nat (op_const_id op)))
    \<or> (op_type op = Ty_String \<and> in_pool (op_const_id op) (string_constants g)
      \<and> printConstant P g op = '' | Const: '' @ quoted (string_constants g ! nat (op_const_id op)))"
proof -
  have "graph_wf g" using compile_query_eq [OF assms(1), of q] assms(2) by auto
  then have "operation_ok g op" using assms(3) by (simp add: graph_wf_def)
  then show ?thesis
    using assms(4)
    by (auto simp: operation_ok_def printConstant_def in_pool_def NODE_NONE_def Let_def split: value_type.splits)
qed

definition select_five :: query where
  "select_five = Query [] (SelectStmt (QueryExpression [SelectStatement [ElementExpr (LiteralExpr (IntLit ''5'')) None] None None [] [] None None]))"

lemma select_five_compiles:
  "case compile_query example_runtime select_five of
     Some (Inr g) \<Rightarrow> op_op (qg_operations g ! 0) = OP_CONST \<and> qg_operations g \<noteq> [] \<and> int64_constants g = [5]
       \<and> op_type (qg_operations g ! 0) = Ty_Int64 \<and> op_const_id (qg_operations g ! 0) = 0
   | _ \<Rightarrow> False"
  by code_simp

theorem compiled_constants_typed_witness:
  "case compile_query example_runtime select_five of
     Some (Inr g) \<Rightarrow> printConstant \<lparr>gp_double = (\<lambda>w. []), gp_operation = (\<lambda>op. ''OP''), gp_type = (\<lambda>t. ''T'')\<rparr> g (qg_operations g ! 0)
       = '' | Const: 5''
   | _ \<Rightarrow> False"
proof -
  obtain g where g: "compile_query example_runtime select_five = Some (Inr g)"
      "op_op (qg_operations g ! 0) = OP_CONST" "qg_operations g \<noteq> []" "int64_constants g = [5]"
      "op_type (qg_operations g ! 0) = Ty_Int64" "op_const_id (qg_operations g ! 0) = 0"
    using select_five_compiles by (auto split: option.splits sum.splits)
  have "to_string 5 = ''5''" by (simp add: to_string.simps char_of_eq_iff)
  then have "show_int64 5 = ''5''" by (simp add: show_int64_def show_int_def)
  then show ?thesis
    using compiled_constants_typed [OF example_runtime_in_order g(1) _ g(2),
        of "\<lparr>gp_double = (\<lambda>w. []), gp_operation = (\<lambda>op. ''OP''), gp_type = (\<lambda>t. ''T'')\<rparr>"] g
    by simp
qed

end
