(* ===== verification/Key_Files.thy ===== *)
theory Key_Files
  imports Crypto "HOL-Library.Sublist"
begin

text \<open>
  Generating keys (\<open>common/crypto/sgn.cc\<close>) and certificates as text and in files (\<open>common/crypto/auth.cc\<close>).
  OpenSSL's generator, its PEM reader and the file system are parameters. \<open>ssl_call\<close> throws for 0 only
  (\<open>common/crypto/call_check.h\<close>), while the functions of the generator return negative codes for errors.
\<close>

subsection \<open>Keys\<close>

datatype key_type = EVP_PKEY_RSA | EVP_PKEY_EC

text \<open>
  \<open>kg_keygen\<close> gives the return code and the key that was made, given the parameter that was set.
  The raw key of a key type without raw keys is \<open>None\<close>; both calls for it, for its size and for its
  bytes, then return 0.
\<close>

record 'k keygen_api =
  kg_ctx_new :: "key_type \<Rightarrow> bool"
  kg_init :: "key_type \<Rightarrow> int"
  kg_set_rsa_bits :: "size_t \<Rightarrow> int"
  kg_set_ec_curve :: "int \<Rightarrow> int"
  kg_keygen :: "key_type \<Rightarrow> int \<Rightarrow> int \<times> 'k option"
  kg_raw_public :: "'k \<Rightarrow> string option"
  kg_raw_private :: "'k \<Rightarrow> string option"

definition ssl_call :: "int \<Rightarrow> unit result" where
  "ssl_call ret_val = check (ret_val \<noteq> 0) SSLError"

definition raw_key :: "string option \<Rightarrow> string result" where
  "raw_key r =
     (case r of
        None \<Rightarrow> bind_result (ssl_call 0) (\<lambda>_. Inr [])
      | Some s \<Rightarrow> bind_result (ssl_call 1) (\<lambda>_. bind_result (ssl_call 1) (\<lambda>_. Inr s)))"

text \<open>A call with the null key is undefined.\<close>

definition raw_keys :: "'k keygen_api \<Rightarrow> 'k option \<Rightarrow> (string \<times> string) result" where
  "raw_keys K key =
     (case key of
        None \<Rightarrow> Inl UndefinedBehaviour
      | Some k \<Rightarrow>
          bind_result (raw_key (kg_raw_public K k)) (\<lambda>pubkey.
          bind_result (raw_key (kg_raw_private K k)) (\<lambda>privkey. Inr (pubkey, privkey))))"

definition generate_rsa_key :: "'k keygen_api \<Rightarrow> size_t \<Rightarrow> (string \<times> string) result" where
  "generate_rsa_key K bits =
     bind_result (check (kg_ctx_new K EVP_PKEY_RSA) SSLError) (\<lambda>_.
     bind_result (ssl_call (kg_init K EVP_PKEY_RSA)) (\<lambda>_.
     bind_result (ssl_call (kg_set_rsa_bits K bits)) (\<lambda>_.
     case kg_keygen K EVP_PKEY_RSA (sint (ucast bits :: 32 word)) of (r, key) \<Rightarrow>
       bind_result (ssl_call r) (\<lambda>_. raw_keys K key))))"

definition NID_X9_62_prime256v1 :: int where "NID_X9_62_prime256v1 = 415"

text \<open>The curve that the caller asks for is not looked at.\<close>

definition generate_ecdsa_key :: "'k keygen_api \<Rightarrow> int \<Rightarrow> (string \<times> string) result" where
  "generate_ecdsa_key K curve_nid =
     bind_result (check (kg_ctx_new K EVP_PKEY_EC) SSLError) (\<lambda>_.
     bind_result (ssl_call (kg_init K EVP_PKEY_EC)) (\<lambda>_.
     bind_result (ssl_call (kg_set_ec_curve K NID_X9_62_prime256v1)) (\<lambda>_.
     case kg_keygen K EVP_PKEY_EC NID_X9_62_prime256v1 of (r, key) \<Rightarrow>
       bind_result (ssl_call r) (\<lambda>_. raw_keys K key))))"

lemma raw_key_none: "raw_key None = Inl SSLError"
  by (simp add: raw_key_def ssl_call_def)

text \<open>
  No key can be generated: OpenSSL documents the raw export for a few key types, to which RSA and EC
  do not belong, so that both generators throw whatever size or curve is asked for. They are undefined
  exactly when every call returns something but 0 and no key was made, as for a negative error code.
\<close>

theorem keys_never_generated:
  assumes "\<And>ty p r k. kg_keygen K ty p = (r, Some k) \<Longrightarrow> kg_raw_public K k = None"
  shows "generate_rsa_key K bits =
      Inl (if kg_ctx_new K EVP_PKEY_RSA \<and> kg_init K EVP_PKEY_RSA \<noteq> 0 \<and> kg_set_rsa_bits K bits \<noteq> 0
             \<and> fst (kg_keygen K EVP_PKEY_RSA (sint (ucast bits :: 32 word))) \<noteq> 0
             \<and> snd (kg_keygen K EVP_PKEY_RSA (sint (ucast bits :: 32 word))) = None
           then UndefinedBehaviour else SSLError)
    \<and> generate_ecdsa_key K curve_nid =
      Inl (if kg_ctx_new K EVP_PKEY_EC \<and> kg_init K EVP_PKEY_EC \<noteq> 0 \<and> kg_set_ec_curve K NID_X9_62_prime256v1 \<noteq> 0
             \<and> fst (kg_keygen K EVP_PKEY_EC NID_X9_62_prime256v1) \<noteq> 0
             \<and> snd (kg_keygen K EVP_PKEY_EC NID_X9_62_prime256v1) = None
           then UndefinedBehaviour else SSLError)"
proof -
  have key: "(case kg_keygen K ty p of (r, key) \<Rightarrow> bind_result (ssl_call r) (\<lambda>_. raw_keys K key)) =
      Inl (if fst (kg_keygen K ty p) \<noteq> 0 \<and> snd (kg_keygen K ty p) = None then UndefinedBehaviour else SSLError)" for ty p
  proof -
    obtain r key where k: "kg_keygen K ty p = (r, key)" by (rule prod.exhaust)
    then show ?thesis
      using assms [of ty p r] by (cases key) (auto simp: ssl_call_def check_def raw_keys_def raw_key_none)
  qed
  show ?thesis
    unfolding generate_rsa_key_def generate_ecdsa_key_def key by (auto simp: ssl_call_def check_def)
qed

definition documented_keygen :: "nat keygen_api" where
  "documented_keygen = \<lparr>kg_ctx_new = (\<lambda>ty. True), kg_init = (\<lambda>ty. 1), kg_set_rsa_bits = (\<lambda>bits. 1), kg_set_ec_curve = (\<lambda>nid. 1),
     kg_keygen = (\<lambda>ty p. if p < 512 \<and> ty = EVP_PKEY_RSA then (-1, None) else (1, Some 7)),
     kg_raw_public = (\<lambda>k. None), kg_raw_private = (\<lambda>k. None)\<rparr>"

theorem keys_never_generated_witness:
  "generate_rsa_key documented_keygen 2048 = Inl SSLError \<and> generate_rsa_key documented_keygen 8 = Inl UndefinedBehaviour
   \<and> generate_ecdsa_key documented_keygen 714 = Inl SSLError"
proof -
  have raw: "kg_keygen documented_keygen ty p = (r, Some k) \<Longrightarrow> kg_raw_public documented_keygen k = None" for ty p r k
    by (simp add: documented_keygen_def)
  have "generate_rsa_key documented_keygen 2048 = Inl SSLError" "generate_ecdsa_key documented_keygen 714 = Inl SSLError"
    using keys_never_generated [where K = documented_keygen and bits = 2048 and curve_nid = 714, OF raw]
    by (simp_all add: documented_keygen_def)
  moreover have "generate_rsa_key documented_keygen 8 = Inl UndefinedBehaviour"
    using keys_never_generated [where K = documented_keygen and bits = 8 and curve_nid = 714, OF raw]
    by (simp add: documented_keygen_def)
  ultimately show ?thesis by simp
qed

subsection \<open>Certificates\<close>

text \<open>The file system, the memory buffer of OpenSSL, its PEM reader and its DER writer.\<close>

record 'x cert_api =
  ca_file :: "string \<Rightarrow> string option"
  ca_mem_buf :: "string \<Rightarrow> bool"
  ca_read_pem :: "string \<Rightarrow> 'x option"
  ca_i2d_X509 :: "'x \<Rightarrow> string option"

definition x509_to_string :: "'x cert_api \<Rightarrow> 'x option \<Rightarrow> string result" where
  "x509_to_string C cert =
     (case cert of
        None \<Rightarrow> Inr []
      | Some x \<Rightarrow>
          (case ca_i2d_X509 C x of
             None \<Rightarrow> Inl SSLError
           | Some d \<Rightarrow> if length d \<le> 0 then Inl SSLError else Inr d))"

definition read_entire_file_binary :: "'x cert_api \<Rightarrow> string \<Rightarrow> string result" where
  "read_entire_file_binary C path =
     (case ca_file C path of None \<Rightarrow> Inl (RuntimeError (''cannot open X509 file: '' @ path)) | Some s \<Rightarrow> Inr s)"

definition load_x509_der_from_pem_or_der_file ::
  "('x, 'k) openssl \<Rightarrow> 'x cert_api \<Rightarrow> string \<Rightarrow> string result" where
  "load_x509_der_from_pem_or_der_file S C path =
     bind_result (read_entire_file_binary C path) (\<lambda>contents.
     if contents = [] then Inl (RuntimeError (''empty X509 file: '' @ path))
     else if sublist ''-----BEGIN'' contents then
       bind_result (check (ca_mem_buf C contents) SSLError) (\<lambda>_.
       case ca_read_pem C contents of
         None \<Rightarrow> Inl (RuntimeError (''PEM_read_bio_X509 failed for: '' @ path))
       | Some cert \<Rightarrow> x509_to_string C (Some cert))
     else bind_result (string_to_x509 S contents) (\<lambda>_. Inr contents))"

text \<open>
  What is loaded is a certificate: with a library whose reader gives back what its writer wrote, the
  text that loading returns is never empty and reads as the certificate of the file, the first one for a
  PEM file; of a file without the mark of a PEM file it is the whole contents. (A DER file in which the mark happens
  to stand is read as PEM.)
\<close>

theorem loaded_certificate_parses:
  assumes "\<And>x d. ca_i2d_X509 C x = Some d \<Longrightarrow> d2i_X509 S d = Some x"
    and "load_x509_der_from_pem_or_der_file S C path = Inr der" and "ca_file C path = Some contents"
  shows "der \<noteq> [] \<and> (\<exists>x. string_to_x509 S der = Inr (Some x)
    \<and> (if sublist ''-----BEGIN'' contents then ca_read_pem C contents = Some x else der = contents))"
proof (cases "sublist ''-----BEGIN'' contents")
  case True
  then obtain x where x: "ca_read_pem C contents = Some x" "x509_to_string C (Some x) = Inr der"
    using assms(2,3) by (auto simp: load_x509_der_from_pem_or_der_file_def read_entire_file_binary_def check_def
        split: if_splits option.splits)
  then have "ca_i2d_X509 C x = Some der" "der \<noteq> []" by (auto simp: x509_to_string_def split: option.splits if_splits)
  then show ?thesis using assms(1) x True by (simp add: string_to_x509_def)
next
  case False
  then have "contents \<noteq> []" "der = contents" "\<exists>x. string_to_x509 S contents = Inr x"
    using assms(2,3) by (auto simp: load_x509_der_from_pem_or_der_file_def read_entire_file_binary_def bind_result_Inr_iff
        split: if_splits)
  then show ?thesis using False by (auto simp: string_to_x509_def split: option.splits)
qed

definition documented_files :: "string cert_api" where
  "documented_files = \<lparr>ca_file = [''a.pem'' \<mapsto> ''-----BEGIN pk''], ca_mem_buf = (\<lambda>s. True), ca_read_pem = (\<lambda>s. Some ''pk''),
     ca_i2d_X509 = (\<lambda>x. if x = ''bad'' then None else Some x)\<rparr>"

theorem loaded_certificate_parses_witness:
  "load_x509_der_from_pem_or_der_file toy_openssl documented_files ''a.pem'' = Inr ''pk''
   \<and> string_to_x509 toy_openssl ''pk'' = Inr (Some ''pk'')"
proof -
  have pre: "sublist ''-----BEGIN'' ''-----BEGIN pk''" by (simp add: sublist_code)
  have contents: "ca_file documented_files ''a.pem'' = Some ''-----BEGIN pk''" by (simp add: documented_files_def)
  have pem: "ca_read_pem documented_files ''-----BEGIN pk'' = Some ''pk''" by (simp add: documented_files_def)
  have run: "load_x509_der_from_pem_or_der_file toy_openssl documented_files ''a.pem'' = Inr ''pk''"
    unfolding load_x509_der_from_pem_or_der_file_def read_entire_file_binary_def contents
    using pre pem by (simp add: x509_to_string_def documented_files_def check_def del: sublist_code)
  have trip: "d2i_X509 toy_openssl d = Some x" if "ca_i2d_X509 documented_files x = Some d" for x d
    using that by (simp add: documented_files_def toy_openssl_def split: if_splits)
  have "\<exists>x. string_to_x509 toy_openssl ''pk'' = Inr (Some x) \<and> Some ''pk'' = Some x"
    using loaded_certificate_parses [OF trip run contents] unfolding if_P [OF pre] pem by blast
  with run show ?thesis by blast
qed

end
