(* ===== verification/Resolver_Factory.thy ===== *)
theory Resolver_Factory
  imports Node_Resolver
begin

text \<open>
  Making resolvers (\<open>common/grpc/resolver_factory.cc\<close>) from the stub that travels in the channel arguments
  (\<open>common/grpc/ref_counted_arg.h\<close>). Counted objects of gRPC are addresses in a heap of counters, 0 being
  the null pointer; a use of an address without a counter, and of the null pointer, is undefined.
\<close>

subsection \<open>Counted channel arguments\<close>

type_synonym rc_heap = "nat \<rightharpoonup> nat"

definition rc_ref :: "nat \<Rightarrow> rc_heap \<Rightarrow> rc_heap result" where
  "rc_ref p h = (case h p of None \<Rightarrow> Inl UndefinedBehaviour
     | Some c \<Rightarrow> if p = 0 then Inl UndefinedBehaviour else Inr (h(p \<mapsto> Suc c)))"

definition rc_unref :: "nat \<Rightarrow> rc_heap \<Rightarrow> rc_heap result" where
  "rc_unref p h = (case h p of None \<Rightarrow> Inl UndefinedBehaviour
     | Some c \<Rightarrow> if p = 0 \<or> c = 0 then Inl UndefinedBehaviour
         else if c = 1 then Inr (h(p := None)) else Inr (h(p \<mapsto> c - 1)))"

datatype arg_value = Arg_string string | Arg_integer int | Arg_pointer nat

record grpc_arg =
  arg_key :: string
  arg_value :: arg_value

definition arg_Copy :: "nat \<Rightarrow> rc_heap \<Rightarrow> (nat \<times> rc_heap) result" where
  "arg_Copy p h = (if p = 0 then Inr (0, h) else bind_result (rc_ref p h) (\<lambda>h. Inr (p, h)))"

definition arg_Destroy :: "nat \<Rightarrow> rc_heap \<Rightarrow> rc_heap result" where
  "arg_Destroy p h = (if p = 0 then Inr h else rc_unref p h)"

definition arg_Cmp :: "nat \<Rightarrow> nat \<Rightarrow> int" where
  "arg_Cmp a b = (if a < b then - 1 else of_bool (a > b))"

definition makeRefCountedArg :: "string \<Rightarrow> nat \<Rightarrow> grpc_arg" where
  "makeRefCountedArg key p = \<lparr>arg_key = key, arg_value = Arg_pointer p\<rparr>"

text \<open>The result 0 is the null pointer of \<open>RefCountedPtr\<close>; the argument that is found is not compared with null.\<close>

fun getRefCountedArg_loop :: "string \<Rightarrow> grpc_arg list \<Rightarrow> rc_heap \<Rightarrow> (nat \<times> rc_heap) result" where
  "getRefCountedArg_loop k [] h = Inr (0, h)"
| "getRefCountedArg_loop k (arg # args) h =
     (case arg_value arg of
        Arg_pointer p \<Rightarrow>
          if k = arg_key arg then bind_result (rc_ref p h) (\<lambda>h. Inr (p, h)) else getRefCountedArg_loop k args h
      | _ \<Rightarrow> getRefCountedArg_loop k args h)"

definition getRefCountedArg :: "string \<Rightarrow> grpc_arg list option \<Rightarrow> rc_heap \<Rightarrow> (nat \<times> rc_heap) result" where
  "getRefCountedArg k args h = (case args of None \<Rightarrow> Inr (0, h) | Some as \<Rightarrow> getRefCountedArg_loop k as h)"

definition names_pointer :: "string \<Rightarrow> grpc_arg \<Rightarrow> bool" where
  "names_pointer k arg = (arg_key arg = k \<and> (case arg_value arg of Arg_pointer p \<Rightarrow> True | _ \<Rightarrow> False))"

lemma get_skips:
  "list_all (\<lambda>arg. \<not> names_pointer k arg) pre \<Longrightarrow>
   getRefCountedArg_loop k (pre @ args) h = getRefCountedArg_loop k args h"
  by (induction pre) (auto simp: names_pointer_def split: arg_value.splits)

lemma ref_then_unref: "p \<noteq> 0 \<Longrightarrow> h p = Some (Suc c) \<Longrightarrow> rc_ref p h = Inr (h(p \<mapsto> Suc (Suc c))) \<and> rc_unref p (h(p \<mapsto> Suc (Suc c))) = Inr h"
  by (auto simp: rc_ref_def rc_unref_def)

text \<open>
  An argument that was made from an object is found behind arguments with other keys and behind values
  of other types with its own key, before whatever follows; it gives back the object with one more
  reference, and giving that back, like the copy that gRPC makes and destroys, restores every counter.
\<close>

theorem counted_argument_roundtrip:
  assumes "p \<noteq> 0" and "h p = Some (Suc c)" and "list_all (\<lambda>arg. \<not> names_pointer k arg) pre"
  shows "getRefCountedArg k (Some (pre @ makeRefCountedArg k p # post)) h = Inr (p, h(p \<mapsto> Suc (Suc c)))
    \<and> bind_result (getRefCountedArg k (Some (pre @ makeRefCountedArg k p # post)) h) (\<lambda>(q, h'). rc_unref q h') = Inr h
    \<and> bind_result (arg_Copy p h) (\<lambda>(q, h'). arg_Destroy q h') = Inr h"
  using ref_then_unref [OF assms(1), of h c] assms(1,2)
  by (simp add: getRefCountedArg_def get_skips [OF assms(3)] makeRefCountedArg_def arg_Copy_def arg_Destroy_def)

theorem counted_argument_roundtrip_witness:
  "getRefCountedArg ''s'' (Some ([\<lparr>arg_key = ''s'', arg_value = Arg_integer 4\<rparr>] @ makeRefCountedArg ''s'' 5 # [makeRefCountedArg ''s'' 6])) [5 \<mapsto> 1]
   = Inr (5, [5 \<mapsto> 2])"
  using counted_argument_roundtrip [of 5 "[5 \<mapsto> 1]" 0 "''s''" "[\<lparr>arg_key = ''s'', arg_value = Arg_integer 4\<rparr>]" "[makeRefCountedArg ''s'' 6]"]
  by (simp add: names_pointer_def numeral_2_eq_2)

subsection \<open>The factory\<close>

definition factory_scheme :: string where "factory_scheme = ''node''"

definition IsValidUri :: "string \<Rightarrow> bool" where "IsValidUri uri_scheme = (uri_scheme = factory_scheme)"

definition GetDefaultAuthority :: string where "GetDefaultAuthority = ''node-p2p''"

definition kMessageStubArgKey :: string where "kMessageStubArgKey = ''grpc.custom.message_stub''"

text \<open>The factory owns a trust store of its own, which starts empty and which nothing else can reach.\<close>

record 'k resolver_factory =
  rf_auth_store :: "'k auth_store"

definition resolver_factory_new :: "'k resolver_factory" where
  "resolver_factory_new = \<lparr>rf_auth_store = auth_store_new\<rparr>"

definition strip_slash :: "string \<Rightarrow> string" where
  "strip_slash path = (case path of c # rest \<Rightarrow> if c = CHR ''/'' then rest else path | [] \<Rightarrow> path)"

text \<open>What is made: the resolver, the stub and the store that it shares with the factory.\<close>

record 'k made_resolver =
  mr_resolver :: node_resolver
  mr_stub :: nat
  mr_store :: "'k auth_store"

definition CreateResolver ::
  "'k resolver_factory \<Rightarrow> string \<Rightarrow> grpc_arg list option \<Rightarrow> net_os \<Rightarrow> rc_heap \<Rightarrow> ('k made_resolver option \<times> rc_heap) result" where
  "CreateResolver F uri_path args os h =
     (let node_id = strip_slash uri_path in
      bind_result (getRefCountedArg kMessageStubArgKey args h) (\<lambda>(stub, h).
      if stub = 0 then Inr (None, h)
      else Inr (Some \<lparr>mr_resolver = node_resolver_new node_id os, mr_stub = stub, mr_store = rf_auth_store F\<rparr>, h)))"

lemma get_from_heap:
  "getRefCountedArg_loop k args h = Inr (p, h') \<Longrightarrow>
   (p = 0 \<and> h' = h \<and> list_all (\<lambda>arg. \<not> names_pointer k arg) args)
   \<or> (p \<noteq> 0 \<and> \<lparr>arg_key = k, arg_value = Arg_pointer p\<rparr> \<in> set args \<and> (\<exists>c. h p = Some c \<and> h' = h(p \<mapsto> Suc c)))"
proof (induction args)
  case (Cons arg args)
  show ?case
  proof (cases "names_pointer k arg")
    case True
    then obtain q where q: "arg = \<lparr>arg_key = k, arg_value = Arg_pointer q\<rparr>"
      by (cases arg) (auto simp: names_pointer_def split: arg_value.splits)
    then show ?thesis
      using Cons.prems by (auto simp: rc_ref_def split: option.splits if_splits)
  next
    case False
    then have "getRefCountedArg_loop k args h = Inr (p, h')"
      using Cons.prems by (auto simp: names_pointer_def split: arg_value.splits)
    then show ?thesis using Cons.IH False by auto
  qed
qed simp

text \<open>
  What the factory makes: nothing exactly when no pointer is passed under the key, and otherwise a
  resolver for the path without one leading slash, which holds one new reference to the object that was
  passed; no other counter changes.
\<close>

theorem create_resolver_functional:
  assumes "CreateResolver F path args os h = Inr (made, h')"
  shows "case made of
      None \<Rightarrow> h' = h \<and> (\<forall>as. args = Some as \<longrightarrow> list_all (\<lambda>arg. \<not> names_pointer kMessageStubArgKey arg) as)
    | Some r \<Rightarrow> (\<exists>as c. args = Some as \<and> makeRefCountedArg kMessageStubArgKey (mr_stub r) \<in> set as
          \<and> mr_stub r \<noteq> 0 \<and> h (mr_stub r) = Some c \<and> h' = h(mr_stub r \<mapsto> Suc c))
        \<and> mr_resolver r = node_resolver_new (if take 1 path = ''/'' then drop 1 path else path) os"
proof -
  obtain p h1 where get: "getRefCountedArg kMessageStubArgKey args h = Inr (p, h1)"
    and made: "made = (if p = 0 then None else Some \<lparr>mr_resolver = node_resolver_new (strip_slash path) os, mr_stub = p, mr_store = rf_auth_store F\<rparr>)"
    and h1: "h' = h1"
    using assms by (auto simp: CreateResolver_def bind_result_Inr_iff split: if_splits)
  have path: "strip_slash path = (if take 1 path = ''/'' then drop 1 path else path)"
    by (cases path) (simp_all add: strip_slash_def)
  show ?thesis
  proof (cases args)
    case None
    then show ?thesis using get made h1 by (simp add: getRefCountedArg_def)
  next
    case (Some as)
    with get have "getRefCountedArg_loop kMessageStubArgKey as h = Inr (p, h1)" by (simp add: getRefCountedArg_def)
    from get_from_heap [OF this] show ?thesis using made h1 path Some by (auto simp: makeRefCountedArg_def)
  qed
qed

theorem create_resolver_functional_witness:
  "\<exists>r. CreateResolver resolver_factory_new ''/k1'' (Some [makeRefCountedArg kMessageStubArgKey 5]) (os_with [3]) [5 \<mapsto> 1] = Inr (Some (r :: string made_resolver), [5 \<mapsto> 2])
     \<and> mr_resolver r = node_resolver_new ''k1'' (os_with [3])"
proof -
  obtain r :: "string made_resolver"
    where r: "CreateResolver resolver_factory_new ''/k1'' (Some [makeRefCountedArg kMessageStubArgKey 5]) (os_with [3]) [5 \<mapsto> 1] = Inr (Some r, [5 \<mapsto> 2])"
    by (simp add: CreateResolver_def getRefCountedArg_def makeRefCountedArg_def rc_ref_def numeral_2_eq_2)
  have "mr_resolver r = node_resolver_new ''k1'' (os_with [3])" using create_resolver_functional [OF r] by simp
  with r show ?thesis by blast
qed

text \<open>
  C37. A channel of the scheme never gets an address: whatever OpenSSL and the system calls do, in whatever
  order the methods run, and also going on after an exception, a resolver made by the factory has no request
  outstanding and has reported neither an address nor an error, because the store of the factory has no key to
  sign a request with. As every beginning of a run is a run, this holds at every point of it.
\<close>

theorem factory_resolver_never_reports:
  assumes "CreateResolver resolver_factory_new path args os h = Inr (Some r, h')"
    and "resolver_run S P (mr_store r) E evs (mr_resolver r) = (es, n)"
  shows "nr_rpcs n = [] \<and> nr_reports n = []"
proof -
  have store: "mr_store r = auth_store_new" and new: "nr_rpcs (mr_resolver r) = []" "nr_reports (mr_resolver r) = []"
    using assms(1) by (auto simp: CreateResolver_def bind_result_Inr_iff resolver_factory_new_def node_resolver_new_def
        split: if_splits)
  have "\<exists>e. sign_message S P (mr_store r) d i False = Inl e" for d i
    by (simp add: store sign_message_def auth_store_new_def Let_def)
  from silent_run [OF this assms(2) new] show ?thesis .
qed

theorem factory_resolver_never_reports_witness:
  "\<exists>r e n. CreateResolver resolver_factory_new ''/k1'' (Some [makeRefCountedArg kMessageStubArgKey 5]) (os_with [3]) [5 \<mapsto> 1] = Inr (Some r, [5 \<mapsto> 2])
     \<and> resolver_run toy_openssl toy_protobuf (mr_store (r :: string made_resolver)) calm_env
         [Ev_start, Ev_done 0 True, Ev_reresolve, Ev_shutdown] (mr_resolver r) = ([e], n)
     \<and> held n = [0] \<and> nr_reports n = []"
proof -
  obtain r :: "string made_resolver"
    where r: "CreateResolver resolver_factory_new ''/k1'' (Some [makeRefCountedArg kMessageStubArgKey 5]) (os_with [3]) [5 \<mapsto> 1] = Inr (Some r, [5 \<mapsto> 2])"
    and n: "mr_resolver r = node_resolver_new ''k1'' (os_with [3])"
    by (simp add: CreateResolver_def getRefCountedArg_def makeRefCountedArg_def rc_ref_def numeral_2_eq_2 strip_slash_def)
  from r have "mr_store r = auth_store_new"
    by (auto simp: CreateResolver_def bind_result_Inr_iff resolver_factory_new_def split: if_splits)
  then have "\<exists>e. sign_message toy_openssl toy_protobuf (mr_store r) d i False = Inl e" for d i
    by (simp add: sign_message_def auth_store_new_def Let_def)
  from throwing_start [OF this, of "''k1''"] obtain e m where
    run: "resolver_run toy_openssl toy_protobuf (mr_store r) calm_env [Ev_start, Ev_done 0 True, Ev_reresolve, Ev_shutdown] (mr_resolver r) = ([e], m)"
    and h: "held m = [0]" unfolding n by blast
  from factory_resolver_never_reports [OF r run] r run h show ?thesis by blast
qed

end
