(* ===== verification/Stats.thy ===== *)
theory Stats
  imports Prelude Complex_Main
begin

text \<open>
  Exponential averages and accumulators (\<open>common/utils/stats.h\<close>), the templates at the real numbers: what
  the formulas mean when nothing is rounded. The lock is not modelled.
\<close>

record exp_stat =
  es_value :: real
  es_timestamp :: real
  es_a :: real

definition exp_stat_new :: "real \<Rightarrow> real \<Rightarrow> exp_stat" where
  "exp_stat_new timestamp a = \<lparr>es_value = 0, es_timestamp = timestamp, es_a = a\<rparr>"

definition decay :: "exp_stat \<Rightarrow> real \<Rightarrow> real" where
  "decay s now = exp (- (now - es_timestamp s) * es_a s)"

definition avg_get :: "exp_stat \<Rightarrow> real" where "avg_get s = es_value s"

definition avg_update :: "exp_stat \<Rightarrow> real \<times> real \<Rightarrow> exp_stat" where
  "avg_update s = (\<lambda>(now, val).
     let k = decay s now in s\<lparr>es_value := es_value s * k + val * (1 - k), es_timestamp := now\<rparr>)"

definition accum_get :: "exp_stat \<Rightarrow> real \<Rightarrow> real" where
  "accum_get s now = es_value s * decay s now"

definition accum_update :: "exp_stat \<Rightarrow> real \<times> real \<Rightarrow> exp_stat" where
  "accum_update s = (\<lambda>(now, val).
     let k = decay s now in s\<lparr>es_value := es_value s * k + val, es_timestamp := now\<rparr>)"

definition avg_run :: "real \<Rightarrow> real \<Rightarrow> (real \<times> real) list \<Rightarrow> exp_stat" where
  "avg_run t0 a us = foldl avg_update (exp_stat_new t0 a) us"

definition accum_run :: "real \<Rightarrow> real \<Rightarrow> (real \<times> real) list \<Rightarrow> exp_stat" where
  "accum_run t0 a us = foldl accum_update (exp_stat_new t0 a) us"

subsection \<open>The accumulator\<close>

lemma decay_parameter [simp]:
  "es_a (accum_update s u) = es_a s" "es_a (avg_update s u) = es_a s"
  by (simp_all add: accum_update_def avg_update_def Let_def split: prod.splits)

lemma decay_compose: "exp (- (t - s) * a) * exp (- (now - t) * a) = exp (- (now - s) * (a :: real))"
  by (simp add: exp_add [symmetric] algebra_simps)

lemma accum_from:
  "accum_get (foldl accum_update s us) now
   = accum_get s now + (\<Sum>(t, v) \<leftarrow> us. v * exp (- (now - t) * es_a s))"
proof (induction us arbitrary: s)
  case (Cons u us)
  obtain t v where u: "u = (t, v)" by (rule prod.exhaust)
  have "accum_get (accum_update s (t, v)) now
      = es_value s * (exp (- (t - es_timestamp s) * es_a s) * exp (- (now - t) * es_a s)) + v * exp (- (now - t) * es_a s)"
    by (simp add: accum_get_def accum_update_def decay_def Let_def algebra_simps)
  then have "accum_get (accum_update s (t, v)) now = accum_get s now + v * exp (- (now - t) * es_a s)"
    unfolding decay_compose by (simp add: accum_get_def decay_def)
  then show ?case using Cons.IH [of "accum_update s u"] by (simp add: u)
qed (simp add: accum_get_def)

text \<open>
  The accumulator is the sum of everything that was put in, each value faded by its own age, in
  whatever order the times come; in particular the order of the updates does not matter.
\<close>

theorem accumulator_is_faded_sum:
  "accum_get (accum_run t0 a us) now = (\<Sum>(t, v) \<leftarrow> us. v * exp (- (now - t) * a))"
  using accum_from [of "exp_stat_new t0 a" us now]
  by (simp add: accum_run_def accum_get_def exp_stat_new_def)

subsection \<open>The average\<close>

text \<open>The times of the updates, none before the one before it.\<close>

fun times_from :: "real \<Rightarrow> (real \<times> real) list \<Rightarrow> bool" where
  "times_from t [] = True"
| "times_from t ((now, val) # us) = (t \<le> now \<and> times_from now us)"

lemma avg_stays_within:
  assumes "0 \<le> es_a s" and "times_from (es_timestamp s) us" and "lo \<le> es_value s" "es_value s \<le> hi"
    and "\<forall>(t, v) \<in> set us. lo \<le> v \<and> v \<le> hi"
  shows "lo \<le> es_value (foldl avg_update s us) \<and> es_value (foldl avg_update s us) \<le> hi"
  using assms
proof (induction us arbitrary: s)
  case (Cons u us)
  obtain t v where u: "u = (t, v)" by (rule prod.exhaust)
  let ?k = "decay s t"
  have k: "0 \<le> ?k" "?k \<le> 1" using Cons.prems u by (auto simp: decay_def intro: mult_nonpos_nonneg)
  have new: "es_value (avg_update s u) = es_value s * ?k + v * (1 - ?k)" "es_timestamp (avg_update s u) = t"
    by (simp_all add: avg_update_def u Let_def)
  have "lo * ?k + lo * (1 - ?k) \<le> es_value s * ?k + v * (1 - ?k)"
    using Cons.prems u k by (intro add_mono mult_right_mono) auto
  moreover have "es_value s * ?k + v * (1 - ?k) \<le> hi * ?k + hi * (1 - ?k)"
    using Cons.prems u k by (intro add_mono mult_right_mono) auto
  ultimately have "lo \<le> es_value (avg_update s u)" "es_value (avg_update s u) \<le> hi"
    unfolding new by (simp_all add: algebra_simps)
  then show ?case using Cons.IH [of "avg_update s u"] Cons.prems u new by simp
qed simp

text \<open>
  With a rate that is not negative and a clock that does not go back the average stays between the
  least and the greatest of zero, where it starts, and the values put in.
\<close>

theorem average_stays_within:
  assumes "0 \<le> a" and "times_from t0 us" and "lo \<le> 0" "0 \<le> hi" and "\<forall>(t, v) \<in> set us. lo \<le> v \<and> v \<le> hi"
  shows "lo \<le> avg_get (avg_run t0 a us) \<and> avg_get (avg_run t0 a us) \<le> hi"
  using avg_stays_within [of "exp_stat_new t0 a" us lo hi] assms
  by (simp add: avg_get_def avg_run_def exp_stat_new_def)

theorem average_stays_within_witness:
  "0 \<le> avg_get (avg_run 0 2 [(1, 3), (1, 5), (4, 2)]) \<and> avg_get (avg_run 0 2 [(1, 3), (1, 5), (4, 2)]) \<le> 5"
  by (rule average_stays_within) simp_all

lemma avg_constant:
  "\<forall>(t, v) \<in> set us. v = c \<Longrightarrow>
   es_value (foldl avg_update s us) - c = (es_value s - c) * exp (- (es_timestamp (foldl avg_update s us) - es_timestamp s) * es_a s)"
proof (induction us arbitrary: s)
  case (Cons u us)
  obtain t where u: "u = (t, c)" using Cons.prems by (cases u) auto
  have new: "es_timestamp (avg_update s u) = t" "es_value (avg_update s u) - c = (es_value s - c) * exp (- (t - es_timestamp s) * es_a s)"
    by (simp_all add: avg_update_def u Let_def decay_def algebra_simps)
  have "es_value (foldl avg_update s (u # us)) - c
      = (es_value (avg_update s u) - c) * exp (- (es_timestamp (foldl avg_update s (u # us)) - t) * es_a s)"
    using Cons.IH [of "avg_update s u"] Cons.prems by (simp add: new(1))
  then show ?case unfolding new(2) by (simp only: mult.assoc decay_compose)
qed simp

text \<open>
  Fed with one value, the average approaches it from zero by the time that has passed and by nothing
  else: how many updates there were, and when, does not show.
\<close>

theorem average_of_constant:
  assumes "\<forall>(t, v) \<in> set us. v = c" and "us \<noteq> []"
  shows "avg_get (avg_run t0 a us) = c * (1 - exp (- (fst (last us) - t0) * a))"
proof -
  have "es_timestamp (foldl avg_update s us) = fst (last us)" for s
    using assms(2) by (induction us rule: rev_induct) (simp_all add: avg_update_def Let_def split: prod.splits)
  then show ?thesis
    using avg_constant [OF assms(1), of "exp_stat_new t0 a"]
    by (simp add: avg_get_def avg_run_def exp_stat_new_def algebra_simps)
qed

theorem average_of_constant_witness:
  "avg_get (avg_run 0 1 [(1, 3), (5, 3)]) = 3 * (1 - exp (- 5))"
  using average_of_constant [of "[(1, 3), (5, 3)]" 3 0 1] by simp

end
