(* ===== verification/Servers.thy ===== *)
theory Servers
  imports Obj_Store Message_Service Message_Stream Peer_Addr
begin

text \<open>
  The two servers as their \<open>main\<close> builds them: the message node (\<open>minion/message/message.cc\<close>) and the object
  store (\<open>minion/obj_store/obj_store.cc\<close>). Here the handlers, the trust store, the router, the sockets and the
  completion queue meet. Each handler type keeps its own outstanding operations; the one queue of the
  server completes them in any order.
\<close>

subsection \<open>Streams over an empty trust store\<close>

text \<open>
  What a stream of the message node is at between completions, when the store knows nobody: one operation
  is outstanding, the one its \<open>pending_\<close> says, and nothing is queued or registered.
\<close>

definition quiet_slot :: "ms_handler \<Rightarrow> signed_message cq_op list \<Rightarrow> bool" where
  "quiet_slot s ops \<longleftrightarrow>
     ms_self_ref s \<and> ms_outbound s = [] \<and> \<not> ms_write_pending s \<and> ms_registered_peer_id s = []
   \<and> (\<exists>op. ops = [op] \<and>
        (sb_phase s = KAccepted \<and> op = OpRequest
         \<or> sb_phase s = KStreaming \<and> ms_pending s = KRead \<and> op = OpRead
         \<or> sb_phase s = KStreaming \<and> ms_pending s = KFinish \<and> (\<exists>st. op = OpFinish st)))"

definition ms_quiet :: "'k ms_world \<Rightarrow> bool" where
  "ms_quiet w \<longleftrightarrow>
     sw_auth w = Some auth_store_new \<and> sw_router w = Some \<lparr>sr_by_peer = Map.empty, sr_auth = Some auth_store_new\<rparr>
   \<and> sw_error w = None \<and> \<not> cq_dangling w \<and> cq_deferred w = []
   \<and> (\<forall>h. case cq_handlers w h of
          None \<Rightarrow> ops_of h (cq_outstanding w) = []
        | Some s \<Rightarrow> h < cq_next_id w \<and> quiet_slot s (ops_of h (cq_outstanding w)))
   \<and> (\<forall>p \<in> set (cq_issued w). \<forall>m. snd p \<noteq> OpWrite m)"

lemma ms_quietD:
  assumes "ms_quiet w"
  shows "sw_auth w = Some auth_store_new" "sw_error w = None" "\<not> cq_dangling w" "cq_deferred w = []"
    "sw_router w = Some \<lparr>sr_by_peer = Map.empty, sr_auth = Some auth_store_new\<rparr>"
    "cq_handlers w h = None \<Longrightarrow> ops_of h (cq_outstanding w) = []"
    "cq_handlers w h = Some s \<Longrightarrow> h < cq_next_id w \<and> quiet_slot s (ops_of h (cq_outstanding w))"
    "(h, OpWrite m) \<notin> set (cq_issued w)"
  using assms unfolding ms_quiet_def by (auto dest!: spec [of _ h])

text \<open>The world after a step of one handler: the handler replaced or freed, and what it issued.\<close>

definition ms_moved :: "nat \<Rightarrow> nat \<Rightarrow> ms_handler option \<Rightarrow> signed_message cq_op list \<Rightarrow> 'k ms_world \<Rightarrow> 'k ms_world" where
  "ms_moved i h s ops w = w\<lparr>cq_handlers := (cq_handlers w)(h := s),
     cq_outstanding := remove_nth i (cq_outstanding w) @ map (Pair h) ops, cq_issued := cq_issued w @ map (Pair h) ops\<rparr>"

lemma ops_of_own: "ops_of h (map (Pair h) ops) = ops" "h' \<noteq> h \<Longrightarrow> ops_of h' (map (Pair h) ops) = []"
  by (induction ops) simp_all

lemma ms_quiet_moved:
  assumes w: "ms_quiet w" and i: "i < length (cq_outstanding w)" and out: "cq_outstanding w ! i = (h, op)"
    and s: "\<And>s. s0 = Some s \<Longrightarrow> quiet_slot s ops" "s0 = None \<Longrightarrow> ops = []"
    and ops: "\<And>m. OpWrite m \<notin> set ops"
  shows "ms_quiet (ms_moved i h s0 ops w)"
proof -
  obtain s where h: "cq_handlers w h = Some s"
    using ms_quietD(6) [OF w, of h] nth_mem [OF i] out by (cases "cq_handlers w h") (auto simp: ops_of_Nil_iff)
  then have "h < cq_next_id w" "\<exists>op. ops_of h (cq_outstanding w) = [op]"
    using ms_quietD(7) [OF w h] by (auto simp: quiet_slot_def)
  then have none: "ops_of h (remove_nth i (cq_outstanding w)) = []"
    using ops_of_remove_single(1) [OF i] out by auto
  have other: "ops_of h' (remove_nth i (cq_outstanding w)) = ops_of h' (cq_outstanding w)" if "h' \<noteq> h" for h'
    using ops_of_remove_other [OF i] out that by simp
  show ?thesis
    using w s ops none other \<open>h < cq_next_id w\<close> ms_quietD(6,8) [OF w]
    unfolding ms_quiet_def ms_moved_def
    by (auto simp: ops_of_own split: option.splits)
qed

lemma empty_store_unknown: "authenticate_signed_message_data S P (Some auth_store_new) m = Inr UnknownSender"
  by (simp add: authenticate_signed_message_data_def has_peer_def auth_store_new_def)


lemma ms_collect_quiet: "ms_quiet w \<Longrightarrow> ms_collect w = w"
proof -
  assume w: "ms_quiet w"
  have "(case cq_handlers w h of None \<Rightarrow> None | Some s \<Rightarrow>
      if ms_self_ref s \<or> (\<exists>r. sw_router w = Some r \<and> h \<in> ran (sr_by_peer r)) then Some s else None) = cq_handlers w h" for h
    using ms_quietD(7) [OF w, of h] by (auto simp: quiet_slot_def split: option.splits)
  then show ?thesis by (simp add: ms_collect_def)
qed

lemma ms_quiet_new_acceptor:
  assumes w: "ms_quiet w"
  shows "ms_quiet (issue (cq_next_id w) OpRequest (alloc_handler ((ms_clone s)\<lparr>sb_phase := KAccepted\<rparr>) w))"
proof -
  have dead: "cq_handlers w (cq_next_id w) = None" using ms_quietD(7) [OF w, of "cq_next_id w"] by (cases "cq_handlers w (cq_next_id w)") auto
  have slot: "quiet_slot ((ms_clone s)\<lparr>sb_phase := KAccepted\<rparr>) [OpRequest]" by (simp add: quiet_slot_def ms_clone_def ms_handler_new_def)
  show ?thesis
    using w slot ms_quietD(6) [OF w dead] ms_quietD(6-8) [OF w]
    unfolding ms_quiet_def by (auto simp: less_SucI split: option.splits)
qed

lemma ms_step_accept:
  assumes w: "ms_quiet w" and i: "i < length (cq_outstanding w)" and out: "cq_outstanding w ! i = (h, OpRequest)"
    and s: "cq_handlers w h = Some s" and ph: "sb_phase s = KAccepted"
  shows "ms_step S P i (True, m) w =
    ms_collect (ms_moved i h (Some (s\<lparr>sb_phase := KStreaming, ms_session_active := True, ms_pending := KRead\<rparr>)) [OpRead]
      (issue (cq_next_id w) OpRequest (alloc_handler ((ms_clone s)\<lparr>sb_phase := KAccepted\<rparr>) w)))"
proof -
  have h: "h < cq_next_id w" using ms_quietD(7) [OF w s] by simp
  show ?thesis
    using i out s ph h ms_quietD(2,4) [OF w]
    by (simp add: ms_step_def stream_loop_step_def deliver_read_def Let_def stream_process.simps [of _ h]
        stream_process_bind ms_on_stream_rpc_connected_def ms_update_def)
      (simp add: ms_moved_def issue_def set_handler_def alloc_handler_def take_op_def remove_nth_def fun_upd_twist)
qed

lemma ms_collect_freed:
  assumes w: "ms_quiet w" and "\<not> ms_self_ref s'"
  shows "ms_collect (ms_moved i h (Some s') [] w) = ms_moved i h None [] w"
proof -
  have "ms_self_ref s" if "cq_handlers w ha = Some s" for ha s using ms_quietD(7) [OF w that] by (simp add: quiet_slot_def)
  then have "(\<lambda>ha. case ((cq_handlers w)(h \<mapsto> s')) ha of None \<Rightarrow> None
      | Some s \<Rightarrow> if ms_self_ref s \<or> (\<exists>r. sw_router w = Some r \<and> ha \<in> ran (sr_by_peer r)) then Some s else None)
    = (cq_handlers w)(h := None)"
    using assms(2) ms_quietD(5) [OF w] by (auto simp: fun_eq_iff split: option.split)
  then show ?thesis by (simp add: ms_collect_def ms_moved_def cong: option.case_cong)
qed

lemma ms_step_refused:
  assumes w: "ms_quiet w" and i: "i < length (cq_outstanding w)" and out: "cq_outstanding w ! i = (h, OpRequest)"
    and s: "cq_handlers w h = Some s" and ph: "sb_phase s = KAccepted"
  shows "ms_step S P i (False, m) w = ms_moved i h None [] w"
proof -
  have slot: "ms_registered_peer_id s = []" using ms_quietD(7) [OF w s] by (simp add: quiet_slot_def)
  have "ms_collect (ms_moved i h (Some (s\<lparr>ms_session_active := False, ms_self_ref := False\<rparr>)) [] w) = ms_moved i h None [] w"
    by (rule ms_collect_freed [OF w]) simp
  moreover have "ms_step S P i (False, m) w = ms_collect (ms_moved i h (Some (s\<lparr>ms_session_active := False, ms_self_ref := False\<rparr>)) [] w)"
    using i out s ph slot ms_quietD(2,4,5) [OF w]
    by (simp add: ms_step_def stream_loop_step_def deliver_read_def Let_def stream_process.simps [of _ h]
        ms_on_stream_connect_failed_def ms_update_def ms_unregister_if_registered_def)
      (cases w; simp add: ms_moved_def set_handler_def take_op_def remove_nth_def)
  ultimately show ?thesis by simp
qed

lemma ms_step_closed:
  assumes w: "ms_quiet w" and i: "i < length (cq_outstanding w)" and out: "cq_outstanding w ! i = (h, OpRead)"
    and s: "cq_handlers w h = Some s" and ph: "sb_phase s = KStreaming" "ms_pending s = KRead"
  shows "ms_step S P i (ok, m) w = ms_collect (ms_moved i h
    (Some ((if ok then s\<lparr>ms_request := m\<rparr> else s)\<lparr>ms_session_active := False, ms_closing_after_writes := False, ms_pending := KFinish\<rparr>))
    [OpFinish (if ok then ms_rejected else Status_OK)] w)"
proof -
  have slot: "ms_registered_peer_id s = []" "ms_outbound s = []" "\<not> ms_write_pending s"
    using ms_quietD(7) [OF w s] by (simp_all add: quiet_slot_def)
  show ?thesis
  proof (cases ok)
    case True
    then show ?thesis
      using ms_step_rejected [OF ms_quietD(2) [OF w] out s ph, of S P m UnknownSender] slot ms_quietD(1,4,5) [OF w] empty_store_unknown [of S P m]
      by (simp add: ms_closed_def ms_router_without_def)
        (cases w; cases s; simp add: ms_moved_def issue_def set_handler_def take_op_def grpc_run_deferred_handler_destroys_def)
  next
    case False
    then show ?thesis
      using i out s ph slot ms_quietD(2,4,5) [OF w]
      by (simp add: ms_step_streaming ms_on_completion_def ms_handle_read_completion_def ms_begin_shutdown_after_read_closed_def
          ms_update_def ms_unregister_if_registered_def ms_finish_def Let_def)
        (cases w; cases s; simp add: ms_moved_def issue_def set_handler_def take_op_def remove_nth_def grpc_run_deferred_handler_destroys_def)
  qed
qed

lemma ms_step_gone:
  assumes w: "ms_quiet w" and i: "i < length (cq_outstanding w)" and out: "cq_outstanding w ! i = (h, OpFinish st)"
    and s: "cq_handlers w h = Some s" and ph: "sb_phase s = KStreaming" "ms_pending s = KFinish"
  shows "ms_step S P i (ok, m) w = ms_moved i h None [] w"
proof -
  have slot: "ms_registered_peer_id s = []" using ms_quietD(7) [OF w s] by (simp add: quiet_slot_def)
  have "ms_collect (ms_moved i h (Some (s\<lparr>ms_session_active := False, ms_self_ref := False\<rparr>)) [] w) = ms_moved i h None [] w"
    by (rule ms_collect_freed [OF w]) simp
  moreover have "ms_step S P i (ok, m) w = ms_collect (ms_moved i h (Some (s\<lparr>ms_session_active := False, ms_self_ref := False\<rparr>)) [] w)"
    using i out s ph slot ms_quietD(2,4,5) [OF w]
    by (simp add: ms_step_streaming ms_on_completion_def ms_complete_eq ms_closed_def ms_router_without_def)
      (cases w; cases s; simp add: ms_moved_def set_handler_def take_op_def remove_nth_def grpc_run_deferred_handler_destroys_def)
  ultimately show ?thesis by simp
qed

lemma ms_quiet_step:
  assumes w: "ms_quiet w" and i: "i < length (cq_outstanding w)"
  shows "ms_quiet (ms_step S P i ev w)"
proof -
  obtain h op ok m where out: "cq_outstanding w ! i = (h, op)" and ev: "ev = (ok, m)" by (metis surj_pair)
  obtain s where s: "cq_handlers w h = Some s"
    using ms_quietD(6) [OF w, of h] nth_mem [OF i] out by (cases "cq_handlers w h") (auto simp: ops_of_Nil_iff)
  have slot: "quiet_slot s (ops_of h (cq_outstanding w))" using ms_quietD(7) [OF w s] by simp
  have "op \<in> set (ops_of h (cq_outstanding w))" using out nth_mem [OF i] by (simp add: set_ops_of)
  then consider "sb_phase s = KAccepted" "op = OpRequest" | "sb_phase s = KStreaming" "ms_pending s = KRead" "op = OpRead"
    | st where "sb_phase s = KStreaming" "ms_pending s = KFinish" "op = OpFinish st"
    using slot by (auto simp: quiet_slot_def)
  then show ?thesis
  proof cases
    case 1
    show ?thesis
    proof (cases ok)
      case True
      let ?w = "issue (cq_next_id w) OpRequest (alloc_handler ((ms_clone s)\<lparr>sb_phase := KAccepted\<rparr>) w)"
      have "ms_quiet (ms_moved i h (Some (s\<lparr>sb_phase := KStreaming, ms_session_active := True, ms_pending := KRead\<rparr>)) [OpRead] ?w)"
        by (rule ms_quiet_moved [OF ms_quiet_new_acceptor [OF w]])
          (use i out slot in \<open>simp_all add: nth_append quiet_slot_def\<close>)
      then show ?thesis using ms_step_accept [OF w i out [unfolded 1(2)] s 1(1), of S P m] True ev ms_collect_quiet by metis
    next
      case False
      have "ms_quiet (ms_moved i h None [] w)" by (rule ms_quiet_moved [OF w i out]) simp_all
      then show ?thesis using ms_step_refused [OF w i out [unfolded 1(2)] s 1(1), of S P m] False ev by simp
    qed
  next
    case 2
    have "ms_quiet (ms_moved i h
        (Some ((if ok then s\<lparr>ms_request := m\<rparr> else s)\<lparr>ms_session_active := False, ms_closing_after_writes := False, ms_pending := KFinish\<rparr>))
        [OpFinish (if ok then ms_rejected else Status_OK)] w)"
      by (rule ms_quiet_moved [OF w i out]) (use slot 2 in \<open>simp_all add: quiet_slot_def\<close>)
    then show ?thesis using ms_step_closed [OF w i out [unfolded 2(3)] s 2(1,2), of S P ok m] ev ms_collect_quiet by metis
  next
    case 3
    have "ms_quiet (ms_moved i h None [] w)" by (rule ms_quiet_moved [OF w i out]) simp_all
    then show ?thesis using ms_step_gone [OF w i out [unfolded 3(3)] s 3(1,2), of S P ok m] ev by simp
  qed
qed

text \<open>Over an empty store the streams keep the contract of the completion queue.\<close>

interpretation quiet_streams: cq_contract "ms_step S P" ms_quiet
proof
  fix w :: "'b ms_world" and i ev
  show "ms_quiet w \<Longrightarrow> i < length (cq_outstanding w) \<Longrightarrow> ms_quiet (ms_step S P i ev w)" by (rule ms_quiet_step)
next
  fix w :: "'b ms_world" and h op
  assume "ms_quiet w" and "(h, op) \<in> set (cq_outstanding w)"
  then show "cq_handlers w h \<noteq> None" using ms_quietD(6) [of w h] by (auto simp: ops_of_Nil_iff)
next
  fix w :: "'b ms_world" and h
  assume w: "ms_quiet w" and "cq_handlers w h \<noteq> None"
  then obtain s where "cq_handlers w h = Some s" by auto
  from ms_quietD(7) [OF w this] show "ops_of h (cq_outstanding w) \<noteq> []" by (auto simp: quiet_slot_def)
next
  fix w :: "'b ms_world"
  show "ms_quiet w \<Longrightarrow> \<not> cq_dangling w" by (rule ms_quietD(3))
qed

lemma ms_quiet_start:
  "ms_quiet (start_message_stream_acceptor S P (Some auth_store_new) (Some \<lparr>sr_by_peer = Map.empty, sr_auth = Some auth_store_new\<rparr>))"
  by (simp add: start_message_stream_acceptor_def stream_prime_def stream_process_bind ms_quiet_def quiet_slot_def
      ms_clone_def ms_handler_new_def)

subsection \<open>Unary handlers\<close>

text \<open>A completion of a unary handler, if there is one at the place.\<close>

definition unary_complete ::
  "('req, 'resp, 'env) unary_impl \<Rightarrow> 'req \<Rightarrow> 'resp \<Rightarrow> nat \<Rightarrow> bool \<Rightarrow> 'req \<Rightarrow> ('req, 'resp, 'env) unary_world \<Rightarrow> ('req, 'resp, 'env) unary_world" where
  "unary_complete impl q r i ok msg w =
     (if i < length (cq_outstanding w) then main_loop_step impl q r i ok msg w else w)"

lemma unary_inv_complete: "unary_inv e w \<Longrightarrow> unary_inv e (unary_complete impl q r i ok msg w)"
  by (simp add: unary_complete_def unary_inv_step)

lemma unary_inv_facts:
  assumes "unary_inv e w"
  shows "cq_env w = e" and "snd ` set (cq_issued w) \<subseteq> {OpRequest}" and "\<not> cq_dangling w"
  using assms unfolding unary_inv_def by blast+

text \<open>An exception that leaves \<open>handle_request\<close> leaves the loop of the server and ends the process.\<close>

definition send_impl ::
  "('x, 'k) openssl \<Rightarrow> protobuf \<Rightarrow> 'k auth_store option \<Rightarrow> net_env \<Rightarrow> bool
   \<Rightarrow> (signed_message, send_message_status, net_os \<times> listener_state \<times> exn option) unary_impl" where
  "send_impl S P store E handshake_ok = (\<lambda>(os, ls, err) req resp.
     case message_send_handle_request S P store E handshake_ok req (os, ls) of
       (Inl e, os', ls') \<Rightarrow> (resp, Status_OK, (os', ls', Some e))
     | (Inr st, os', ls') \<Rightarrow> (st, Status_OK, (os', ls', err)))"

definition write_impl :: "file_choices \<Rightarrow> (write_request, operation_result, files \<times> exn option) unary_impl" where
  "write_impl ch = (\<lambda>(fs, err) req resp. case write_handle_request ch req fs of (r, fs') \<Rightarrow> (r, Status_OK, (fs', err)))"

definition read_impl :: "int \<Rightarrow> file_choices \<Rightarrow> (read_request, content_result, files \<times> exn option) unary_impl" where
  "read_impl string_max ch = (\<lambda>(fs, err) req resp.
     case read_handle_request string_max ch req fs of
       Inl e \<Rightarrow> (resp, Status_OK, (fs, Some e)) | Inr r \<Rightarrow> (r, Status_OK, (fs, err)))"

definition delete_impl :: "file_choices \<Rightarrow> (string, operation_result, files \<times> exn option) unary_impl" where
  "delete_impl ch = (\<lambda>(fs, err) req resp. case delete_handle_request ch req fs of (r, fs') \<Rightarrow> (r, Status_OK, (fs', err)))"

definition hash_impl :: "('x, 'k) openssl \<Rightarrow> file_choices \<Rightarrow> (hash_request, content_result, files \<times> exn option) unary_impl" where
  "hash_impl S ch = (\<lambda>(fs, err) req resp.
     case hash_handle_request S ch req fs of
       Inl e \<Rightarrow> (resp, Status_OK, (fs, Some e)) | Inr r \<Rightarrow> (r, Status_OK, (fs, err)))"

subsection \<open>The message node\<close>

record 'k message_server =
  sv_send :: "(signed_message, send_message_status, net_os \<times> listener_state \<times> exn option) unary_world"
  sv_addr :: "(unit, ip_addr option, unit) unary_world"
  sv_stream :: "'k ms_world"

definition message_server_failed :: "'k message_server \<Rightarrow> bool" where
  "message_server_failed sv \<longleftrightarrow> snd (snd (cq_env (sv_send sv))) \<noteq> None \<or> sw_error (sv_stream sv) \<noteq> None"

text \<open>What the queue may deliver, with what the system decides: the place, \<open>ok\<close>, and the message or the caller.\<close>

datatype message_event =
    Send_completes nat bool signed_message bool
  | Addr_completes nat bool string
  | Stream_completes nat bool signed_message

text \<open>
  \<open>main\<close> up to the loop, with the outcome of \<open>SSL_CTX_new\<close>: one trust store, which stays as it was made, for
  both handlers and the router.
\<close>

definition message_main_start ::
  "('x, 'k) openssl \<Rightarrow> protobuf \<Rightarrow> net_env \<Rightarrow> (string \<Rightarrow> string option) \<Rightarrow> bool \<Rightarrow> net_os \<Rightarrow> 'k message_server option" where
  "message_main_start S P E pton6 ssl_ctx os =
     (if \<not> ssl_ctx then None
      else let auth_store = auth_store_new; stream_router = \<lparr>sr_by_peer = Map.empty, sr_auth = Some auth_store\<rparr> in
        Some \<lparr>sv_send = grpc_prime_async_handler (send_impl S P (Some auth_store) E True) empty_signed_message StatusOK
                 (empty_unary_world (os, no_listener, None)),
               sv_addr = grpc_prime_async_handler (tell_my_addr_impl pton6 []) () None (empty_unary_world ()),
               sv_stream = start_message_stream_acceptor S P (Some auth_store) (Some stream_router)\<rparr>)"

text \<open>One round of the loop.\<close>

definition message_main_step ::
  "('x, 'k) openssl \<Rightarrow> protobuf \<Rightarrow> net_env \<Rightarrow> (string \<Rightarrow> string option) \<Rightarrow> message_event \<Rightarrow> 'k message_server \<Rightarrow> 'k message_server" where
  "message_main_step S P E pton6 ev sv =
     (if message_server_failed sv then sv
      else case ev of
        Send_completes i ok msg hs \<Rightarrow>
          let w = unary_complete (send_impl S P (sw_auth (sv_stream sv)) E hs) empty_signed_message StatusOK i ok msg (sv_send sv) in
          if snd (snd (cq_env w)) \<noteq> None then sv\<lparr>sv_send := (sv_send sv)\<lparr>cq_env := cq_env w\<rparr>\<rparr> else sv\<lparr>sv_send := w\<rparr>
      | Addr_completes i ok peer \<Rightarrow>
          sv\<lparr>sv_addr := unary_complete (tell_my_addr_impl pton6 peer) () None i ok () (sv_addr sv)\<rparr>
      | Stream_completes i ok msg \<Rightarrow>
          if i < length (cq_outstanding (sv_stream sv)) then sv\<lparr>sv_stream := ms_step S P i (ok, msg) (sv_stream sv)\<rparr> else sv)"

definition message_main ::
  "('x, 'k) openssl \<Rightarrow> protobuf \<Rightarrow> net_env \<Rightarrow> (string \<Rightarrow> string option) \<Rightarrow> bool \<Rightarrow> net_os \<Rightarrow> message_event list \<Rightarrow> 'k message_server option" where
  "message_main S P E pton6 ssl_ctx os evs =
     map_option (fold (message_main_step S P E pton6) evs) (message_main_start S P E pton6 ssl_ctx os)"

definition message_server_inv :: "net_os \<Rightarrow> 'k message_server \<Rightarrow> bool" where
  "message_server_inv os sv \<longleftrightarrow>
     unary_inv (os, no_listener, None) (sv_send sv) \<and> unary_inv () (sv_addr sv) \<and> ms_quiet (sv_stream sv)"

lemma message_server_start: "message_main_start S P E pton6 True os = Some sv \<Longrightarrow> message_server_inv os sv"
  by (auto simp: message_main_start_def message_server_inv_def Let_def unary_inv_primed ms_quiet_start)

lemma message_server_step:
  assumes "message_server_inv os sv"
  shows "message_server_inv os (message_main_step S P E pton6 ev sv)"
proof (cases ev)
  case (Send_completes i ok msg hs)
  let ?w = "unary_complete (send_impl S P (sw_auth (sv_stream sv)) E hs) empty_signed_message StatusOK i ok msg (sv_send sv)"
  have w: "unary_inv (os, no_listener, None) ?w" by (rule unary_inv_complete) (use assms in \<open>simp add: message_server_inv_def\<close>)
  then have "cq_env ?w = (os, no_listener, None)" by (rule unary_inv_facts)
  then show ?thesis using assms w by (simp add: message_main_step_def Send_completes message_server_inv_def Let_def)
qed (use assms in \<open>simp_all add: message_main_step_def message_server_inv_def unary_inv_complete ms_quiet_step\<close>)

lemma message_server_run:
  "message_server_inv os sv \<Longrightarrow> message_server_inv os (fold (message_main_step S P E pton6) evs sv)"
  by (induction evs arbitrary: sv) (simp_all add: message_server_step)

text \<open>
  C7. The message node serves nobody: whatever its clients and the system do, and in whatever order the
  operations complete, no \<open>Send\<close> and no \<open>TellMyAddr\<close> is ever answered, no socket is opened, no stream is
  ever written to and no peer gets into the router. The streams themselves are sound: the node never
  fails, no completion meets a freed handler, and a stream is alive exactly as long as it waits for a
  completion.
\<close>

theorem message_node_serves_nobody:
  "case message_main S P E pton6 ssl_ctx os evs of
     None \<Rightarrow> \<not> ssl_ctx
   | Some sv \<Rightarrow> ssl_ctx \<and> \<not> message_server_failed sv
       \<and> cq_env (sv_send sv) = (os, no_listener, None)
       \<and> snd ` set (cq_issued (sv_send sv)) \<subseteq> {OpRequest} \<and> snd ` set (cq_issued (sv_addr sv)) \<subseteq> {OpRequest}
       \<and> snd ` set (cq_issued (sv_stream sv)) \<inter> range OpWrite = {}
       \<and> map_option sr_by_peer (sw_router (sv_stream sv)) = Some Map.empty
       \<and> \<not> cq_dangling (sv_stream sv)
       \<and> dom (cq_handlers (sv_stream sv)) = fst ` set (cq_outstanding (sv_stream sv))"
proof (cases ssl_ctx)
  case False
  then show ?thesis by (simp add: message_main_def message_main_start_def)
next
  case True
  then obtain sv0 where sv0: "message_main_start S P E pton6 ssl_ctx os = Some sv0" by (simp add: message_main_start_def)
  define sv where "sv = fold (message_main_step S P E pton6) evs sv0"
  have inv: "message_server_inv os sv"
    unfolding sv_def using sv0 True by (intro message_server_run message_server_start) simp_all
  then have q: "ms_quiet (sv_stream sv)" by (simp add: message_server_inv_def)
  have "dom (cq_handlers (sv_stream sv)) = fst ` set (cq_outstanding (sv_stream sv))"
    using quiet_streams.tag_alive [OF q] quiet_streams.emits_or_destroys [OF q]
    by (force simp: ops_of_Nil_iff)
  moreover have "snd ` set (cq_issued (sv_stream sv)) \<inter> range OpWrite = {}" using ms_quietD(8) [OF q] by force
  moreover have "message_main S P E pton6 ssl_ctx os evs = Some sv" by (simp add: message_main_def sv0 sv_def)
  ultimately show ?thesis
    using inv True unary_inv_facts(1,2) [of "(os, no_listener, None)" "sv_send sv"] unary_inv_facts(2) [of "()" "sv_addr sv"] ms_quietD(2,3,5) [OF q]
    by (simp add: message_server_inv_def message_server_failed_def)
qed

subsection \<open>The object store\<close>

text \<open>The files, with the exception that ended the process if one did, are shared by the four handlers.\<close>

record object_server =
  ob_files :: "files \<times> exn option"
  ob_write :: "(write_request, operation_result, files \<times> exn option) unary_world"
  ob_read :: "(read_request, content_result, files \<times> exn option) unary_world"
  ob_delete :: "(string, operation_result, files \<times> exn option) unary_world"
  ob_hash :: "(hash_request, content_result, files \<times> exn option) unary_world"

datatype object_event =
    Write_completes nat bool write_request
  | Read_completes nat bool read_request
  | Delete_completes nat bool string
  | Hash_completes nat bool hash_request

definition empty_content :: content_result where
  "empty_content = \<lparr>cr_result = OK, cr_content = []\<rparr>"

definition empty_write :: write_request where "empty_write = \<lparr>wr_id = [], wr_offset = 0, wr_data = []\<rparr>"
definition empty_read :: read_request where "empty_read = \<lparr>rd_id = [], rd_offset = 0, rd_data_len = 0\<rparr>"
definition empty_hash :: hash_request where "empty_hash = \<lparr>hq_id = [], hq_hash_type = SHA256, hq_offset = 0, hq_data_len = 0\<rparr>"

definition object_main_start :: "('x, 'k) openssl \<Rightarrow> int \<Rightarrow> files \<Rightarrow> object_server" where
  "object_main_start S string_max fs =
     \<lparr>ob_files = (fs, None),
      ob_write = grpc_prime_async_handler (write_impl all_ok) empty_write OK (empty_unary_world (fs, None)),
      ob_read = grpc_prime_async_handler (read_impl string_max all_ok) empty_read empty_content (empty_unary_world (fs, None)),
      ob_delete = grpc_prime_async_handler (delete_impl all_ok) [] OK (empty_unary_world (fs, None)),
      ob_hash = grpc_prime_async_handler (hash_impl S all_ok) empty_hash empty_content (empty_unary_world (fs, None))\<rparr>"

text \<open>
  One round of the loop: a handler sees the files as they are and leaves them to the others. The answer
  that the formulas would issue after an exception is dropped with the process.
\<close>

definition object_main_step :: "('x, 'k) openssl \<Rightarrow> int \<Rightarrow> object_event \<times> file_choices \<Rightarrow> object_server \<Rightarrow> object_server" where
  "object_main_step S string_max = (\<lambda>(ev, ch) sv.
     if snd (ob_files sv) \<noteq> None then sv
     else case ev of
       Write_completes i ok req \<Rightarrow>
         let w = unary_complete (write_impl ch) empty_write OK i ok req ((ob_write sv)\<lparr>cq_env := ob_files sv\<rparr>)
         in if snd (cq_env w) \<noteq> None then sv\<lparr>ob_files := cq_env w\<rparr> else sv\<lparr>ob_files := cq_env w, ob_write := w\<rparr>
     | Read_completes i ok req \<Rightarrow>
         let w = unary_complete (read_impl string_max ch) empty_read empty_content i ok req ((ob_read sv)\<lparr>cq_env := ob_files sv\<rparr>)
         in if snd (cq_env w) \<noteq> None then sv\<lparr>ob_files := cq_env w\<rparr> else sv\<lparr>ob_files := cq_env w, ob_read := w\<rparr>
     | Delete_completes i ok oid \<Rightarrow>
         let w = unary_complete (delete_impl ch) [] OK i ok oid ((ob_delete sv)\<lparr>cq_env := ob_files sv\<rparr>)
         in if snd (cq_env w) \<noteq> None then sv\<lparr>ob_files := cq_env w\<rparr> else sv\<lparr>ob_files := cq_env w, ob_delete := w\<rparr>
     | Hash_completes i ok req \<Rightarrow>
         let w = unary_complete (hash_impl S ch) empty_hash empty_content i ok req ((ob_hash sv)\<lparr>cq_env := ob_files sv\<rparr>)
         in if snd (cq_env w) \<noteq> None then sv\<lparr>ob_files := cq_env w\<rparr> else sv\<lparr>ob_files := cq_env w, ob_hash := w\<rparr>)"

definition object_main ::
  "('x, 'k) openssl \<Rightarrow> int \<Rightarrow> files \<Rightarrow> (object_event \<times> file_choices) list \<Rightarrow> object_server" where
  "object_main S string_max fs evs = fold (object_main_step S string_max) evs (object_main_start S string_max fs)"

definition object_server_inv :: "files \<Rightarrow> object_server \<Rightarrow> bool" where
  "object_server_inv fs sv \<longleftrightarrow> ob_files sv = (fs, None)
     \<and> unary_inv (fs, None) (ob_write sv) \<and> unary_inv (fs, None) (ob_read sv)
     \<and> unary_inv (fs, None) (ob_delete sv) \<and> unary_inv (fs, None) (ob_hash sv)"

lemma unary_same_env: "unary_inv e w \<Longrightarrow> w\<lparr>cq_env := e\<rparr> = w"
  by (cases w) (simp add: unary_inv_def)

lemma unary_env_complete: "unary_inv e w \<Longrightarrow> cq_env (unary_complete impl q r i ok msg w) = e"
  by (rule unary_inv_facts(1)) (rule unary_inv_complete)

lemma object_server_put:
  assumes "object_server_inv fs sv"
  shows "unary_inv (fs, None) w1 \<Longrightarrow> object_server_inv fs (sv\<lparr>ob_files := (fs, None), ob_write := w1\<rparr>)"
    and "unary_inv (fs, None) w2 \<Longrightarrow> object_server_inv fs (sv\<lparr>ob_files := (fs, None), ob_read := w2\<rparr>)"
    and "unary_inv (fs, None) w3 \<Longrightarrow> object_server_inv fs (sv\<lparr>ob_files := (fs, None), ob_delete := w3\<rparr>)"
    and "unary_inv (fs, None) w4 \<Longrightarrow> object_server_inv fs (sv\<lparr>ob_files := (fs, None), ob_hash := w4\<rparr>)"
  using assms unfolding object_server_inv_def
  by (cases sv; simp only: object_server.update_convs object_server.select_convs)+

lemma object_server_step:
  assumes inv: "object_server_inv fs sv"
  shows "object_server_inv fs (object_main_step S string_max (e, ch) sv)"
proof -
  have f: "ob_files sv = (fs, None)"
    and w: "unary_inv (fs, None) (ob_write sv)" "unary_inv (fs, None) (ob_read sv)"
      "unary_inv (fs, None) (ob_delete sv)" "unary_inv (fs, None) (ob_hash sv)"
    using inv by (simp_all only: object_server_inv_def)
  note here = w [THEN unary_same_env] w [THEN unary_env_complete] w [THEN unary_inv_complete]
  have run: "\<not> snd (ob_files sv) \<noteq> None" by (simp only: f snd_conv simp_thms)
  show ?thesis
    unfolding object_main_step_def prod.case if_not_P [OF run] Let_def f
    by (cases e) (simp_all only: object_event.case here snd_conv simp_thms if_False object_server_put [OF inv])
qed

lemma object_server_run: "object_server_inv fs sv \<Longrightarrow> object_server_inv fs (fold (object_main_step S string_max) evs sv)"
proof (induction evs arbitrary: sv)
  case (Cons ev evs)
  have "object_server_inv fs (object_main_step S string_max ev sv)"
    using object_server_step [OF Cons.prems, of S string_max "fst ev" "snd ev"] by (simp only: prod.collapse)
  then show ?case using Cons.IH by (simp only: fold_simps)
qed (simp only: fold_simps)

lemma object_server_start: "object_server_inv fs (object_main_start S string_max fs)"
  unfolding object_server_inv_def object_main_start_def object_server.select_convs
  by (intro conjI refl unary_inv_primed)

text \<open>
  C40. The object store stores nothing: whatever its clients ask for and whatever the file system does, no
  request is ever answered and no file is ever created, changed or deleted.
\<close>

theorem object_store_stores_nothing:
  "ob_files (object_main S string_max fs evs) = (fs, None)
   \<and> snd ` set (cq_issued (ob_write (object_main S string_max fs evs))) \<subseteq> {OpRequest}
   \<and> snd ` set (cq_issued (ob_read (object_main S string_max fs evs))) \<subseteq> {OpRequest}
   \<and> snd ` set (cq_issued (ob_delete (object_main S string_max fs evs))) \<subseteq> {OpRequest}
   \<and> snd ` set (cq_issued (ob_hash (object_main S string_max fs evs))) \<subseteq> {OpRequest}"
proof -
  have "object_server_inv fs (object_main S string_max fs evs)"
    unfolding object_main_def by (rule object_server_run) (rule object_server_start)
  then show ?thesis unfolding object_server_inv_def
    by (elim conjE) (intro conjI unary_inv_facts(2), assumption+)
qed

end
