(* ===== verification/Sql_Main.thy ===== *)
theory Sql_Main
  imports Query_Print
begin

text \<open>
  The program around the SQL front end (\<open>SqlCompileError\<close>, \<open>ThrowingErrorListener\<close>, \<open>parseAndPrintSQL\<close> and \<open>main\<close> of
  \<open>minion/planner/parse/parse_query.cc\<close>): the two output streams and the exception that ends the
  program if one does. The lexer and the parser, which ANTLR generates, are parameters.
\<close>

subsection \<open>Positions of errors\<close>

text \<open>What a token knows of its place; the indexes of its first and last character are \<open>size_t\<close>.\<close>

record token_pos =
  tk_line :: nat
  tk_column :: nat
  tk_start :: "64 word"
  tk_stop :: "64 word"

definition no_position :: "string \<Rightarrow> sql_error" where
  "no_position message = \<lparr>se_message = message, se_line = 0, se_column = 0, se_length = 0\<rparr>"

definition span :: "string \<Rightarrow> token_pos \<Rightarrow> token_pos \<Rightarrow> sql_error" where
  "span message start stop =
     \<lparr>se_message = message, se_line = tk_line start, se_column = tk_column start,
      se_length = unat (tk_stop stop - tk_start start + 1)\<rparr>"

text \<open>The constructors for a rule, which may lack its first or last token, and for a token.\<close>

definition error_at_rule :: "string \<Rightarrow> token_pos option \<times> token_pos option \<Rightarrow> sql_error" where
  "error_at_rule message = (\<lambda>ctx. case ctx of (Some start, Some stop) \<Rightarrow> span message start stop | _ \<Rightarrow> no_position message)"

definition error_at_token :: "string \<Rightarrow> token_pos option \<Rightarrow> sql_error" where
  "error_at_token message tok = (case tok of Some t \<Rightarrow> span message t t | None \<Rightarrow> no_position message)"

definition syntaxError :: "token_pos option \<Rightarrow> string \<Rightarrow> sql_error" where
  "syntaxError offendingSymbol msg = error_at_token (''Compile error: '' @ msg) offendingSymbol"

subsection \<open>The program\<close>

text \<open>
  How parsing ends: with an exception of ANTLR, such as that of the input stream for a text that is not UTF-8,
  with the first syntax error that the parser reports to its listener, or with the tree and its text.
\<close>

datatype parse_outcome =
    Parse_throws string
  | Syntax_error string "token_pos option"
  | Parsed query string

text \<open>
  \<open>pp_parse\<close> gives what the lexer's own listener writes to the error stream, which stays installed as only the
  parser's listeners are removed, and how parsing ends; \<open>pp_where\<close> the tokens of the part of the tree that a
  compile error names.
\<close>

record sql_parser =
  pp_parse :: "string \<Rightarrow> string \<times> parse_outcome"
  pp_where :: "query \<Rightarrow> string \<Rightarrow> token_pos option \<times> token_pos option"

text \<open>
  What is put into \<open>cout\<close> and \<open>cerr\<close>, and the exception that gets out of \<open>main\<close>; that \<open>cout\<close> may not be flushed then is
  not modelled.
\<close>

record front_end_output =
  fe_out :: string
  fe_err :: string
  fe_uncaught :: "exn option"

definition query_header :: "string \<Rightarrow> string" where
  "query_header sql = ''--- Parsing Query: '' @ sql @ '' ---'' @ newline"

definition parseAndPrintSQL ::
  "sql_parser \<Rightarrow> sql_runtime \<Rightarrow> graph_printer \<Rightarrow> string \<Rightarrow> front_end_output option" where
  "parseAndPrintSQL A rt P sql =
     (case pp_parse A sql of
        (lexer, Parse_throws what) \<Rightarrow>
          Some \<lparr>fe_out = query_header sql, fe_err = lexer, fe_uncaught = Some (RuntimeError what)\<rparr>
      | (lexer, Syntax_error msg tok) \<Rightarrow>
          Some \<lparr>fe_out = query_header sql, fe_err = lexer @ printSqlError sql (syntaxError tok msg), fe_uncaught = None\<rparr>
      | (lexer, Parsed q tree) \<Rightarrow>
          let out = query_header sql @ ''Raw AST: '' @ tree @ newline @ newline in
          map_option (\<lambda>r.
            case bind_result r (printQueryGraph P) of
              Inr plan \<Rightarrow> \<lparr>fe_out = out @ plan, fe_err = lexer, fe_uncaught = None\<rparr>
            | Inl (CompileError m) \<Rightarrow>
                \<lparr>fe_out = out, fe_err = lexer @ printSqlError sql (error_at_rule m (pp_where A q m)), fe_uncaught = None\<rparr>
            | Inl e \<Rightarrow> \<lparr>fe_out = out, fe_err = lexer, fe_uncaught = Some e\<rparr>)
          (compile_query rt q))"

text \<open>\<open>main\<close> looks at the first argument only.\<close>

definition sql_main :: "sql_parser \<Rightarrow> sql_runtime \<Rightarrow> graph_printer \<Rightarrow> string list \<Rightarrow> front_end_output option" where
  "sql_main A rt P args =
     (case args of sql # _ \<Rightarrow> parseAndPrintSQL A rt P sql | [] \<Rightarrow> Some \<lparr>fe_out = [], fe_err = [], fe_uncaught = None\<rparr>)"

lemma well_formed_prints: "graph_wf g \<Longrightarrow> \<exists>plan. printQueryGraph P g = Inr plan"
  by (rule printable) (auto simp: graph_wf_def operation_ok_def)

text \<open>
  C39. The front end always ends, for a runtime that visits in order, and it repeats the query first. If the text parses and
  compiles, it prints the text of the tree and then the plan: printing never reads outside the graph and adds no
  error of its own. A syntax error and a compile error are reported with their line on the error stream, behind what
  the lexer wrote there, which is all that is written there otherwise; and what gets out of the program is an
  exception of ANTLR or one of the compilation that is not a compile error.
\<close>

theorem front_end_outcomes:
  assumes "visits_in_order rt"
  shows "\<exists>r. parseAndPrintSQL A rt P sql = Some r
    \<and> (case pp_parse A sql of
         (lexer, Parse_throws what) \<Rightarrow>
           fe_out r = ''--- Parsing Query: '' @ sql @ '' ---'' @ [CHR 0x0A] \<and> fe_err r = lexer \<and> fe_uncaught r = Some (RuntimeError what)
       | (lexer, Syntax_error msg tok) \<Rightarrow>
           fe_out r = ''--- Parsing Query: '' @ sql @ '' ---'' @ [CHR 0x0A] \<and> fe_uncaught r = None
           \<and> fe_err r = lexer @ printSqlError sql (error_at_token (''Compile error: '' @ msg) tok)
       | (lexer, Parsed q tree) \<Rightarrow>
           \<exists>plan. fe_out r = ''--- Parsing Query: '' @ sql @ '' ---'' @ [CHR 0x0A] @ ''Raw AST: '' @ tree @ [CHR 0x0A, CHR 0x0A] @ plan
           \<and> (case compile_query rt q of
                Some (Inr g) \<Rightarrow> fe_uncaught r = None \<and> fe_err r = lexer \<and> printQueryGraph P g = Inr plan
              | Some (Inl (CompileError m)) \<Rightarrow>
                  fe_uncaught r = None \<and> fe_err r = lexer @ printSqlError sql (error_at_rule m (pp_where A q m)) \<and> plan = []
              | Some (Inl e) \<Rightarrow> fe_uncaught r = Some e \<and> fe_err r = lexer \<and> plan = []
              | None \<Rightarrow> False))"
proof -
  obtain lexer t where parse: "pp_parse A sql = (lexer, t)" by (rule prod.exhaust)
  note defs = parseAndPrintSQL_def query_header_def newline_def syntaxError_def Let_def
  show ?thesis
  proof (cases t)
    case (Parsed q tree)
    obtain c where c: "compile_query rt q = Some c" "\<And>g. c = Inr g \<Longrightarrow> graph_wf g"
      using compile_query_eq [OF assms, of q] by blast
    show ?thesis
    proof (cases c)
      case (Inl e)
      then show ?thesis using parse Parsed c(1) by (cases e) (simp_all add: defs)
    next
      case g: (Inr g)
      obtain plan where "printQueryGraph P g = Inr plan" using well_formed_prints [OF c(2) [OF g]] by blast
      then show ?thesis using parse Parsed c(1) g by (simp add: defs)
    qed
  qed (use parse in \<open>simp_all add: defs\<close>)
qed

definition example_printer :: graph_printer where
  "example_printer = \<lparr>gp_double = (\<lambda>w. ''0''), gp_operation = (\<lambda>op. ''OP''), gp_type = (\<lambda>t. ''T'')\<rparr>"

text \<open>A parser that skips a character it does not know, knows one query and refuses what is not UTF-8.\<close>

definition example_parser :: sql_parser where
  "example_parser = \<lparr>
     pp_parse = (\<lambda>s. if s = ''SELECT 5'' then ([], Parsed select_five ''(query)'')
       else if s = ''SELECT ?5'' then (''unknown'', Parsed select_five ''(query)'')
       else if s = [CHR 0xFF] then ([], Parse_throws ''utf-8'')
       else ([], Syntax_error ''bad'' None)),
     pp_where = (\<lambda>q m. (None, None))\<rparr>"

theorem front_end_outcomes_witness:
  "(\<exists>r. parseAndPrintSQL example_parser example_runtime example_printer ''SELECT 5'' = Some r \<and> fe_uncaught r = None \<and> fe_err r = [])
   \<and> (\<exists>r. parseAndPrintSQL example_parser example_runtime example_printer ''SELECT ?5'' = Some r \<and> fe_uncaught r = None \<and> fe_err r = ''unknown'')
   \<and> (\<exists>r. parseAndPrintSQL example_parser example_runtime example_printer ''SELEC'' = Some r \<and> fe_uncaught r = None)
   \<and> (\<exists>r. parseAndPrintSQL example_parser example_runtime example_printer [CHR 0xFF] = Some r \<and> fe_uncaught r = Some (RuntimeError ''utf-8''))"
proof -
  obtain g where g: "compile_query example_runtime select_five = Some (Inr g)"
    using select_five_compiles by (auto split: option.splits sum.splits)
  note outcome = front_end_outcomes [OF example_runtime_in_order, of example_parser example_printer]
  have p: "pp_parse example_parser ''SELECT 5'' = ([], Parsed select_five ''(query)'')"
    "pp_parse example_parser ''SELECT ?5'' = (''unknown'', Parsed select_five ''(query)'')"
    "pp_parse example_parser ''SELEC'' = ([], Syntax_error ''bad'' None)"
    "pp_parse example_parser [CHR 0xFF] = ([], Parse_throws ''utf-8'')"
    by (simp_all add: example_parser_def)
  show ?thesis
    using outcome [of "''SELECT 5''"] outcome [of "''SELECT ?5''"] outcome [of "''SELEC''"] outcome [of "[CHR 0xFF]"]
    unfolding p by (auto simp: g)
qed

end
