(* ===== verification/Sys_Setup.thy ===== *)
theory Sys_Setup
  imports Sys_Time
begin

unbundle bit_operations_syntax

text \<open>
  Small pieces of set-up: the checked call, the blocking mode and the timeout of a socket (\<open>common/utils/sys/call_check.h\<close>,
  \<open>socket.cc\<close>), and the protocol and the options of a TLS context (\<open>common/crypto/ssl.cc\<close>).
\<close>

subsection \<open>The blocking mode of a socket\<close>

definition sys_call :: "int \<Rightarrow> unit result" where
  "sys_call ret_val = (if ret_val = -1 then Inl SysError else Inr ())"

text \<open>The status flags of the open descriptors; whether \<open>F_SETFL\<close> succeeds is a choice of the system.\<close>

type_synonym fd_flags = "int \<rightharpoonup> 32 word"

definition O_NONBLOCK :: "32 word" where "O_NONBLOCK = push_bit 11 1"

definition fcntl_getfl :: "int \<Rightarrow> fd_flags \<Rightarrow> 32 word" where
  "fcntl_getfl fd fl = (case fl fd of None \<Rightarrow> -1 | Some f \<Rightarrow> f)"

definition fcntl_setfl :: "bool \<Rightarrow> int \<Rightarrow> 32 word \<Rightarrow> fd_flags \<Rightarrow> int \<times> fd_flags" where
  "fcntl_setfl ok fd flags fl = (if ok \<and> fl fd \<noteq> None then (0, fl(fd \<mapsto> flags)) else (-1, fl))"

definition set_socket_blocking :: "bool \<Rightarrow> int \<Rightarrow> bool \<Rightarrow> fd_flags \<Rightarrow> unit result \<times> fd_flags" where
  "set_socket_blocking ok fd blocking fl =
     (let old_flags = fcntl_getfl fd fl in
      case sys_call (sint old_flags) of
        Inl e \<Rightarrow> (Inl e, fl)
      | Inr _ \<Rightarrow>
          let flags = (if blocking then old_flags AND NOT O_NONBLOCK else old_flags OR O_NONBLOCK) in
          if flags \<noteq> old_flags then (case fcntl_setfl ok fd flags fl of (r, fl') \<Rightarrow> (sys_call r, fl')) else (Inr (), fl))"

lemma bit_O_NONBLOCK: "bit O_NONBLOCK i \<longleftrightarrow> i = 11"
  unfolding O_NONBLOCK_def by (simp only: bit_push_bit_iff bit_1_iff) auto

lemma new_flags_bit:
  "i < 32 \<Longrightarrow> bit (if blocking then f AND NOT O_NONBLOCK else f OR O_NONBLOCK) i \<longleftrightarrow> (if i = 11 then \<not> blocking else bit f i)"
  for f :: "32 word"
  by (auto simp: bit_simps bit_O_NONBLOCK)

text \<open>
  Setting the blocking mode changes one bit of one descriptor: when it succeeds the descriptor is open
  and has the mode that was asked for, all its other flags and all other descriptors are as they were;
  when it throws nothing has changed, and it cannot throw when the mode is already the one asked for.
\<close>

theorem blocking_mode_is_one_bit:
  assumes "set_socket_blocking ok fd blocking fl = (r, fl')"
  shows "case r of
      Inl e \<Rightarrow> e = SysError \<and> fl' = fl \<and> (\<forall>f. fl fd = Some f \<longrightarrow> f = -1 \<or> bit f 11 = blocking \<and> \<not> ok)
    | Inr _ \<Rightarrow> \<exists>f f'. fl fd = Some f \<and> fl' fd = Some f' \<and> (\<forall>d. d \<noteq> fd \<longrightarrow> fl' d = fl d)
        \<and> bit f' 11 = (\<not> blocking) \<and> (\<forall>i<32. i \<noteq> 11 \<longrightarrow> bit f' i = bit f i)"
proof (cases "fl fd")
  case None
  then show ?thesis using assms by (auto simp: set_socket_blocking_def fcntl_getfl_def sys_call_def)
next
  case (Some f)
  define f' where "f' = (if blocking then f AND NOT O_NONBLOCK else f OR O_NONBLOCK)"
  have bits: "i < 32 \<Longrightarrow> bit f' i \<longleftrightarrow> (if i = 11 then \<not> blocking else bit f i)" for i
    unfolding f'_def by (rule new_flags_bit)
  have same: "f' = f \<longleftrightarrow> bit f 11 = (\<not> blocking)"
  proof
    assume "bit f 11 = (\<not> blocking)"
    then show "f' = f" using bits by (intro bit_word_eqI) auto
  qed (use bits [of 11] in simp)
  have minus: "sint f = -1 \<longleftrightarrow> f = -1"
    by (metis signed_minus_1 signed_word_eqI)
  have run: "set_socket_blocking ok fd blocking fl =
      (if f = -1 then (Inl SysError, fl)
       else if f' = f then (Inr (), fl) else if ok then (Inr (), fl(fd \<mapsto> f')) else (Inl SysError, fl))"
    using Some minus by (auto simp: set_socket_blocking_def fcntl_getfl_def fcntl_setfl_def sys_call_def Let_def f'_def)
  have "bit f' 11 = (\<not> blocking)" "\<forall>i<32. i \<noteq> 11 \<longrightarrow> bit f' i = bit f i" using bits by auto
  then show ?thesis
    using assms Some same unfolding run by (auto split: if_splits)
qed

theorem blocking_mode_is_one_bit_witness:
  "case set_socket_blocking True 5 False [5 \<mapsto> 2, 6 \<mapsto> 1] of
     (Inr _, fl) \<Rightarrow> (\<exists>f. fl 5 = Some f \<and> bit f 11 \<and> bit f 1) \<and> fl 6 = Some 1
   | (Inl e, fl) \<Rightarrow> False"
proof -
  obtain r fl' where run: "set_socket_blocking True 5 False [5 \<mapsto> 2, 6 \<mapsto> 1] = (r, fl')" by (rule prod.exhaust)
  have "(2 :: 32 word) \<noteq> -1" "bit (2 :: 32 word) 1" by simp_all
  then show ?thesis
    using blocking_mode_is_one_bit [OF run] run by (cases r) auto
qed

subsection \<open>The timeout of a socket\<close>

text \<open>The receive timeouts of the open descriptors; microseconds out of range are refused.\<close>

type_synonym fd_timeouts = "int \<rightharpoonup> int \<times> int"

definition setsockopt_rcvtimeo :: "bool \<Rightarrow> int \<Rightarrow> int \<times> int \<Rightarrow> fd_timeouts \<Rightarrow> int \<times> fd_timeouts" where
  "setsockopt_rcvtimeo ok fd tv s =
     (if ok \<and> s fd \<noteq> None \<and> 0 \<le> snd tv \<and> snd tv < 10 ^ 6 then (0, s(fd \<mapsto> tv)) else (-1, s))"

definition set_socket_timeout :: "bool \<Rightarrow> int \<Rightarrow> ieee \<Rightarrow> fd_timeouts \<Rightarrow> unit result \<times> fd_timeouts" where
  "set_socket_timeout ok fd timeout_sec s =
     (case socket_timeval timeout_sec of
        None \<Rightarrow> (Inl UndefinedBehaviour, s)
      | Some tv \<Rightarrow> (case setsockopt_rcvtimeo ok fd tv s of (r, s') \<Rightarrow> (sys_call r, s')))"

text \<open>
  On an open descriptor a timeout that is not negative is set as it is, cut off to microseconds; a negative
  one is refused unless it is a whole number of seconds.
\<close>

theorem socket_timeout_is_set:
  assumes "s fd \<noteq> None" and "float_of_bits w = Finite neg m e" and "real m * 2 powi e < 2 ^ 31"
  shows "let v = real m * 2 powi e; us = \<lfloor>frac v * 10 ^ 6\<rfloor> in
    set_socket_timeout True fd (float_of_bits w) s =
      (if neg \<and> us \<noteq> 0 then (Inl SysError, s)
       else (Inr (), s(fd \<mapsto> (if neg then - \<lfloor>v\<rfloor> else \<lfloor>v\<rfloor>, us))))"
proof -
  define v where "v = real m * 2 powi e"
  define us where "us = \<lfloor>frac v * 10 ^ 6\<rfloor>"
  have "frac v * 10 ^ 6 < 10 ^ 6" "0 \<le> frac v" using frac_lt_1 [of v] by simp_all
  then have us: "0 \<le> us" "us < 10 ^ 6" unfolding us_def floor_less_iff by simp_all
  have tv: "socket_timeval (float_of_bits w) = Some (if neg then - \<lfloor>v\<rfloor> else \<lfloor>v\<rfloor>, if neg then - us else us)"
    using timeout_splits [OF assms(2,3)] unfolding v_def [symmetric] us_def [symmetric] Let_def by blast
  have "neg \<Longrightarrow> us \<noteq> 0 \<Longrightarrow> \<not> 0 \<le> - us" using us(1) by simp
  then show ?thesis
    using us assms(1) unfolding Let_def v_def [symmetric] us_def [symmetric] set_socket_timeout_def tv
    by (auto simp: setsockopt_rcvtimeo_def sys_call_def)
qed

theorem socket_timeout_is_set_witness:
  "set_socket_timeout True 5 (float_of_bits 0x40200000) [5 \<mapsto> (0, 0)] = (Inr (), [5 \<mapsto> (2, 500000)])"
proof -
  have w: "float_of_bits 0x40200000 = Finite False 10485760 (-22)"
    by (simp add: float_of_bits_def Let_def)
  have v: "real 10485760 * 2 powi (-22) = 5 / 2" by (simp add: power_int_def power_divide)
  have "\<lfloor>5 / 2 :: real\<rfloor> = 2" "\<lfloor>frac (5 / 2 :: real) * 10 ^ 6\<rfloor> = 500000" by (simp_all add: frac_def)
  then show ?thesis using socket_timeout_is_set [of "[5 \<mapsto> (0, 0)]" 5, OF _ w] unfolding v by (simp add: Let_def)
qed

subsection \<open>TLS contexts\<close>

definition h2_proto :: string where "h2_proto = ''h2''"

text \<open>The selected protocol and the result, 0 for \<open>SSL_TLSEXT_ERR_OK\<close>; the offer of the client is not looked at.\<close>

definition alpn_select_h2_cb :: "string list \<Rightarrow> string \<times> int" where
  "alpn_select_h2_cb offered = (h2_proto, 0)"

record ssl_context =
  sc_alpn_select :: "(string list \<Rightarrow> string \<times> int) option"
  sc_options :: "64 word"

definition SSL_OP_NO_SSLv3 :: "64 word" where "SSL_OP_NO_SSLv3 = push_bit 25 1"
definition SSL_OP_NO_TLSv1 :: "64 word" where "SSL_OP_NO_TLSv1 = push_bit 26 1"
definition SSL_OP_NO_TLSv1_1 :: "64 word" where "SSL_OP_NO_TLSv1_1 = push_bit 28 1"

definition prepare_ssl_for_grpc :: "ssl_context \<Rightarrow> ssl_context" where
  "prepare_ssl_for_grpc ctx =
     ctx\<lparr>sc_alpn_select := Some alpn_select_h2_cb,
         sc_options := sc_options ctx OR (SSL_OP_NO_SSLv3 OR SSL_OP_NO_TLSv1 OR SSL_OP_NO_TLSv1_1)\<rparr>"

text \<open>
  A prepared context speaks HTTP/2 to every client, also to one that does not offer it, and none of the
  three old protocols; preparing it again changes nothing.
\<close>

lemma prepared_context:
  "\<exists>f. sc_alpn_select (prepare_ssl_for_grpc ctx) = Some f \<and> f [''http/1.1''] = (''h2'', 0)"
  "i \<in> {25, 26, 28} \<Longrightarrow> bit (sc_options (prepare_ssl_for_grpc ctx)) i"
  "prepare_ssl_for_grpc (prepare_ssl_for_grpc ctx) = prepare_ssl_for_grpc ctx"
  by (auto simp: prepare_ssl_for_grpc_def alpn_select_h2_cb_def h2_proto_def bit_simps SSL_OP_NO_SSLv3_def
      SSL_OP_NO_TLSv1_def SSL_OP_NO_TLSv1_1_def or.assoc or.left_idem)

end
