(* ===== verification/Sys_Errors.thy ===== *)
theory Sys_Errors
  imports Decimal
begin

text \<open>
  The classes of exceptions and the checks of calls (\<open>common/utils/exception.h\<close>, \<open>.cc\<close>, \<open>sys/err.cc\<close>,
  \<open>call_check.h\<close> and \<open>.cc\<close> of \<open>utils/sys\<close>, \<open>net\<close> and \<open>crypto\<close>) with their texts. The other theories keep of
  an exception what decides the control flow, the constructor of \<open>exn\<close>; here is what it says. The text of
  an \<open>errno\<close> and the error queue of OpenSSL are parameters.
\<close>

subsection \<open>Exceptions\<close>

datatype sys_exception =
    Sys_error string
  | Connection_error string
  | Identity_error string
  | Integrity_error string
  | Ssl_error string "64 word"
  | Runtime_error string

fun what :: "sys_exception \<Rightarrow> string" where
  "what (Sys_error descr) = descr"
| "what (Connection_error descr) = descr"
| "what (Identity_error descr) = descr"
| "what (Integrity_error descr) = descr"
| "what (Ssl_error descr err) = descr"
| "what (Runtime_error descr) = descr"

text \<open>Nothing throws the other two.\<close>

fun exn_class :: "sys_exception \<Rightarrow> exn option" where
  "exn_class (Sys_error descr) = Some SysError"
| "exn_class (Connection_error descr) = Some (ConnectionError descr)"
| "exn_class (Ssl_error descr err) = Some SSLError"
| "exn_class (Runtime_error descr) = Some (RuntimeError descr)"
| "exn_class e = None"

subsection \<open>Failed calls\<close>

definition int_to_string :: "int \<Rightarrow> string" where
  "int_to_string z = (if z < 0 then ''-'' @ to_string (nat (- z)) else to_string (nat z))"

definition conn_err :: "string \<Rightarrow> string \<Rightarrow> int \<Rightarrow> string \<Rightarrow> sys_exception" where
  "conn_err descr cmd ret_val strerror =
     Connection_error (cmd @ '': '' @ descr @ '' returned '' @ int_to_string ret_val @ '', errno: '' @ strerror)"

definition sys_err :: "string \<Rightarrow> string \<Rightarrow> int \<Rightarrow> string \<Rightarrow> sys_exception" where
  "sys_err descr cmd ret_val strerror =
     Sys_error (cmd @ '': '' @ descr @ '' returned '' @ int_to_string ret_val @ '', errno: '' @ strerror)"

definition conn_call_check :: "string \<Rightarrow> string \<Rightarrow> string \<Rightarrow> int \<Rightarrow> sys_exception + unit" where
  "conn_call_check descr cmd strerror ret_val =
     (if ret_val < 0 then Inl (conn_err descr cmd ret_val strerror) else Inr ())"

definition sys_call_check :: "string \<Rightarrow> string \<Rightarrow> string \<Rightarrow> int \<Rightarrow> sys_exception + unit" where
  "sys_call_check descr cmd strerror ret_val =
     (if ret_val = -1 then Inl (sys_err descr cmd ret_val strerror) else Inr ())"

text \<open>\<open>show_sys_error\<close> writes a line of the log, \<open>throw_sys_error\<close> throws the standard class.\<close>

definition show_sys_error :: "string \<Rightarrow> string \<Rightarrow> string list \<Rightarrow> string list" where
  "show_sys_error call_descr message log = log @ [''Warning: Failed to '' @ call_descr @ '': '' @ message]"

definition throw_sys_error :: "string \<Rightarrow> string \<Rightarrow> sys_exception + 'a" where
  "throw_sys_error call_descr message = Inl (Runtime_error (''Failed to '' @ call_descr @ '': '' @ message))"

lemma minus_one_text: "int_to_string (-1) = ''-1''"
  by code_simp

text \<open>
  The two checks differ in the class only: what the system may return, nothing below \<open>-1\<close>, passes both or
  neither, and the texts are the same; a result below \<open>-1\<close> would pass the check for \<open>-1\<close>.
\<close>

theorem call_checks_agree:
  assumes "-1 \<le> r"
  shows "(conn_call_check d c t r = Inr () \<longleftrightarrow> sys_call_check d c t r = Inr ())
    \<and> (\<forall>e e'. conn_call_check d c t r = Inl e \<and> sys_call_check d c t r = Inl e' \<longrightarrow>
          what e = what e' \<and> what e = c @ '': '' @ d @ '' returned -1, errno: '' @ t
          \<and> exn_class e = Some (ConnectionError (what e)) \<and> exn_class e' = Some SysError)"
  using assms by (auto simp: conn_call_check_def sys_call_check_def conn_err_def sys_err_def minus_one_text)

theorem call_checks_agree_witness:
  "conn_call_check ''binding'' ''bind(fd)'' ''busy'' (-1) = Inl (Connection_error ''bind(fd): binding returned -1, errno: busy'')"
  using call_checks_agree [of "-1" "''binding''" "''bind(fd)''" "''busy''"]
  by (simp add: conn_call_check_def sys_call_check_def conn_err_def sys_err_def minus_one_text)

subsection \<open>Errors of OpenSSL\<close>

text \<open>
  The constructor with a description only takes one code off the error queue of the thread; \<open>describe\<close>
  has a buffer of 256 bytes for the text of the code.
\<close>

definition ssl_error_new :: "('q \<Rightarrow> 64 word \<times> 'q) \<Rightarrow> string \<Rightarrow> 'q \<Rightarrow> sys_exception \<times> 'q" where
  "ssl_error_new get_error descr q = (case get_error q of (err, q') \<Rightarrow> (Ssl_error descr err, q'))"

definition ssl_call_check :: "('q \<Rightarrow> 64 word \<times> 'q) \<Rightarrow> string \<Rightarrow> bool \<Rightarrow> 'q \<Rightarrow> (sys_exception + unit) \<times> 'q" where
  "ssl_call_check get_error descr ret_val q =
     (if \<not> ret_val then (case ssl_error_new get_error descr q of (e, q') \<Rightarrow> (Inl e, q')) else (Inr (), q))"

fun describe :: "(64 word \<Rightarrow> nat \<Rightarrow> string) \<Rightarrow> sys_exception \<Rightarrow> string" where
  "describe error_string_n (Ssl_error descr err) = descr @ '': '' @ error_string_n err 256"
| "describe error_string_n e = what e"

text \<open>
  What OpenSSL documents of its queue: the code that was put in first is taken out first, and an empty queue
  gives 0.
\<close>

definition error_queue :: "('q \<Rightarrow> 64 word \<times> 'q) \<Rightarrow> (64 word \<Rightarrow> 'q \<Rightarrow> 'q) \<Rightarrow> 'q \<Rightarrow> bool" where
  "error_queue get_error put_error no_errors =
     (get_error no_errors = (0, no_errors)
      \<and> (\<forall>c. get_error (put_error c no_errors) = (c, no_errors))
      \<and> (\<forall>b c d q q'. get_error (put_error b q) = (c, q') \<longrightarrow> get_error (put_error d (put_error b q)) = (c, put_error d q')))"

lemma get_oldest:
  assumes "error_queue get_error put_error no_errors"
  shows "get_error (fold put_error (c # cs) no_errors) = (c, fold put_error cs no_errors)"
proof (induction cs rule: rev_induct)
  case Nil
  then show ?case using assms by (simp add: error_queue_def)
next
  case (snoc d cs)
  have "\<exists>b q. fold put_error (c # cs) no_errors = put_error b q"
    by (cases cs rule: rev_cases) auto
  then show ?case using snoc.IH assms by (auto simp: error_queue_def)
qed

text \<open>Calls that fail one after the other, each with the codes that it put into the queue.\<close>

fun failing_calls :: "('q \<Rightarrow> 64 word \<times> 'q) \<Rightarrow> (64 word \<Rightarrow> 'q \<Rightarrow> 'q) \<Rightarrow> string \<Rightarrow> 64 word list list \<Rightarrow> 'q \<Rightarrow> (sys_exception + unit) list" where
  "failing_calls get_error put_error descr [] q = []"
| "failing_calls get_error put_error descr (codes # calls) q =
     (case ssl_call_check get_error descr False (fold put_error codes q) of
        (r, q') \<Rightarrow> r # failing_calls get_error put_error descr calls q')"

lemma failing_calls_from:
  assumes "error_queue get_error put_error no_errors" and "\<forall>codes \<in> set calls. codes \<noteq> []"
  shows "failing_calls get_error put_error descr calls (fold put_error cs no_errors)
    = map (Inl \<circ> Ssl_error descr) (take (length calls) (cs @ concat calls))"
  using assms(2)
proof (induction calls arbitrary: cs)
  case (Cons codes calls)
  obtain c rest where all: "cs @ codes = c # rest" using Cons.prems by (cases cs; cases codes) auto
  have "fold put_error codes (fold put_error cs no_errors) = fold put_error (c # rest) no_errors"
    by (metis all comp_apply fold_append)
  then have "failing_calls get_error put_error descr (codes # calls) (fold put_error cs no_errors)
      = Inl (Ssl_error descr c) # failing_calls get_error put_error descr calls (fold put_error rest no_errors)"
    using get_oldest [OF assms(1), of c rest] by (simp add: ssl_call_check_def ssl_error_new_def)
  also have "\<dots> = map (Inl \<circ> Ssl_error descr) (c # take (length calls) (rest @ concat calls))"
    using Cons.IH [of rest] Cons.prems by simp
  also have "c # take (length calls) (rest @ concat calls) = take (length (codes # calls)) (cs @ concat (codes # calls))"
    using all by (metis append.assoc append_Cons concat.simps(2) length_Cons take_Suc_Cons)
  finally show ?case .
qed simp

text \<open>
  An exception carries the oldest code that nobody has taken, not that of the call that failed: of failing
  calls that put at least one code each, the \<open>i\<close>-th reports the \<open>i\<close>-th code of all, so one call that puts
  two codes makes every later exception speak of an earlier failure.
\<close>

theorem ssl_errors_lag_behind:
  assumes "error_queue get_error put_error no_errors" and "\<forall>codes \<in> set calls. codes \<noteq> []"
  shows "failing_calls get_error put_error descr calls no_errors
    = map (Inl \<circ> Ssl_error descr) (take (length calls) (concat calls))"
  using failing_calls_from [OF assms, of descr "[]"] by simp

definition list_get :: "64 word list \<Rightarrow> 64 word \<times> 64 word list" where
  "list_get q = (case q of [] \<Rightarrow> (0, []) | c # cs \<Rightarrow> (c, cs))"

theorem ssl_errors_lag_behind_witness:
  "failing_calls list_get (\<lambda>c q. q @ [c]) ''handshake'' [[1, 2], [3]] [] = [Inl (Ssl_error ''handshake'' 1), Inl (Ssl_error ''handshake'' 2)]"
proof -
  have "list_get ((q @ [b]) @ [d]) = (c, q' @ [d])" if "list_get (q @ [b]) = (c, q')" for q b c d q'
    using that by (cases q) (auto simp: list_get_def)
  then have "error_queue list_get (\<lambda>c q. q @ [c]) []" by (simp add: error_queue_def list_get_def)
  from ssl_errors_lag_behind [OF this, of "[[1, 2], [3]]" "''handshake''"] show ?thesis by simp
qed

end
