(* ===== verification/Spec2Isabelle.thy ===== *)
theory Spec2Isabelle
  imports Prelude Grpc_Callback Resource_Guard Crypto Messages Auth_Store Stream_Router Message_Stream
    Query_Graph Query_Algorithms Query_Rules Sql_Text Sql_Visitor Sql_Compile Sql_Support Sql_Meaning
    Obj_Store Idx_Sort_Static Idx_Sort_Dynamic Idx_Hash
    Os_Calls Tcpv4 Poll_Engine Ssl_Endpoint Event_Engine Decimal Peer_Addr Message_Service Node_Resolver
    Block_Storage Task_Runner Ref_Count Cache
    Query_Print Key_Files Resolver_Factory Stats Servers Sql_Main Sys_Setup
    Ieee_Float Sys_Time Sys_Errors
begin

text \<open>
  A verification library for \<open>dist-storage\<close>, a distributed store of C++ servers over gRPC, Protocol Buffers and
  OpenSSL. The theories model the code under \<open>common/\<close> and \<open>minion/\<close> function by function and prove what it
  does: mostly that it is right, and where it is not, exactly how it goes wrong. File names below are relative
  to the root of the repository; a definition has the name of the function it models wherever HOL allows it.

  \<^bold>\<open>The program.\<close> Three servers and one tool. The \<^emph>\<open>message node\<close> (\<open>minion/message\<close>) relays signed messages between
  peers over streams, answers \<open>TellMyAddr\<close>, and on a signed \<open>Send\<close> punches a hole for an incoming connection. The
  \<^emph>\<open>object store\<close> (\<open>minion/obj_store\<close>) reads, writes, hashes and deletes files. The \<^emph>\<open>resource guard\<close>
  (\<open>minion/resource_guard\<close>) bills sessions. The \<^emph>\<open>planner\<close> (\<open>minion/planner\<close>) compiles SQL to a graph of
  operations and prints it. Below them lie the completion-queue handlers (\<open>common/grpc\<close>), the trust store
  (\<open>common/peer\<close>), the OpenSSL wrappers (\<open>common/crypto\<close>), the sockets (\<open>common/net\<close>), indexes and mapped arrays
  (\<open>common/storage\<close>) and templates (\<open>common/utils\<close>). Handlers, streams and connections meet through the
  completion queue, the router and the event engine; all of them share one trust store per process.

  \<^bold>\<open>How code is modelled.\<close> A class is a record, an enum a datatype, machine integers are words (or numbers with
  their range written out), \<open>std::string\<close> is the list of its bytes. A method is a function from the state to a
  result and the new state. Exceptions, including undefined behaviour, are the constructors of \<open>exn\<close>, and a
  function that may throw returns a \<open>result\<close>. Objects that refer to each other are numbers in a heap. Threads and
  asynchronous completions are steps, and a theorem about a component speaks of every sequence of steps. What the
  system or a library decides is an argument: the outcome of a call, the operation that completes next, the bytes
  of a read. The constructors of \<open>exn\<close> keep the texts of errors where the code makes them.

  \<^bold>\<open>The theories.\<close>

  \<^item> \<open>Prelude\<close>: results and errors, lists, maps, the lemma collections. \<open>Decimal\<close>: numbers as text.

  \<^item> \<open>Grpc_Callback\<close> (\<open>common/grpc/callback.h\<close>, \<open>loop.cc\<close>): the world of handlers and outstanding operations, the
    unary handler (\<open>basic_process\<close>) and the stream handler (\<open>stream_process\<close>), the loops. The locale
    \<open>cq_contract\<close> is the contract that a comment above \<open>process\<close> states: an outstanding tag is alive, a live
    handler waits for something. It is interpreted for the resource guard (\<open>limit\<close>) and for the streams of the
    message node (\<open>quiet_streams\<close>). \<open>unary_requests_starve\<close> shows that the unary handler breaks it.

  \<^item> \<open>Resource_Guard\<close> (\<open>minion/resource_guard\<close>): the session handler with its billing map; the wire protocol of a
    session, its contract with the queue, and the bill of every session over every schedule, against a
    definition of its own (\<open>bill_spec\<close>).

  \<^item> \<open>Crypto\<close>, \<open>Key_Files\<close> (\<open>common/crypto/sgn.cc\<close>, \<open>auth.cc\<close>, \<open>call_check.h\<close>): hasher, signer, verifier, peer ids,
    certificates as text and in files, key generation. \<open>Sys_Setup\<close> (\<open>common/crypto/ssl.cc\<close>,
    \<open>common/utils/sys/socket.cc\<close>): TLS contexts, the blocking mode and the timeout of sockets.

  \<^item> \<open>Ieee_Float\<close>, \<open>Sys_Time\<close> (\<open>common/utils/sys/time.cc\<close>, the conversions of \<open>socket.cc\<close> and \<open>common/net/tcpv4.cc\<close>): the
    binary formats of IEEE 754 with operations rounded to nearest, and what becomes of a number of seconds in
    them. \<open>Sys_Errors\<close> (\<open>common/utils/exception.h\<close>, \<open>sys/err.cc\<close>, the three \<open>call_check\<close>): the classes of exceptions
    with their texts, and the error queue of OpenSSL.

  \<^item> \<open>Messages\<close>, \<open>Auth_Store\<close> (\<open>common/proto\<close>, \<open>common/peer\<close>): the messages, the trust store and its histories,
    signing and authentication. A reachable store holds exactly the peers that its history certifies
    (\<open>first_certified\<close>), and a message passes only under the key of its sender.

  \<^item> \<open>Stream_Router\<close>, \<open>Message_Stream\<close> (\<open>minion/message/stream_router.cc\<close>, \<open>recipient_dispatch.cc\<close>,
    \<open>message_stream.cc\<close>): the registry of sessions behind the locale \<open>message_channel\<close>, which the handler's own
    methods interpret, and the stream sessions with every completion. A message is delivered under the conditions
    that \<open>authentic_message_is_delivered\<close> lists; \<open>forwarding_pops_empty_queue\<close> shows what a confused \<open>pending_\<close> does.

  \<^item> \<open>Peer_Addr\<close>, \<open>Message_Service\<close> (\<open>common/grpc/addr.cc\<close>, \<open>minion/message/tell_my_addr.cc\<close>, \<open>message_send.cc\<close>): the
    unary handlers of the node.

  \<^item> \<open>Os_Calls\<close>, \<open>Tcpv4\<close> (\<open>common/utils/unique_fd.h\<close>, \<open>common/net\<close>): descriptors as a set of open numbers with the
    lowest free one given next, the socket calls, the reservation of a random port, and the hole punch.
    \<open>Poll_Engine\<close>, \<open>Ssl_Endpoint\<close>, \<open>Event_Engine\<close> (\<open>common/utils/poll_engine.cc\<close>, \<open>common/grpc/ssl_endpoint.cc\<close>,
    \<open>engine.cc\<close>, \<open>common/utils/guard_ptr.h\<close>): watchers with one-shot semantics and the callbacks of a poll, of which
    one that throws loses the later ones; reading and writing through TLS, where a write in part aborts
    (\<open>partial_write_aborts\<close>); connections with their cancellation, the listener, and the default engine to which
    all other calls go.

  \<^item> \<open>Node_Resolver\<close>, \<open>Resolver_Factory\<close> (\<open>common/grpc/resolver.cc\<close>, \<open>resolver_factory.cc\<close>, \<open>ref_counted_arg.h\<close>): the
    life of a resolver, going on after exceptions, with every descriptor accounted for; and the counted stub in the
    channel arguments that it is made from.

  \<^item> \<open>Servers\<close> (\<open>minion/message/message.cc\<close>, \<open>minion/obj_store/obj_store.cc\<close>): the two \<open>main\<close> functions, where handlers,
    store, router and sockets meet, over every order of completions.

  \<^item> \<open>Query_Graph\<close>, \<open>Query_Algorithms\<close>, \<open>Query_Rules\<close>, \<open>Query_Print\<close> (\<open>minion/planner/query/graph.h\<close>, \<open>rules.h\<close>): the
    graph and its functions; well-formedness, traversal, transposition, tags and hashes; the rewrite rules behind
    the locale \<open>rewrite_rule\<close> and that they keep the meaning of every node; the printed plan.

  \<^item> \<open>Sql_Text\<close>, \<open>Sql_Visitor\<close>, \<open>Sql_Compile\<close>, \<open>Sql_Support\<close>, \<open>Sql_Meaning\<close>, \<open>Sql_Main\<close>
    (\<open>minion/planner/parse/parse_query.cc\<close>): the text functions, the visitor over the parse trees of the grammar,
    that it keeps the graph well-formed and always returns, what it cannot compile, that the compiled expression
    has the three-valued value of the parse tree, and the program around it with its two output streams, what the
    lexer writes itself and the exceptions of ANTLR included.

  \<^item> \<open>Obj_Store\<close> (\<open>minion/obj_store/obj_store.cc\<close>): the four requests over the files, down to partial reads and writes. A
    hash uses the member \<open>md\<close> of the hasher, which the code leaves uninitialised: \<open>stack_md\<close> is what it happens to
    hold, and \<open>hash_is_of_the_range\<close> speaks of each case.

  \<^item> \<open>Idx_Sort_Static\<close>, \<open>Idx_Sort_Dynamic\<close>, \<open>Idx_Hash\<close>, \<open>Block_Storage\<close> (\<open>common/storage\<close>): the layout of a sorted array
    as a tree of steps and the range search in it, the rotations of the dynamic index as a refinement of
    rotations of trees, the hash functions at their width, and arrays in mapped files.

  \<^item> \<open>Task_Runner\<close>, \<open>Ref_Count\<close>, \<open>Cache\<close>, \<open>Stats\<close> (\<open>common/utils\<close>): templates that nothing instantiates yet: a queue
    of tasks with its workers, which get a reference to a task that is already destroyed (\<open>no_task_ever_runs\<close>);
    counted references and the containers that own an object; a cache with the holders of its entries, whose count
    is right as long as no holder is copied; fading averages. The two comparators of the task queue interpret the
    locale \<open>task_order\<close>.

  \<^bold>\<open>What the properties show.\<close> The properties carry the numbers C1 to C40. In groups: trust (only messages of
  certified peers are accepted, move or open sockets); delivery (an authentic message reaches its recipient and
  nobody else); protocols (what a session puts on the wire, when a stream
  ends, which order of completions is safe, who runs which watcher); refinement and equivalence (the compiled
  expression against the value of the parse tree, the rewritten graph against the original, the rotation against
  the abstract tree, the hash of an object against the hash of the range); round trips (write and read, address and text, edges and adjacency lists, counted arguments); termination of every loop that
  has a bound, and of the front end as a whole; bounds (ports, timeouts, copies into mapped memory); and what goes
  wrong. The root theory composes the compiler with the rewrite
  rules (\<open>optimised_expression_keeps_its_value\<close>) and the resolver with the event engine
  (\<open>resolved_address_never_connects\<close>). The strongest negative results are compositions too: \<open>message_node_serves_nobody\<close> and
  \<open>object_store_stores_nothing\<close> show that the servers as they are built never answer a unary call,
  \<open>factory_resolver_never_reports\<close> that no channel of the node scheme ever gets an address, and
  \<open>hole_punch_never_succeeds\<close> that no punched connection is ever returned. Theorems without a number are further
  facts of the same kind.

  \<^bold>\<open>Bounds and fuel.\<close> Loops are structural or have a measure, with these exceptions. The traversals \<open>fillVisited\<close> and
  \<open>fillDFIds\<close> recurse over a graph that may have cycles: they take fuel and return \<open>None\<close> when it runs out, the
  callers give at least the number of nodes, and \<open>fillVisited_marks_reachable\<close> and \<open>compile_query_returns\<close> show
  that this is always enough, since a node is entered once. The hole-punch loop counts an unsigned 32-bit number of
  tries down, which bounds it. The reservation of a port makes at most the number of tries it is given. Schedules are
  lists of steps, so a theorem about a schedule holds for all finite runs.

  \<^bold>\<open>What is assumed.\<close> Nothing is postulated; what is not under the root of the repository is a parameter.
  \<open>openssl\<close>, \<open>keygen_api\<close> and \<open>cert_api\<close> are the functions of OpenSSL, \<open>protobuf\<close> the two functions that write and
  read a message, \<open>sql_runtime\<close> the default visit of ANTLR and \<open>std::stod\<close>, \<open>sql_parser\<close> the generated parser, \<open>net_env\<close>,
  \<open>block_env\<close>, \<open>file_choices\<close> and \<open>ssl_io\<close> what the system answers (and, as \<open>ne_cast\<close>, what the target gives for a
  conversion from \<open>float\<close> that C++ leaves undefined), \<open>default_engine\<close> the event engine of gRPC, \<open>pton6\<close> the parser of
  IPv6 addresses, \<open>graph_printer\<close> the texts of doubles and enums, two functions the error queue of OpenSSL.
  A theorem that needs a documented law of such a function names it as a hypothesis (a digest has the length of its algorithm, no buffer is overrun, children are visited in order) and has a
  witness that meets it. The model itself takes these for granted: making a \<open>std::thread\<close> does not throw
  (\<open>ee_connect\<close>); a verifier of OpenSSL can be used again after each verification, as the code does with its
  one context (\<open>verifier_verify\<close>); a seek to an offset that is not negative succeeds (\<open>Obj_Store\<close>); memory does
  not run out.

  \<^bold>\<open>Not modelled.\<close> Generated code (protobuf, gRPC, ANTLR) and build files, as they are not in the repository or have
  no behaviour of their own. Locks: a step is the code between taking a lock and releasing it, except that \<open>AuthStore::push\<close>, which takes
  its lock twice, is one step (the race is a finding). In \<open>message_main_start\<close> only the making of the TLS context
  fails, not that of the poll engine or what prepares the context. The \<open>main\<close> of the resource
  guard, which only builds the server for the loop of \<open>Resource_Guard\<close>. Texts of log messages, and the file names
  and line numbers in the texts of exceptions; outside \<open>Sys_Errors\<close> an exception is the constructor that decides
  where it is caught. The passing of time: a clock or a sleep is what it is asked and what it answers. In
  \<open>common/utils/ref_count_obj.h\<close> the class \<open>ReferenceContainer\<close>, which inherits two types and adds nothing. Floating
  point is that of \<open>Ieee_Float\<close>, but \<open>Stats\<close> is over the real numbers, the times of the cache and of the task queue are
  an abstract order, and the constants of queries are kept as the parser reads them. Parts that do not
  compile as they stand are modelled by what they say, and the text of the theory names the place.
\<close>

subsection \<open>The resolver and the event engine together\<close>

lemma default_punch_throws:
  "tcpv4_hole_punch E fd default_punch os = (Inl (ConnectionError ''hole punch parameters require IPv4 src''), unique_fd_reset E fd os)"
  by (cases os) (simp add: tcpv4_hole_punch_def with_fds_def get_hole_punch_ipv4_src_def default_punch_def lift_result_def
      bind_net_def unique_fd_reset_def sys_close_def counted_def fd_open_def Let_def)

text \<open>
  C25. An address that the resolver reports is never connected to: put into the arguments of the address, the
  reserved socket and the parameters reach the engine, whose thread closes the socket, makes no other call, waits
  for nothing and reports a failure, since the resolver packs parameters that nobody filled in; and what
  gRPC tries with that address afterwards fails at once.
\<close>

theorem resolved_address_never_connects:
  assumes "nr_reservation n = Some res" and "unique_fd_valid (rs_fd res)"
    and "FinishResolution n = (Inr (), n')" and "last (nr_reports n') = Report_address fd params"
    and "map_of args ChannelArgName = Some \<lparr>ha_reserved_fd = fd, ha_params = params\<rparr>"
    and "engine_Connect D addr args (e, d) = (h, args', e', d')"
  shows "let e'' = ee_thread E handshake_ok h e' in
      h = ee_next e \<and> ee_reports e'' = ee_reports e @ [(h, Unavailable ''Hole punch failed: '')]
      \<and> ee_os e'' = unique_fd_reset E (rs_fd res) (ee_os e)
      \<and> fst (engine_Connect D addr args' (e'', d')) = kInvalid"
proof -
  have p: "fd = rs_fd res" "params = default_punch" using assms(1,3,4) by (auto simp: FinishResolution_def)
  have key: "map_of (AList.update k x xs) k = Some x" for k :: string and x :: hole_punch_arg and xs
    by (simp add: update_conv')
  have e': "h = ee_next e" "ee_threads e' h = Some (Th_start fd params)" "\<not> ee_flags e' h" "ee_reports e' = ee_reports e" "ee_os e' = ee_os e"
    and args': "map_of args' ''grpc.custom.hole_punch_params'' = Some \<lparr>ha_reserved_fd = -1, ha_params = params\<rparr>"
    using assms(2,5,6) p
    by (auto simp: engine_Connect_def ChannelArgName_def key ee_connect_def Let_def)
  have thread: "ee_thread E handshake_ok h e' = ee_report h (Unavailable ''Hole punch failed: '') (unique_fd_reset E fd (ee_os e)) e'"
    using e' by (simp add: ee_thread_def p default_punch_throws)
  have "fst (engine_Connect D addr args' (x, d')) = kInvalid" for x
    by (simp add: engine_Connect_def args' ee_connect_def unique_fd_valid_def)
  then show ?thesis
    unfolding Let_def thread p(1) by (intro conjI) (simp_all add: ee_report_def e'(4), rule e'(1))
qed

theorem resolved_address_never_connects_witness:
  "let n = (node_resolver_new ''k'' (os_with [3]))\<lparr>nr_reservation := Some \<lparr>rs_fd = 3, rs_port = 12345\<rparr>\<rparr>;
       args = [(ChannelArgName, \<lparr>ha_reserved_fd = 3, ha_params = default_punch\<rparr>)];
       (h, args', e', d') = engine_Connect counting_engine ''node:abc'' args (event_engine_new (os_with [3]), 0)
   in ee_reports (ee_thread calm_env True h e') = [(1, Unavailable ''Hole punch failed: '')]"
proof -
  let ?n = "(node_resolver_new ''k'' (os_with [3]))\<lparr>nr_reservation := Some \<lparr>rs_fd = 3, rs_port = 12345\<rparr>\<rparr>"
  let ?a = "\<lparr>ha_reserved_fd = 3, ha_params = default_punch\<rparr>"
  have arg: "map_of [(ChannelArgName, ?a)] ChannelArgName = Some ?a" by simp
  obtain n' where n': "FinishResolution ?n = (Inr (), n')" "last (nr_reports n') = Report_address 3 default_punch"
    by (simp add: FinishResolution_def)
  obtain h args' e' d' where r: "engine_Connect counting_engine ''node:abc'' [(ChannelArgName, ?a)]
      (event_engine_new (os_with [3]), 0) = (h, args', e', d')" by (metis surj_pair)
  have fd: "unique_fd_valid (rs_fd \<lparr>rs_fd = 3, rs_port = 12345\<rparr>)" by (simp add: unique_fd_valid_def)
  have res: "nr_reservation ?n = Some \<lparr>rs_fd = 3, rs_port = 12345\<rparr>" by simp
  note never = resolved_address_never_connects [OF res fd n' arg r, of calm_env True, unfolded Let_def]
  have "h = ee_next (event_engine_new (os_with [3]))" using never by (rule conjunct1)
  moreover have "ee_reports (ee_thread calm_env True h e') = ee_reports (event_engine_new (os_with [3])) @ [(h, Unavailable ''Hole punch failed: '')]"
    using never by (elim conjE) assumption
  ultimately have "ee_reports (ee_thread calm_env True h e') = [(1, Unavailable ''Hole punch failed: '')]"
    by (simp add: event_engine_new_def)
  then show ?thesis by (simp add: r)
qed

subsection \<open>Compilation and rewriting together\<close>

text \<open>
  C6. An optimised condition means what was written: the node that the rewrite rules make of a compiled
  expression, in any order and number, has the truth value of the parse tree in three-valued logic, and
  every node that had a value in the compiled graph keeps it.
\<close>

theorem optimised_expression_keeps_its_value:
  assumes "visits_in_order rt" and "graph_wf (out_graph s)" and "in_scope M s"
    and "expr_value M rt e = Some v" and "reads_constants M (out_graph s')"
    and "visit_expr rt e s = (Inr (Some n), s')"
    and "set rs \<subseteq> logic_rules" and "rw_sequence rs n (rw_of (out_graph s')) = (Inr n', t)"
  shows "(\<exists>k v'. eval k (operators M) t n' = Some v' \<and> tri_of v' = tri_of v)
    \<and> {(m, x). \<exists>j. eval j I (rw_of (out_graph s')) m = Some x} \<subseteq> {(m, x). \<exists>j. eval j I t m = Some x}"
proof -
  have "reads_constants M (out_graph (snd (visit_expr rt e s)))" using assms(5,6) by simp
  from compiled_expression [OF assms(1-4) this] obtain k
    where ok: "rw_ok (rw_of (out_graph s'))" and val: "eval k (operators M) (rw_of (out_graph s')) n = Some v"
    using assms(6) by (auto simp: appended_def simp del: eval.simps)
  have "rewrite_rule (operators M) (rw_sequence rs)"
    by (rule rewrite_rule_sequence) (use assms(7) logic_rules_sound in blast)
  from rewrite_rule.sound [OF this ok val assms(8)] show ?thesis using eval_extends by blast
qed

definition example_condition :: sql_expr where
  "example_condition = NotExpr ''NOT'' (AndExpr (LiteralExpr TrueLit) [LiteralExpr FalseLit])"

lemma example_optimises:
  "case visit_expr example_runtime example_condition sql_visitor_new of
     (Inr (Some n), s) \<Rightarrow> int64_constants (out_graph s) = [] \<and> float64_constants (out_graph s) = [] \<and> string_constants (out_graph s) = []
       \<and> (case rw_sequence [reduce_not_nop_apply] n (rw_of (out_graph s)) of (Inr n', t) \<Rightarrow> n' \<noteq> n | _ \<Rightarrow> False)
   | _ \<Rightarrow> False"
  by code_simp

theorem optimised_expression_keeps_its_value_witness:
  "case visit_expr example_runtime example_condition sql_visitor_new of
     (Inr (Some n), s) \<Rightarrow> (case rw_sequence [reduce_not_nop_apply] n (rw_of (out_graph s)) of
         (Inr n', t) \<Rightarrow> n' \<noteq> n \<and> (\<exists>k v. eval k (operators example_meaning) t n' = Some v \<and> tri_of v = Some True) | _ \<Rightarrow> False)
   | _ \<Rightarrow> False"
proof -
  obtain r s where visit: "visit_expr example_runtime example_condition sql_visitor_new = (r, s)" by (rule prod.exhaust)
  then obtain n where r: "r = Inr (Some n)" using example_optimises by (auto split: sum.splits option.splits)
  obtain q t where q: "rw_sequence [reduce_not_nop_apply] n (rw_of (out_graph s)) = (q, t)" by (rule prod.exhaust)
  then obtain n' where n': "q = Inr n'" "n' \<noteq> n"
    using example_optimises visit r by (auto simp del: rw_sequence.simps split: sum.splits)
  note run = visit [unfolded r] and rw = q [unfolded n'(1)] n'(2)
  have "opMap (normalizeOp ''NOT'') = Some OP_NOT" by (simp add: opMap_def normalizeOp_def toupper_def code_of_def)
  then have written: "expr_value example_meaning example_runtime example_condition = Some (Truth True)"
    by (simp add: example_condition_def literal_value_def operator_value_def logic_value_def apply_op_def sem_def Let_def not3_def and3_def)
  have "reads_constants example_meaning (out_graph s)"
    using example_optimises visit r by (simp add: reads_constants_def example_meaning_def del: rw_sequence.simps)
  then have "\<exists>k v'. eval k (operators example_meaning) t n' = Some v' \<and> tri_of v' = tri_of (Truth True)"
    using optimised_expression_keeps_its_value [OF example_runtime_in_order example_graph_wf example_in_scope written _ run _ rw(1), of toy_interp]
    by (simp add: logic_rules_def del: rw_sequence.simps)
  then show ?thesis using run rw by (simp del: rw_sequence.simps)
qed

end
